(* ===== verification/Prelude.thy ===== *)
theory Prelude
  imports Main "HOL-Library.Multiset" "HOL-Library.Product_Lexorder"
begin

text \<open>
  Shared vocabulary of the development: Rust's \<open>Result\<close> with panics made explicit,
  checked machine integers, \<open>BTreeMap\<close> as a strictly sorted association list behind an
  interface locale, comparators and the stable \<open>sort_by\<close>, and the binary search
  \<open>partition_point\<close>. Nothing here is specific to one component.
\<close>

named_theorems result_simps \<open>how a result of the monad can be \<open>Ok\<close>, \<open>Err\<close> or \<open>Panic\<close>\<close>
named_theorems map_simps \<open>lookup and domain of the ordered map operations\<close>

section \<open>Results\<close>

text \<open>
  A Rust function that returns \<open>Result<T, E>\<close> may also stop the thread (\<open>expect\<close>,
  \<open>unwrap\<close>, a panicking operator). \<open>Panic\<close> is that third outcome.
\<close>

datatype ('a, 'e) result = Ok (ok: 'a) | Err (err: 'e) | Panic

fun and_then :: "('a, 'e) result \<Rightarrow> ('a \<Rightarrow> ('b, 'e) result) \<Rightarrow> ('b, 'e) result" where
  "and_then (Ok x) f = f x"
| "and_then (Err e) f = Err e"
| "and_then Panic f = Panic"

fun map_err :: "('e \<Rightarrow> 'f) \<Rightarrow> ('a, 'e) result \<Rightarrow> ('a, 'f) result" where
  "map_err g (Ok x) = Ok x"
| "map_err g (Err e) = Err (g e)"
| "map_err g Panic = Panic"

fun map_ok :: "('a \<Rightarrow> 'b) \<Rightarrow> ('a, 'e) result \<Rightarrow> ('b, 'e) result" where
  "map_ok f (Ok x) = Ok (f x)"
| "map_ok f (Err e) = Err e"
| "map_ok f Panic = Panic"

definition ok_or :: "'a option \<Rightarrow> 'e \<Rightarrow> ('a, 'e) result" where
  "ok_or x e = (case x of None \<Rightarrow> Err e | Some y \<Rightarrow> Ok y)"

definition expect :: "'a option \<Rightarrow> ('a, 'e) result" where
  "expect x = (case x of None \<Rightarrow> Panic | Some y \<Rightarrow> Ok y)"

fun expect_ok :: "('a, 'e) result \<Rightarrow> ('a, 'f) result" where
  "expect_ok (Ok x) = Ok x"
| "expect_ok r = Panic"

text \<open>A guard that returns early with an error.\<close>

definition ensure :: "bool \<Rightarrow> 'e \<Rightarrow> (unit, 'e) result" where
  "ensure b e = (if b then Ok () else Err e)"

fun is_ok :: "('a, 'e) result \<Rightarrow> bool" where
  "is_ok (Ok x) = True"
| "is_ok r = False"

text \<open>The index operator of a slice panics out of range.\<close>

definition idx :: "'a list \<Rightarrow> nat \<Rightarrow> ('a, 'e) result" where
  "idx xs i = (if i < length xs then Ok (xs ! i) else Panic)"

text \<open>\<open>Iterator::try_fold\<close>: a left fold that stops at the first failure.\<close>

fun try_fold :: "('s \<Rightarrow> 'x \<Rightarrow> ('s, 'e) result) \<Rightarrow> 's \<Rightarrow> 'x list \<Rightarrow> ('s, 'e) result" where
  "try_fold f s [] = Ok s"
| "try_fold f s (x # xs) = and_then (f s x) (\<lambda>s'. try_fold f s' xs)"

text \<open>\<open>collect::<Result<Vec<_>, _>>\<close> over a mapped iterator.\<close>

fun try_map :: "('x \<Rightarrow> ('y, 'e) result) \<Rightarrow> 'x list \<Rightarrow> ('y list, 'e) result" where
  "try_map f [] = Ok []"
| "try_map f (x # xs) = and_then (f x) (\<lambda>y. and_then (try_map f xs) (\<lambda>ys. Ok (y # ys)))"

lemma and_then_eq_Ok [simp, result_simps]:
  "and_then m f = Ok y \<longleftrightarrow> (\<exists>x. m = Ok x \<and> f x = Ok y)"
  by (cases m) auto

lemma and_then_eq_Err [result_simps]:
  "and_then m f = Err e \<longleftrightarrow> m = Err e \<or> (\<exists>x. m = Ok x \<and> f x = Err e)"
  by (cases m) auto

lemma and_then_eq_Panic [result_simps]:
  "and_then m f = Panic \<longleftrightarrow> m = Panic \<or> (\<exists>x. m = Ok x \<and> f x = Panic)"
  by (cases m) auto

lemma map_err_eq_Ok [simp, result_simps]: "map_err g m = Ok y \<longleftrightarrow> m = Ok y"
  by (cases m) auto

lemma map_err_eq_Err [result_simps]: "map_err g m = Err e \<longleftrightarrow> (\<exists>d. m = Err d \<and> e = g d)"
  by (cases m) auto

lemma map_err_eq_Panic [simp, result_simps]: "map_err g m = Panic \<longleftrightarrow> m = Panic"
  by (cases m) auto

lemma map_ok_eq_Ok [simp, result_simps]: "map_ok f m = Ok y \<longleftrightarrow> (\<exists>x. m = Ok x \<and> y = f x)"
  by (cases m) auto

lemma map_ok_eq_Err [simp, result_simps]: "map_ok f m = Err e \<longleftrightarrow> m = Err e"
  by (cases m) auto

lemma map_ok_eq_Panic [simp, result_simps]: "map_ok f m = Panic \<longleftrightarrow> m = Panic"
  by (cases m) auto

lemma ok_or_eq_Ok [simp, result_simps]: "ok_or x e = Ok y \<longleftrightarrow> x = Some y"
  by (simp add: ok_or_def split: option.split)

lemma ok_or_eq_Err [simp, result_simps]: "ok_or x e = Err d \<longleftrightarrow> x = None \<and> d = e"
  by (auto simp: ok_or_def split: option.split)

lemma ok_or_neq_Panic [simp, result_simps]: "ok_or x e \<noteq> Panic"
  by (simp add: ok_or_def split: option.split)

lemma ok_or_simps [simp]: "ok_or (Some x) e = Ok x" "ok_or None e = Err e"
  by (simp_all add: ok_or_def)

lemma expect_eq_Ok [simp, result_simps]: "expect x = Ok y \<longleftrightarrow> x = Some y"
  by (simp add: expect_def split: option.split)

lemma expect_eq_Err [simp, result_simps]: "expect x \<noteq> Err d"
  by (simp add: expect_def split: option.split)

lemma expect_eq_Panic [simp, result_simps]: "expect x = Panic \<longleftrightarrow> x = None"
  by (simp add: expect_def split: option.split)

lemma expect_simps [simp]: "expect (Some x) = Ok x" "expect None = Panic"
  by (simp_all add: expect_def)

lemma expect_ok_eq_Ok [simp, result_simps]: "expect_ok r = Ok x \<longleftrightarrow> r = Ok x"
  by (cases r) auto

lemma expect_ok_eq_Panic [simp, result_simps]: "expect_ok r = Panic \<longleftrightarrow> (\<forall>x. r \<noteq> Ok x)"
  by (cases r) auto

lemma expect_ok_neq_Err [simp, result_simps]: "expect_ok r \<noteq> Err e"
  by (cases r) auto

lemma ensure_eq_Ok [simp, result_simps]: "ensure b e = Ok u \<longleftrightarrow> b"
  by (simp add: ensure_def)

lemma ensure_eq_Err [simp, result_simps]: "ensure b e = Err d \<longleftrightarrow> \<not> b \<and> d = e"
  by (auto simp: ensure_def)

lemma ensure_neq_Panic [simp, result_simps]: "ensure b e \<noteq> Panic"
  by (simp add: ensure_def)

lemma ensure_simps [simp]: "ensure True e = Ok ()" "ensure False e = Err e"
  by (simp_all add: ensure_def)

lemma idx_eq_Ok [simp, result_simps]: "idx xs i = Ok x \<longleftrightarrow> i < length xs \<and> x = xs ! i"
  by (auto simp: idx_def)

lemma idx_neq_Err [simp, result_simps]: "idx xs i \<noteq> Err e"
  by (simp add: idx_def)

lemma idx_eq_Panic [simp, result_simps]: "idx xs i = Panic \<longleftrightarrow> length xs \<le> i"
  by (auto simp: idx_def)

lemma and_then_assoc: "and_then (and_then m f) g = and_then m (\<lambda>x. and_then (f x) g)"
  by (cases m) auto

lemma and_then_Ok_right [simp]: "and_then m Ok = m"
  by (cases m) auto

lemma map_err_and_then: "map_err g (and_then m f) = and_then (map_err g m) (\<lambda>x. map_err g (f x))"
  by (cases m) auto

lemma is_ok_iff: "is_ok r \<longleftrightarrow> (\<exists>x. r = Ok x)"
  by (cases r) auto

lemma try_fold_append:
  "try_fold f s (xs @ ys) = and_then (try_fold f s xs) (\<lambda>s'. try_fold f s' ys)"
  by (induction xs arbitrary: s) (simp_all add: and_then_assoc)

lemma try_fold_map: "try_fold f s (map h xs) = try_fold (\<lambda>s x. f s (h x)) s xs"
  by (induction xs arbitrary: s) auto

lemma try_fold_snoc_Ok:
  "try_fold f s (xs @ [x]) = Ok t \<longleftrightarrow> (\<exists>u. try_fold f s xs = Ok u \<and> f u x = Ok t)"
  by (auto simp: try_fold_append)

text \<open>An invariant kept by every step is kept by the fold.\<close>

lemma try_fold_invariant:
  assumes "try_fold f s xs = Ok t" and "P s"
    and "\<And>u x v. P u \<Longrightarrow> x \<in> set xs \<Longrightarrow> f u x = Ok v \<Longrightarrow> P v"
  shows "P t"
  using assms
proof (induction xs arbitrary: s)
  case (Cons x xs)
  from Cons.prems(1) obtain u where u: "f s x = Ok u" "try_fold f u xs = Ok t" by auto
  show ?case
  proof (rule Cons.IH [OF u(2)])
    show "P u" by (rule Cons.prems(3) [OF Cons.prems(2) _ u(1)]) simp
    show "P w" if "P v" "y \<in> set xs" "f v y = Ok w" for v y w
      using that by (intro Cons.prems(3) [of v y w]) auto
  qed
qed simp

lemma try_fold_never_panics:
  assumes "\<And>u x. P u \<Longrightarrow> x \<in> set xs \<Longrightarrow> f u x \<noteq> Panic"
    and "\<And>u x v. P u \<Longrightarrow> x \<in> set xs \<Longrightarrow> f u x = Ok v \<Longrightarrow> P v" and "P s"
  shows "try_fold f s xs \<noteq> Panic"
  using assms
proof (induction xs arbitrary: s)
  case (Cons x xs)
  have "try_fold f v xs \<noteq> Panic" if v: "f s x = Ok v" for v
  proof (rule Cons.IH)
    show "P v" by (rule Cons.prems(2) [OF Cons.prems(3) _ v]) simp
    show "f u y \<noteq> Panic" if "P u" "y \<in> set xs" for u y
      using that by (intro Cons.prems(1)) auto
    show "P w" if "P u" "y \<in> set xs" "f u y = Ok w" for u y w
      using that by (intro Cons.prems(2) [of u y w]) auto
  qed
  moreover have "f s x \<noteq> Panic" using Cons.prems by simp
  ultimately show ?case by (simp add: and_then_eq_Panic)
qed simp

lemma try_map_Ok_iff: "try_map f xs = Ok ys \<longleftrightarrow> list_all2 (\<lambda>x y. f x = Ok y) xs ys"
  by (induction xs arbitrary: ys) (auto simp: list_all2_Cons1)

lemma try_map_length: "try_map f xs = Ok ys \<Longrightarrow> length ys = length xs"
  by (simp add: try_map_Ok_iff list_all2_lengthD)

section \<open>Stateful components\<close>

text \<open>
  The contract of a read model that is built by applying events one after another: it
  starts in a state of its invariant and every successful application keeps the invariant.
  The states a component can be in are those an execution reaches.
\<close>

inductive reaches :: "('s \<Rightarrow> 'x \<Rightarrow> ('s, 'e) result) \<Rightarrow> 's \<Rightarrow> 's \<Rightarrow> bool" for app init where
  reaches_init: "reaches app init init"
| reaches_step: "reaches app init s \<Longrightarrow> app s x = Ok s' \<Longrightarrow> reaches app init s'"

inductive_cases reachesE: "reaches app init s"

lemma reaches_iff_fold: "reaches app init s \<longleftrightarrow> (\<exists>xs. try_fold app init xs = Ok s)"
proof
  assume "reaches app init s"
  then show "\<exists>xs. try_fold app init xs = Ok s"
  proof induction
    case reaches_init
    then show ?case by (auto intro: exI [of _ "[]"])
  next
    case (reaches_step s x s')
    then obtain xs where "try_fold app init xs = Ok s" by blast
    then have "try_fold app init (xs @ [x]) = Ok s'" using reaches_step.hyps(2) by (simp add: try_fold_append)
    then show ?case by blast
  qed
next
  assume "\<exists>xs. try_fold app init xs = Ok s"
  then obtain xs where "try_fold app init xs = Ok s" ..
  then show "reaches app init s"
  proof (rule try_fold_invariant [where P = "reaches app init"])
    show "reaches app init v" if "reaches app init u" "app u x = Ok v" for u x v
      using that by (rule reaches_step)
  qed (rule reaches_init)
qed

locale stateful =
  fixes init :: 's
    and app :: "'s \<Rightarrow> 'x \<Rightarrow> ('s, 'e) result"
    and inv :: "'s \<Rightarrow> bool"
  assumes inv_init: "inv init"
    and inv_app: "inv s \<Longrightarrow> app s x = Ok s' \<Longrightarrow> inv s'"
begin

lemma inv_reaches: "reaches app init s \<Longrightarrow> inv s"
  by (induction rule: reaches.induct) (auto intro: inv_init inv_app)

lemma inv_fold_from: "try_fold app s xs = Ok t \<Longrightarrow> inv s \<Longrightarrow> inv t"
  by (erule try_fold_invariant) (auto intro: inv_app)

lemma inv_fold: "try_fold app init xs = Ok t \<Longrightarrow> inv t"
  by (rule inv_fold_from [OF _ inv_init])

text \<open>A property every application keeps, from states of the invariant, holds of the fold.\<close>

lemma fold_keeps:
  assumes "try_fold app s xs = Ok t" "inv s" "Q s"
    and "\<And>u x v. inv u \<Longrightarrow> Q u \<Longrightarrow> x \<in> set xs \<Longrightarrow> app u x = Ok v \<Longrightarrow> Q v"
  shows "Q t"
  using try_fold_invariant [where P = "\<lambda>u. inv u \<and> Q u", OF assms(1)] assms(2-4) inv_app by blast

end

text \<open>A component whose applications also return, so that every replay of it returns.\<close>

locale component = stateful +
  assumes app_returns: "inv s \<Longrightarrow> app s x \<noteq> Panic"
begin

lemma fold_returns: "inv s \<Longrightarrow> try_fold app s xs \<noteq> Panic"
  by (rule try_fold_never_panics [where P = inv]) (auto intro: inv_app dest: app_returns)

end

section \<open>Checked machine integers\<close>

text \<open>
  Rust's \<open>i64\<close> and \<open>i128\<close> are integers with the range written out: a checked operation
  returns \<open>None\<close> exactly when the mathematical result leaves the range.
\<close>

definition i64_min :: int where "i64_min = - (2 ^ 63)"
definition i64_max :: int where "i64_max = 2 ^ 63 - 1"
definition i128_min :: int where "i128_min = - (2 ^ 127)"
definition i128_max :: int where "i128_max = 2 ^ 127 - 1"

definition i64 :: "int \<Rightarrow> bool" where "i64 x \<longleftrightarrow> i64_min \<le> x \<and> x \<le> i64_max"
definition i128 :: "int \<Rightarrow> bool" where "i128 x \<longleftrightarrow> i128_min \<le> x \<and> x \<le> i128_max"

definition to_i64 :: "int \<Rightarrow> int option" where
  "to_i64 x = (if i64 x then Some x else None)"

definition to_i128 :: "int \<Rightarrow> int option" where
  "to_i128 x = (if i128 x then Some x else None)"

lemmas i64_defs = i64_def i64_min_def i64_max_def
lemmas i128_defs = i128_def i128_min_def i128_max_def

lemma to_i64_Some [simp]: "to_i64 x = Some y \<longleftrightarrow> y = x \<and> i64 x"
  by (auto simp: to_i64_def)

lemma to_i64_None [simp]: "to_i64 x = None \<longleftrightarrow> \<not> i64 x"
  by (simp add: to_i64_def)

lemma to_i128_Some [simp]: "to_i128 x = Some y \<longleftrightarrow> y = x \<and> i128 x"
  by (auto simp: to_i128_def)

lemma to_i128_None [simp]: "to_i128 x = None \<longleftrightarrow> \<not> i128 x"
  by (simp add: to_i128_def)

lemma i64_zero [simp]: "i64 0"
  by (simp add: i64_defs)

lemma i64_imp_i128: "i64 x \<Longrightarrow> i128 x"
  by (simp add: i64_defs i128_defs)

text \<open>Integer division of Rust truncates towards zero.\<close>

definition quot_to_zero :: "int \<Rightarrow> int \<Rightarrow> int" where
  "quot_to_zero n d = sgn n * (\<bar>n\<bar> div \<bar>d\<bar>) * sgn d"

lemma quot_to_zero_dvd: "b \<noteq> 0 \<Longrightarrow> b dvd a \<Longrightarrow> quot_to_zero a b * b = a"
proof -
  assume "b \<noteq> 0" "b dvd a"
  then obtain k where k: "a = b * k" by (auto elim: dvdE)
  have "sgn b * sgn b = (1::int)" using \<open>b \<noteq> 0\<close> by (simp add: sgn_if)
  then have "quot_to_zero a b = sgn k * \<bar>k\<bar>"
    using \<open>b \<noteq> 0\<close> by (simp add: quot_to_zero_def k abs_mult sgn_mult mult.assoc mult.left_commute)
  also have "sgn k * \<bar>k\<bar> = k" by (rule sgn_mult_abs)
  finally show ?thesis by (simp add: k)
qed

text \<open>\<open>to_string\<close> of a machine integer: its decimal digits after an optional minus sign.\<close>

fun digits_of :: "nat \<Rightarrow> string" where
  "digits_of n = (if n < 10 then [char_of (48 + n)] else digits_of (n div 10) @ [char_of (48 + n mod 10)])"

declare digits_of.simps [simp del]

definition string_of_int :: "int \<Rightarrow> string" where
  "string_of_int x = (if x < 0 then ''-'' @ digits_of (nat (- x)) else digits_of (nat x))"

section \<open>Orderings, comparators and sorting\<close>

datatype ordering = Less | Equal | Greater

definition cmp_of :: "'a::linorder \<Rightarrow> 'a \<Rightarrow> ordering" where
  "cmp_of x y = (if x < y then Less else if x = y then Equal else Greater)"

fun then_with :: "ordering \<Rightarrow> ordering \<Rightarrow> ordering" where
  "then_with Equal o' = o'"
| "then_with o1 o' = o1"

fun reverse_ordering :: "ordering \<Rightarrow> ordering" where
  "reverse_ordering Less = Greater"
| "reverse_ordering Equal = Equal"
| "reverse_ordering Greater = Less"

text \<open>\<open>Ord\<close> of \<open>Option\<close> as the source writes it for source times: a present value comes first.\<close>

definition cmp_some_first :: "'a::linorder option \<Rightarrow> 'a option \<Rightarrow> ordering" where
  "cmp_some_first a b = (case (a, b) of
     (Some x, Some y) \<Rightarrow> cmp_of x y
   | (Some _, None) \<Rightarrow> Less
   | (None, Some _) \<Rightarrow> Greater
   | (None, None) \<Rightarrow> Equal)"

lemma cmp_of_simps [simp]:
  "cmp_of x y = Less \<longleftrightarrow> x < y" "cmp_of x y = Equal \<longleftrightarrow> x = y" "cmp_of x y = Greater \<longleftrightarrow> y < x"
  by (auto simp: cmp_of_def)

lemma cmp_of_refl [simp]: "cmp_of x x = Equal"
  by (simp add: cmp_of_def)

lemma then_with_eq:
  "then_with a b = Less \<longleftrightarrow> a = Less \<or> a = Equal \<and> b = Less"
  "then_with a b = Equal \<longleftrightarrow> a = Equal \<and> b = Equal"
  "then_with a b = Greater \<longleftrightarrow> a = Greater \<or> a = Equal \<and> b = Greater"
  by (cases a; simp)+

lemma cmp_some_first_eq:
  "cmp_some_first a b = Less \<longleftrightarrow> (case a of None \<Rightarrow> False | Some x \<Rightarrow> (case b of None \<Rightarrow> True | Some y \<Rightarrow> x < y))"
  "cmp_some_first a b = Equal \<longleftrightarrow> a = b"
  "cmp_some_first a b = Greater \<longleftrightarrow> (case b of None \<Rightarrow> False | Some y \<Rightarrow> (case a of None \<Rightarrow> True | Some x \<Rightarrow> y < x))"
  by (auto simp: cmp_some_first_def split: option.splits)

text \<open>Comparators written with \<open>then_with\<close> are comparisons of lexicographic keys.\<close>

lemma cmp_of_pair: "cmp_of (a, b) (c, d) = then_with (cmp_of a c) (cmp_of b d)"
  by (auto simp: cmp_of_def)

lemma then_with_assoc: "then_with (then_with a b) c = then_with a (then_with b c)"
  by (cases a) auto

lemma then_with_absorb: "a \<noteq> Equal \<Longrightarrow> then_with a b = a"
  by (cases a) auto

fun some_first_rank :: "int option \<Rightarrow> nat \<times> int" where
  "some_first_rank (Some x) = (0, x)"
| "some_first_rank None = (1, 0)"

lemma cmp_some_first_rank: "cmp_some_first a b = cmp_of (some_first_rank a) (some_first_rank b)"
  by (cases a; cases b) (auto simp: cmp_some_first_def cmp_of_def)

lemma some_first_rank_inject [simp]: "some_first_rank a = some_first_rank b \<longleftrightarrow> a = b"
  by (cases a; cases b) auto

text \<open>\<open>slice::sort_by\<close>: a stable sort; an element is put before the equal ones after it.\<close>

fun insort_by :: "('a \<Rightarrow> 'a \<Rightarrow> ordering) \<Rightarrow> 'a \<Rightarrow> 'a list \<Rightarrow> 'a list" where
  "insort_by cmp x [] = [x]"
| "insort_by cmp x (y # ys) =
     (if cmp x y = Greater then y # insort_by cmp x ys else x # y # ys)"

definition sort_by :: "('a \<Rightarrow> 'a \<Rightarrow> ordering) \<Rightarrow> 'a list \<Rightarrow> 'a list" where
  "sort_by cmp xs = foldr (insort_by cmp) xs []"

lemma sort_by_Nil [simp]: "sort_by cmp [] = []"
  by (simp add: sort_by_def)

lemma sort_by_Cons [simp]: "sort_by cmp (x # xs) = insort_by cmp x (sort_by cmp xs)"
  by (simp add: sort_by_def)

lemma mset_insort_by [simp]: "mset (insort_by cmp x ys) = add_mset x (mset ys)"
  by (induction ys) auto

lemma mset_sort_by [simp]: "mset (sort_by cmp xs) = mset xs"
  by (induction xs) auto

lemma set_sort_by [simp]: "set (sort_by cmp xs) = set xs"
  by (metis mset_sort_by set_mset_mset)

lemma length_sort_by [simp]: "length (sort_by cmp xs) = length xs"
  by (metis mset_sort_by size_mset)

lemma sort_by_sorted: "sorted_wrt (\<lambda>x y. cmp x y \<noteq> Greater) xs \<Longrightarrow> sort_by cmp xs = xs"
proof (induction xs)
  case (Cons x xs)
  then show ?case by (cases xs) auto
qed simp

text \<open>
  The contract of a comparator, and what a client of \<open>sort_by\<close> gets from it: the result is
  sorted, and where equal elements are identical it depends on the multiset alone.
\<close>

locale total_comparator =
  fixes cmp :: "'a \<Rightarrow> 'a \<Rightarrow> ordering"
  assumes cmp_antisym: "cmp y x = reverse_ordering (cmp x y)"
    and cmp_trans: "cmp x y \<noteq> Greater \<Longrightarrow> cmp y z \<noteq> Greater \<Longrightarrow> cmp x z \<noteq> Greater"
begin

lemma not_le_imp_ge: "cmp x y = Greater \<Longrightarrow> cmp y x \<noteq> Greater"
  by (metis cmp_antisym ordering.distinct(3) reverse_ordering.simps(3))

lemma le_refl: "cmp x x \<noteq> Greater"
  using not_le_imp_ge by blast

lemma sorted_insort_by:
  "sorted_wrt (\<lambda>x y. cmp x y \<noteq> Greater) ys \<Longrightarrow>
   sorted_wrt (\<lambda>x y. cmp x y \<noteq> Greater) (insort_by cmp x ys)"
proof (induction ys)
  case (Cons y ys)
  have "set (insort_by cmp x ys) = insert x (set ys)"
    by (metis mset_insort_by set_mset_add_mset_insert set_mset_mset)
  moreover have "cmp x z \<noteq> Greater" if "cmp x y \<noteq> Greater" "z \<in> set ys" for z
    using that(1) by (rule cmp_trans) (use that Cons.prems in auto)
  ultimately show ?case using Cons
    by (auto dest: not_le_imp_ge)
qed simp

lemma sorted_sort_by: "sorted_wrt (\<lambda>x y. cmp x y \<noteq> Greater) (sort_by cmp xs)"
  by (induction xs) (auto intro: sorted_insort_by)

lemma sorted_unique:
  assumes "sorted_wrt (\<lambda>x y. cmp x y \<noteq> Greater) xs"
    and "sorted_wrt (\<lambda>x y. cmp x y \<noteq> Greater) ys"
    and "mset xs = mset ys"
    and "\<And>x y. x \<in> set xs \<Longrightarrow> y \<in> set xs \<Longrightarrow> cmp x y = Equal \<Longrightarrow> x = y"
  shows "xs = ys"
  using assms
proof (induction xs arbitrary: ys)
  case (Cons x xs)
  then obtain y ys' where ys: "ys = y # ys'" by (cases ys) auto
  have sets: "set (x # xs) = set (y # ys')"
    using Cons.prems(3) ys by (metis set_mset_mset)
  have le: "cmp x y \<noteq> Greater" if "x \<noteq> y"
    using that sets Cons.prems(1) by auto
  have ge: "cmp y x \<noteq> Greater" if "x \<noteq> y"
    using that sets Cons.prems(2) ys by auto
  have "x = y"
  proof (rule ccontr)
    assume ne: "x \<noteq> y"
    have "cmp x y = Equal"
      using le [OF ne] ge [OF ne] cmp_antisym [of y x] by (cases "cmp x y") auto
    moreover have "y \<in> set (x # xs)" using sets by auto
    ultimately have "x = y" using Cons.prems(4) [of x y] by simp
    with ne show False by simp
  qed
  moreover have "xs = ys'"
    using Cons.prems ys \<open>x = y\<close> by (intro Cons.IH) auto
  ultimately show ?case using ys by simp
qed simp

lemma sort_by_mset_eq:
  assumes "mset xs = mset ys"
    and "\<And>x y. x \<in> set xs \<Longrightarrow> y \<in> set xs \<Longrightarrow> cmp x y = Equal \<Longrightarrow> x = y"
  shows "sort_by cmp xs = sort_by cmp ys"
  by (rule sorted_unique) (use assms in \<open>auto intro: sorted_sort_by\<close>)

end

text \<open>A comparator that compares keys meets the contract.\<close>

lemma key_comparator: "total_comparator (\<lambda>x y. cmp_of (key x) (key y))"
  by unfold_locales (auto simp: cmp_of_def split: if_splits)

section \<open>Binary search\<close>

text \<open>
  \<open>slice::partition_point\<close> of the standard library: a binary search by a predicate. On a
  slice that is not partitioned by the predicate its result is whatever the probes give,
  which the model keeps.
\<close>

function pp_loop :: "('a \<Rightarrow> bool) \<Rightarrow> 'a list \<Rightarrow> nat \<Rightarrow> nat \<Rightarrow> nat" where
  "pp_loop p xs base sz =
     (if 1 < sz
      then let half = sz div 2; mid = base + half
           in pp_loop p xs (if p (xs ! mid) then mid else base) (sz - half)
      else base)"
  by pat_completeness auto
termination
  by (relation "measure (\<lambda>(p, xs, base, sz). sz)") auto

declare pp_loop.simps [simp del]

definition partition_point :: "('a \<Rightarrow> bool) \<Rightarrow> 'a list \<Rightarrow> nat" where
  "partition_point p xs =
     (if xs = [] then 0
      else let base = pp_loop p xs 0 (length xs) in if p (xs ! base) then base + 1 else base)"

lemma pp_loop_bounds: "0 < sz \<Longrightarrow> base \<le> pp_loop p xs base sz \<and> pp_loop p xs base sz < base + sz"
proof (induction p xs base sz rule: pp_loop.induct)
  case (1 p xs base sz)
  show ?case
  proof (cases "1 < sz")
    case True
    define b where "b = (if p (xs ! (base + sz div 2)) then base + sz div 2 else base)"
    have "b \<le> pp_loop p xs b (sz - sz div 2) \<and> pp_loop p xs b (sz - sz div 2) < b + (sz - sz div 2)"
      using "1.IH" [OF True refl refl] True by (simp add: b_def)
    then show ?thesis using True
      by (subst (1 2) pp_loop.simps) (auto simp: Let_def b_def split: if_splits)
  next
    case False
    with "1.prems" show ?thesis by (simp add: pp_loop.simps)
  qed
qed

lemma partition_point_le: "partition_point p xs \<le> length xs"
proof (cases "xs = []")
  case False
  then have "pp_loop p xs 0 (length xs) < length xs"
    using pp_loop_bounds [of "length xs" 0 p xs] by simp
  with False show ?thesis by (auto simp: partition_point_def Let_def)
qed (simp add: partition_point_def)

text \<open>On a partitioned slice the loop keeps the boundary inside its window.\<close>

lemma pp_loop_partitioned:
  assumes "0 < sz" "base + sz \<le> length (ys @ zs)"
    and "\<forall>y \<in> set ys. p y" "\<forall>z \<in> set zs. \<not> p z"
    and "base \<le> length ys" "length ys \<le> base + sz" "base = 0 \<or> base < length ys"
  shows "let r = pp_loop p (ys @ zs) base sz
         in r \<le> length ys \<and> length ys \<le> r + 1 \<and> (r = 0 \<or> r < length ys)"
  using assms
proof (induction p "ys @ zs" base sz rule: pp_loop.induct)
  case (1 p base sz)
  show ?case
  proof (cases "1 < sz")
    case True
    define half where "half = sz div 2"
    define mid where "mid = base + half"
    define b where "b = (if p ((ys @ zs) ! mid) then mid else base)"
    have mid: "mid < length (ys @ zs)" using True "1.prems" by (simp add: mid_def half_def)
    have probe: "p ((ys @ zs) ! mid) \<longleftrightarrow> mid < length ys"
      using mid "1.prems"(3,4) by (auto simp: nth_append)
    have "let r = pp_loop p (ys @ zs) b (sz - half)
          in r \<le> length ys \<and> length ys \<le> r + 1 \<and> (r = 0 \<or> r < length ys)"
      unfolding b_def mid_def half_def
      by (rule "1.hyps") (use "1.prems" True probe in \<open>auto simp: mid_def half_def\<close>)
    moreover have "pp_loop p (ys @ zs) base sz = pp_loop p (ys @ zs) b (sz - half)"
      using True by (subst pp_loop.simps) (simp add: Let_def b_def mid_def half_def)
    ultimately show ?thesis by simp
  next
    case False
    with "1.prems" have "sz = 1" by simp
    with "1.prems" show ?thesis by (auto simp: pp_loop.simps)
  qed
qed

lemma partition_point_append:
  assumes "\<forall>y \<in> set ys. p y" and "\<forall>z \<in> set zs. \<not> p z"
  shows "partition_point p (ys @ zs) = length ys"
proof (cases "ys @ zs = []")
  case False
  define r where "r = pp_loop p (ys @ zs) 0 (length (ys @ zs))"
  have r: "r \<le> length ys" "length ys \<le> r + 1" "r = 0 \<or> r < length ys"
    using pp_loop_partitioned [of "length (ys @ zs)" 0 ys zs p] assms False
    by (simp_all add: r_def Let_def)
  have "r < length (ys @ zs)"
    using False pp_loop_bounds [of "length (ys @ zs)" 0 p "ys @ zs"] by (simp add: r_def)
  then have "p ((ys @ zs) ! r) \<longleftrightarrow> r < length ys"
    using assms by (auto simp: nth_append)
  moreover have "partition_point p (ys @ zs) = (if p ((ys @ zs) ! r) then r + 1 else r)"
    using False by (simp only: partition_point_def Let_def r_def if_False)
  ultimately show ?thesis using r by auto
qed (simp add: partition_point_def)

section \<open>Greatest elements\<close>

text \<open>\<open>max_by_key\<close> returns the last of the greatest elements.\<close>

fun max_by_key :: "('a \<Rightarrow> 'k::linorder) \<Rightarrow> 'a list \<Rightarrow> 'a option" where
  "max_by_key key [] = None"
| "max_by_key key (x # xs) = (case max_by_key key xs of
     None \<Rightarrow> Some x | Some y \<Rightarrow> Some (if key y < key x then x else y))"

lemma max_by_key_None [simp]: "max_by_key key xs = None \<longleftrightarrow> xs = []"
  by (cases xs) (auto split: option.splits)

lemma max_by_key_Some:
  "max_by_key key xs = Some x \<Longrightarrow> x \<in> set xs \<and> (\<forall>y \<in> set xs. key y \<le> key x)"
proof (induction xs arbitrary: x)
  case (Cons a xs)
  show ?case
  proof (cases "max_by_key key xs")
    case None
    then show ?thesis using Cons.prems by simp
  next
    case (Some y)
    then show ?thesis using Cons.prems Cons.IH [OF Some] by (auto split: if_splits intro: order_trans less_imp_le)
  qed
qed simp

end
