(* ===== verification/OrderedMap.thy ===== *)
theory OrderedMap
  imports Prelude
begin

text \<open>
  \<open>std::collections::BTreeMap\<close>: a finite map that iterates in key order. The model is a
  strictly sorted association list. What its clients (balances, flow totals, the lot book,
  the price board, batch totals) rely on is the locale \<open>ordered_map\<close>; the interpretation at
  the end discharges its laws for the operations the model executes.
\<close>

type_synonym ('k, 'v) btree = "('k \<times> 'v) list"

fun bt_insert :: "'k::linorder \<Rightarrow> 'v \<Rightarrow> ('k, 'v) btree \<Rightarrow> ('k, 'v) btree" where
  "bt_insert k v [] = [(k, v)]"
| "bt_insert k v ((a, b) # m) =
     (if k < a then (k, v) # (a, b) # m
      else if k = a then (k, v) # m
      else (a, b) # bt_insert k v m)"

definition bt_get :: "('k, 'v) btree \<Rightarrow> 'k \<Rightarrow> 'v option" where
  "bt_get m k = map_of m k"

text \<open>\<open>entry(k).or_insert(d)\<close> followed by an assignment through the returned reference.\<close>

definition bt_upsert :: "'k::linorder \<Rightarrow> 'v \<Rightarrow> ('v \<Rightarrow> 'v) \<Rightarrow> ('k, 'v) btree \<Rightarrow> ('k, 'v) btree" where
  "bt_upsert k d f m = bt_insert k (f (case bt_get m k of None \<Rightarrow> d | Some v \<Rightarrow> v)) m"

text \<open>\<open>BTreeMap::remove\<close>.\<close>

definition bt_remove :: "'k \<Rightarrow> ('k, 'v) btree \<Rightarrow> ('k, 'v) btree" where
  "bt_remove k m = filter (\<lambda>e. fst e \<noteq> k) m"

definition bt_invar :: "('k::linorder, 'v) btree \<Rightarrow> bool" where
  "bt_invar m \<longleftrightarrow> sorted_wrt (<) (map fst m)"

text \<open>\<open>range(..=k).next_back()\<close>: the entry of the greatest key that is at most \<open>k\<close>.\<close>

definition bt_last_upto :: "('k::linorder, 'v) btree \<Rightarrow> 'k \<Rightarrow> ('k \<times> 'v) option" where
  "bt_last_upto m k = (case filter (\<lambda>e. fst e \<le> k) m of [] \<Rightarrow> None | es \<Rightarrow> Some (last es))"

section \<open>The interface\<close>

locale ordered_map =
  fixes empty :: "'m"
    and insert :: "'k::linorder \<Rightarrow> 'v \<Rightarrow> 'm \<Rightarrow> 'm"
    and get :: "'m \<Rightarrow> 'k \<Rightarrow> 'v option"
    and entries :: "'m \<Rightarrow> ('k \<times> 'v) list"
    and invar :: "'m \<Rightarrow> bool"
  assumes invar_empty: "invar empty"
    and invar_insert: "invar m \<Longrightarrow> invar (insert k v m)"
    and get_empty: "get empty k = None"
    and get_insert: "invar m \<Longrightarrow> get (insert k v m) j = (if j = k then Some v else get m j)"
    and entries_sorted: "invar m \<Longrightarrow> sorted_wrt (<) (map fst (entries m))"
    and get_entries: "invar m \<Longrightarrow> get m k = Some v \<longleftrightarrow> (k, v) \<in> set (entries m)"
begin

lemma distinct_keys: "invar m \<Longrightarrow> distinct (map fst (entries m))"
  using entries_sorted strict_sorted_iff by blast

lemma set_keys: "invar m \<Longrightarrow> set (map fst (entries m)) = {k. get m k \<noteq> None}"
  by (force simp: get_entries)

lemma get_map_of: "invar m \<Longrightarrow> get m = map_of (entries m)"
  by (rule ext) (metis distinct_keys get_entries map_of_eq_Some_iff option.exhaust)

lemma entries_ext:
  assumes "invar m" "invar m'" "\<And>k. get m k = get m' k"
  shows "entries m = entries m'"
proof (rule map_sorted_distinct_set_unique [where f = fst])
  show "inj_on fst (set (entries m) \<union> set (entries m'))"
    using assms by (auto simp: inj_on_def simp flip: get_entries)
  show "sorted (map fst (entries m))" "distinct (map fst (entries m))"
    "sorted (map fst (entries m'))" "distinct (map fst (entries m'))"
    using assms entries_sorted strict_sorted_iff by blast+
  show "set (entries m) = set (entries m')"
    using assms by (auto simp flip: get_entries)
qed

text \<open>A quantity summed over all entries changes by what one assignment changes.\<close>

lemma sum_entries_insert:
  fixes w :: "'k \<Rightarrow> 'v \<Rightarrow> int"
  assumes m: "invar m"
  shows "(\<Sum>(j, x) \<leftarrow> entries (insert k v m). w j x) =
         (\<Sum>(j, x) \<leftarrow> entries m. w j x) - (case get m k of None \<Rightarrow> 0 | Some x \<Rightarrow> w k x) + w k v"
proof -
  define S where "S m = (\<Sum>j\<in>{j. get m j \<noteq> None}. case get m j of None \<Rightarrow> 0 | Some x \<Rightarrow> w j x)" for m
  have S: "(\<Sum>(j, x) \<leftarrow> entries m. w j x) = S m" if "invar m" for m
  proof -
    have "(\<Sum>(j, x) \<leftarrow> entries m. w j x) = (\<Sum>e\<in>set (entries m). w (fst e) (snd e))"
      using distinct_keys [OF that] by (simp add: case_prod_beta sum_list_distinct_conv_sum_set distinct_map)
    also have "\<dots> = (\<Sum>j\<in>fst ` set (entries m). case get m j of None \<Rightarrow> 0 | Some x \<Rightarrow> w j x)"
    proof (rule sum.reindex_cong [symmetric, where l = fst])
      show "inj_on fst (set (entries m))"
        using distinct_keys [OF that] by (simp add: distinct_map)
      show "(case get m (fst e) of None \<Rightarrow> 0 | Some x \<Rightarrow> w (fst e) x) = w (fst e) (snd e)"
        if e: "e \<in> set (entries m)" for e
        using get_entries [OF \<open>invar m\<close>, of "fst e" "snd e"] e by simp
    qed simp
    also have "fst ` set (entries m) = {j. get m j \<noteq> None}"
      using set_keys [OF that] by simp
    finally show ?thesis by (simp add: S_def)
  qed
  have dom: "{j. get (insert k v m) j \<noteq> None} = Set.insert k {j. get m j \<noteq> None}"
    using m by (auto simp: get_insert)
  have fin: "finite {j. get m j \<noteq> None}"
    using set_keys [OF m] by (metis List.finite_set)
  have "S (insert k v m) = w k v + (\<Sum>j\<in>{j. get m j \<noteq> None} - {k}. case get m j of None \<Rightarrow> 0 | Some x \<Rightarrow> w j x)"
    unfolding S_def dom using fin m
    by (simp add: sum.insert_remove get_insert)
  also have "(\<Sum>j\<in>{j. get m j \<noteq> None} - {k}. case get m j of None \<Rightarrow> 0 | Some x \<Rightarrow> w j x) =
      S m - (case get m k of None \<Rightarrow> 0 | Some x \<Rightarrow> w k x)"
    unfolding S_def using fin by (auto simp: sum_diff1 split: option.split)
  finally show ?thesis using m by (simp add: S invar_insert)
qed

end

section \<open>The sorted association list provides it\<close>

lemma set_bt_insert_keys: "fst ` set (bt_insert k v m) = insert k (fst ` set m)"
proof (induction m)
  case (Cons e m)
  then show ?case by (cases e) (simp, blast)
qed simp

lemma bt_invar_insert: "bt_invar m \<Longrightarrow> bt_invar (bt_insert k v m)"
proof (induction m)
  case (Cons e m)
  obtain a b where e: "e = (a, b)" by (cases e)
  have tail: "bt_invar m" using Cons.prems by (simp add: bt_invar_def)
  have above: "\<forall>j \<in> fst ` set m. a < j" using Cons.prems by (auto simp: bt_invar_def e)
  show ?case
  proof (cases k a rule: linorder_cases)
    case greater
    then have "\<forall>j \<in> fst ` set (bt_insert k v m). a < j"
      using above by (simp add: set_bt_insert_keys)
    with greater Cons.IH [OF tail] show ?thesis by (auto simp: bt_invar_def e)
  qed (use Cons.prems in \<open>auto simp: bt_invar_def e\<close>)
qed (simp add: bt_invar_def)

lemma bt_get_insert: "bt_get (bt_insert k v m) j = (if j = k then Some v else bt_get m j)"
  by (induction m) (auto simp: bt_get_def)

lemma bt_invar_distinct: "bt_invar m \<Longrightarrow> distinct (map fst m)"
  by (simp add: bt_invar_def strict_sorted_iff)

interpretation bt: ordered_map "[]" bt_insert bt_get "\<lambda>m. m" bt_invar
proof unfold_locales
  show "bt_get m k = Some v \<longleftrightarrow> (k, v) \<in> set m" if "bt_invar m" for m :: "('a, 'b) btree" and k v
    using that by (simp add: bt_get_def bt_invar_distinct)
  show "bt_get [] k = None" for k :: 'a
    by (simp add: bt_get_def)
  show "bt_invar []"
    by (simp add: bt_invar_def)
  show "bt_get (bt_insert k v m) j = (if j = k then Some v else bt_get m j)" for m :: "('a, 'b) btree" and k j v
    by (rule bt_get_insert)
qed (auto simp: bt_invar_def intro: bt_invar_insert [unfolded bt_invar_def])

lemma bt_upsert_get [simp, map_simps]:
  "bt_get (bt_upsert k d f m) j =
     (if j = k then Some (f (case bt_get m k of None \<Rightarrow> d | Some v \<Rightarrow> v)) else bt_get m j)"
  by (simp add: bt_upsert_def bt_get_insert)

lemma bt_upsert_invar [simp, intro]: "bt_invar m \<Longrightarrow> bt_invar (bt_upsert k d f m)"
  by (simp add: bt_upsert_def bt_invar_insert)

lemma bt_invar_Nil [simp]: "bt_invar []"
  by (simp add: bt_invar_def)

lemma bt_get_Nil [simp]: "bt_get [] k = None"
  by (simp add: bt_get_def)

declare bt_get_insert [simp, map_simps] bt_invar_insert [simp, intro]

lemma bt_invar_filter: "bt_invar m \<Longrightarrow> bt_invar (filter P m)"
  by (induction m) (auto simp: bt_invar_def)

lemma bt_remove_get [simp]: "bt_get (bt_remove k m) j = (if j = k then None else bt_get m j)"
  by (induction m) (auto simp: bt_remove_def bt_get_def)

lemma bt_remove_invar [simp]: "bt_invar m \<Longrightarrow> bt_invar (bt_remove k m)"
  by (simp add: bt_remove_def bt_invar_filter)

text \<open>The greatest entry at or below a bound, as a statement about lookups.\<close>

lemma bt_last_upto_Some:
  assumes "bt_invar m"
  shows "bt_last_upto m k = Some (j, v) \<longleftrightarrow>
         bt_get m j = Some v \<and> j \<le> k \<and> (\<forall>i w. bt_get m i = Some w \<longrightarrow> i \<le> k \<longrightarrow> i \<le> j)"
proof -
  define es where "es = filter (\<lambda>e. fst e \<le> k) m"
  have mem: "(i, w) \<in> set es \<longleftrightarrow> bt_get m i = Some w \<and> i \<le> k" for i w
    using bt.get_entries [OF assms] by (auto simp: es_def)
  have srt: "sorted_wrt (<) (map fst es)"
    using bt_invar_filter [OF assms] by (simp add: es_def bt_invar_def)
  show ?thesis
  proof (cases "es = []")
    case True
    then show ?thesis using mem by (auto simp: bt_last_upto_def simp flip: es_def)
  next
    case False
    then have res: "bt_last_upto m k = Some (last es)"
      by (simp add: bt_last_upto_def es_def [symmetric] split: list.split)
    have last_in: "last es \<in> set es" using False by simp
    have top: "fst e \<le> fst (last es)" if "e \<in> set es" for e
    proof -
      have "es = butlast es @ [last es]" using False by simp
      then have "sorted_wrt (<) (map fst (butlast es) @ [fst (last es)])"
        using srt by (metis list.simps(8) list.simps(9) map_append)
      then have below: "\<forall>x \<in> set (map fst (butlast es)). x < fst (last es)"
        by (simp add: sorted_wrt_append)
      have "e \<in> set (butlast es) \<or> e = last es"
        using that False by (metis append_butlast_last_id in_set_butlastD rotate1.simps(2) set_ConsD set_rotate1)
      then show ?thesis using below by force
    qed
    show ?thesis
    proof
      assume "bt_last_upto m k = Some (j, v)"
      then have "last es = (j, v)" using res by simp
      then show "bt_get m j = Some v \<and> j \<le> k \<and> (\<forall>i w. bt_get m i = Some w \<longrightarrow> i \<le> k \<longrightarrow> i \<le> j)"
        using last_in top mem by (metis fst_conv)
    next
      assume r: "bt_get m j = Some v \<and> j \<le> k \<and> (\<forall>i w. bt_get m i = Some w \<longrightarrow> i \<le> k \<longrightarrow> i \<le> j)"
      obtain i w where l: "last es = (i, w)" by (cases "last es")
      have iw: "bt_get m i = Some w" "i \<le> k" using last_in mem l by auto
      have "j \<le> i" using top [of "(j, v)"] mem r l by simp
      moreover have "i \<le> j" using r iw by blast
      ultimately have "i = j" by simp
      then show "bt_last_upto m k = Some (j, v)" using res l iw r by simp
    qed
  qed
qed

end
