(* ===== verification/Deps.thy ===== *)
theory Deps
  imports Prelude "HOL-Library.Word" Complex_Main
begin

text \<open>
  The third-party crates the core calls, as parameters. A value of \<open>rust_decimal::Decimal\<close>
  is the number \<open>m / 10 ^ e\<close> its documentation gives (an integer mantissa and a scale);
  a \<open>time::Date\<close> is its Julian day number, a \<open>time::Time\<close> its nanosecond of the day, an
  \<open>OffsetDateTime\<close> its Unix time in nanoseconds; a \<open>Uuid\<close> is its 128 bits. Every
  operation of those crates is a field of the record \<open>deps\<close>, an argument of the definitions
  that call it. What a theorem needs of an operation is a named law below, stated as the
  crate documents it; the record \<open>ref_deps\<close> shows that the laws hold together.
\<close>

section \<open>Values\<close>

datatype decimal = Decimal (mantissa: int) (scale: nat)

definition dec_val :: "decimal \<Rightarrow> rat" where
  "dec_val d = of_int (mantissa d) / 10 ^ scale d"

type_synonym date = int
type_synonym time_of_day = int
type_synonym instant = int
type_synonym uuid = "128 word"

section \<open>Operations\<close>

record deps =
  d_checked_add :: "decimal \<Rightarrow> decimal \<Rightarrow> decimal option"
  d_checked_sub :: "decimal \<Rightarrow> decimal \<Rightarrow> decimal option"
  d_checked_mul :: "decimal \<Rightarrow> decimal \<Rightarrow> decimal option"
  d_checked_div :: "decimal \<Rightarrow> decimal \<Rightarrow> decimal option"
  d_cmp :: "decimal \<Rightarrow> decimal \<Rightarrow> ordering"
  d_is_zero :: "decimal \<Rightarrow> bool"
  d_is_sign_negative :: "decimal \<Rightarrow> bool"
  d_new :: "int \<Rightarrow> nat \<Rightarrow> decimal"
  d_from_i64 :: "int \<Rightarrow> decimal"
  d_abs :: "decimal \<Rightarrow> decimal"
  d_trunc :: "decimal \<Rightarrow> decimal"
  d_floor :: "decimal \<Rightarrow> decimal"
  d_normalize :: "decimal \<Rightarrow> decimal"
  d_round_half_away :: "decimal \<Rightarrow> nat \<Rightarrow> decimal"
  d_round_half_even :: "decimal \<Rightarrow> nat \<Rightarrow> decimal"
  d_to_string :: "decimal \<Rightarrow> string"
  t_year :: "date \<Rightarrow> int"
  t_checked_add_days :: "date \<Rightarrow> int \<Rightarrow> date option"
  t_saturating_add_days :: "date \<Rightarrow> int \<Rightarrow> date"
  t_date_to_string :: "date \<Rightarrow> string"
  i256_mul :: "int \<Rightarrow> int \<Rightarrow> int"

abbreviation d_eq :: "deps \<Rightarrow> decimal \<Rightarrow> decimal \<Rightarrow> bool" where
  "d_eq X a b \<equiv> d_cmp X a b = Equal"

abbreviation d_le :: "deps \<Rightarrow> decimal \<Rightarrow> decimal \<Rightarrow> bool" where
  "d_le X a b \<equiv> d_cmp X a b \<noteq> Greater"

section \<open>Documented laws\<close>

text \<open>Comparison, equality and the zero and sign tests are those of the represented number.\<close>

definition order_laws :: "deps \<Rightarrow> bool" where
  "order_laws X \<longleftrightarrow>
     (\<forall>a b. d_cmp X a b = cmp_of (dec_val a) (dec_val b)) \<and>
     (\<forall>a. d_is_zero X a \<longleftrightarrow> dec_val a = 0) \<and>
     (\<forall>a. dec_val a \<noteq> 0 \<longrightarrow> (d_is_sign_negative X a \<longleftrightarrow> dec_val a < 0)) \<and>
     (\<forall>m s. dec_val (d_new X m s) = of_int m / 10 ^ s) \<and>
     (\<forall>n. dec_val (d_from_i64 X n) = of_int n)"

text \<open>
  Addition and subtraction are exact where the exact result is a number the type can hold:
  the crate rounds only when an aligned mantissa does not fit its 96 bits. \<open>holds s r\<close> says
  that \<open>r\<close> is a multiple of \<open>10 ^ (- s)\<close> whose mantissa at scale \<open>s\<close> fits.
\<close>

definition holds :: "nat \<Rightarrow> rat \<Rightarrow> bool" where
  "holds s r \<longleftrightarrow> s \<le> 28 \<and> (\<exists>k::int. \<bar>k\<bar> < 2 ^ 96 \<and> r = of_int k / 10 ^ s)"

definition sum_laws :: "deps \<Rightarrow> nat \<Rightarrow> bool" where
  "sum_laws X s \<longleftrightarrow>
     (\<forall>a b c. holds s (dec_val a) \<longrightarrow> holds s (dec_val b) \<longrightarrow> holds s (dec_val a + dec_val b) \<longrightarrow>
        d_checked_add X a b = Some c \<longrightarrow> dec_val c = dec_val a + dec_val b) \<and>
     (\<forall>a b c. holds s (dec_val a) \<longrightarrow> holds s (dec_val b) \<longrightarrow> holds s (dec_val a - dec_val b) \<longrightarrow>
        d_checked_sub X a b = Some c \<longrightarrow> dec_val c = dec_val a - dec_val b)"

text \<open>They fail only where the result is out of range.\<close>

definition sum_total :: "deps \<Rightarrow> nat \<Rightarrow> bool" where
  "sum_total X s \<longleftrightarrow>
     (\<forall>a b. holds s (dec_val a) \<longrightarrow> holds s (dec_val b) \<longrightarrow> holds s (dec_val a + dec_val b) \<longrightarrow>
        d_checked_add X a b \<noteq> None) \<and>
     (\<forall>a b. holds s (dec_val a) \<longrightarrow> holds s (dec_val b) \<longrightarrow> holds s (dec_val a - dec_val b) \<longrightarrow>
        d_checked_sub X a b \<noteq> None)"

text \<open>\<open>Date::saturating_add\<close> stops at the last day of the year 9999, and at the first of -9999.\<close>

definition calendar_laws :: "deps \<Rightarrow> bool" where
  "calendar_laws X \<longleftrightarrow> (\<forall>d n. t_saturating_add_days X d n = max (- 1930999) (min 5373484 (d + n)))"

text \<open>\<open>ethnum::I256\<close>: a product that fits 256 bits is the mathematical product.\<close>

definition i256_laws :: "deps \<Rightarrow> bool" where
  "i256_laws X \<longleftrightarrow> (\<forall>a b. - (2 ^ 255) \<le> a * b \<longrightarrow> a * b < 2 ^ 255 \<longrightarrow> i256_mul X a b = a * b)"

text \<open>A multiple of \<open>10 ^ (- s)\<close> of bounded size is held.\<close>

definition multiple :: "nat \<Rightarrow> rat \<Rightarrow> bool" where
  "multiple s r \<longleftrightarrow> (\<exists>k::int. r = of_int k / 10 ^ s)"

lemma multiple_0 [simp]: "multiple s 0"
  by (auto simp: multiple_def intro: exI [of _ 0])

lemma multiple_add: "multiple s a \<Longrightarrow> multiple s b \<Longrightarrow> multiple s (a + b)"
  unfolding multiple_def by (metis add_divide_distrib of_int_add)

lemma multiple_diff: "multiple s a \<Longrightarrow> multiple s b \<Longrightarrow> multiple s (a - b)"
  unfolding multiple_def by (metis diff_divide_distrib of_int_diff)

lemma holds_iff: "holds s r \<longleftrightarrow> s \<le> 28 \<and> multiple s r \<and> \<bar>r\<bar> * 10 ^ s < 2 ^ 96"
proof -
  have "\<bar>of_int k / 10 ^ s\<bar> * 10 ^ s < (2::rat) ^ 96 \<longleftrightarrow> \<bar>k\<bar> < 2 ^ 96" for k :: int
  proof -
    have "\<bar>of_int k / 10 ^ s\<bar> * 10 ^ s = (of_int \<bar>k\<bar> :: rat)" by (simp add: abs_divide)
    moreover have "(of_int \<bar>k\<bar> :: rat) < 2 ^ 96 \<longleftrightarrow> (of_int \<bar>k\<bar> :: rat) < of_int (2 ^ 96)" by simp
    ultimately show ?thesis by (simp only: of_int_less_iff)
  qed
  then show ?thesis by (auto simp: holds_def multiple_def)
qed

lemma holds_0 [simp]: "s \<le> 28 \<Longrightarrow> holds s 0"
  by (simp add: holds_iff)

section \<open>A record that satisfies the laws\<close>

text \<open>
  Used to show that hypotheses over \<open>deps\<close> can hold: exact arithmetic at an aligned scale,
  refused when the mantissa leaves 96 bits.
\<close>

definition ref_align :: "decimal \<Rightarrow> nat \<Rightarrow> int" where
  "ref_align d s = mantissa d * 10 ^ (s - scale d)"

definition ref_dec :: "int \<Rightarrow> nat \<Rightarrow> decimal option" where
  "ref_dec m s = (if \<bar>m\<bar> < 2 ^ 96 \<and> s \<le> 28 then Some (Decimal m s) else None)"

definition ref_add :: "decimal \<Rightarrow> decimal \<Rightarrow> decimal option" where
  "ref_add a b = (let s = max (scale a) (scale b) in ref_dec (ref_align a s + ref_align b s) s)"

definition ref_sub :: "decimal \<Rightarrow> decimal \<Rightarrow> decimal option" where
  "ref_sub a b = (let s = max (scale a) (scale b) in ref_dec (ref_align a s - ref_align b s) s)"

definition ref_mul :: "decimal \<Rightarrow> decimal \<Rightarrow> decimal option" where
  "ref_mul a b = ref_dec (mantissa a * mantissa b) (scale a + scale b)"

text \<open>Division to six places, truncated: enough for the concrete inputs it is used on.\<close>

definition ref_div :: "decimal \<Rightarrow> decimal \<Rightarrow> decimal option" where
  "ref_div a b = (if mantissa b = 0 then None
     else ref_dec (quot_to_zero (mantissa a * 10 ^ (6 + scale b)) (mantissa b * 10 ^ scale a)) 6)"

definition ref_cmp :: "decimal \<Rightarrow> decimal \<Rightarrow> ordering" where
  "ref_cmp a b = (let s = max (scale a) (scale b) in cmp_of (ref_align a s) (ref_align b s))"

definition ref_round :: "(int \<Rightarrow> int \<Rightarrow> bool) \<Rightarrow> decimal \<Rightarrow> nat \<Rightarrow> decimal" where
  "ref_round up d s = (if scale d \<le> s then d
     else let p = 10 ^ (scale d - s); q = \<bar>mantissa d\<bar> div p; r = \<bar>mantissa d\<bar> mod p
          in Decimal (sgn (mantissa d) * (if p < 2 * r \<or> (2 * r = p \<and> up q p) then q + 1 else q)) s)"

definition ref_trunc :: "decimal \<Rightarrow> decimal" where
  "ref_trunc d = Decimal (quot_to_zero (mantissa d) (10 ^ scale d)) 0"

definition ref_floor :: "decimal \<Rightarrow> decimal" where
  "ref_floor d = Decimal (mantissa d div 10 ^ scale d) 0"

function ref_strip :: "int \<Rightarrow> nat \<Rightarrow> decimal" where
  "ref_strip m 0 = Decimal m 0"
| "ref_strip m (Suc s) = (if m mod 10 = 0 then ref_strip (m div 10) s else Decimal m (Suc s))"
  by pat_completeness auto
termination by (relation "measure snd") auto

definition ref_deps :: deps where
  "ref_deps =
     \<lparr>d_checked_add = ref_add, d_checked_sub = ref_sub, d_checked_mul = ref_mul,
      d_checked_div = ref_div, d_cmp = ref_cmp,
      d_is_zero = (\<lambda>d. mantissa d = 0), d_is_sign_negative = (\<lambda>d. mantissa d < 0),
      d_new = Decimal, d_from_i64 = (\<lambda>n. Decimal n 0), d_abs = (\<lambda>d. Decimal \<bar>mantissa d\<bar> (scale d)),
      d_trunc = ref_trunc, d_floor = ref_floor,
      d_normalize = (\<lambda>d. ref_strip (mantissa d) (scale d)),
      d_round_half_away = ref_round (\<lambda>q p. True),
      d_round_half_even = ref_round (\<lambda>q p. odd q),
      d_to_string = (\<lambda>d. ''''), t_year = (\<lambda>d. d div 365),
      t_checked_add_days = (\<lambda>d n. if d + n \<le> 5373484 then Some (d + n) else None),
      t_saturating_add_days = (\<lambda>d n. max (- 1930999) (min 5373484 (d + n))),
      t_date_to_string = (\<lambda>d. ''''), i256_mul = (*)\<rparr>"

lemma dec_val_align: "scale d \<le> s \<Longrightarrow> dec_val d = of_int (ref_align d s) / 10 ^ s"
proof -
  assume "scale d \<le> s"
  then have "(10::rat) ^ s = 10 ^ scale d * 10 ^ (s - scale d)" by (simp flip: power_add)
  then show ?thesis by (simp add: dec_val_def ref_align_def)
qed

lemma ref_cmp_val: "ref_cmp a b = cmp_of (dec_val a) (dec_val b)"
proof -
  define s where "s = max (scale a) (scale b)"
  have "dec_val a = of_int (ref_align a s) / 10 ^ s" "dec_val b = of_int (ref_align b s) / 10 ^ s"
    by (simp_all add: s_def dec_val_align)
  moreover have "(0::rat) < 10 ^ s" by simp
  ultimately show ?thesis
    by (simp add: ref_cmp_def Let_def s_def [symmetric] cmp_of_def divide_less_cancel)
qed

lemma ref_add_val: "ref_add a b = Some c \<Longrightarrow> dec_val c = dec_val a + dec_val b"
proof -
  assume r: "ref_add a b = Some c"
  define s where "s = max (scale a) (scale b)"
  have "dec_val a = of_int (ref_align a s) / 10 ^ s" "dec_val b = of_int (ref_align b s) / 10 ^ s"
    by (simp_all add: s_def dec_val_align)
  with r show ?thesis
    by (auto simp: ref_add_def ref_dec_def Let_def s_def [symmetric] dec_val_def add_divide_distrib
        split: if_splits)
qed

lemma ref_sub_val: "ref_sub a b = Some c \<Longrightarrow> dec_val c = dec_val a - dec_val b"
proof -
  assume r: "ref_sub a b = Some c"
  define s where "s = max (scale a) (scale b)"
  have "dec_val a = of_int (ref_align a s) / 10 ^ s" "dec_val b = of_int (ref_align b s) / 10 ^ s"
    by (simp_all add: s_def dec_val_align)
  with r show ?thesis
    by (auto simp: ref_sub_def ref_dec_def Let_def s_def [symmetric] dec_val_def diff_divide_distrib
        split: if_splits)
qed

lemma dec_val_zero_iff: "dec_val d = 0 \<longleftrightarrow> mantissa d = 0"
  by (simp add: dec_val_def)

lemma dec_val_neg_iff: "dec_val d < 0 \<longleftrightarrow> mantissa d < 0"
  by (simp add: dec_val_def divide_less_0_iff)

lemma ref_order_laws: "order_laws ref_deps"
  by (simp add: order_laws_def ref_deps_def ref_cmp_val dec_val_zero_iff dec_val_neg_iff)
     (simp add: dec_val_def)

lemma ref_sum_laws: "sum_laws ref_deps s"
  by (simp add: sum_laws_def ref_deps_def ref_add_val ref_sub_val)

lemma ref_i256_laws: "i256_laws ref_deps"
  by (simp add: i256_laws_def ref_deps_def)

text \<open>Consequences of the laws the components use.\<close>

lemma order_lawsD:
  assumes "order_laws X"
  shows "d_cmp X a b = cmp_of (dec_val a) (dec_val b)"
    and "d_is_zero X a \<longleftrightarrow> dec_val a = 0"
    and "dec_val a \<noteq> 0 \<Longrightarrow> d_is_sign_negative X a \<longleftrightarrow> dec_val a < 0"
    and "dec_val (d_new X m s) = of_int m / 10 ^ s"
    and "dec_val (d_from_i64 X n) = of_int n"
  using assms by (simp_all add: order_laws_def)

lemma sum_lawsD:
  assumes "sum_laws X s" "holds s (dec_val a)" "holds s (dec_val b)"
  shows "holds s (dec_val a + dec_val b) \<Longrightarrow> d_checked_add X a b = Some c \<Longrightarrow> dec_val c = dec_val a + dec_val b"
    and "holds s (dec_val a - dec_val b) \<Longrightarrow> d_checked_sub X a b = Some c \<Longrightarrow> dec_val c = dec_val a - dec_val b"
  using assms unfolding sum_laws_def by blast+

end
