(* ===== verification/Numeric.thy ===== *)
theory Numeric
  imports Deps
begin

text \<open>
  The exact mode of the core (\<open>numeric/exact.rs\<close>): reduced fractions over \<open>i128\<close>, and the
  monetary mode's wrapper \<open>Dec\<close> (\<open>numeric/decimal.rs\<close>) around the decimal crate. The
  lemmas show that a constructed fraction is in lowest terms with a positive denominator,
  that every operation that returns computes the rational operation, and that equality and
  order of fractions are those of the rationals.
\<close>

section \<open>Errors\<close>

datatype numeric_error =
    ZeroDenominator
  | DivisionByZero
  | Overflow
  | ScaleTooLarge nat nat

section \<open>Exact fractions\<close>

record exact =
  ex_num :: int
  ex_den :: int

text \<open>Euclid's loop on unsigned 128-bit values.\<close>

fun gcd_loop :: "nat \<Rightarrow> nat \<Rightarrow> nat" where
  "gcd_loop a b = (if b \<noteq> 0 then gcd_loop b (a mod b) else a)"

declare gcd_loop.simps [simp del]

text \<open>The cast \<open>as i128\<close> of an unsigned 128-bit value.\<close>

definition u128_as_i128 :: "nat \<Rightarrow> int" where
  "u128_as_i128 g = (if g < 2 ^ 127 then int g else int g - 2 ^ 128)"

definition from_ratio :: "int \<Rightarrow> int \<Rightarrow> (exact, numeric_error) result" where
  "from_ratio n d =
     (if d = 0 then Err ZeroDenominator
      else and_then
        (if d < 0
         then and_then (ok_or (to_i128 (- n)) Overflow) (\<lambda>n'.
              and_then (ok_or (to_i128 (- d)) Overflow) (\<lambda>d'. Ok (n', d')))
         else Ok (n, d))
        (\<lambda>(n', d'). let g = u128_as_i128 (gcd_loop (nat \<bar>n'\<bar>) (nat \<bar>d'\<bar>))
                    in Ok \<lparr>ex_num = quot_to_zero n' g, ex_den = quot_to_zero d' g\<rparr>))"

definition exact_new :: "int \<Rightarrow> int \<Rightarrow> (exact, numeric_error) result" where
  "exact_new n d = from_ratio n d"

definition exact_from_int :: "int \<Rightarrow> exact" where
  "exact_from_int v = \<lparr>ex_num = v, ex_den = 1\<rparr>"

definition exact_zero :: exact where
  "exact_zero = \<lparr>ex_num = 0, ex_den = 1\<rparr>"

definition exact_is_zero :: "exact \<Rightarrow> bool" where
  "exact_is_zero a \<longleftrightarrow> ex_num a = 0"

definition exact_add :: "exact \<Rightarrow> exact \<Rightarrow> (exact, numeric_error) result" where
  "exact_add a b =
     and_then (expect (Option.bind (to_i128 (ex_num a * ex_den b)) (\<lambda>x.
                       Option.bind (to_i128 (ex_num b * ex_den a)) (\<lambda>y. to_i128 (x + y))))) (\<lambda>n.
     and_then (expect (to_i128 (ex_den a * ex_den b))) (\<lambda>d.
     expect_ok (exact_new n d)))"

definition exact_neg :: "exact \<Rightarrow> (exact, numeric_error) result" where
  "exact_neg a = and_then (ok_or (to_i128 (- ex_num a)) Overflow) (\<lambda>n.
     Ok \<lparr>ex_num = n, ex_den = ex_den a\<rparr>)"

definition exact_sub :: "exact \<Rightarrow> exact \<Rightarrow> (exact, numeric_error) result" where
  "exact_sub a b = and_then (exact_neg b) (\<lambda>b'. exact_add a b')"

definition exact_mul :: "exact \<Rightarrow> exact \<Rightarrow> (exact, numeric_error) result" where
  "exact_mul a b =
     and_then (expect (to_i128 (ex_num a * ex_num b))) (\<lambda>n.
     and_then (expect (to_i128 (ex_den a * ex_den b))) (\<lambda>d.
     expect_ok (exact_new n d)))"

definition exact_div :: "exact \<Rightarrow> exact \<Rightarrow> (exact, numeric_error) result" where
  "exact_div a b =
     (if exact_is_zero b then Err DivisionByZero
      else and_then (ok_or (to_i128 (ex_num a * ex_den b)) Overflow) (\<lambda>n.
           and_then (ok_or (to_i128 (ex_den a * ex_num b)) Overflow) (\<lambda>d.
           exact_new n d)))"

definition exact_sum :: "exact list \<Rightarrow> (exact, numeric_error) result" where
  "exact_sum items = try_fold exact_add exact_zero items"

definition exact_cmp :: "deps \<Rightarrow> exact \<Rightarrow> exact \<Rightarrow> ordering" where
  "exact_cmp X a b =
     (let lhs = i256_mul X (ex_num a) (ex_den b); rhs = i256_mul X (ex_num b) (ex_den a)
      in cmp_of lhs rhs)"

section \<open>The type invariant and the represented number\<close>

definition exact_ok :: "exact \<Rightarrow> bool" where
  "exact_ok a \<longleftrightarrow> i128 (ex_num a) \<and> i128 (ex_den a) \<and> 0 < ex_den a \<and> coprime (ex_num a) (ex_den a)"

definition exact_val :: "exact \<Rightarrow> rat" where
  "exact_val a = of_int (ex_num a) / of_int (ex_den a)"

lemma gcd_loop_eq: "gcd_loop a b = gcd a b"
proof (induction a b rule: gcd_loop.induct)
  case (1 a b)
  show ?case
  proof (cases "b = 0")
    case False
    then have "gcd_loop a b = gcd_loop b (a mod b)" by (subst gcd_loop.simps) (rule if_P)
    also have "\<dots> = gcd b (a mod b)" using False by (rule 1)
    also have "\<dots> = gcd a b" by (rule gcd_red_nat [symmetric])
    finally show ?thesis .
  qed (simp add: gcd_loop.simps)
qed

lemma gcd_loop_eval:
  "gcd_loop a 0 = a" "gcd_loop a (Suc 0) = 1" "gcd_loop a (numeral k) = gcd_loop (numeral k) (a mod numeral k)"
  unfolding gcd_loop_eq using gcd_red_nat [of a "numeral k"] by simp_all

lemma gcd_loop_int: "int (gcd_loop (nat \<bar>n\<bar>) (nat \<bar>d\<bar>)) = gcd n d"
  unfolding gcd_loop_eq gcd_int_def ..

text \<open>The gcd of an \<open>i128\<close> numerator and a positive \<open>i128\<close> denominator survives the cast.\<close>

lemma gcd_cast:
  assumes "i128 d" "0 < d"
  shows "u128_as_i128 (gcd_loop (nat \<bar>n\<bar>) (nat \<bar>d\<bar>)) = gcd n d"
proof -
  have "gcd n d \<le> d" using assms(2) by (simp add: gcd_le2_int)
  then have "int (gcd_loop (nat \<bar>n\<bar>) (nat \<bar>d\<bar>)) < 2 ^ 127"
    using assms(1) by (simp add: gcd_loop_int i128_defs)
  then have "gcd_loop (nat \<bar>n\<bar>) (nat \<bar>d\<bar>) < 2 ^ 127"
    by (metis of_nat_less_iff of_nat_numeral of_nat_power)
  then show ?thesis by (simp add: u128_as_i128_def gcd_loop_int)
qed

lemma i128_div_le:
  assumes "i128 x" "x = q * g" "0 < g"
  shows "i128 q"
proof -
  have "q \<le> x" if "0 \<le> q" using that assms(2,3) by (simp add: mult_le_cancel_left1)
  moreover have "x \<le> q" if "q < 0" using that assms(2,3) by (simp add: mult_le_cancel_left2)
  ultimately show ?thesis using assms(1) by (cases "0 \<le> q") (auto simp: i128_defs)
qed

text \<open>Reducing a fraction with a positive denominator.\<close>

lemma reduce_ok:
  assumes "i128 n" "i128 d" "0 < d"
  defines "g \<equiv> gcd n d"
  defines "e \<equiv> \<lparr>ex_num = quot_to_zero n g, ex_den = quot_to_zero d g\<rparr>"
  shows "exact_ok e \<and> exact_val e = of_int n / of_int d"
proof -
  have g: "0 < g" using assms(3) by (simp add: g_def)
  have n: "n = quot_to_zero n g * g" and d: "d = quot_to_zero d g * g"
    using quot_to_zero_dvd [of g n] quot_to_zero_dvd [of g d] g by (simp_all add: g_def)
  have "0 < quot_to_zero d g" using d g assms(3) by (metis zero_less_mult_pos2)
  moreover have "coprime (quot_to_zero n g) (quot_to_zero d g)"
  proof -
    have "quot_to_zero n g = n div g" "quot_to_zero d g = d div g"
      using n d g by (metis nonzero_mult_div_cancel_right less_irrefl)+
    then show ?thesis unfolding g_def using assms(3) by (simp add: div_gcd_coprime)
  qed
  moreover have "i128 (quot_to_zero n g)" "i128 (quot_to_zero d g)"
    using assms(1,2) n d g i128_div_le by blast+
  moreover have "(of_int n :: rat) / of_int d = of_int (quot_to_zero n g) / of_int (quot_to_zero d g)"
  proof -
    have "(of_int n :: rat) = of_int (quot_to_zero n g) * of_int g"
      "(of_int d :: rat) = of_int (quot_to_zero d g) * of_int g"
      using n d by (metis of_int_mult)+
    then show ?thesis using g by simp
  qed
  ultimately show ?thesis by (simp add: e_def exact_ok_def exact_val_def)
qed

lemma from_ratio_pos:
  assumes "i128 n" "i128 d" "0 < d"
  shows "\<exists>e. from_ratio n d = Ok e \<and> exact_ok e \<and> exact_val e = of_int n / of_int d"
proof -
  have "u128_as_i128 (gcd_loop (nat \<bar>n\<bar>) (nat d)) = gcd n d"
    using gcd_cast [OF assms(2,3), of n] assms(3) by simp
  then show ?thesis
    using reduce_ok [OF assms] assms by (simp add: from_ratio_def Let_def)
qed

lemma from_ratio_neg:
  assumes "i128 n" "i128 d" "d < 0" "i128 (- n)" "i128 (- d)"
  shows "\<exists>e. from_ratio n d = Ok e \<and> exact_ok e \<and> exact_val e = of_int n / of_int d"
proof -
  have "0 < - d" using assms(3) by simp
  have cast: "u128_as_i128 (gcd_loop (nat \<bar>n\<bar>) (nat \<bar>d\<bar>)) = gcd (- n) (- d)"
    using gcd_cast [OF assms(5) \<open>0 < - d\<close>, of "- n"] by simp
  show ?thesis
    using reduce_ok [OF assms(4,5) \<open>0 < - d\<close>] assms cast
    by (simp add: from_ratio_def Let_def to_i128_def)
qed

lemma exact_new_Ok:
  assumes "i128 n" "i128 d" "exact_new n d = Ok e"
  shows "exact_ok e \<and> exact_val e = of_int n / of_int d"
proof (cases "0 < d")
  case True
  then show ?thesis using from_ratio_pos [OF assms(1,2)] assms(3) by (auto simp: exact_new_def)
next
  case False
  moreover from assms(3) have "d \<noteq> 0" by (auto simp: exact_new_def from_ratio_def)
  ultimately have "d < 0" by simp
  moreover from assms(3) \<open>d < 0\<close> have "i128 (- n)" "i128 (- d)"
    by (auto simp: exact_new_def from_ratio_def)
  ultimately show ?thesis using from_ratio_neg [OF assms(1,2)] assms(3) by (auto simp: exact_new_def)
qed

lemma exact_new_pos_never_fails:
  "i128 n \<Longrightarrow> i128 d \<Longrightarrow> 0 < d \<Longrightarrow> \<exists>e. exact_new n d = Ok e"
  using from_ratio_pos by (auto simp: exact_new_def)

lemma exact_okD:
  "exact_ok a \<Longrightarrow> i128 (ex_num a)" "exact_ok a \<Longrightarrow> i128 (ex_den a)" "exact_ok a \<Longrightarrow> 0 < ex_den a"
  by (simp_all add: exact_ok_def)

lemma exact_val_0_iff: "exact_ok a \<Longrightarrow> exact_val a = 0 \<longleftrightarrow> exact_is_zero a"
  by (auto simp: exact_val_def exact_is_zero_def exact_ok_def)

lemma exact_zero_ok: "exact_ok exact_zero" "exact_val exact_zero = 0"
  by (simp_all add: exact_ok_def exact_zero_def exact_val_def i128_defs)

lemma exact_val_add_frac:
  "exact_ok a \<Longrightarrow> exact_ok b \<Longrightarrow>
   exact_val a + exact_val b =
     of_int (ex_num a * ex_den b + ex_num b * ex_den a) / of_int (ex_den a * ex_den b)"
  by (simp add: exact_val_def exact_ok_def add_frac_eq)

lemma exact_add_Ok:
  assumes "exact_ok a" "exact_ok b" "exact_add a b = Ok c"
  shows "exact_ok c \<and> exact_val c = exact_val a + exact_val b"
proof -
  have n: "i128 (ex_num a * ex_den b + ex_num b * ex_den a)" and d: "i128 (ex_den a * ex_den b)"
    and c: "exact_new (ex_num a * ex_den b + ex_num b * ex_den a) (ex_den a * ex_den b) = Ok c"
    using assms(3) by (auto simp: exact_add_def bind_eq_Some_conv)
  show ?thesis using exact_new_Ok [OF n d c] exact_val_add_frac [OF assms(1,2)] by simp
qed

lemma exact_neg_Ok:
  "exact_ok a \<Longrightarrow> exact_neg a = Ok c \<Longrightarrow> exact_ok c \<and> exact_val c = - exact_val a"
  by (auto simp: exact_neg_def exact_ok_def exact_val_def)

lemma exact_mul_Ok:
  assumes "exact_mul a b = Ok c"
  shows "exact_ok c \<and> exact_val c = exact_val a * exact_val b"
proof -
  have n: "i128 (ex_num a * ex_num b)" and d: "i128 (ex_den a * ex_den b)"
    and c: "exact_new (ex_num a * ex_num b) (ex_den a * ex_den b) = Ok c"
    using assms by (auto simp: exact_mul_def)
  show ?thesis using exact_new_Ok [OF n d c] by (simp add: exact_val_def)
qed

lemma exact_div_Ok:
  assumes "exact_div a b = Ok c"
  shows "exact_ok c \<and> exact_val c = exact_val a / exact_val b"
proof -
  have n: "i128 (ex_num a * ex_den b)" and d: "i128 (ex_den a * ex_num b)"
    and c: "exact_new (ex_num a * ex_den b) (ex_den a * ex_num b) = Ok c"
    using assms by (auto simp: exact_div_def split: if_splits)
  show ?thesis using exact_new_Ok [OF n d c] by (simp add: exact_val_def)
qed

lemma exact_sum_Ok_aux:
  assumes "\<forall>x \<in> set xs. exact_ok x" "exact_ok s" "try_fold exact_add s xs = Ok t"
  shows "exact_ok t \<and> exact_val t = exact_val s + (\<Sum>x\<leftarrow>xs. exact_val x)"
  using assms
proof (induction xs arbitrary: s)
  case (Cons x xs)
  from Cons.prems(3) obtain u where u: "exact_add s x = Ok u" "try_fold exact_add u xs = Ok t" by auto
  have "exact_ok u" "exact_val u = exact_val s + exact_val x"
    using exact_add_Ok [OF Cons.prems(2) _ u(1)] Cons.prems(1) by simp_all
  with Cons.IH [OF _ _ u(2)] Cons.prems(1) show ?case by simp
qed simp

lemmas exact_ops_Ok = exact_new_Ok exact_add_Ok exact_neg_Ok exact_mul_Ok exact_div_Ok

section \<open>The monetary mode: \<open>Dec\<close>\<close>

definition dec_max_scale :: nat where
  "dec_max_scale = 18"

definition dec_zero :: decimal where
  "dec_zero = Decimal 0 0"

definition dec_one :: decimal where
  "dec_one = Decimal 1 0"

definition dec_checked_round_to_scale :: "deps \<Rightarrow> decimal \<Rightarrow> nat \<Rightarrow> (decimal, numeric_error) result" where
  "dec_checked_round_to_scale X d s =
     (if s > dec_max_scale then Err (ScaleTooLarge s dec_max_scale)
      else Ok (d_round_half_away X d s))"

definition dec_is_positive :: "deps \<Rightarrow> decimal \<Rightarrow> bool" where
  "dec_is_positive X d \<longleftrightarrow> \<not> d_is_sign_negative X d \<and> \<not> d_is_zero X d"

definition dec_is_negative :: "deps \<Rightarrow> decimal \<Rightarrow> bool" where
  "dec_is_negative X d \<longleftrightarrow> d_is_sign_negative X d \<and> \<not> d_is_zero X d"

definition dec_checked_add :: "deps \<Rightarrow> decimal \<Rightarrow> decimal \<Rightarrow> (decimal, numeric_error) result" where
  "dec_checked_add X a b = ok_or (d_checked_add X a b) Overflow"

definition dec_checked_sub :: "deps \<Rightarrow> decimal \<Rightarrow> decimal \<Rightarrow> (decimal, numeric_error) result" where
  "dec_checked_sub X a b = ok_or (d_checked_sub X a b) Overflow"

definition dec_checked_mul :: "deps \<Rightarrow> decimal \<Rightarrow> decimal \<Rightarrow> (decimal, numeric_error) result" where
  "dec_checked_mul X a b = ok_or (d_checked_mul X a b) Overflow"

definition dec_checked_neg :: "deps \<Rightarrow> decimal \<Rightarrow> (decimal, numeric_error) result" where
  "dec_checked_neg X a = dec_checked_sub X dec_zero a"

definition dec_checked_div :: "deps \<Rightarrow> decimal \<Rightarrow> decimal \<Rightarrow> (decimal, numeric_error) result" where
  "dec_checked_div X a b =
     (if d_is_zero X b then Err DivisionByZero else ok_or (d_checked_div X a b) Overflow)"

definition dec_sum :: "deps \<Rightarrow> decimal list \<Rightarrow> (decimal, numeric_error) result" where
  "dec_sum X items = try_fold (dec_checked_add X) dec_zero items"

definition dec_to_exact :: "decimal \<Rightarrow> (exact, numeric_error) result" where
  "dec_to_exact d =
     (if scale d > dec_max_scale then Err (ScaleTooLarge (scale d) dec_max_scale)
      else and_then (ok_or (to_i128 (10 ^ scale d)) Overflow) (\<lambda>den. exact_new (mantissa d) den))"

text \<open>The sign predicates split the numbers in three.\<close>

lemma dec_sign_cases:
  assumes "order_laws X"
  shows "dec_is_positive X d \<longleftrightarrow> 0 < dec_val d" "dec_is_negative X d \<longleftrightarrow> dec_val d < 0"
  using order_lawsD(2,3) [OF assms, of d]
  by (auto simp: dec_is_positive_def dec_is_negative_def not_less less_le)

lemma pow10_i128: "s \<le> 18 \<Longrightarrow> i128 (10 ^ s)"
proof -
  assume "s \<le> 18"
  then have "(10::int) ^ s \<le> 10 ^ 18" by (rule power_increasing) simp
  then show ?thesis by (simp add: i128_defs order.trans [OF _ zero_le_power])
qed

lemma dec_to_exact_Ok:
  assumes "i128 (mantissa d)" "scale d \<le> 18"
  shows "\<exists>e. dec_to_exact d = Ok e \<and> exact_ok e \<and> exact_val e = dec_val d"
proof -
  have "\<exists>e. exact_new (mantissa d) (10 ^ scale d) = Ok e"
    using exact_new_pos_never_fails [OF assms(1) pow10_i128 [OF assms(2)]] by simp
  then show ?thesis
    using exact_new_Ok [OF assms(1) pow10_i128 [OF assms(2)]] assms pow10_i128 [OF assms(2)]
    by (auto simp: dec_to_exact_def dec_max_scale_def dec_val_def to_i128_def)
qed

section \<open>Properties\<close>

lemma exact_new_error_cases:
  assumes "i128 n" "i128 d"
  shows "exact_new n d = Err e \<longleftrightarrow>
    (d = 0 \<and> e = ZeroDenominator) \<or> (d < 0 \<and> (n = i128_min \<or> d = i128_min) \<and> e = Overflow)"
proof -
  have neg: "i128 (- x) \<longleftrightarrow> x \<noteq> i128_min" if "i128 x" for x
    using that by (auto simp: i128_defs)
  consider "d = 0" | "0 < d" | "d < 0" by linarith
  then show ?thesis
  proof cases
    case 3
    then show ?thesis
      using neg [OF assms(1)] neg [OF assms(2)]
      by (cases "n = i128_min"; cases "d = i128_min")
         (auto simp: exact_new_def from_ratio_def to_i128_def Let_def)
  qed (auto simp: exact_new_def from_ratio_def Let_def)
qed

text \<open>
  Building a fraction from two \<open>i128\<close> values never panics: it refuses a zero
  denominator, refuses with an overflow exactly when a sign flip would leave the range, and
  otherwise returns the fraction in lowest terms with a positive denominator.
\<close>

lemma exact_new_correct:
  assumes "i128 n" "i128 d"
  shows "exact_new n d =
    (if d = 0 then Err ZeroDenominator
     else if d < 0 \<and> (n = i128_min \<or> d = i128_min) then Err Overflow
     else Ok \<lparr>ex_num = fst (quotient_of (Fract n d)), ex_den = snd (quotient_of (Fract n d))\<rparr>)"
proof (cases "exact_new n d")
  case (Ok e)
  then have ne: "d \<noteq> 0" "\<not> (d < 0 \<and> (n = i128_min \<or> d = i128_min))"
    using exact_new_error_cases [OF assms] by (metis result.distinct(1))+
  have e: "exact_ok e" "exact_val e = Fract n d"
    using exact_new_Ok [OF assms Ok] by (simp_all add: Fract_of_int_quotient)
  then have "quotient_of (Fract n d) = (ex_num e, ex_den e)"
    using quotient_of_Fract [of "ex_num e" "ex_den e"]
    by (simp add: exact_val_def exact_ok_def Rat.normalize_def flip: Fract_of_int_quotient)
  with Ok ne show ?thesis by simp
next
  case (Err e)
  then show ?thesis using exact_new_error_cases [OF assms, of e] by auto
next
  case Panic
  then show ?thesis
    by (auto simp: exact_new_def from_ratio_def and_then_eq_Panic Let_def split: if_splits)
qed

text \<open>
  (C29) Refinement of exact arithmetic: whenever addition, subtraction, multiplication,
  division or summation of fractions in lowest terms returns, the result is again in lowest
  terms and represents the rational result.
\<close>

theorem exact_arithmetic_refines_rationals:
  assumes "exact_ok a" "exact_ok b" "\<forall>x \<in> set xs. exact_ok x"
  shows "(\<forall>c. exact_add a b = Ok c \<longrightarrow> exact_ok c \<and> exact_val c = exact_val a + exact_val b) \<and>
         (\<forall>c. exact_sub a b = Ok c \<longrightarrow> exact_ok c \<and> exact_val c = exact_val a - exact_val b) \<and>
         (\<forall>c. exact_mul a b = Ok c \<longrightarrow> exact_ok c \<and> exact_val c = exact_val a * exact_val b) \<and>
         (\<forall>c. exact_div a b = Ok c \<longrightarrow> exact_ok c \<and> exact_val c = exact_val a / exact_val b) \<and>
         (\<forall>c. exact_sum xs = Ok c \<longrightarrow> exact_ok c \<and> exact_val c = (\<Sum>x\<leftarrow>xs. exact_val x))"
proof -
  have sub: "exact_ok c \<and> exact_val c = exact_val a - exact_val b" if h: "exact_sub a b = Ok c" for c
  proof -
    from h obtain b' where b': "exact_neg b = Ok b'" "exact_add a b' = Ok c"
      by (auto simp: exact_sub_def)
    then have "exact_ok b'" "exact_val b' = - exact_val b" using exact_neg_Ok assms(2) by blast+
    then show ?thesis using exact_add_Ok [OF assms(1) _ b'(2)] by simp
  qed
  have sum: "exact_ok c \<and> exact_val c = (\<Sum>x\<leftarrow>xs. exact_val x)" if h: "exact_sum xs = Ok c" for c
    using exact_sum_Ok_aux [OF assms(3) exact_zero_ok(1), of c] h
    by (simp add: exact_sum_def exact_zero_ok(2))
  have "\<forall>c. exact_add a b = Ok c \<longrightarrow> exact_ok c \<and> exact_val c = exact_val a + exact_val b"
    using exact_add_Ok [OF assms(1,2)] by simp
  moreover have "\<forall>c. exact_mul a b = Ok c \<longrightarrow> exact_ok c \<and> exact_val c = exact_val a * exact_val b"
    using exact_mul_Ok by blast
  moreover have "\<forall>c. exact_div a b = Ok c \<longrightarrow> exact_ok c \<and> exact_val c = exact_val a / exact_val b"
    using exact_div_Ok by blast
  ultimately show ?thesis using sub sum by simp
qed

theorem exact_arithmetic_refines_rationals_witness:
  "exact_add \<lparr>ex_num = 1, ex_den = 2\<rparr> \<lparr>ex_num = 1, ex_den = 3\<rparr> = Ok \<lparr>ex_num = 5, ex_den = 6\<rparr> \<and>
   exact_val \<lparr>ex_num = 5, ex_den = 6\<rparr> =
     exact_val \<lparr>ex_num = 1, ex_den = 2\<rparr> + exact_val \<lparr>ex_num = 1, ex_den = 3\<rparr>"
proof -
  have ok: "exact_ok \<lparr>ex_num = 1, ex_den = 2\<rparr>" "exact_ok \<lparr>ex_num = 1, ex_den = 3\<rparr>"
    by (simp_all add: exact_ok_def i128_defs)
  have "exact_add \<lparr>ex_num = 1, ex_den = 2\<rparr> \<lparr>ex_num = 1, ex_den = 3\<rparr> = Ok \<lparr>ex_num = 5, ex_den = 6\<rparr>"
    by (simp add: exact_add_def exact_new_def from_ratio_def gcd_loop_eval u128_as_i128_def
        quot_to_zero_def i128_defs to_i128_def)
  then show ?thesis
    using exact_arithmetic_refines_rationals [OF ok, of "[]"] by simp
qed

lemma i128_product_fits:
  assumes "i128 a" "i128 b"
  shows "- (2 ^ 255) \<le> a * b" "a * b < 2 ^ 255"
proof -
  have "\<bar>a\<bar> \<le> 2 ^ 127" "\<bar>b\<bar> \<le> 2 ^ 127" using assms by (auto simp: i128_defs)
  then have "\<bar>a * b\<bar> \<le> 2 ^ 127 * 2 ^ 127" unfolding abs_mult by (rule mult_mono) auto
  then show "- (2 ^ 255) \<le> a * b" "a * b < 2 ^ 255" by (auto simp: abs_le_iff)
qed

lemma exact_eq_iff_val:
  assumes "exact_ok a" "exact_ok b"
  shows "a = b \<longleftrightarrow> exact_val a = exact_val b"
proof
  have q: "quotient_of (exact_val e) = (ex_num e, ex_den e)" if "exact_ok e" for e
    using that quotient_of_Fract [of "ex_num e" "ex_den e"]
    by (simp add: exact_val_def exact_ok_def Rat.normalize_def flip: Fract_of_int_quotient)
  assume "exact_val a = exact_val b"
  then have "(ex_num a, ex_den a) = (ex_num b, ex_den b)" using q assms by metis
  then show "a = b" by (cases a, cases b) auto
qed simp

text \<open>
  The order and the structural equality of fractions are those of the rationals they
  represent: the 256-bit cross products of the comparison cannot leave their range.
\<close>

lemma exact_order_is_rational_order:
  assumes "i256_laws X" "exact_ok a" "exact_ok b"
  shows "exact_cmp X a b = cmp_of (exact_val a) (exact_val b) \<and> (a = b \<longleftrightarrow> exact_val a = exact_val b)"
proof -
  have prod: "i256_mul X (ex_num x) (ex_den y) = ex_num x * ex_den y" if "exact_ok x" "exact_ok y" for x y
    using assms(1) i128_product_fits [of "ex_num x" "ex_den y"] that
    by (simp add: i256_laws_def exact_okD)
  have "cmp_of (ex_num a * ex_den b) (ex_num b * ex_den a) = cmp_of (exact_val a) (exact_val b)"
  proof -
    have pos: "0 < (of_int (ex_den a) :: rat)" "0 < (of_int (ex_den b) :: rat)"
      using assms by (simp_all add: exact_ok_def)
    have "exact_val a < exact_val b \<longleftrightarrow>
        (of_int (ex_num a) * of_int (ex_den b) :: rat) < of_int (ex_num b) * of_int (ex_den a)"
      using pos by (simp add: exact_val_def divide_less_eq less_divide_eq mult.commute mult.left_commute)
    then have "exact_val a < exact_val b \<longleftrightarrow> ex_num a * ex_den b < ex_num b * ex_den a"
      by (simp only: of_int_mult [symmetric] of_int_less_iff)
    moreover have "exact_val a = exact_val b \<longleftrightarrow>
        (of_int (ex_num a) * of_int (ex_den b) :: rat) = of_int (ex_num b) * of_int (ex_den a)"
      using pos by (simp add: exact_val_def frac_eq_eq)
    then have "exact_val a = exact_val b \<longleftrightarrow> ex_num a * ex_den b = ex_num b * ex_den a"
      by (simp only: of_int_mult [symmetric] of_int_eq_iff)
    ultimately show ?thesis by (simp add: cmp_of_def)
  qed
  then show ?thesis
    using assms by (simp add: exact_cmp_def Let_def prod exact_eq_iff_val)
qed

text \<open>
  A decimal converts to the exact mode without loss when its scale is at most 18, and
  is refused with its scale when it is larger.
\<close>

lemma dec_to_exact_lossless:
  assumes "i128 (mantissa d)"
  shows "if scale d \<le> 18
         then \<exists>e. dec_to_exact d = Ok e \<and> exact_ok e \<and> exact_val e = dec_val d
         else dec_to_exact d = Err (ScaleTooLarge (scale d) 18)"
  using dec_to_exact_Ok [OF assms] by (simp add: dec_to_exact_def dec_max_scale_def)

end
