(* ===== verification/Money.thy ===== *)
theory Money
  imports Numeric OrderedMap
begin

text \<open>
  Money and quantities (\<open>money.rs\<close>). A posted amount is an \<open>i64\<close> number of minor units
  with its currency; a calculated amount is a decimal with its currency. The lemmas show
  that addition, subtraction and summation either return the integer result in the one
  currency or a typed refusal, and that a posted amount converts to an exact fraction
  without loss.
\<close>

section \<open>Currencies\<close>

datatype currency_code = Rub | Usd | Eur | Cny | Xau

fun currency_index :: "currency_code \<Rightarrow> nat" where
  "currency_index Rub = 0"
| "currency_index Usd = 1"
| "currency_index Eur = 2"
| "currency_index Cny = 3"
| "currency_index Xau = 4"

lemma currency_index_inject [simp]: "currency_index a = currency_index b \<longleftrightarrow> a = b"
  by (cases a; cases b; simp)

text \<open>The derived \<open>Ord\<close> follows the declaration order.\<close>

instantiation currency_code :: linorder
begin

definition less_eq_currency_code :: "currency_code \<Rightarrow> currency_code \<Rightarrow> bool" where
  "less_eq_currency_code a b \<longleftrightarrow> currency_index a \<le> currency_index b"

definition less_currency_code :: "currency_code \<Rightarrow> currency_code \<Rightarrow> bool" where
  "less_currency_code a b \<longleftrightarrow> currency_index a < currency_index b"

instance
  by standard (auto simp: less_eq_currency_code_def less_currency_code_def)

end

definition currency_all :: "currency_code list" where
  "currency_all = [Rub, Usd, Eur, Cny, Xau]"

fun minor_units :: "currency_code \<Rightarrow> nat" where
  "minor_units Xau = 4"
| "minor_units c = 2"

fun currency_code_str :: "currency_code \<Rightarrow> string" where
  "currency_code_str Rub = ''RUB''"
| "currency_code_str Usd = ''USD''"
| "currency_code_str Eur = ''EUR''"
| "currency_code_str Cny = ''CNY''"
| "currency_code_str Xau = ''XAU''"

definition currency_from_code :: "string \<Rightarrow> currency_code option" where
  "currency_from_code code = find (\<lambda>c. currency_code_str c = code) currency_all"

lemma minor_units_le: "minor_units c \<le> 4"
  by (cases c) simp_all

lemma currency_code_str_inject [simp]: "currency_code_str a = currency_code_str b \<longleftrightarrow> a = b"
  by (cases a; cases b; simp)

section \<open>Posted amounts\<close>

type_synonym posted_minor = int

definition pm_checked_add :: "posted_minor \<Rightarrow> posted_minor \<Rightarrow> posted_minor option" where
  "pm_checked_add a b = to_i64 (a + b)"

definition pm_checked_sub :: "posted_minor \<Rightarrow> posted_minor \<Rightarrow> posted_minor option" where
  "pm_checked_sub a b = to_i64 (a - b)"

definition pm_checked_neg :: "posted_minor \<Rightarrow> posted_minor option" where
  "pm_checked_neg a = to_i64 (- a)"

lemmas pm_defs = pm_checked_add_def pm_checked_sub_def pm_checked_neg_def

type_synonym quantity = decimal

definition quantity_zero :: quantity where
  "quantity_zero = dec_zero"

definition sum_quantities :: "deps \<Rightarrow> quantity list \<Rightarrow> (quantity, numeric_error) result" where
  "sum_quantities X items = try_fold (\<lambda>total item. dec_checked_add X total item) quantity_zero items"

section \<open>Money\<close>

datatype money_error =
    CurrencyMismatch currency_code currency_code
  | MoneyOverflow
  | MoneyNumeric numeric_error

record money =
  m_amount :: posted_minor
  m_currency :: currency_code

definition money_new :: "posted_minor \<Rightarrow> currency_code \<Rightarrow> money" where
  "money_new a c = \<lparr>m_amount = a, m_currency = c\<rparr>"

definition money_zero :: "currency_code \<Rightarrow> money" where
  "money_zero c = \<lparr>m_amount = 0, m_currency = c\<rparr>"

definition money_is_zero :: "money \<Rightarrow> bool" where
  "money_is_zero m \<longleftrightarrow> m_amount m = 0"

definition require_same_currency :: "money \<Rightarrow> money \<Rightarrow> (unit, money_error) result" where
  "require_same_currency a b =
     ensure (m_currency a = m_currency b) (CurrencyMismatch (m_currency a) (m_currency b))"

definition try_add :: "money \<Rightarrow> money \<Rightarrow> (money, money_error) result" where
  "try_add a b =
     and_then (require_same_currency a b) (\<lambda>_.
     and_then (ok_or (pm_checked_add (m_amount a) (m_amount b)) MoneyOverflow) (\<lambda>amount.
     Ok \<lparr>m_amount = amount, m_currency = m_currency a\<rparr>))"

definition try_sub :: "money \<Rightarrow> money \<Rightarrow> (money, money_error) result" where
  "try_sub a b =
     and_then (require_same_currency a b) (\<lambda>_.
     and_then (ok_or (pm_checked_sub (m_amount a) (m_amount b)) MoneyOverflow) (\<lambda>amount.
     Ok \<lparr>m_amount = amount, m_currency = m_currency a\<rparr>))"

definition checked_negate :: "money \<Rightarrow> (money, money_error) result" where
  "checked_negate a =
     and_then (ok_or (pm_checked_neg (m_amount a)) MoneyOverflow) (\<lambda>amount.
     Ok \<lparr>m_amount = amount, m_currency = m_currency a\<rparr>)"

definition money_sum :: "money list \<Rightarrow> currency_code \<Rightarrow> (money, money_error) result" where
  "money_sum items c = try_fold try_add (money_zero c) items"

definition to_calc_dec :: "deps \<Rightarrow> money \<Rightarrow> decimal" where
  "to_calc_dec X m = d_new X (m_amount m) (minor_units (m_currency m))"

definition money_to_exact :: "money \<Rightarrow> (exact, money_error) result" where
  "money_to_exact m =
     and_then (ok_or (to_i128 (10 ^ minor_units (m_currency m))) (MoneyNumeric Overflow)) (\<lambda>den.
     map_err MoneyNumeric (exact_new (m_amount m) den))"

section \<open>Calculated amounts\<close>

record calc_money =
  c_value :: decimal
  c_currency :: currency_code

definition rounded_minor :: "deps \<Rightarrow> calc_money \<Rightarrow> (posted_minor, money_error) result" where
  "rounded_minor X c =
     and_then (map_err MoneyNumeric
        (dec_checked_round_to_scale X (c_value c) (minor_units (c_currency c)))) (\<lambda>rounded.
     let factor = d_from_i64 X (10 ^ minor_units (c_currency c)) in
     and_then (ok_or (d_checked_mul X rounded factor) (MoneyNumeric Overflow)) (\<lambda>product.
     ok_or (to_i64 (mantissa (d_normalize X product))) (MoneyNumeric Overflow)))"

definition calc_require_same_currency :: "calc_money \<Rightarrow> calc_money \<Rightarrow> (unit, money_error) result" where
  "calc_require_same_currency a b =
     ensure (c_currency a = c_currency b) (CurrencyMismatch (c_currency a) (c_currency b))"

definition calc_checked_add :: "deps \<Rightarrow> calc_money \<Rightarrow> calc_money \<Rightarrow> (calc_money, money_error) result" where
  "calc_checked_add X a b =
     and_then (calc_require_same_currency a b) (\<lambda>_.
     and_then (map_err MoneyNumeric (dec_checked_add X (c_value a) (c_value b))) (\<lambda>v.
     Ok \<lparr>c_value = v, c_currency = c_currency a\<rparr>))"

definition calc_checked_sub :: "deps \<Rightarrow> calc_money \<Rightarrow> calc_money \<Rightarrow> (calc_money, money_error) result" where
  "calc_checked_sub X a b =
     and_then (calc_require_same_currency a b) (\<lambda>_.
     and_then (map_err MoneyNumeric (dec_checked_sub X (c_value a) (c_value b))) (\<lambda>v.
     Ok \<lparr>c_value = v, c_currency = c_currency a\<rparr>))"

definition calc_checked_mul :: "deps \<Rightarrow> calc_money \<Rightarrow> decimal \<Rightarrow> (calc_money, money_error) result" where
  "calc_checked_mul X a f =
     and_then (map_err MoneyNumeric (dec_checked_mul X (c_value a) f)) (\<lambda>v.
     Ok \<lparr>c_value = v, c_currency = c_currency a\<rparr>)"

definition gross_for_fill :: "deps \<Rightarrow> calc_money \<Rightarrow> quantity \<Rightarrow> (calc_money, money_error) result" where
  "gross_for_fill X price q =
     and_then (calc_checked_mul X price q) (\<lambda>product.
     Ok \<lparr>c_value = c_value product, c_currency = c_currency product\<rparr>)"

record per_unit_amount =
  p_value :: decimal
  p_currency :: currency_code

definition checked_mul_quantity :: "deps \<Rightarrow> per_unit_amount \<Rightarrow> quantity \<Rightarrow> (decimal, numeric_error) result" where
  "checked_mul_quantity X p q = dec_checked_mul X (p_value p) q"

section \<open>Arithmetic of posted amounts\<close>

lemma try_add_Ok [simp]:
  "try_add a b = Ok c \<longleftrightarrow>
     m_currency a = m_currency b \<and> i64 (m_amount a + m_amount b) \<and>
     c = \<lparr>m_amount = m_amount a + m_amount b, m_currency = m_currency a\<rparr>"
  by (auto simp: try_add_def require_same_currency_def pm_defs)

lemma try_sub_Ok [simp]:
  "try_sub a b = Ok c \<longleftrightarrow>
     m_currency a = m_currency b \<and> i64 (m_amount a - m_amount b) \<and>
     c = \<lparr>m_amount = m_amount a - m_amount b, m_currency = m_currency a\<rparr>"
  by (auto simp: try_sub_def require_same_currency_def pm_defs)

lemma checked_negate_Ok [simp]:
  "checked_negate a = Ok c \<longleftrightarrow>
     i64 (- m_amount a) \<and> c = \<lparr>m_amount = - m_amount a, m_currency = m_currency a\<rparr>"
  by (auto simp: checked_negate_def pm_defs)

lemma money_ops_no_panic [simp]:
  "try_add a b \<noteq> Panic" "try_sub a b \<noteq> Panic" "checked_negate a \<noteq> Panic"
  by (simp_all add: try_add_def try_sub_def checked_negate_def require_same_currency_def
      and_then_eq_Panic)

lemma try_add_Err:
  "try_add a b = Err e \<longleftrightarrow>
     (m_currency a \<noteq> m_currency b \<and> e = CurrencyMismatch (m_currency a) (m_currency b)) \<or>
     (m_currency a = m_currency b \<and> \<not> i64 (m_amount a + m_amount b) \<and> e = MoneyOverflow)"
  by (auto simp: try_add_def require_same_currency_def pm_defs and_then_eq_Err)

lemma money_zero_simps [simp]:
  "m_amount (money_zero c) = 0" "m_currency (money_zero c) = c"
  "m_amount (money_new a c) = a" "m_currency (money_new a c) = c"
  by (simp_all add: money_zero_def money_new_def)

lemma money_is_zero_iff: "money_is_zero m \<longleftrightarrow> m = money_zero (m_currency m)"
  by (cases m) (auto simp: money_is_zero_def money_zero_def)

text \<open>A running sum: same currency throughout and every prefix in range.\<close>

definition prefixes_i64 :: "int \<Rightarrow> int list \<Rightarrow> bool" where
  "prefixes_i64 s xs \<longleftrightarrow> (\<forall>n. 1 \<le> n \<and> n \<le> length xs \<longrightarrow> i64 (s + sum_list (take n xs)))"

lemma prefixes_i64_Nil [simp]: "prefixes_i64 s []"
  by (simp add: prefixes_i64_def)

lemma prefixes_i64_Cons [simp]: "prefixes_i64 s (x # xs) \<longleftrightarrow> i64 (s + x) \<and> prefixes_i64 (s + x) xs"
proof -
  have "prefixes_i64 s (x # xs) \<longleftrightarrow>
        (\<forall>n\<le>length xs. i64 (s + sum_list (take (Suc n) (x # xs))))"
    unfolding prefixes_i64_def
    by (metis One_nat_def Suc_le_mono length_Cons not0_implies_Suc not_less_eq_eq le0)
  also have "\<dots> \<longleftrightarrow> i64 (s + x) \<and> (\<forall>n. 1 \<le> n \<and> n \<le> length xs \<longrightarrow> i64 (s + x + sum_list (take n xs)))"
    by (auto simp: add.assoc) (metis One_nat_def Suc_leI add.right_neutral not_gr_zero sum_list.Nil take_0)
  finally show ?thesis by (simp add: prefixes_i64_def)
qed

lemma try_fold_add_Ok:
  "try_fold try_add s items = Ok m \<longleftrightarrow>
     (\<forall>x \<in> set items. m_currency x = m_currency s) \<and>
     prefixes_i64 (m_amount s) (map m_amount items) \<and>
     m = \<lparr>m_amount = m_amount s + (\<Sum>x\<leftarrow>items. m_amount x), m_currency = m_currency s\<rparr>"
proof (induction items arbitrary: s)
  case Nil
  then show ?case by (cases s) auto
next
  case (Cons x items)
  show ?case by (auto simp: Cons.IH add.assoc)
qed

lemma money_sum_Ok [simp]:
  "money_sum items c = Ok m \<longleftrightarrow>
     (\<forall>x \<in> set items. m_currency x = c) \<and> prefixes_i64 0 (map m_amount items) \<and>
     m = \<lparr>m_amount = (\<Sum>x\<leftarrow>items. m_amount x), m_currency = c\<rparr>"
  by (auto simp: money_sum_def try_fold_add_Ok)

lemma money_sum_no_panic [simp]: "money_sum items c \<noteq> Panic"
  unfolding money_sum_def by (rule try_fold_never_panics [where P = "\<lambda>_. True"]) auto

section \<open>Accumulating posted amounts in an ordered map\<close>

text \<open>
  The pattern the read models share: \<open>entry(k).or_insert_with(|| PostedMinor::new(0))\<close>, then
  a checked addition through the slot.
\<close>

definition bt_checked_add :: "'k::linorder \<Rightarrow> posted_minor \<Rightarrow> ('k, posted_minor) btree \<Rightarrow> ('k, posted_minor) btree option" where
  "bt_checked_add k v m =
     map_option (\<lambda>t. bt_insert k t m)
       (pm_checked_add (case bt_get m k of None \<Rightarrow> 0 | Some t \<Rightarrow> t) v)"

lemma bt_checked_add_Some:
  "bt_checked_add k v m = Some m' \<longleftrightarrow>
     (let t = (case bt_get m k of None \<Rightarrow> 0 | Some t \<Rightarrow> t) + v in i64 t \<and> m' = bt_insert k t m)"
  by (auto simp: bt_checked_add_def pm_defs Let_def)

text \<open>What a slot holds after a list of postings.\<close>

definition posted_total :: "('k \<times> int) list \<Rightarrow> 'k \<Rightarrow> int" where
  "posted_total kvs k = (\<Sum>(j, v) \<leftarrow> kvs. if j = k then v else 0)"

definition accumulated :: "('k::linorder, int) btree \<Rightarrow> ('k \<times> int) list \<Rightarrow> bool" where
  "accumulated m kvs \<longleftrightarrow> bt_invar m \<and>
     (\<forall>k. bt_get m k = (if k \<in> fst ` set kvs then Some (posted_total kvs k) else None))"

lemma posted_total_Nil [simp]: "posted_total [] k = 0"
  by (simp add: posted_total_def)

lemma posted_total_append [simp]: "posted_total (xs @ ys) k = posted_total xs k + posted_total ys k"
  by (simp add: posted_total_def)

lemma posted_total_Cons [simp]: "posted_total (x # xs) k = (if fst x = k then snd x else 0) + posted_total xs k"
  by (simp add: posted_total_def case_prod_beta)

lemma posted_total_absent: "k \<notin> fst ` set kvs \<Longrightarrow> posted_total kvs k = 0"
  by (induction kvs) auto

lemma accumulated_Nil [simp]: "accumulated [] []"
  by (simp add: accumulated_def)

lemma accumulated_snoc:
  assumes "accumulated m kvs" "bt_checked_add k v m = Some m'"
  shows "accumulated m' (kvs @ [(k, v)])"
  using assms posted_total_absent [of k kvs]
  by (auto simp: accumulated_def bt_checked_add_Some Let_def split: if_splits)

lemma accumulated_get0:
  "accumulated m kvs \<Longrightarrow> (case bt_get m k of None \<Rightarrow> 0 | Some v \<Rightarrow> v) = posted_total kvs k"
  by (simp add: accumulated_def posted_total_absent)

lemma posted_total_filter:
  "(\<Sum>(j, v) \<leftarrow> filter (\<lambda>e. P (fst e)) kvs. v) = (\<Sum>(j, v) \<leftarrow> kvs. if P j then v else 0)"
  by (induction kvs) auto

lemma posted_total_sum:
  assumes "finite K" "fst ` set kvs \<subseteq> K"
  shows "(\<Sum>k \<in> K. if P k then posted_total kvs k else 0) = (\<Sum>(j, v) \<leftarrow> kvs. if P j then v else 0)"
  using assms(2)
proof (induction kvs)
  case (Cons e kvs)
  obtain j v where e: "e = (j, v)" by (cases e)
  have "(\<Sum>k \<in> K. if P k then posted_total (e # kvs) k else 0) =
        (\<Sum>k \<in> K. (if k = j then (if P j then v else 0) else 0) + (if P k then posted_total kvs k else 0))"
    by (rule sum.cong) (auto simp: e)
  also have "\<dots> = (if P j then v else 0) + (\<Sum>k \<in> K. if P k then posted_total kvs k else 0)"
    using assms(1) Cons.prems by (simp add: sum.distrib e)
  finally show ?case using Cons by (simp add: e)
qed (simp cong: if_cong)

text \<open>Summing selected slots of the map is summing the selected postings.\<close>

lemma accumulated_sum:
  assumes "accumulated m kvs"
  shows "(\<Sum>(j, v) \<leftarrow> m. if P j then v else 0) = (\<Sum>(j, v) \<leftarrow> kvs. if P j then v else 0)"
proof -
  have inv: "bt_invar m" using assms by (simp add: accumulated_def)
  have keys: "set (map fst m) = fst ` set kvs"
    using bt.set_keys [OF inv] assms by (auto simp: accumulated_def split: if_splits)
  have "(\<Sum>(j, v) \<leftarrow> m. if P j then v else 0) = (\<Sum>e \<leftarrow> m. if P (fst e) then posted_total kvs (fst e) else 0)"
  proof (rule arg_cong [of _ _ sum_list], rule map_cong [OF refl])
    fix e assume e: "e \<in> set m"
    then have "bt_get m (fst e) = Some (snd e)" using bt.get_entries [OF inv, of "fst e" "snd e"] by simp
    then have "snd e = posted_total kvs (fst e)" using assms by (auto simp: accumulated_def split: if_splits)
    then show "(case e of (j, v) \<Rightarrow> if P j then v else 0) = (if P (fst e) then posted_total kvs (fst e) else 0)"
      by (simp add: case_prod_beta)
  qed
  also have "\<dots> = (\<Sum>k \<in> fst ` set kvs. if P k then posted_total kvs k else 0)"
    using bt.distinct_keys [OF inv] keys
    by (simp add: sum_list_distinct_conv_sum_set distinct_map sum.reindex flip: keys)
  also have "\<dots> = (\<Sum>(j, v) \<leftarrow> kvs. if P j then v else 0)"
    by (rule posted_total_sum) auto
  finally show ?thesis .
qed

section \<open>Properties\<close>

text \<open>
  Summing posted amounts in a requested currency returns exactly their integer sum in
  that currency when every item has it and no running total leaves the \<open>i64\<close> range, and is
  refused otherwise; it never wraps and never panics.
\<close>

lemma money_sum_correct:
  "case money_sum items c of
     Ok m \<Rightarrow> (\<forall>x \<in> set items. m_currency x = c) \<and> prefixes_i64 0 (map m_amount items) \<and>
             m = \<lparr>m_amount = (\<Sum>x\<leftarrow>items. m_amount x), m_currency = c\<rparr>
   | Err e \<Rightarrow> \<not> ((\<forall>x \<in> set items. m_currency x = c) \<and> prefixes_i64 0 (map m_amount items))
   | Panic \<Rightarrow> False"
proof (cases "money_sum items c")
  case (Ok m)
  from Ok [unfolded money_sum_Ok] show ?thesis unfolding Ok by simp
next
  case (Err e)
  then have "money_sum items c \<noteq> Ok \<lparr>m_amount = (\<Sum>x\<leftarrow>items. m_amount x), m_currency = c\<rparr>" by simp
  then have "\<not> ((\<forall>x \<in> set items. m_currency x = c) \<and> prefixes_i64 0 (map m_amount items))"
    unfolding money_sum_Ok by blast
  then show ?thesis unfolding Err result.case .
qed simp

text \<open>
  A posted amount always converts to the exact mode, without loss: the fraction is the
  number of minor units over the power of ten of the currency.
\<close>

lemma money_to_exact_lossless:
  assumes "i64 (m_amount m)"
  shows "\<exists>e. money_to_exact m = Ok e \<and> exact_ok e \<and>
             exact_val e = of_int (m_amount m) / 10 ^ minor_units (m_currency m)"
proof -
  have den: "i128 (10 ^ minor_units (m_currency m))"
    using pow10_i128 minor_units_le [of "m_currency m"] by simp
  obtain e where e: "exact_new (m_amount m) (10 ^ minor_units (m_currency m)) = Ok e"
    using exact_new_pos_never_fails [OF i64_imp_i128 [OF assms] den] by auto
  then show ?thesis
    using exact_new_Ok [OF i64_imp_i128 [OF assms] den e] den
    by (auto simp: money_to_exact_def to_i128_def)
qed

text \<open>
  A currency survives the round trip through its code, and only the five codes are
  accepted.
\<close>

lemma currency_code_roundtrip:
  "currency_from_code s = Some c \<longleftrightarrow> s = currency_code_str c"
proof
  assume "currency_from_code s = Some c"
  then show "s = currency_code_str c" by (auto simp: currency_from_code_def find_Some_iff)
next
  assume "s = currency_code_str c"
  then show "currency_from_code s = Some c"
    by (cases c) (simp_all add: currency_from_code_def currency_all_def)
qed

end
