(* ===== verification/Identity.thy ===== *)
theory Identity
  imports Deps
begin

text \<open>
  Typed identifiers (\<open>ids.rs\<close>, and the identifiers \<open>contour.rs\<close>, \<open>event/offer.rs\<close> and
  \<open>rules/lot_disposal.rs\<close> declare): one type per kind of object around a UUID, so that an
  account cannot stand where an instrument is meant. The three that key ordered maps carry
  the order of their UUIDs.
\<close>

datatype owner_id = OwnerId uuid
datatype account_id = AccountId (account_uuid: uuid)
datatype custody_id = CustodyId uuid
datatype instrument_id = InstrumentId (instrument_uuid: uuid)
datatype source_id = SourceId uuid
datatype import_id = ImportId uuid
datatype event_id = EventId (event_uuid: uuid)
datatype transfer_id = TransferId uuid
datatype classification_rule_id = ClassificationRuleId uuid
datatype import_session_id = ImportSessionId uuid
datatype principal_id = PrincipalId uuid
datatype contour_id = ContourId uuid
datatype offer_submission_id = OfferSubmissionId uuid
datatype offer_window_id = OfferWindowId uuid
datatype lot_id = LotId uuid

instantiation account_id :: linorder
begin

definition less_eq_account_id :: "account_id \<Rightarrow> account_id \<Rightarrow> bool" where
  "less_eq_account_id a b \<longleftrightarrow> account_uuid a \<le> account_uuid b"

definition less_account_id :: "account_id \<Rightarrow> account_id \<Rightarrow> bool" where
  "less_account_id a b \<longleftrightarrow> account_uuid a < account_uuid b"

instance
  by standard (auto simp: less_eq_account_id_def less_account_id_def account_id.expand)

end

instantiation instrument_id :: linorder
begin

definition less_eq_instrument_id :: "instrument_id \<Rightarrow> instrument_id \<Rightarrow> bool" where
  "less_eq_instrument_id a b \<longleftrightarrow> instrument_uuid a \<le> instrument_uuid b"

definition less_instrument_id :: "instrument_id \<Rightarrow> instrument_id \<Rightarrow> bool" where
  "less_instrument_id a b \<longleftrightarrow> instrument_uuid a < instrument_uuid b"

instance
  by standard (auto simp: less_eq_instrument_id_def less_instrument_id_def instrument_id.expand)

end

instantiation event_id :: linorder
begin

definition less_eq_event_id :: "event_id \<Rightarrow> event_id \<Rightarrow> bool" where
  "less_eq_event_id a b \<longleftrightarrow> event_uuid a \<le> event_uuid b"

definition less_event_id :: "event_id \<Rightarrow> event_id \<Rightarrow> bool" where
  "less_event_id a b \<longleftrightarrow> event_uuid a < event_uuid b"

instance
  by standard (auto simp: less_eq_event_id_def less_event_id_def event_id.expand)

end

lemmas id_order_defs =
  less_eq_account_id_def less_account_id_def less_eq_instrument_id_def less_instrument_id_def
  less_eq_event_id_def less_event_id_def

end
