(* ===== verification/Dates.thy ===== *)
theory Dates
  imports Deps
begin

text \<open>
  Event dates and the replay coordinate (\<open>dates.rs\<close>): which of an event's dates is the
  effective one, the tax period, and the order of events by date, source time and sequence
  number. The order is shown to be a total comparator that identifies only equal
  coordinates.
\<close>

section \<open>Dates of an event\<close>

type_synonym trade_date = date
type_synonym settled_date = date
type_synonym cash_posted_date = date
type_synonym entitlement_date = date
type_synonym paid_date = date
type_synonym tax_period = int

record event_dates =
  ed_trade :: "trade_date option"
  ed_settled :: "settled_date option"
  ed_cash_posted :: "cash_posted_date option"
  ed_entitlement :: "entitlement_date option"
  ed_paid :: "paid_date option"
  ed_tax_period_override :: "tax_period option"

definition dates_empty :: event_dates where
  "dates_empty = \<lparr>ed_trade = None, ed_settled = None, ed_cash_posted = None,
     ed_entitlement = None, ed_paid = None, ed_tax_period_override = None\<rparr>"

definition dates_for_trade :: "trade_date \<Rightarrow> settled_date option \<Rightarrow> event_dates" where
  "dates_for_trade t s = dates_empty\<lparr>ed_trade := Some t, ed_settled := s\<rparr>"

definition dates_for_cash :: "cash_posted_date \<Rightarrow> event_dates" where
  "dates_for_cash p = dates_empty\<lparr>ed_cash_posted := Some p\<rparr>"

text \<open>\<open>Option::or_else\<close>.\<close>

definition or_else :: "'a option \<Rightarrow> 'a option \<Rightarrow> 'a option" where
  "or_else a b = (case a of None \<Rightarrow> b | Some x \<Rightarrow> Some x)"

definition effective_date :: "event_dates \<Rightarrow> date option" where
  "effective_date d =
     or_else (or_else (or_else (ed_settled d) (ed_cash_posted d)) (ed_paid d)) (ed_trade d)"

definition tax_period_of :: "deps \<Rightarrow> event_dates \<Rightarrow> tax_period option" where
  "tax_period_of X d =
     or_else (ed_tax_period_override d) (map_option (t_year X) (effective_date d))"

lemma or_else_simps [simp]: "or_else None b = b" "or_else (Some x) b = Some x"
  by (simp_all add: or_else_def)

lemma or_else_eq_None [simp]: "or_else a b = None \<longleftrightarrow> a = None \<and> b = None"
  by (cases a) auto

section \<open>The replay coordinate\<close>

record effective_order =
  eo_date :: date
  eo_source_time :: "time_of_day option"
  eo_sequence :: nat

definition order_new :: "date \<Rightarrow> nat \<Rightarrow> effective_order" where
  "order_new d s = \<lparr>eo_date = d, eo_source_time = None, eo_sequence = s\<rparr>"

definition order_with_source_time :: "date \<Rightarrow> time_of_day \<Rightarrow> nat \<Rightarrow> effective_order" where
  "order_with_source_time d t s = \<lparr>eo_date = d, eo_source_time = Some t, eo_sequence = s\<rparr>"

definition order_cmp :: "effective_order \<Rightarrow> effective_order \<Rightarrow> ordering" where
  "order_cmp a b =
     then_with (then_with (cmp_of (eo_date a) (eo_date b))
                          (cmp_some_first (eo_source_time a) (eo_source_time b)))
               (cmp_of (eo_sequence a) (eo_sequence b))"

lemma order_cmp_Equal [simp]: "order_cmp a b = Equal \<longleftrightarrow> a = b"
  by (cases a, cases b) (auto simp: order_cmp_def then_with_eq cmp_some_first_eq)

lemma order_cmp_Greater:
  "order_cmp a b = Greater \<longleftrightarrow>
     eo_date b < eo_date a \<or>
     eo_date a = eo_date b \<and>
       (cmp_some_first (eo_source_time a) (eo_source_time b) = Greater \<or>
        eo_source_time a = eo_source_time b \<and> eo_sequence b < eo_sequence a)"
  by (auto simp: order_cmp_def then_with_eq cmp_some_first_eq(2))

lemma order_cmp_key:
  "order_cmp a b =
     cmp_of (eo_date a, some_first_rank (eo_source_time a), eo_sequence a)
            (eo_date b, some_first_rank (eo_source_time b), eo_sequence b)"
  by (simp add: order_cmp_def cmp_of_pair cmp_some_first_rank then_with_assoc)

interpretation eff: total_comparator order_cmp
  unfolding order_cmp_key by (rule key_comparator)

end
