(* ===== verification/EventModel.thy ===== *)
theory EventModel
  imports Money Dates Identity "HOL-Library.List_Lexorder" "HOL-Library.Char_ord"
begin

text \<open>
  The journal's data (\<open>event/*.rs\<close>, \<open>reconciliation/claim.rs\<close>): events, their kinds,
  legs, provenance, corporate actions, offer exercises and control claims, with the
  operations those files define on them. Constructors keep the source's names; where two
  enums share a variant name the enum's initial is added.
\<close>

section \<open>Legs\<close>

datatype leg_kind = LCash | LSecurityQuantity | LPrincipal | LFee | LTax

record leg =
  l_kind :: leg_kind
  l_account :: account_id
  l_custody :: "custody_id option"
  l_instrument :: "instrument_id option"
  l_money :: "money option"
  l_quantity :: "quantity option"

definition leg_cash :: "account_id \<Rightarrow> money \<Rightarrow> leg" where
  "leg_cash a m = \<lparr>l_kind = LCash, l_account = a, l_custody = None, l_instrument = None,
     l_money = Some m, l_quantity = None\<rparr>"

definition leg_security :: "account_id \<Rightarrow> custody_id \<Rightarrow> instrument_id \<Rightarrow> quantity \<Rightarrow> leg" where
  "leg_security a c i q = \<lparr>l_kind = LSecurityQuantity, l_account = a, l_custody = Some c,
     l_instrument = Some i, l_money = None, l_quantity = Some q\<rparr>"

definition leg_security_without_custody :: "account_id \<Rightarrow> instrument_id \<Rightarrow> quantity \<Rightarrow> leg" where
  "leg_security_without_custody a i q = \<lparr>l_kind = LSecurityQuantity, l_account = a,
     l_custody = None, l_instrument = Some i, l_money = None, l_quantity = Some q\<rparr>"

definition leg_fee :: "account_id \<Rightarrow> money \<Rightarrow> leg" where
  "leg_fee a m = \<lparr>l_kind = LFee, l_account = a, l_custody = None, l_instrument = None,
     l_money = Some m, l_quantity = None\<rparr>"

definition leg_tax :: "account_id \<Rightarrow> money \<Rightarrow> leg" where
  "leg_tax a m = \<lparr>l_kind = LTax, l_account = a, l_custody = None, l_instrument = None,
     l_money = Some m, l_quantity = None\<rparr>"

definition leg_principal :: "account_id \<Rightarrow> instrument_id \<Rightarrow> money \<Rightarrow> leg" where
  "leg_principal a i m = \<lparr>l_kind = LPrincipal, l_account = a, l_custody = None,
     l_instrument = Some i, l_money = Some m, l_quantity = None\<rparr>"

definition leg_cash_effect :: "leg \<Rightarrow> money option" where
  "leg_cash_effect l = (case l_kind l of
     LCash \<Rightarrow> l_money l
   | LFee \<Rightarrow> l_money l
   | LTax \<Rightarrow> l_money l
   | LPrincipal \<Rightarrow> l_money l
   | LSecurityQuantity \<Rightarrow> None)"

section \<open>Control claims\<close>

datatype dimension = DCash | DPositions | DTaxBasis | DIncome

record assertion_period =
  ap_from :: date
  ap_to :: date

definition period_between :: "date \<Rightarrow> date \<Rightarrow> assertion_period option" where
  "period_between f t = (if f \<le> t then Some \<lparr>ap_from = f, ap_to = t\<rparr> else None)"

definition period_is_well_formed :: "assertion_period \<Rightarrow> bool" where
  "period_is_well_formed p \<longleftrightarrow> ap_from p \<le> ap_to p"

definition period_contains :: "assertion_period \<Rightarrow> date \<Rightarrow> bool" where
  "period_contains p d \<longleftrightarrow> ap_from p \<le> d \<and> d \<le> ap_to p"

datatype balance_point = Opening | Closing

fun balance_point_code :: "balance_point \<Rightarrow> string" where
  "balance_point_code Opening = ''opening''"
| "balance_point_code Closing = ''closing''"

datatype control_claim =
    CashBalance currency_code posted_minor balance_point
  | PositionQuantity instrument_id quantity balance_point
  | CashTurnover currency_code posted_minor posted_minor
  | FeesTotal currency_code posted_minor
  | IncomeTotal currency_code posted_minor
  | TaxWithheldTotal currency_code posted_minor

fun claim_dimension :: "control_claim \<Rightarrow> dimension" where
  "claim_dimension (CashBalance _ _ _) = DCash"
| "claim_dimension (CashTurnover _ _ _) = DCash"
| "claim_dimension (FeesTotal _ _) = DCash"
| "claim_dimension (PositionQuantity _ _ _) = DPositions"
| "claim_dimension (IncomeTotal _ _) = DIncome"
| "claim_dimension (TaxWithheldTotal _ _) = DTaxBasis"

fun claim_discriminant :: "control_claim \<Rightarrow> string" where
  "claim_discriminant (CashBalance _ _ _) = ''cash_balance''"
| "claim_discriminant (PositionQuantity _ _ _) = ''position_quantity''"
| "claim_discriminant (CashTurnover _ _ _) = ''cash_turnover''"
| "claim_discriminant (FeesTotal _ _) = ''fees_total''"
| "claim_discriminant (IncomeTotal _ _) = ''income_total''"
| "claim_discriminant (TaxWithheldTotal _ _) = ''tax_withheld_total''"

fun non_negative_field :: "control_claim \<Rightarrow> (string \<times> int) option" where
  "non_negative_field (CashBalance _ _ _) = None"
| "non_negative_field (PositionQuantity _ _ _) = None"
| "non_negative_field (CashTurnover _ debit credit) =
     (let smaller = (if debit \<le> credit then debit else credit) in Some (''turnover'', smaller))"
| "non_negative_field (FeesTotal _ amount) = Some (''amount'', amount)"
| "non_negative_field (IncomeTotal _ amount) = Some (''amount'', amount)"
| "non_negative_field (TaxWithheldTotal _ amount) = Some (''amount'', amount)"

section \<open>Basis allocation, corporate actions and offers\<close>

datatype allocation_gap =
    NotComputed | ScheduleMissing | ScheduleNotValidated | NoRepaymentOnDate
  | AmountMismatchGap | CurrencyMismatchGap | AmbiguousSameDateRepayments | InvalidPrefix

text \<open>A returned share is a decimal in \<open>(0, 1]\<close>, checked where it is built.\<close>

datatype returned_share_error = NotPositive | AboveOne

type_synonym returned_share = decimal

definition returned_share_new :: "deps \<Rightarrow> decimal \<Rightarrow> (returned_share, returned_share_error) result" where
  "returned_share_new X v =
     (if \<not> dec_is_positive X v then Err NotPositive
      else if d_cmp X v dec_one = Greater then Err AboveOne
      else Ok v)"

record allocation_evidence =
  ae_inputs_hash :: string
  ae_knowledge_as_of :: instant
  ae_algorithm_version :: nat

datatype basis_allocation =
    UnknownAllocation allocation_gap
  | KnownAllocation returned_share allocation_evidence

definition basis_allocation_default :: basis_allocation where
  "basis_allocation_default = UnknownAllocation NotComputed"

datatype fractional_treatment = CashCompensated | RoundedDown | NotApplicable

datatype basis_transfer_rule = CarryOver | Restart

datatype corporate_action =
    PartialRedemption instrument_id custody_id quantity per_unit_amount money date
      "date option" "string option" basis_allocation
  | Redemption instrument_id custody_id quantity per_unit_amount money date
      "date option" "string option"
  | Conversion instrument_id instrument_id custody_id decimal quantity quantity
      fractional_treatment "money option" date "date option" "string option" basis_transfer_rule

fun corporate_action_discriminant :: "corporate_action \<Rightarrow> string" where
  "corporate_action_discriminant (PartialRedemption _ _ _ _ _ _ _ _ _) = ''partial_redemption''"
| "corporate_action_discriminant (Redemption _ _ _ _ _ _ _ _) = ''redemption''"
| "corporate_action_discriminant (Conversion _ _ _ _ _ _ _ _ _ _ _ _) = ''conversion''"

fun corporate_action_effective_date :: "corporate_action \<Rightarrow> date" where
  "corporate_action_effective_date (PartialRedemption _ _ _ _ _ d _ _ _) = d"
| "corporate_action_effective_date (Redemption _ _ _ _ _ d _ _) = d"
| "corporate_action_effective_date (Conversion _ _ _ _ _ _ _ _ d _ _ _) = d"

fun corporate_action_record_date :: "corporate_action \<Rightarrow> date option" where
  "corporate_action_record_date (PartialRedemption _ _ _ _ _ _ r _ _) = r"
| "corporate_action_record_date (Redemption _ _ _ _ _ _ r _) = r"
| "corporate_action_record_date (Conversion _ _ _ _ _ _ _ _ _ r _ _) = r"

datatype offer_exercise_action =
    Submitted offer_submission_id offer_window_id instrument_id quantity
  | Cancelled offer_submission_id quantity
  | Settled offer_submission_id instrument_id custody_id quantity money "money option" "money option"

fun offer_discriminant :: "offer_exercise_action \<Rightarrow> string" where
  "offer_discriminant (Submitted _ _ _ _) = ''offer_submitted''"
| "offer_discriminant (Cancelled _ _) = ''offer_cancelled''"
| "offer_discriminant (Settled _ _ _ _ _ _ _) = ''offer_settled''"

fun offer_submission :: "offer_exercise_action \<Rightarrow> offer_submission_id" where
  "offer_submission (Submitted s _ _ _) = s"
| "offer_submission (Cancelled s _) = s"
| "offer_submission (Settled s _ _ _ _ _ _) = s"

fun offer_quantity :: "offer_exercise_action \<Rightarrow> quantity" where
  "offer_quantity (Submitted _ _ _ q) = q"
| "offer_quantity (Cancelled _ q) = q"
| "offer_quantity (Settled _ _ _ q _ _ _) = q"

section \<open>Event kinds\<close>

datatype certainty = CertKnown | CertEstimated
datatype date_certainty = DateKnown | DateEstimated | DateUnknown
datatype basis_certainty = BasisDocumented | BasisEstimated | BasisUnknown
datatype tristate = TriYes | TriNo | TriUnknown
datatype knowledge = KnowledgeKnown | KnowledgeUnknown

record opening_assertions =
  oa_quantity :: certainty
  oa_acquisition_date :: "date option"
  oa_acquisition_date_certainty :: date_certainty
  oa_tax_basis :: basis_certainty
  oa_basis_currency :: "currency_code option"
  oa_basis_rate :: "decimal option"
  oa_fees_included :: tristate
  oa_ldv_eligibility :: knowledge
  oa_prior_corporate_actions :: knowledge

definition opening_assertions_default :: opening_assertions where
  "opening_assertions_default =
     \<lparr>oa_quantity = CertEstimated, oa_acquisition_date = None,
      oa_acquisition_date_certainty = DateUnknown, oa_tax_basis = BasisUnknown,
      oa_basis_currency = None, oa_basis_rate = None, oa_fees_included = TriUnknown,
      oa_ldv_eligibility = KnowledgeUnknown, oa_prior_corporate_actions = KnowledgeUnknown\<rparr>"

definition basis_is_documented :: "opening_assertions \<Rightarrow> bool" where
  "basis_is_documented a \<longleftrightarrow> oa_tax_basis a = BasisDocumented"

datatype trade_side = Buy | Sell
datatype income_kind = Coupon | Dividend | DepositInterest
datatype fee_origin = Brokerage | Depositary | AccountMaintenance | MarginInterest | OtherFee
datatype tax_origin = WithheldAtSource | SelfPaid
datatype price_quality = Executable | PreviousClose | CarriedForward | Stale | OwnerEstimate

datatype row_name = Given string | Fingerprint string

record source_row_key =
  srk_source :: source_id
  srk_row :: row_name

record refused_row =
  rr_key :: source_row_key
  rr_dimensions :: "dimension set"

datatype event_kind =
    Trade trade_side instrument_id quantity money "money option" "money option"
      "calc_money option" "money option"
  | CashIn money
  | CashOut money
  | Refund money
  | CashTransfer transfer_id account_id account_id money
  | OwnAccountMovement money
  | UnresolvedOwnAccountMovement money
  | Income "instrument_id option" money "income_kind option"
  | Fee money fee_origin
  | Tax money tax_origin
  | OpeningPosition instrument_id quantity "money option" opening_assertions
  | OpeningCash money
  | StatedSecuritiesValue money
  | Valuation instrument_id decimal currency_code price_quality
  | ControlAssertion assertion_period control_claim
  | ImportCoverageGap assertion_period "dimension set" nat "refused_row list"
  | CorporateAction corporate_action
  | OfferExercise offer_exercise_action

definition discriminants :: "string list" where
  "discriminants =
     [''trade'', ''cash_in'', ''cash_out'', ''refund'', ''cash_transfer'',
      ''own_account_movement'', ''unresolved_own_account_movement'', ''income'', ''fee'',
      ''tax'', ''opening_position'', ''opening_cash'', ''stated_securities_value'',
      ''valuation'', ''control_assertion'', ''import_coverage_gap'', ''corporate_action'',
      ''offer_exercise'']"

fun discriminant :: "event_kind \<Rightarrow> string" where
  "discriminant (Trade _ _ _ _ _ _ _ _) = ''trade''"
| "discriminant (CashIn _) = ''cash_in''"
| "discriminant (CashOut _) = ''cash_out''"
| "discriminant (Refund _) = ''refund''"
| "discriminant (CashTransfer _ _ _ _) = ''cash_transfer''"
| "discriminant (OwnAccountMovement _) = ''own_account_movement''"
| "discriminant (UnresolvedOwnAccountMovement _) = ''unresolved_own_account_movement''"
| "discriminant (Income _ _ _) = ''income''"
| "discriminant (Fee _ _) = ''fee''"
| "discriminant (Tax _ _) = ''tax''"
| "discriminant (OpeningPosition _ _ _ _) = ''opening_position''"
| "discriminant (OpeningCash _) = ''opening_cash''"
| "discriminant (StatedSecuritiesValue _) = ''stated_securities_value''"
| "discriminant (Valuation _ _ _ _) = ''valuation''"
| "discriminant (ControlAssertion _ _) = ''control_assertion''"
| "discriminant (ImportCoverageGap _ _ _ _) = ''import_coverage_gap''"
| "discriminant (CorporateAction _) = ''corporate_action''"
| "discriminant (OfferExercise _) = ''offer_exercise''"

datatype flow_endpoints =
    InboundFromOutside
  | OutboundToOutside
  | BetweenAccounts account_id account_id
  | OwnAccountUnnamed
  | WithinAccount

fun flow_endpoints_of :: "event_kind \<Rightarrow> flow_endpoints" where
  "flow_endpoints_of (CashIn _) = InboundFromOutside"
| "flow_endpoints_of (CashOut _) = OutboundToOutside"
| "flow_endpoints_of (Refund _) = InboundFromOutside"
| "flow_endpoints_of (CashTransfer _ from to _) = BetweenAccounts from to"
| "flow_endpoints_of (OwnAccountMovement _) = OwnAccountUnnamed"
| "flow_endpoints_of (UnresolvedOwnAccountMovement _) = OwnAccountUnnamed"
| "flow_endpoints_of _ = WithinAccount"

section \<open>Provenance\<close>

text \<open>A digest is 64 hexadecimal characters, kept in lower case.\<close>

definition is_ascii_hexdigit :: "char \<Rightarrow> bool" where
  "is_ascii_hexdigit c \<longleftrightarrow>
     (CHR ''0'' \<le> c \<and> c \<le> CHR ''9'') \<or> (CHR ''a'' \<le> c \<and> c \<le> CHR ''f'') \<or>
     (CHR ''A'' \<le> c \<and> c \<le> CHR ''F'')"

definition to_ascii_lowercase :: "char \<Rightarrow> char" where
  "to_ascii_lowercase c =
     (if CHR ''A'' \<le> c \<and> c \<le> CHR ''Z'' then char_of (of_char c + 32 :: nat) else c)"

type_synonym raw_hash = string

definition raw_hash_parse :: "string \<Rightarrow> raw_hash option" where
  "raw_hash_parse hex =
     (if length hex = 64 \<and> list_all is_ascii_hexdigit hex
      then Some (map to_ascii_lowercase hex) else None)"

type_synonym parser_version = string

record row_locator =
  rl_document :: raw_hash
  rl_sheet :: "string option"
  rl_row :: nat

datatype rule_settlement =
    NoRule
  | SettledByRule classification_rule_id nat
  | AnsweredMintingRule classification_rule_id nat

fun rule_settlement_code :: "rule_settlement \<Rightarrow> string" where
  "rule_settlement_code NoRule = ''no_rule''"
| "rule_settlement_code (SettledByRule _ _) = ''rule''"
| "rule_settlement_code (AnsweredMintingRule _ _) = ''answered_minting_rule''"

fun rule_settlement_rule :: "rule_settlement \<Rightarrow> (classification_rule_id \<times> nat) option" where
  "rule_settlement_rule NoRule = None"
| "rule_settlement_rule (SettledByRule r v) = Some (r, v)"
| "rule_settlement_rule (AnsweredMintingRule r v) = Some (r, v)"

record provenance =
  pv_source :: source_id
  pv_raw_hash :: raw_hash
  pv_parser_version :: parser_version
  pv_source_operation_id :: "string option"
  pv_source_position_id :: "string option"
  pv_source_category :: "string option"
  pv_source_kind :: "string option"
  pv_owner_category :: "string option"
  pv_source_code :: "string option"
  pv_description :: "string option"
  pv_counterparty :: "string option"
  pv_import :: "import_id option"
  pv_declared_by :: "principal_id option"
  pv_import_session :: "import_session_id option"
  pv_rule_settlement :: "rule_settlement option"
  pv_row :: "row_locator option"

definition provenance_new :: "source_id \<Rightarrow> raw_hash \<Rightarrow> parser_version \<Rightarrow> provenance" where
  "provenance_new s h v =
     \<lparr>pv_source = s, pv_raw_hash = h, pv_parser_version = v, pv_source_operation_id = None,
      pv_source_position_id = None, pv_source_category = None, pv_source_kind = None,
      pv_owner_category = None, pv_source_code = None, pv_description = None,
      pv_counterparty = None, pv_import = None, pv_declared_by = None,
      pv_import_session = None, pv_rule_settlement = None, pv_row = None\<rparr>"

definition settling_rule :: "provenance \<Rightarrow> (classification_rule_id \<times> nat) option" where
  "settling_rule p = (case pv_rule_settlement p of
     Some s \<Rightarrow> rule_settlement_rule s | None \<Rightarrow> None)"

section \<open>Events\<close>

datatype confidence = Known | Estimated | Unknown

datatype relation = NoRelation | Reversal event_id | Replacement event_id

record event =
  e_id :: event_id
  e_owner :: owner_id
  e_account :: account_id
  e_kind :: event_kind
  e_dates :: event_dates
  e_order :: effective_order
  e_legs :: "leg list"
  e_provenance :: provenance
  e_relation :: relation
  e_confidence :: confidence
  e_idempotency_key :: "string option"

text \<open>The order in which standing events are replayed.\<close>

definition compare_for_replay :: "event \<Rightarrow> event \<Rightarrow> ordering" where
  "compare_for_replay l r =
     then_with (then_with (then_with (then_with
       (cmp_of (eo_date (e_order l)) (eo_date (e_order r)))
       (cmp_some_first (eo_source_time (e_order l)) (eo_source_time (e_order r))))
       (if eo_source_time (e_order l) \<noteq> None
        then cmp_of (pv_raw_hash (e_provenance l)) (pv_raw_hash (e_provenance r)) else Equal))
       (cmp_of (eo_sequence (e_order l)) (eo_sequence (e_order r))))
       (cmp_of (e_id l) (e_id r))"

definition event_cash_effect :: "event \<Rightarrow> currency_code \<Rightarrow> (money, money_error) result" where
  "event_cash_effect e c =
     (let amounts = filter (\<lambda>m. m_currency m = c) (List.map_filter leg_cash_effect (e_legs e))
      in money_sum amounts c)"

definition event_cash_effect_on :: "event \<Rightarrow> account_id \<Rightarrow> (money option, money_error) result" where
  "event_cash_effect_on e a =
     (let amounts = List.map_filter leg_cash_effect (filter (\<lambda>l. l_account l = a) (e_legs e))
      in case amounts of
           [] \<Rightarrow> Ok None
         | m # _ \<Rightarrow> map_ok Some (money_sum amounts (m_currency m)))"

definition referenced_custodies :: "event \<Rightarrow> custody_id list" where
  "referenced_custodies e =
     List.map_filter l_custody (e_legs e) @
     (case e_kind e of
        CorporateAction (PartialRedemption _ c _ _ _ _ _ _ _) \<Rightarrow> [c]
      | CorporateAction (Redemption _ c _ _ _ _ _ _) \<Rightarrow> [c]
      | CorporateAction (Conversion _ _ c _ _ _ _ _ _ _ _ _) \<Rightarrow> [c]
      | OfferExercise (Settled _ _ c _ _ _ _) \<Rightarrow> [c]
      | _ \<Rightarrow> [])"

section \<open>The replay order is total and identifies events by id\<close>

lemma compare_for_replay_Equal:
  "compare_for_replay l r = Equal \<Longrightarrow> e_id l = e_id r"
  by (simp add: compare_for_replay_def then_with_eq)

text \<open>The key the comparator compares, and its order.\<close>

definition replay_key :: "event \<Rightarrow> date \<times> (nat \<times> int) \<times> string \<times> nat \<times> event_id" where
  "replay_key e =
     (eo_date (e_order e), some_first_rank (eo_source_time (e_order e)),
      (if eo_source_time (e_order e) = None then [] else pv_raw_hash (e_provenance e)),
      eo_sequence (e_order e), e_id e)"

lemma compare_for_replay_key: "compare_for_replay l r = cmp_of (replay_key l) (replay_key r)"
proof (cases "eo_source_time (e_order l) = eo_source_time (e_order r)")
  case True
  then show ?thesis
    by (auto simp: compare_for_replay_def replay_key_def cmp_of_pair cmp_some_first_rank then_with_assoc)
next
  case False
  then have "cmp_some_first (eo_source_time (e_order l)) (eo_source_time (e_order r)) \<noteq> Equal"
    by (simp add: cmp_some_first_eq)
  then show ?thesis
    unfolding compare_for_replay_def replay_key_def cmp_of_pair cmp_some_first_rank [symmetric]
    by (simp add: then_with_assoc then_with_absorb)
qed

interpretation replay: total_comparator compare_for_replay
  unfolding compare_for_replay_key by (rule key_comparator)

end
