(* ===== verification/Correction.thy ===== *)
theory Correction
  imports EventModel OrderedMap
begin

text \<open>
  Corrections of the journal (\<open>event/correction.rs\<close>): which events stand after reversals
  and replacements, why the others do not, and the ordered effective set the projections
  replay. The lemmas characterise success, the standing events and their explanations, and
  show that the result does not depend on the order of the journal slice.
\<close>

section \<open>Model\<close>

datatype correction_error =
    DanglingTarget event_id event_id
  | ConflictingReplacements event_id event_id event_id
  | DuplicateEvent event_id

datatype superseded_by_reason = ByReversal | ByReplacement event_id

record supersession =
  ss_reversed :: "event_id set"
  ss_replaced_by :: "(event_id, event_id) btree"
  ss_stands :: "event_id set"

definition supersession_stands :: "supersession \<Rightarrow> event_id \<Rightarrow> bool" where
  "supersession_stands s e \<longleftrightarrow> e \<in> ss_stands s"

definition superseded_by :: "supersession \<Rightarrow> event_id \<Rightarrow> superseded_by_reason option" where
  "superseded_by s e =
     or_else (map_option ByReplacement (bt_get (ss_replaced_by s) e))
             (if e \<in> ss_reversed s then Some ByReversal else None)"

record resolution =
  rs_effective :: "event list"
  rs_supersession :: supersession

text \<open>The first loop: every id once.\<close>

definition insert_id :: "event_id set \<Rightarrow> event_id \<times> relation \<Rightarrow> (event_id set, correction_error) result" where
  "insert_id ids r = (if fst r \<in> ids then Err (DuplicateEvent (fst r)) else Ok (insert (fst r) ids))"

text \<open>The second loop: one relation of the slice.\<close>

definition apply_relation ::
  "bool \<Rightarrow> event_id option \<Rightarrow> event_id set \<Rightarrow> event_id set \<times> (event_id, event_id) btree \<Rightarrow>
   event_id \<times> relation \<Rightarrow> (event_id set \<times> (event_id, event_id) btree, correction_error) result" where
  "apply_relation allow head ids st r =
     (case (st, r) of ((reversed, replaced_by), (i, rel)) \<Rightarrow>
       (case rel of
          NoRelation \<Rightarrow> Ok (reversed, replaced_by)
        | Reversal target \<Rightarrow>
            (if target \<notin> ids \<and> \<not> (allow \<and> head = Some i) then Err (DanglingTarget i target)
             else Ok (insert target reversed, replaced_by))
        | Replacement target \<Rightarrow>
            (if target \<notin> ids \<and> \<not> (allow \<and> head = Some i) then Err (DanglingTarget i target)
             else (case bt_get replaced_by target of
                     Some existing \<Rightarrow>
                       Err (ConflictingReplacements target (min existing i) (max existing i))
                   | None \<Rightarrow> Ok (reversed, bt_insert target i replaced_by)))))"

fun is_reversal :: "relation \<Rightarrow> bool" where
  "is_reversal (Reversal _) = True"
| "is_reversal _ = False"

definition resolve_supersession_inner ::
  "(event_id \<times> relation) list \<Rightarrow> bool \<Rightarrow> event_id option \<Rightarrow> (supersession, correction_error) result" where
  "resolve_supersession_inner relations allow head =
     and_then (try_fold insert_id {} relations) (\<lambda>ids.
     and_then (try_fold (apply_relation allow head ids) ({}, []) relations) (\<lambda>(reversed, replaced_by).
     Ok \<lparr>ss_reversed = reversed, ss_replaced_by = replaced_by,
         ss_stands = fst ` set (filter (\<lambda>(i, rel).
            i \<notin> reversed \<and> bt_get replaced_by i = None \<and> \<not> is_reversal rel) relations)\<rparr>))"

definition resolve_supersession :: "(event_id \<times> relation) list \<Rightarrow> (supersession, correction_error) result" where
  "resolve_supersession relations = resolve_supersession_inner relations False None"

definition resolution_from_events :: "event list \<Rightarrow> supersession \<Rightarrow> (resolution, correction_error) result" where
  "resolution_from_events events s =
     Ok \<lparr>rs_effective = sort_by compare_for_replay (filter (\<lambda>e. supersession_stands s (e_id e)) events),
         rs_supersession = s\<rparr>"

definition relations_of :: "event list \<Rightarrow> (event_id \<times> relation) list" where
  "relations_of events = map (\<lambda>e. (e_id e, e_relation e)) events"

definition resolve_with_supersession :: "event list \<Rightarrow> (resolution, correction_error) result" where
  "resolve_with_supersession events =
     and_then (resolve_supersession (relations_of events)) (\<lambda>s. resolution_from_events events s)"

definition resolve_with_unheld_targets :: "event list \<Rightarrow> (resolution, correction_error) result" where
  "resolve_with_unheld_targets events =
     (let first = (case events of [] \<Rightarrow> None | e # _ \<Rightarrow> Some (e_id e))
      in and_then (resolve_supersession_inner (relations_of events) True first) (\<lambda>s.
         resolution_from_events events s))"

definition resolve :: "event list \<Rightarrow> (event list, correction_error) result" where
  "resolve events = map_ok rs_effective (resolve_with_supersession events)"

section \<open>What the loops compute\<close>

text \<open>A slice is consistent when ids are unique, targets are held and no target is replaced twice.\<close>

fun target_of :: "relation \<Rightarrow> event_id option" where
  "target_of NoRelation = None"
| "target_of (Reversal t) = Some t"
| "target_of (Replacement t) = Some t"

definition targets_held :: "bool \<Rightarrow> event_id option \<Rightarrow> event_id set \<Rightarrow> (event_id \<times> relation) list \<Rightarrow> bool" where
  "targets_held allow head ids rels \<longleftrightarrow>
     (\<forall>(i, r) \<in> set rels. case target_of r of None \<Rightarrow> True | Some t \<Rightarrow> t \<in> ids \<or> (allow \<and> head = Some i))"

definition single_replacement :: "(event_id \<times> relation) list \<Rightarrow> bool" where
  "single_replacement rels \<longleftrightarrow>
     (\<forall>i j t. (i, Replacement t) \<in> set rels \<longrightarrow> (j, Replacement t) \<in> set rels \<longrightarrow> i = j)"

definition consistent :: "(event_id \<times> relation) list \<Rightarrow> bool" where
  "consistent rels \<longleftrightarrow> distinct (map fst rels) \<and>
     targets_held False None (set (map fst rels)) rels \<and> single_replacement rels"

lemma insert_id_fold:
  "try_fold insert_id ids rels = Ok ids' \<longleftrightarrow>
     distinct (map fst rels) \<and> ids \<inter> set (map fst rels) = {} \<and> ids' = ids \<union> set (map fst rels)"
  by (induction rels arbitrary: ids) (auto simp: insert_id_def)

definition scanned :: "(event_id \<times> relation) list \<Rightarrow> event_id set \<times> (event_id, event_id) btree \<Rightarrow> bool" where
  "scanned rels st \<longleftrightarrow>
     fst st = {t. \<exists>i. (i, Reversal t) \<in> set rels} \<and> bt_invar (snd st) \<and>
     (\<forall>t i. bt_get (snd st) t = Some i \<longleftrightarrow> (i, Replacement t) \<in> set rels)"

lemma scanned_Nil: "scanned [] ({}, [])"
  by (simp add: scanned_def)

lemma bt_get_None_scanned:
  "scanned rels st \<Longrightarrow> bt_get (snd st) i = None \<longleftrightarrow> (\<forall>j. (j, Replacement i) \<notin> set rels)"
  unfolding scanned_def by (metis not_None_eq)

lemma scanned_step:
  assumes "scanned xs st" "apply_relation allow head ids st x = Ok st'"
  shows "scanned (xs @ [x]) st'"
proof -
  have "(i, Replacement t) \<notin> set xs" if "bt_get (snd st) t = None" for i t
    using bt_get_None_scanned [OF assms(1)] that by blast
  with assms show ?thesis
    by (cases st; cases x; cases "snd x")
       (auto simp: apply_relation_def scanned_def split: if_splits option.splits)
qed

lemma scan_Ok:
  assumes "try_fold (apply_relation allow head ids) ({}, []) xs = Ok st"
  shows "scanned xs st \<and> targets_held allow head ids xs \<and>
         (distinct (map fst xs) \<longrightarrow> single_replacement xs)"
  using assms
proof (induction xs arbitrary: st rule: rev_induct)
  case Nil
  then show ?case using scanned_Nil by (auto simp: targets_held_def single_replacement_def)
next
  case (snoc x xs)
  then obtain u where u: "try_fold (apply_relation allow head ids) ({}, []) xs = Ok u"
    and step: "apply_relation allow head ids u x = Ok st"
    by (auto simp: try_fold_append)
  note IH = snoc.IH [OF u]
  have held: "targets_held allow head ids [x]"
    using step by (cases u; cases x; cases "snd x") (auto simp: apply_relation_def targets_held_def split: if_splits)
  have fresh: "\<not> (\<exists>j. (j, Replacement t) \<in> set xs)" if "snd x = Replacement t" for t
  proof -
    have "bt_get (snd u) t = None"
      using step that by (cases u; cases x) (auto simp: apply_relation_def split: if_splits option.splits)
    then show ?thesis using IH bt_get_None_scanned by blast
  qed
  have single: "single_replacement (xs @ [x])" if "distinct (map fst (xs @ [x]))"
  proof -
    have "single_replacement xs" using IH that by simp
    then show ?thesis using fresh by (cases x) (auto simp: single_replacement_def)
  qed
  show ?case
    using scanned_step [OF _ step] IH held single by (auto simp: targets_held_def)
qed

lemma scan_succeeds:
  assumes "targets_held allow head ids xs" "single_replacement xs" "distinct (map fst xs)"
  shows "\<exists>st. try_fold (apply_relation allow head ids) ({}, []) xs = Ok st"
  using assms
proof (induction xs rule: rev_induct)
  case (snoc x xs)
  have "targets_held allow head ids xs" "single_replacement xs" "distinct (map fst xs)"
    using snoc.prems by (auto simp: targets_held_def single_replacement_def)
  then obtain u where u: "try_fold (apply_relation allow head ids) ({}, []) xs = Ok u"
    using snoc.IH by blast
  then have sc: "scanned xs u" using scan_Ok by blast
  obtain i r where x: "x = (i, r)" by (cases x)
  have none: "bt_get (snd u) t = None" if "r = Replacement t" for t
  proof (rule ccontr)
    assume "bt_get (snd u) t \<noteq> None"
    then obtain j where j: "(j, Replacement t) \<in> set xs" using sc by (auto simp: scanned_def)
    then have "j = i" using snoc.prems(2) that x by (auto simp: single_replacement_def)
    then show False using j snoc.prems(3) x by (auto simp: image_iff)
  qed
  have "\<exists>st. apply_relation allow head ids u x = Ok st"
    using snoc.prems(1) none
    by (cases u; cases r) (auto simp: x apply_relation_def targets_held_def)
  then show ?case using u by (auto simp: try_fold_append)
qed simp

text \<open>The resolver succeeds exactly on consistent slices, with the described supersession.\<close>

definition described :: "(event_id \<times> relation) list \<Rightarrow> supersession \<Rightarrow> bool" where
  "described rels s \<longleftrightarrow>
     scanned rels (ss_reversed s, ss_replaced_by s) \<and>
     ss_stands s = {i. \<exists>r. (i, r) \<in> set rels \<and> \<not> is_reversal r \<and>
        (\<forall>j. (j, Reversal i) \<notin> set rels) \<and> (\<forall>j. (j, Replacement i) \<notin> set rels)}"

lemma resolve_supersession_Ok:
  assumes "resolve_supersession rels = Ok s"
  shows "consistent rels \<and> described rels s"
proof -
  obtain ids reversed repl where ids: "try_fold insert_id {} rels = Ok ids"
    and scan: "try_fold (apply_relation False None ids) ({}, []) rels = Ok (reversed, repl)"
    and s: "s = \<lparr>ss_reversed = reversed, ss_replaced_by = repl, ss_stands = fst ` set (filter (\<lambda>(i, rel).
              i \<notin> reversed \<and> bt_get repl i = None \<and> \<not> is_reversal rel) rels)\<rparr>"
    using assms by (auto simp: resolve_supersession_def resolve_supersession_inner_def)
  have dist: "distinct (map fst rels)" and idset: "ids = set (map fst rels)"
    using ids by (auto simp: insert_id_fold)
  note sc = scan_Ok [OF scan]
  have get: "bt_get repl i = None \<longleftrightarrow> (\<forall>j. (j, Replacement i) \<notin> set rels)" for i
    using sc bt_get_None_scanned [of rels "(reversed, repl)" i] by simp
  have rev: "i \<in> reversed \<longleftrightarrow> (\<exists>j. (j, Reversal i) \<in> set rels)" for i
    using sc by (auto simp: scanned_def)
  have "consistent rels" using sc dist idset by (simp add: consistent_def)
  moreover have "described rels s"
    using sc by (auto simp: described_def s get rev image_iff)
  ultimately show ?thesis by simp
qed

lemma resolve_supersession_succeeds:
  "consistent rels \<Longrightarrow> \<exists>s. resolve_supersession rels = Ok s"
proof -
  assume c: "consistent rels"
  then have "try_fold insert_id {} rels = Ok (set (map fst rels))"
    by (simp add: consistent_def insert_id_fold)
  moreover obtain st where
    "try_fold (apply_relation False None (set (map fst rels))) ({}, []) rels = Ok st"
    using c scan_succeeds unfolding consistent_def by blast
  ultimately show ?thesis
    by (cases st) (simp add: resolve_supersession_def resolve_supersession_inner_def)
qed

text \<open>Supersessions described by the same set of relations agree.\<close>

lemma described_unique:
  assumes "described rels s" "described rels' s'" "set rels = set rels'"
  shows "s = s'"
proof -
  have "bt_get (ss_replaced_by s) t = bt_get (ss_replaced_by s') t" for t
    using assms by (auto simp: described_def scanned_def)
      (metis (no_types, lifting) not_None_eq option.inject)
  then have "ss_replaced_by s = ss_replaced_by s'"
    using assms by (intro bt.entries_ext) (auto simp: described_def scanned_def)
  moreover have "ss_reversed s = ss_reversed s'" "ss_stands s = ss_stands s'"
    using assms by (auto simp: described_def scanned_def)
  ultimately show ?thesis by simp
qed

lemma consistent_mset: "mset rels = mset rels' \<Longrightarrow> consistent rels = consistent rels'"
proof -
  assume m: "mset rels = mset rels'"
  then have "set rels = set rels'" by (metis set_mset_mset)
  moreover have "distinct (map fst rels) = distinct (map fst rels')"
    using m by (metis distinct_count_atmost_1 mset_map set_mset_mset)
  ultimately show ?thesis
    by (simp add: consistent_def targets_held_def single_replacement_def)
qed

lemma resolve_supersession_mset:
  assumes "mset rels = mset rels'" "resolve_supersession rels = Ok s"
  shows "resolve_supersession rels' = Ok s"
proof -
  have d: "consistent rels" "described rels s" using resolve_supersession_Ok [OF assms(2)] by auto
  then obtain s' where s': "resolve_supersession rels' = Ok s'"
    using resolve_supersession_succeeds consistent_mset [OF assms(1)] by blast
  have "set rels = set rels'" using assms(1) by (metis set_mset_mset)
  then have "s = s'" using described_unique d(2) resolve_supersession_Ok [OF s'] by blast
  then show ?thesis using s' by simp
qed

lemma resolve_Ok_iff:
  "resolve events = Ok es \<longleftrightarrow>
     (\<exists>s. resolve_supersession (relations_of events) = Ok s \<and>
          es = sort_by compare_for_replay (filter (\<lambda>e. supersession_stands s (e_id e)) events))"
  by (auto simp: resolve_def resolve_with_supersession_def resolution_from_events_def)

lemma resolve_distinct: "resolve events = Ok es \<Longrightarrow> distinct (map e_id events)"
proof -
  assume "resolve events = Ok es"
  then have "consistent (relations_of events)"
    using resolve_supersession_Ok by (auto simp: resolve_Ok_iff)
  then show ?thesis by (simp add: consistent_def relations_of_def comp_def)
qed

lemma inj_on_ids: "distinct (map e_id events) \<Longrightarrow> inj_on e_id (set events)"
  by (simp add: distinct_map)

lemma resolve_sorted:
  "resolve events = Ok es \<Longrightarrow> sorted_wrt (\<lambda>a b. compare_for_replay a b \<noteq> Greater) es"
  by (auto simp: resolve_Ok_iff intro: replay.sorted_sort_by)

lemma resolve_members: "resolve events = Ok es \<Longrightarrow> set es \<subseteq> set events"
  by (auto simp: resolve_Ok_iff)

lemma resolve_distinct_ids: "resolve events = Ok es \<Longrightarrow> distinct (map e_id es)"
proof -
  assume r: "resolve events = Ok es"
  then obtain s where es: "es = sort_by compare_for_replay (filter (\<lambda>e. supersession_stands s (e_id e)) events)"
    by (auto simp: resolve_Ok_iff)
  have "mset (map e_id es) = mset (map e_id (filter (\<lambda>e. supersession_stands s (e_id e)) events))"
    by (simp add: es)
  moreover have "distinct (map e_id (filter (\<lambda>e. supersession_stands s (e_id e)) events))"
    using resolve_distinct [OF r] by (rule distinct_map_filter)
  ultimately show ?thesis by (metis distinct_count_atmost_1 set_mset_mset)
qed

lemma described_stands_iff:
  assumes "described rels s" "distinct (map fst rels)" "(i, r) \<in> set rels"
  shows "supersession_stands s i \<longleftrightarrow> \<not> is_reversal r \<and>
           (\<forall>k. (k, Reversal i) \<notin> set rels) \<and> (\<forall>k. (k, Replacement i) \<notin> set rels)"
proof -
  have "r' = r" if "(i, r') \<in> set rels" for r'
    using assms(2,3) that by (metis eq_key_imp_eq_value)
  then have "(\<exists>r'. (i, r') \<in> set rels \<and> \<not> is_reversal r') \<longleftrightarrow> \<not> is_reversal r"
    using assms(3) by blast
  then show ?thesis
    using assms(1) unfolding supersession_stands_def described_def by blast
qed

lemma resolve_perm:
  assumes m: "mset events1 = mset events2" and r: "resolve events1 = Ok es"
  shows "resolve events2 = Ok es"
proof -
  obtain s where s: "resolve_supersession (relations_of events1) = Ok s"
    and es: "es = sort_by compare_for_replay (filter (\<lambda>e. supersession_stands s (e_id e)) events1)"
    using r by (auto simp: resolve_Ok_iff)
  have "mset (relations_of events1) = mset (relations_of events2)"
    using m by (simp add: relations_of_def)
  then have s2: "resolve_supersession (relations_of events2) = Ok s"
    using resolve_supersession_mset s by blast
  have "inj_on e_id (set events1)" using resolve_distinct [OF r] by (rule inj_on_ids)
  then have "sort_by compare_for_replay (filter (\<lambda>e. supersession_stands s (e_id e)) events1) =
        sort_by compare_for_replay (filter (\<lambda>e. supersession_stands s (e_id e)) events2)"
    using m by (intro replay.sort_by_mset_eq) (auto dest: compare_for_replay_Equal inj_onD)
  then show ?thesis using s2 es by (auto simp: resolve_Ok_iff)
qed

lemma resolve_returns: "resolve events \<noteq> Panic"
proof -
  have ins: "insert_id ids r \<noteq> Panic" for ids r
    by (auto simp: insert_id_def split: prod.splits)
  have app: "apply_relation allow head ids st r \<noteq> Panic" for ids r allow head st
    by (auto simp: apply_relation_def split: prod.splits relation.splits option.splits)
  have "try_fold insert_id {} rels \<noteq> Panic" for rels
    by (rule try_fold_never_panics [where P = "\<lambda>_. True"]) (simp_all add: ins)
  moreover have "try_fold (apply_relation allow head ids) ({}, []) rels \<noteq> Panic" for rels allow head ids
    by (rule try_fold_never_panics [where P = "\<lambda>_. True"]) (simp_all only: app not_False_eq_True)
  ultimately show ?thesis
    by (auto simp: resolve_def resolve_with_supersession_def resolve_supersession_def
        resolve_supersession_inner_def resolution_from_events_def and_then_eq_Panic)
qed

lemma resolve_effective:
  assumes "resolve events = Ok es"
  shows "set es = {e \<in> set events. \<not> is_reversal (e_relation e) \<and>
           (\<forall>c \<in> set events. e_relation c \<noteq> Reversal (e_id e) \<and> e_relation c \<noteq> Replacement (e_id e))}"
proof -
  obtain s where s: "resolve_supersession (relations_of events) = Ok s"
    and es: "es = sort_by compare_for_replay (filter (\<lambda>e. supersession_stands s (e_id e)) events)"
    using assms by (auto simp: resolve_Ok_iff)
  have d: "described (relations_of events) s" using resolve_supersession_Ok [OF s] by simp
  have dist: "distinct (map fst (relations_of events))"
    using resolve_distinct [OF assms] by (simp add: relations_of_def comp_def)
  have mem: "(i, r) \<in> set (relations_of events) \<longleftrightarrow> (\<exists>e \<in> set events. i = e_id e \<and> r = e_relation e)" for i r
    by (auto simp: relations_of_def)
  have all: "(\<forall>k. (k, r) \<notin> set (relations_of events)) \<longleftrightarrow> (\<forall>c \<in> set events. e_relation c \<noteq> r)" for r
    unfolding mem by blast
  have "supersession_stands s (e_id e) \<longleftrightarrow> \<not> is_reversal (e_relation e) \<and>
      (\<forall>c \<in> set events. e_relation c \<noteq> Reversal (e_id e) \<and> e_relation c \<noteq> Replacement (e_id e))"
    if "e \<in> set events" for e
  proof -
    have "(e_id e, e_relation e) \<in> set (relations_of events)" using that mem by blast
    from described_stands_iff [OF d dist this] show ?thesis unfolding all by blast
  qed
  then show ?thesis unfolding es by auto
qed

section \<open>Properties\<close>

text \<open>
  (C26) The resolver accepts a slice exactly when ids are unique, every target is held and no
  event is replaced by two others.
\<close>

theorem resolve_succeeds_iff_consistent:
  "is_ok (resolve events) \<longleftrightarrow> consistent (relations_of events)"
proof
  assume "is_ok (resolve events)"
  then show "consistent (relations_of events)"
    using resolve_supersession_Ok by (auto simp: is_ok_iff resolve_Ok_iff)
next
  assume "consistent (relations_of events)"
  then show "is_ok (resolve events)"
    using resolve_supersession_succeeds unfolding is_ok_iff resolve_Ok_iff by blast
qed

text \<open>
  (C4) The effective set is exactly the events that are held, are not reversals, and that no
  event of the slice reverses or replaces.
\<close>

theorem effective_set_characterised:
  assumes "resolve events = Ok es"
  shows "set es = {e \<in> set events. \<not> is_reversal (e_relation e) \<and>
           (\<forall>c \<in> set events. e_relation c \<noteq> Reversal (e_id e) \<and> e_relation c \<noteq> Replacement (e_id e))}"
  using assms by (rule resolve_effective)

definition sample_event :: "nat \<Rightarrow> relation \<Rightarrow> event" where
  "sample_event n r =
     \<lparr>e_id = EventId (of_nat n), e_owner = OwnerId 1, e_account = AccountId 1,
      e_kind = CashIn (money_new 100 Rub), e_dates = dates_for_cash 1,
      e_order = order_new 1 n, e_legs = [leg_cash (AccountId 1) (money_new 100 Rub)],
      e_provenance = provenance_new (SourceId 1) [] [], e_relation = r, e_confidence = Known,
      e_idempotency_key = None\<rparr>"

lemma sample_resolve:
  "resolve [sample_event 1 NoRelation, sample_event 2 (Replacement (EventId 1))] =
     Ok [sample_event 2 (Replacement (EventId 1))]"
  by (simp add: resolve_def resolve_with_supersession_def resolution_from_events_def relations_of_def
      resolve_supersession_def resolve_supersession_inner_def insert_id_def apply_relation_def
      supersession_stands_def sample_event_def bt_get_def)

theorem effective_set_characterised_witness:
  "set [sample_event 2 (Replacement (EventId 1))] =
     {e \<in> set [sample_event 1 NoRelation, sample_event 2 (Replacement (EventId 1))].
        \<not> is_reversal (e_relation e) \<and>
        (\<forall>c \<in> set [sample_event 1 NoRelation, sample_event 2 (Replacement (EventId 1))].
           e_relation c \<noteq> Reversal (e_id e) \<and> e_relation c \<noteq> Replacement (e_id e))}"
  by (rule effective_set_characterised [OF sample_resolve])

text \<open>
  The result of the resolver does not depend on the order of the journal slice: a
  permutation of it resolves to the same list, and is refused when the original is.
\<close>

lemma resolve_order_independent:
  assumes "mset events = mset events'"
  shows "(resolve events = Ok es \<longleftrightarrow> resolve events' = Ok es) \<and> resolve events \<noteq> Panic"
  using resolve_perm [OF assms] resolve_perm [OF assms [symmetric]] resolve_returns by blast

text \<open>
  Every held event that does not stand is explained: it is a reversal itself, or the
  resolution names the event that replaced it, or says that it was reversed; a standing
  event has no such explanation.
\<close>

lemma non_standing_events_are_explained:
  assumes "resolve_supersession rels = Ok s" "(i, r) \<in> set rels"
  shows "(supersession_stands s i \<longleftrightarrow> superseded_by s i = None \<and> \<not> is_reversal r) \<and>
         (superseded_by s i = Some (ByReplacement j) \<longleftrightarrow> (j, Replacement i) \<in> set rels) \<and>
         (superseded_by s i = Some ByReversal \<longleftrightarrow>
            (\<exists>j. (j, Reversal i) \<in> set rels) \<and> (\<forall>j. (j, Replacement i) \<notin> set rels))"
proof -
  have d: "described rels s" and dist: "distinct (map fst rels)"
    using resolve_supersession_Ok [OF assms(1)] by (auto simp: consistent_def)
  have sc: "scanned rels (ss_reversed s, ss_replaced_by s)" using d by (simp add: described_def)
  have get: "bt_get (ss_replaced_by s) i = Some k \<longleftrightarrow> (k, Replacement i) \<in> set rels" for k
    using sc by (simp add: scanned_def)
  have none: "bt_get (ss_replaced_by s) i = None \<longleftrightarrow> (\<forall>k. (k, Replacement i) \<notin> set rels)"
    using bt_get_None_scanned [OF sc, of i] by simp
  have rev: "i \<in> ss_reversed s \<longleftrightarrow> (\<exists>k. (k, Reversal i) \<in> set rels)"
    using sc by (simp add: scanned_def)
  note stands = described_stands_iff [OF d dist assms(2)]
  show ?thesis
  proof (cases "bt_get (ss_replaced_by s) i")
    case None
    then have "superseded_by s i = (if i \<in> ss_reversed s then Some ByReversal else None)"
      by (simp add: superseded_by_def)
    moreover have "\<forall>k. (k, Replacement i) \<notin> set rels" using None none by blast
    ultimately show ?thesis unfolding stands rev by auto
  next
    case (Some k)
    then have "superseded_by s i = Some (ByReplacement k)" by (simp add: superseded_by_def)
    moreover have "(k, Replacement i) \<in> set rels" using Some get by blast
    moreover have "(j, Replacement i) \<in> set rels \<longleftrightarrow> j = k" using Some get [of j] by auto
    ultimately show ?thesis unfolding stands by auto
  qed
qed

end
