(* ===== verification/Legs.thy ===== *)
theory Legs
  imports EventModel
begin

text \<open>
  The leg matcher of \<open>event/legs.rs\<close>: an event's legs are compared with a list of expected
  legs by a backtracking assignment over a mutable \<open>taken\<close> array, and a failure is
  diagnosed. The main lemma shows that the assignment succeeds exactly when some reordering
  of the legs matches the expectations one by one.
\<close>

section \<open>Errors of structural validation\<close>

datatype validation_error =
    LegCount string string nat
  | WrongSign string int currency_code
  | AmountMismatch string int int
  | WrongAccount account_id
  | TransferResidual int
  | TransferToSelf account_id
  | TransferAccountMismatch account_id account_id account_id
  | LegDoesNotMatchEvent string string
  | BasisFeePresenceMismatch string
  | BasisFeeAmountMismatch string int int
  | EmptySet string string
  | DimensionsMismatch string string string string
  | NonPositive string string string
  | UnexpectedLeg string nat nat
  | MissingLeg string leg_kind nat nat
  | LegMismatch string leg_kind string
  | VNumeric numeric_error
  | VMoney money_error

section \<open>Expectations\<close>

record leg_expectation =
  x_kind :: leg_kind
  x_account :: account_id
  x_instrument :: "instrument_id option"
  x_custody :: "custody_id option"
  x_money :: "money option"
  x_quantity :: "quantity option"

definition differs :: "('a \<Rightarrow> 'a \<Rightarrow> bool) \<Rightarrow> 'a option \<Rightarrow> 'a option \<Rightarrow> bool" where
  "differs eq actual wanted = (case wanted of
     None \<Rightarrow> False
   | Some w \<Rightarrow> (case actual of None \<Rightarrow> True | Some a \<Rightarrow> \<not> eq a w))"

definition first_difference :: "deps \<Rightarrow> leg \<Rightarrow> leg_expectation \<Rightarrow> string option" where
  "first_difference X l x =
     (if l_kind l \<noteq> x_kind x then Some ''kind''
      else if l_account l \<noteq> x_account x then Some ''account''
      else if differs (=) (l_instrument l) (x_instrument x) then Some ''instrument''
      else if differs (=) (l_custody l) (x_custody x) then Some ''custody''
      else if differs (=) (l_money l) (x_money x) then Some ''money''
      else if differs (d_eq X) (l_quantity l) (x_quantity x) then Some ''quantity''
      else None)"

definition matches :: "deps \<Rightarrow> leg \<Rightarrow> leg_expectation \<Rightarrow> bool" where
  "matches X l x \<longleftrightarrow> first_difference X l x = None"

text \<open>
  The loop of \<open>assign\<close> over the legs: it takes a free matching leg, recurses on the
  remaining expectations, and frees the leg again when the recursion fails.
\<close>

fun assign_loop :: "(bool list \<Rightarrow> bool \<times> bool list) \<Rightarrow> (leg \<Rightarrow> bool) \<Rightarrow> leg list \<Rightarrow> nat
    \<Rightarrow> bool list \<Rightarrow> bool \<times> bool list" where
  "assign_loop recurse fits [] i taken = (False, taken)"
| "assign_loop recurse fits (l # ls) i taken =
     (if taken ! i \<or> \<not> fits l then assign_loop recurse fits ls (Suc i) taken
      else (case recurse (taken[i := True]) of
              (True, t) \<Rightarrow> (True, t)
            | (False, t) \<Rightarrow> assign_loop recurse fits ls (Suc i) (t[i := False])))"

primrec assign :: "deps \<Rightarrow> leg list \<Rightarrow> leg_expectation list \<Rightarrow> bool list \<Rightarrow> bool \<times> bool list" where
  "assign X legs [] taken = (True, taken)"
| "assign X legs (first # rest) taken =
     assign_loop (assign X legs rest) (\<lambda>l. matches X l first) legs 0 taken"

text \<open>The loop of \<open>diagnose\<close>: the first expectation no leg matches.\<close>

fun diagnose_loop :: "deps \<Rightarrow> leg list \<Rightarrow> string \<Rightarrow> nat \<Rightarrow> leg_expectation list \<Rightarrow> validation_error option" where
  "diagnose_loop X legs name want [] = None"
| "diagnose_loop X legs name want (x # xs) =
     (if list_ex (\<lambda>l. matches X l x) legs then diagnose_loop X legs name want xs
      else Some (case List.map_filter (\<lambda>l. first_difference X l x) (filter (\<lambda>l. l_kind l = x_kind x) legs) of
                   field # _ \<Rightarrow> LegMismatch name (x_kind x) field
                 | [] \<Rightarrow> MissingLeg name (x_kind x) want (length legs)))"

definition diagnose :: "deps \<Rightarrow> event \<Rightarrow> string \<Rightarrow> leg_expectation list \<Rightarrow> (unit, validation_error) result" where
  "diagnose X e name expected =
     (let found = length (e_legs e); want = length expected in
      case diagnose_loop X (e_legs e) name want expected of
        Some problem \<Rightarrow> Err problem
      | None \<Rightarrow>
          if found < want
          then and_then (idx expected (want - 1)) (\<lambda>x. Err (MissingLeg name (x_kind x) want found))
          else Err (UnexpectedLeg name want found))"

definition expect_legs :: "deps \<Rightarrow> event \<Rightarrow> string \<Rightarrow> leg_expectation list \<Rightarrow> (unit, validation_error) result" where
  "expect_legs X e name expected =
     (let taken = replicate (length (e_legs e)) False in
      if length (e_legs e) = length expected \<and> fst (assign X (e_legs e) expected taken)
      then Ok ()
      else diagnose X e name expected)"

section \<open>The assignment is complete\<close>

text \<open>Positions chosen for the expectations: free, pairwise different and matching.\<close>

definition chosen :: "deps \<Rightarrow> leg list \<Rightarrow> bool list \<Rightarrow> leg_expectation list \<Rightarrow> nat list \<Rightarrow> bool" where
  "chosen X legs taken expected ps \<longleftrightarrow> distinct ps \<and>
     list_all2 (\<lambda>p x. p < length legs \<and> \<not> taken ! p \<and> matches X (legs ! p) x) ps expected"

lemma chosen_Cons:
  assumes "length taken = length legs"
  shows "(\<exists>ps. chosen X legs taken (x # xs) ps) \<longleftrightarrow>
    (\<exists>j < length legs. \<not> taken ! j \<and> matches X (legs ! j) x \<and> (\<exists>ps. chosen X legs (taken[j := True]) xs ps))"
proof -
  have upd: "chosen X legs (taken[j := True]) xs ps \<longleftrightarrow> chosen X legs taken xs ps \<and> j \<notin> set ps"
    if "j < length legs" for j ps
  proof -
    have "(\<forall>i < length xs. ps ! i < length legs \<and> \<not> taken[j := True] ! (ps ! i) \<and> matches X (legs ! (ps ! i)) (xs ! i)) \<longleftrightarrow>
          (\<forall>i < length xs. (ps ! i < length legs \<and> \<not> taken ! (ps ! i) \<and> matches X (legs ! (ps ! i)) (xs ! i)) \<and> ps ! i \<noteq> j)"
      using that assms by (auto simp: nth_list_update)
    then show ?thesis
      unfolding chosen_def list_all2_conv_all_nth in_set_conv_nth by metis
  qed
  have "\<exists>j qs. ps = j # qs" if "chosen X legs taken (x # xs) ps" for ps
    using that by (auto simp: chosen_def list_all2_Cons2)
  then have "(\<exists>ps. chosen X legs taken (x # xs) ps) \<longleftrightarrow>
        (\<exists>j ps. chosen X legs taken (x # xs) (j # ps))" by blast
  also have "\<dots> \<longleftrightarrow> (\<exists>j < length legs. \<not> taken ! j \<and> matches X (legs ! j) x \<and>
                     (\<exists>ps. chosen X legs taken xs ps \<and> j \<notin> set ps))"
    by (auto simp: chosen_def)
  also have "\<dots> \<longleftrightarrow> (\<exists>j < length legs. \<not> taken ! j \<and> matches X (legs ! j) x \<and>
                     (\<exists>ps. chosen X legs (taken[j := True]) xs ps))"
    using upd by blast
  finally show ?thesis .
qed

lemma ex_split_at:
  "(\<And>j. j \<noteq> i \<Longrightarrow> P j = Q j) \<Longrightarrow> (\<And>j. Q j \<Longrightarrow> j \<noteq> i) \<Longrightarrow> (\<exists>j. P j) \<longleftrightarrow> P i \<or> (\<exists>j. Q j)"
  by metis

lemma assign_loop_spec:
  assumes "\<And>t. length t = n \<Longrightarrow> fst (recurse t) = R t"
    and "\<And>t. length t = n \<Longrightarrow> \<not> fst (recurse t) \<Longrightarrow> snd (recurse t) = t"
    and "length taken = n" "i + length ls = n"
  shows "(fst (assign_loop recurse fits ls i taken) \<longleftrightarrow>
            (\<exists>j. i \<le> j \<and> j < n \<and> \<not> taken ! j \<and> fits (ls ! (j - i)) \<and> R (taken[j := True]))) \<and>
         (\<not> fst (assign_loop recurse fits ls i taken) \<longrightarrow> snd (assign_loop recurse fits ls i taken) = taken)"
  using assms(3,4)
proof (induction ls arbitrary: i)
  case Nil
  then show ?case by simp
next
  case (Cons l ls)
  let ?Q = "\<lambda>i ls j. i \<le> j \<and> j < n \<and> \<not> taken ! j \<and> fits (ls ! (j - i)) \<and> R (taken[j := True])"
  have split: "(\<exists>j. ?Q i (l # ls) j) \<longleftrightarrow> ?Q i (l # ls) i \<or> (\<exists>j. ?Q (Suc i) ls j)"
  proof -
    have "?Q i (l # ls) j \<longleftrightarrow> ?Q (Suc i) ls j" if "j \<noteq> i" for j
    proof (cases "Suc i \<le> j")
      case True
      then have "(l # ls) ! (j - i) = ls ! (j - Suc i)" by (simp add: nth_Cons' )
      with True show ?thesis by auto
    qed (use that in auto)
    then show ?thesis by (rule ex_split_at) auto
  qed
  have IH: "(fst (assign_loop recurse fits ls (Suc i) taken) \<longleftrightarrow> (\<exists>j. ?Q (Suc i) ls j)) \<and>
      (\<not> fst (assign_loop recurse fits ls (Suc i) taken) \<longrightarrow> snd (assign_loop recurse fits ls (Suc i) taken) = taken)"
    using Cons.prems by (intro Cons.IH) auto
  show ?case
  proof (cases "taken ! i \<or> \<not> fits l")
    case True
    then have no: "\<not> ?Q i (l # ls) i" by auto
    have step: "assign_loop recurse fits (l # ls) i taken = assign_loop recurse fits ls (Suc i) taken"
      using True by simp
    show ?thesis unfolding step split using IH no by blast
  next
    case False
    have len: "length (taken[i := True]) = n" using Cons.prems by simp
    have undo: "taken[i := True, i := False] = taken"
      using False Cons.prems by (simp add: list_update_same_conv)
    obtain b t where bt: "recurse (taken[i := True]) = (b, t)" by fastforce
    show ?thesis
    proof (cases b)
      case True
      then have "?Q i (l # ls) i" using assms(1) [OF len] bt False Cons.prems by simp
      then show ?thesis using True bt False by (auto intro: exI [of _ i])
    next
      case f: False
      then have t: "t = taken[i := True]" and no: "\<not> ?Q i (l # ls) i"
        using assms(1,2) [OF len] bt by auto
      have step: "assign_loop recurse fits (l # ls) i taken = assign_loop recurse fits ls (Suc i) taken"
        using f bt False undo t by simp
      show ?thesis unfolding step split using IH no by blast
    qed
  qed
qed

lemma assign_spec:
  "length taken = length legs \<Longrightarrow>
     (fst (assign X legs expected taken) \<longleftrightarrow> (\<exists>ps. chosen X legs taken expected ps)) \<and>
     (\<not> fst (assign X legs expected taken) \<longrightarrow> snd (assign X legs expected taken) = taken)"
proof (induction expected arbitrary: taken)
  case Nil
  then show ?case by (auto simp: chosen_def)
next
  case (Cons x xs)
  have "(fst (assign X legs (x # xs) taken) \<longleftrightarrow>
      (\<exists>j. 0 \<le> j \<and> j < length legs \<and> \<not> taken ! j \<and> matches X (legs ! (j - 0)) x \<and>
           (\<exists>ps. chosen X legs (taken[j := True]) xs ps))) \<and>
      (\<not> fst (assign X legs (x # xs) taken) \<longrightarrow> snd (assign X legs (x # xs) taken) = taken)"
    unfolding assign.simps
    by (rule assign_loop_spec [where R = "\<lambda>t. \<exists>ps. chosen X legs t xs ps"]) (use Cons in auto)
  then show ?case using chosen_Cons [OF Cons.prems] by simp
qed

lemma chosen_perm:
  assumes "length legs = length expected"
  shows "(\<exists>ps. chosen X legs (replicate (length legs) False) expected ps) \<longleftrightarrow>
         (\<exists>legs'. mset legs' = mset legs \<and> list_all2 (matches X) legs' expected)"
proof
  assume "\<exists>ps. chosen X legs (replicate (length legs) False) expected ps"
  then obtain ps where c: "chosen X legs (replicate (length legs) False) expected ps" ..
  have ps: "distinct ps" "list_all2 (\<lambda>p x. p < length legs \<and> matches X (legs ! p) x) ps expected"
    using c by (auto simp: chosen_def elim!: list_all2_mono)
  have len: "length ps = length legs" using ps(2) assms by (simp add: list_all2_lengthD)
  have "set ps \<subseteq> {..<length legs}" using ps(2) by (auto simp: list_all2_conv_all_nth in_set_conv_nth)
  moreover have "card (set ps) = length legs" using ps(1) len by (simp add: distinct_card)
  ultimately have "set ps = {..<length legs}" by (intro card_subset_eq) auto
  then have "mset ps = mset [0..<length legs]"
    using ps(1) by (subst set_eq_iff_mset_eq_distinct [symmetric]) (auto simp: atLeast0LessThan)
  then have "mset (map ((!) legs) ps) = mset (map ((!) legs) [0..<length legs])" by (metis mset_map)
  then have "mset (map ((!) legs) ps) = mset legs" by (simp add: map_nth)
  moreover have "list_all2 (matches X) (map ((!) legs) ps) expected"
    using ps(2) by (auto simp: list_all2_conv_all_nth)
  ultimately show "\<exists>legs'. mset legs' = mset legs \<and> list_all2 (matches X) legs' expected" by blast
next
  assume "\<exists>legs'. mset legs' = mset legs \<and> list_all2 (matches X) legs' expected"
  then obtain legs' where l: "mset legs' = mset legs" "list_all2 (matches X) legs' expected" by blast
  have "list_all2 (\<lambda>l p. l = legs ! p) legs [0..<length legs]" by (simp add: list_all2_conv_all_nth)
  from list_all2_reorder_left_invariance [OF this l(1)]
  obtain ps where ps: "list_all2 (\<lambda>l p. l = legs ! p) legs' ps" "mset ps = mset [0..<length legs]" by blast
  have d: "distinct ps" using ps(2) by (metis distinct_upt mset_eq_imp_distinct_iff)
  have "set ps = {..<length legs}" using ps(2) by (metis atLeast_upt mset_eq_setD)
  then have lt: "ps ! i < length legs" if "i < length ps" for i using that by (metis lessThan_iff nth_mem)
  then have "list_all2 (\<lambda>p x. p < length legs \<and> \<not> replicate (length legs) False ! p \<and> matches X (legs ! p) x) ps expected"
    using ps(1) l(2) by (simp add: list_all2_conv_all_nth)
  then show "\<exists>ps. chosen X legs (replicate (length legs) False) expected ps"
    using d by (auto simp: chosen_def)
qed

lemma diagnose_not_Ok [simp]: "diagnose X e name expected \<noteq> Ok u"
  by (auto simp: diagnose_def Let_def split: option.splits)

lemma diagnose_no_panic [simp]: "diagnose X e name expected \<noteq> Panic"
  by (auto simp: diagnose_def Let_def and_then_eq_Panic split: option.splits)

lemma expect_legs_no_panic [simp]: "expect_legs X e name expected \<noteq> Panic"
  by (simp add: expect_legs_def Let_def)

lemma expect_legs_Ok:
  "expect_legs X e name expected = Ok u \<longleftrightarrow>
     (\<exists>legs'. mset legs' = mset (e_legs e) \<and> list_all2 (matches X) legs' expected)"
proof (cases "length (e_legs e) = length expected")
  case True
  then show ?thesis
    using assign_spec [of "replicate (length (e_legs e)) False" "e_legs e" X expected] chosen_perm [OF True]
    by (simp add: expect_legs_def Let_def)
next
  case False
  then have "\<not> (mset legs' = mset (e_legs e) \<and> list_all2 (matches X) legs' expected)" for legs'
    by (metis list_all2_lengthD size_mset)
  with False show ?thesis by (simp add: expect_legs_def Let_def)
qed

lemma matches_iff:
  "matches X l x \<longleftrightarrow> l_kind l = x_kind x \<and> l_account l = x_account x \<and>
     \<not> differs (=) (l_instrument l) (x_instrument x) \<and> \<not> differs (=) (l_custody l) (x_custody x) \<and>
     \<not> differs (=) (l_money l) (x_money x) \<and> \<not> differs (d_eq X) (l_quantity l) (x_quantity x)"
  by (simp add: matches_def first_difference_def)

lemma differs_simps [simp]:
  "\<not> differs eq a' None" "differs eq None (Some w)" "differs eq (Some a) (Some w) \<longleftrightarrow> \<not> eq a w"
  by (simp_all add: differs_def)

lemma not_differs_Some: "\<not> differs eq a (Some w) \<longleftrightarrow> (\<exists>v. a = Some v \<and> eq v w)"
  by (cases a) auto

end
