(* ===== verification/Validation.thy ===== *)
theory Validation
  imports Legs
begin

text \<open>
  Structural validation of an event, \<open>Event::validate_structure\<close> of \<open>event/mod.rs\<close> with
  its private helpers: what an event of each kind declares must agree with its legs.
\<close>

section \<open>Helpers\<close>

datatype sign = Positive | Negative | Any

record trade_declaration =
  td_instrument :: instrument_id
  td_quantity :: quantity
  td_gross :: money
  td_fee :: "money option"
  td_accrued_interest :: "money option"
  td_basis_fee :: "money option"
  td_basis_fee_exact :: "calc_money option"

definition legs_of_kind :: "event \<Rightarrow> leg_kind \<Rightarrow> leg list" where
  "legs_of_kind e k = filter (\<lambda>l. l_kind l = k) (e_legs e)"

definition cash_legs :: "event \<Rightarrow> leg list" where
  "cash_legs e = legs_of_kind e LCash"

definition security_legs :: "event \<Rightarrow> leg list" where
  "security_legs e = legs_of_kind e LSecurityQuantity"

definition require_equal :: "string \<Rightarrow> money \<Rightarrow> money \<Rightarrow> (unit, validation_error) result" where
  "require_equal name l declared =
     (if m_currency l \<noteq> m_currency declared
      then Err (VMoney (CurrencyMismatch (m_currency l) (m_currency declared)))
      else if m_amount l \<noteq> m_amount declared
      then Err (AmountMismatch name (m_amount l) (m_amount declared))
      else Ok ())"

definition leg_money :: "string \<Rightarrow> leg \<Rightarrow> (money, validation_error) result" where
  "leg_money name l = ok_or (l_money l) (LegCount name ''leg with the specified amount'' 0)"

definition single_leg_money :: "string \<Rightarrow> leg list \<Rightarrow> string \<Rightarrow> (money, validation_error) result" where
  "single_leg_money name legs expected =
     (if length legs \<noteq> 1 then Err (LegCount name expected (length legs))
      else and_then (idx legs 0) (\<lambda>l. leg_money name l))"

definition require_same_instrument :: "string \<Rightarrow> instrument_id option \<Rightarrow> instrument_id \<Rightarrow> (unit, validation_error) result" where
  "require_same_instrument name l declared =
     ensure (l = Some declared) (LegDoesNotMatchEvent name ''instrument'')"

definition require_own_account :: "string \<Rightarrow> account_id \<Rightarrow> account_id \<Rightarrow> (unit, validation_error) result" where
  "require_own_account name l ev = ensure (l = ev) (WrongAccount ev)"

definition require_positive_quantity :: "deps \<Rightarrow> string \<Rightarrow> string \<Rightarrow> quantity \<Rightarrow> (unit, validation_error) result" where
  "require_positive_quantity X name field q =
     ensure (dec_is_positive X q) (NonPositive name field (d_to_string X q))"

definition require_positive_per_unit :: "deps \<Rightarrow> string \<Rightarrow> string \<Rightarrow> per_unit_amount \<Rightarrow> (unit, validation_error) result" where
  "require_positive_per_unit X name field p =
     ensure (dec_is_positive X (p_value p)) (NonPositive name field (d_to_string X (p_value p)))"

definition require_positive :: "string \<Rightarrow> string \<Rightarrow> int \<Rightarrow> (unit, validation_error) result" where
  "require_positive name field v = ensure (v > 0) (NonPositive name field (string_of_int v))"

definition trade_settlement :: "trade_side \<Rightarrow> money \<Rightarrow> money option \<Rightarrow> money option \<Rightarrow> (money, money_error) result" where
  "trade_settlement side gross fee accrued_interest =
     and_then (case accrued_interest of Some ai \<Rightarrow> try_add gross ai | None \<Rightarrow> Ok gross) (\<lambda>settlement.
     case side of
       Buy \<Rightarrow> and_then (case fee of Some f \<Rightarrow> try_add settlement f | None \<Rightarrow> Ok settlement) (\<lambda>with_fee.
              checked_negate with_fee)
     | Sell \<Rightarrow> (case fee of Some f \<Rightarrow> try_sub settlement f | None \<Rightarrow> Ok settlement))"

definition require_fraction_compensation :: "string \<Rightarrow> fractional_treatment \<Rightarrow> money option \<Rightarrow> (unit, validation_error) result" where
  "require_fraction_compensation name fractional compensation =
     (let expected = (case fractional of CashCompensated \<Rightarrow> True | RoundedDown \<Rightarrow> False | NotApplicable \<Rightarrow> False) in
      ensure ((compensation \<noteq> None) = expected) (LegDoesNotMatchEvent name ''compensation''))"

definition require_conversion_ratio :: "deps \<Rightarrow> string \<Rightarrow> decimal \<Rightarrow> quantity \<Rightarrow> quantity \<Rightarrow> fractional_treatment
    \<Rightarrow> (unit, validation_error) result" where
  "require_conversion_ratio X name ratio quantity_in quantity_out fractional =
     and_then (map_err VNumeric (dec_checked_mul X ratio quantity_in)) (\<lambda>implied.
     let expected = (case fractional of
           NotApplicable \<Rightarrow> implied | CashCompensated \<Rightarrow> d_floor X implied | RoundedDown \<Rightarrow> d_floor X implied) in
     ensure (d_eq X quantity_out expected) (LegDoesNotMatchEvent name ''ratio''))"

definition x_cash_leg :: "account_id \<Rightarrow> money \<Rightarrow> leg_expectation" where
  "x_cash_leg a m = \<lparr>x_kind = LCash, x_account = a, x_instrument = None, x_custody = None,
     x_money = Some m, x_quantity = None\<rparr>"

definition x_security_leg :: "account_id \<Rightarrow> custody_id \<Rightarrow> instrument_id \<Rightarrow> quantity \<Rightarrow> leg_expectation" where
  "x_security_leg a c i q = \<lparr>x_kind = LSecurityQuantity, x_account = a, x_instrument = Some i,
     x_custody = Some c, x_money = None, x_quantity = Some q\<rparr>"

definition x_principal_leg :: "account_id \<Rightarrow> instrument_id \<Rightarrow> money \<Rightarrow> leg_expectation" where
  "x_principal_leg a i m = \<lparr>x_kind = LPrincipal, x_account = a, x_instrument = Some i,
     x_custody = None, x_money = Some m, x_quantity = None\<rparr>"

text \<open>The debug form of a set of dimensions, in the derived order of the enumeration.\<close>

fun dimension_debug :: "dimension \<Rightarrow> string" where
  "dimension_debug DCash = ''Cash''"
| "dimension_debug DPositions = ''Positions''"
| "dimension_debug DTaxBasis = ''TaxBasis''"
| "dimension_debug DIncome = ''Income''"

fun join :: "string \<Rightarrow> string list \<Rightarrow> string" where
  "join sep [] = []"
| "join sep [s] = s"
| "join sep (s # t # ts) = s @ sep @ join sep (t # ts)"

definition dimensions_debug :: "dimension set \<Rightarrow> string" where
  "dimensions_debug ds =
     ''{'' @ join '', '' (map dimension_debug (filter (\<lambda>d. d \<in> ds) [DCash, DPositions, DTaxBasis, DIncome])) @ ''}''"

section \<open>Validation per kind\<close>

definition expect_single_cash :: "event \<Rightarrow> string \<Rightarrow> money \<Rightarrow> sign \<Rightarrow> (unit, validation_error) result" where
  "expect_single_cash e name declared sign =
     and_then (single_leg_money name (cash_legs e) ''exactly one monetary leg'') (\<lambda>money.
     let raw = m_amount money;
         sign_ok = (case sign of Positive \<Rightarrow> raw > 0 | Negative \<Rightarrow> raw < 0 | Any \<Rightarrow> True) in
     if \<not> sign_ok then Err (WrongSign name raw (m_currency money))
     else require_equal name money declared)"

definition validate_fee :: "event \<Rightarrow> string \<Rightarrow> money \<Rightarrow> (unit, validation_error) result" where
  "validate_fee e name declared =
     and_then (single_leg_money name (legs_of_kind e LFee) ''exactly one fee leg'') (\<lambda>money.
     if m_amount money \<ge> 0 then Err (WrongSign name (m_amount money) (m_currency money))
     else require_equal name money declared)"

definition validate_tax :: "event \<Rightarrow> string \<Rightarrow> money \<Rightarrow> (unit, validation_error) result" where
  "validate_tax e name declared =
     and_then (single_leg_money name (legs_of_kind e LTax) ''exactly one tax leg'') (\<lambda>money.
     if m_amount money \<ge> 0 then Err (WrongSign name (m_amount money) (m_currency money))
     else require_equal name money declared)"

definition validate_own_account_movement :: "event \<Rightarrow> string \<Rightarrow> money \<Rightarrow> (unit, validation_error) result" where
  "validate_own_account_movement e name declared =
     (if m_amount declared = 0 then Err (WrongSign name 0 (m_currency declared))
      else and_then (expect_single_cash e name declared Any) (\<lambda>_.
      case cash_legs e of
        [] \<Rightarrow> Err (LegCount name ''exactly one monetary leg'' 0)
      | l # _ \<Rightarrow> if l_account l \<noteq> e_account e then Err (WrongAccount (e_account e)) else Ok ()))"

definition validate_unresolved_own_account_movement :: "event \<Rightarrow> string \<Rightarrow> money \<Rightarrow> (unit, validation_error) result" where
  "validate_unresolved_own_account_movement e name declared =
     (if e_legs e \<noteq> [] then Err (LegCount name ''no legs'' (length (e_legs e)))
      else if m_amount declared \<le> 0
      then Err (NonPositive name ''amount'' (string_of_int (m_amount declared)))
      else Ok ())"

definition validate_transfer :: "event \<Rightarrow> string \<Rightarrow> account_id \<Rightarrow> account_id \<Rightarrow> money \<Rightarrow> (unit, validation_error) result" where
  "validate_transfer e name from to declared =
     (if from = to then Err (TransferToSelf from)
      else if e_account e \<noteq> from \<and> e_account e \<noteq> to
      then Err (TransferAccountMismatch (e_account e) from to)
      else let legs = cash_legs e in
      if length legs \<noteq> 2 then Err (LegCount name ''exactly two monetary legs'' (length legs))
      else and_then (ok_or (List.find (\<lambda>l. l_account l = from) legs) (WrongAccount from)) (\<lambda>out.
      and_then (ok_or (List.find (\<lambda>l. l_account l = to) legs) (WrongAccount to)) (\<lambda>inn.
      and_then (leg_money name out) (\<lambda>out_money.
      and_then (leg_money name inn) (\<lambda>in_money.
      if m_currency out_money \<noteq> m_currency in_money
      then Err (VMoney (CurrencyMismatch (m_currency out_money) (m_currency in_money)))
      else if m_amount out_money \<ge> 0
      then Err (WrongSign name (m_amount out_money) (m_currency out_money))
      else if m_amount in_money \<le> 0
      then Err (WrongSign name (m_amount in_money) (m_currency in_money))
      else if m_amount declared \<le> 0
      then Err (NonPositive name ''amount'' (string_of_int (m_amount declared)))
      else and_then (map_err VMoney (try_add out_money in_money)) (\<lambda>residual.
      if \<not> money_is_zero residual then Err (TransferResidual (m_amount residual))
      else require_equal name in_money declared))))))"

definition validate_trade :: "deps \<Rightarrow> event \<Rightarrow> string \<Rightarrow> trade_side \<Rightarrow> trade_declaration \<Rightarrow> (unit, validation_error) result" where
  "validate_trade X e name side d =
     and_then (require_positive name ''gross'' (m_amount (td_gross d))) (\<lambda>_.
     and_then (require_positive_quantity X name ''quantity'' (td_quantity d)) (\<lambda>_.
     and_then (case td_basis_fee d of
         None \<Rightarrow> Ok ()
       | Some bf \<Rightarrow> and_then (require_positive name ''basis_fee'' (m_amount bf)) (\<lambda>_.
           ensure (m_currency bf = m_currency (td_gross d))
             (VMoney (CurrencyMismatch (m_currency bf) (m_currency (td_gross d)))))) (\<lambda>_.
     and_then (case td_basis_fee_exact d of
         None \<Rightarrow> Ok ()
       | Some bx \<Rightarrow> ensure (c_currency bx = m_currency (td_gross d))
             (VMoney (CurrencyMismatch (c_currency bx) (m_currency (td_gross d))))) (\<lambda>_.
     and_then (case (td_basis_fee d, td_basis_fee_exact d) of
         (None, None) \<Rightarrow> Ok ()
       | (Some bf, Some bx) \<Rightarrow>
           and_then (map_err VMoney (rounded_minor X bx)) (\<lambda>exact_rounded.
           ensure (exact_rounded = m_amount bf) (BasisFeeAmountMismatch name (m_amount bf) exact_rounded))
       | _ \<Rightarrow> Err (BasisFeePresenceMismatch name)) (\<lambda>_.
     and_then (single_leg_money name (cash_legs e) ''exactly one monetary leg'') (\<lambda>cash_money.
     and_then (idx (cash_legs e) 0) (\<lambda>cash0.
     and_then (require_own_account name (l_account cash0) (e_account e)) (\<lambda>_.
     and_then (map_err VMoney (trade_settlement side (td_gross d) (td_fee d) (td_accrued_interest d))) (\<lambda>expected.
     and_then (require_equal name cash_money expected) (\<lambda>_.
     let security = security_legs e in
     if length security \<noteq> 1 then Err (LegCount name ''exactly one security leg'' (length security))
     else and_then (idx security 0) (\<lambda>l.
     and_then (require_own_account name (l_account l) (e_account e)) (\<lambda>_.
     and_then (require_same_instrument name (l_instrument l) (td_instrument d)) (\<lambda>_.
     and_then (case side of Buy \<Rightarrow> Ok (td_quantity d)
               | Sell \<Rightarrow> map_err VNumeric (dec_checked_neg X (td_quantity d))) (\<lambda>expected_quantity.
     case l_quantity l of
       Some actual \<Rightarrow> ensure (d_eq X actual expected_quantity) (LegDoesNotMatchEvent name ''quantity'')
     | None \<Rightarrow> Err (LegDoesNotMatchEvent name ''quantity'')))))))))))))))"

fun validate_corporate_action :: "deps \<Rightarrow> event \<Rightarrow> string \<Rightarrow> corporate_action \<Rightarrow> (unit, validation_error) result" where
  "validate_corporate_action X e name
     (PartialRedemption instrument custody quantity per_unit compensation _ _ _ _) =
     and_then (require_positive name ''compensation'' (m_amount compensation)) (\<lambda>_.
     and_then (require_positive_quantity X name ''quantity'' quantity) (\<lambda>_.
     and_then (require_positive_per_unit X name ''principal_returned_per_unit'' per_unit) (\<lambda>_.
     expect_legs X e name [x_principal_leg (e_account e) instrument compensation])))"
| "validate_corporate_action X e name
     (Redemption instrument custody quantity per_unit compensation _ _ _) =
     and_then (require_positive name ''compensation'' (m_amount compensation)) (\<lambda>_.
     and_then (require_positive_quantity X name ''quantity'' quantity) (\<lambda>_.
     and_then (map_err VNumeric (dec_checked_neg X quantity)) (\<lambda>disposed.
     expect_legs X e name
       [x_principal_leg (e_account e) instrument compensation,
        x_security_leg (e_account e) custody instrument disposed])))"
| "validate_corporate_action X e name
     (Conversion predecessor successor custody ratio quantity_in quantity_out fractional compensation _ _ _ _) =
     and_then (require_positive_quantity X name ''quantity_in'' quantity_in) (\<lambda>_.
     and_then (require_positive_quantity X name ''quantity_out'' quantity_out) (\<lambda>_.
     and_then (require_positive_quantity X name ''ratio'' ratio) (\<lambda>_.
     and_then (require_conversion_ratio X name ratio quantity_in quantity_out fractional) (\<lambda>_.
     and_then (require_fraction_compensation name fractional compensation) (\<lambda>_.
     and_then (map_err VNumeric (dec_checked_neg X quantity_in)) (\<lambda>disposed.
     expect_legs X e name
       ([x_security_leg (e_account e) custody predecessor disposed,
         x_security_leg (e_account e) custody successor quantity_out] @
        (case compensation of Some c \<Rightarrow> [x_cash_leg (e_account e) c] | None \<Rightarrow> []))))))))"

definition validate_offer_exercise :: "deps \<Rightarrow> event \<Rightarrow> string \<Rightarrow> offer_exercise_action \<Rightarrow> (unit, validation_error) result" where
  "validate_offer_exercise X e name action =
     and_then (require_positive_quantity X name ''quantity'' (offer_quantity action)) (\<lambda>_.
     case action of
       Submitted _ _ _ _ \<Rightarrow> expect_legs X e name []
     | Cancelled _ _ \<Rightarrow> expect_legs X e name []
     | Settled _ instrument custody quantity gross fee accrued_interest \<Rightarrow>
         and_then (require_positive name ''gross'' (m_amount gross)) (\<lambda>_.
         and_then (map_err VMoney (trade_settlement Sell gross fee accrued_interest)) (\<lambda>settlement.
         and_then (map_err VNumeric (dec_checked_neg X quantity)) (\<lambda>disposed.
         expect_legs X e name
           [x_cash_leg (e_account e) settlement,
            x_security_leg (e_account e) custody instrument disposed]))))"

definition validate_opening_position :: "deps \<Rightarrow> event \<Rightarrow> string \<Rightarrow> instrument_id \<Rightarrow> quantity \<Rightarrow> (unit, validation_error) result" where
  "validate_opening_position X e name instrument quantity =
     and_then (require_positive_quantity X name ''quantity'' quantity) (\<lambda>_.
     let cash = cash_legs e; security = security_legs e in
     if cash \<noteq> [] then Err (LegCount name ''no monetary legs'' (length cash))
     else if length security \<noteq> 1 then Err (LegCount name ''exactly one security leg'' (length security))
     else and_then (idx security 0) (\<lambda>l.
     and_then (require_own_account name (l_account l) (e_account e)) (\<lambda>_.
     and_then (require_same_instrument name (l_instrument l) instrument) (\<lambda>_.
     case l_quantity l of
       Some actual \<Rightarrow> ensure (d_eq X actual quantity) (LegDoesNotMatchEvent name ''quantity'')
     | None \<Rightarrow> Err (LegDoesNotMatchEvent name ''quantity'')))))"

definition require_no_legs :: "event \<Rightarrow> string \<Rightarrow> (unit, validation_error) result" where
  "require_no_legs e name = ensure (e_legs e = []) (LegCount name ''no legs'' (length (e_legs e)))"

definition validate_stated_securities_value :: "deps \<Rightarrow> event \<Rightarrow> string \<Rightarrow> money \<Rightarrow> (unit, validation_error) result" where
  "validate_stated_securities_value X e name amount =
     (if m_amount amount \<le> 0
      then Err (NonPositive name ''amount'' (d_to_string X (to_calc_dec X amount)))
      else require_no_legs e name)"

definition validate_valuation :: "deps \<Rightarrow> event \<Rightarrow> string \<Rightarrow> decimal \<Rightarrow> (unit, validation_error) result" where
  "validate_valuation X e name price =
     (if \<not> dec_is_positive X price then Err (NonPositive name ''price'' (d_to_string X price))
      else require_no_legs e name)"

definition period_text :: "deps \<Rightarrow> assertion_period \<Rightarrow> string" where
  "period_text X p = t_date_to_string X (ap_from p) @ '' .. '' @ t_date_to_string X (ap_to p)"

definition validate_control_assertion :: "deps \<Rightarrow> event \<Rightarrow> string \<Rightarrow> assertion_period \<Rightarrow> control_claim \<Rightarrow> (unit, validation_error) result" where
  "validate_control_assertion X e name period claim =
     (if \<not> period_is_well_formed period then Err (NonPositive name ''period'' (period_text X period))
      else and_then (case claim of
          PositionQuantity _ quantity _ \<Rightarrow>
            ensure (\<not> dec_is_negative X quantity) (NonPositive name ''quantity'' (d_to_string X quantity))
        | _ \<Rightarrow> Ok ()) (\<lambda>_.
      and_then (case non_negative_field claim of
          Some (field, v) \<Rightarrow> ensure (\<not> v < 0) (NonPositive name field (string_of_int v))
        | None \<Rightarrow> Ok ()) (\<lambda>_.
      require_no_legs e name)))"

definition validate_import_coverage_gap :: "deps \<Rightarrow> event \<Rightarrow> string \<Rightarrow> assertion_period \<Rightarrow> dimension set \<Rightarrow> nat
    \<Rightarrow> refused_row list \<Rightarrow> (unit, validation_error) result" where
  "validate_import_coverage_gap X e name period dimensions refused rows =
     (if \<not> period_is_well_formed period then Err (NonPositive name ''period'' (period_text X period))
      else if refused < 1 then Err (NonPositive name ''refused'' (string_of_int (int refused)))
      else if dimensions = {} then Err (EmptySet name ''dimensions'')
      else if e_legs e \<noteq> [] then Err (LegCount name ''no legs'' (length (e_legs e)))
      else if rows = [] then Err (EmptySet name ''rows'')
      else if length rows \<noteq> refused
      then Err (NonPositive name ''refused''
             (string_of_int (int refused) @ '' declared, '' @ string_of_int (int (length rows)) @ '' rows listed''))
      else let union = \<Union> (set (map rr_dimensions rows)) in
      if union \<noteq> dimensions
      then Err (DimensionsMismatch name ''rows'' (dimensions_debug dimensions) (dimensions_debug union))
      else Ok ())"

definition validate_structure :: "deps \<Rightarrow> event \<Rightarrow> (unit, validation_error) result" where
  "validate_structure X e =
     (let name = discriminant (e_kind e) in
      case e_kind e of
        CashIn amount \<Rightarrow> expect_single_cash e name amount Positive
      | CashOut amount \<Rightarrow> expect_single_cash e name amount Negative
      | Refund amount \<Rightarrow> expect_single_cash e name amount Positive
      | OpeningCash amount \<Rightarrow> expect_single_cash e name amount Any
      | StatedSecuritiesValue amount \<Rightarrow> validate_stated_securities_value X e name amount
      | Income _ gross _ \<Rightarrow> expect_single_cash e name gross Positive
      | Fee amount _ \<Rightarrow> validate_fee e name amount
      | Tax amount _ \<Rightarrow> validate_tax e name amount
      | OwnAccountMovement amount \<Rightarrow> validate_own_account_movement e name amount
      | UnresolvedOwnAccountMovement amount \<Rightarrow> validate_unresolved_own_account_movement e name amount
      | CashTransfer _ from to amount \<Rightarrow> validate_transfer e name from to amount
      | Trade side instrument quantity gross fee basis_fee basis_fee_exact accrued_interest \<Rightarrow>
          validate_trade X e name side
            \<lparr>td_instrument = instrument, td_quantity = quantity, td_gross = gross, td_fee = fee,
             td_accrued_interest = accrued_interest, td_basis_fee = basis_fee,
             td_basis_fee_exact = basis_fee_exact\<rparr>
      | OpeningPosition instrument quantity _ _ \<Rightarrow> validate_opening_position X e name instrument quantity
      | Valuation _ price _ _ \<Rightarrow> validate_valuation X e name price
      | ControlAssertion period claim \<Rightarrow> validate_control_assertion X e name period claim
      | ImportCoverageGap period dimensions refused rows \<Rightarrow>
          validate_import_coverage_gap X e name period dimensions refused rows
      | CorporateAction action \<Rightarrow> validate_corporate_action X e name action
      | OfferExercise action \<Rightarrow> validate_offer_exercise X e name action)"

section \<open>No helper panics\<close>

named_theorems no_panic \<open>operations that never panic\<close>

lemma ok_result_no_panic [no_panic]:
  "require_equal n l d \<noteq> Panic" "leg_money n lg \<noteq> Panic" "single_leg_money n ls x \<noteq> Panic"
  "require_same_instrument n i j \<noteq> Panic" "require_own_account n a b \<noteq> Panic"
  "require_positive_quantity X n f q \<noteq> Panic" "require_positive_per_unit X n f p \<noteq> Panic"
  "require_positive n f v \<noteq> Panic" "require_fraction_compensation n ft c \<noteq> Panic"
  "require_no_legs e n \<noteq> Panic"
  by (auto simp: require_equal_def leg_money_def single_leg_money_def require_same_instrument_def
      require_own_account_def require_positive_quantity_def require_positive_per_unit_def
      require_positive_def require_fraction_compensation_def require_no_legs_def Let_def
      and_then_eq_Panic split: if_splits)

lemma arithmetic_no_panic [no_panic]:
  "try_add a b \<noteq> Panic" "try_sub a b \<noteq> Panic" "checked_negate a \<noteq> Panic" "rounded_minor X c \<noteq> Panic"
  "dec_checked_neg X q \<noteq> Panic" "dec_checked_mul X q r \<noteq> Panic"
  by (auto simp: try_add_def try_sub_def checked_negate_def require_same_currency_def rounded_minor_def
      dec_checked_round_to_scale_def dec_checked_neg_def dec_checked_sub_def dec_checked_mul_def
      and_then_eq_Panic Let_def)

lemma trade_settlement_no_panic [no_panic]: "trade_settlement side g f ai \<noteq> Panic"
  by (auto simp: trade_settlement_def and_then_eq_Panic no_panic split: option.splits trade_side.splits)

lemma require_conversion_ratio_no_panic [no_panic]: "require_conversion_ratio X n r a b ft \<noteq> Panic"
  by (auto simp: require_conversion_ratio_def and_then_eq_Panic no_panic Let_def)

lemma single_leg_money_Ok:
  "single_leg_money n ls x = Ok m \<longleftrightarrow> (\<exists>l. ls = [l] \<and> l_money l = Some m)"
  by (cases ls) (auto simp: single_leg_money_def leg_money_def)

lemma require_equal_Ok [simp]: "require_equal n l d = Ok u \<longleftrightarrow> l = d"
  by (cases l; cases d) (auto simp: require_equal_def)

lemma expect_single_cash_no_panic [no_panic]: "expect_single_cash e n m sg \<noteq> Panic"
  by (auto simp: expect_single_cash_def and_then_eq_Panic no_panic Let_def)

lemma validate_cash_kinds_no_panic [no_panic]:
  "validate_fee e n m \<noteq> Panic" "validate_tax e n m \<noteq> Panic"
  "validate_own_account_movement e n m \<noteq> Panic"
  "validate_unresolved_own_account_movement e n m \<noteq> Panic"
  by (auto simp: validate_fee_def validate_tax_def validate_own_account_movement_def
      validate_unresolved_own_account_movement_def and_then_eq_Panic no_panic split: list.splits)

lemma validate_transfer_no_panic [no_panic]: "validate_transfer e n f t m \<noteq> Panic"
  by (auto simp: validate_transfer_def and_then_eq_Panic no_panic Let_def)

lemma validate_trade_no_panic [no_panic]: "validate_trade X e n side d \<noteq> Panic"
proof -
  have "idx (cash_legs e) 0 \<noteq> Panic" if "single_leg_money n (cash_legs e) x = Ok m" for x m
    using that by (auto simp: single_leg_money_Ok)
  then show ?thesis
    by (auto simp: validate_trade_def and_then_eq_Panic no_panic Let_def split: option.splits trade_side.splits)
qed

lemma validate_corporate_action_no_panic [no_panic]: "validate_corporate_action X e n a \<noteq> Panic"
  by (cases a) (auto simp: and_then_eq_Panic no_panic)

lemma validate_offer_exercise_no_panic [no_panic]: "validate_offer_exercise X e n a \<noteq> Panic"
  by (cases a) (auto simp: validate_offer_exercise_def and_then_eq_Panic no_panic)

lemma validate_legless_no_panic [no_panic]:
  "validate_stated_securities_value X e n m \<noteq> Panic" "validate_valuation X e n p \<noteq> Panic"
  "validate_import_coverage_gap X e n ap ds k rows \<noteq> Panic"
  by (auto simp: validate_stated_securities_value_def validate_valuation_def
      validate_import_coverage_gap_def no_panic Let_def)

lemma validate_control_assertion_no_panic [no_panic]: "validate_control_assertion X e n ap cl \<noteq> Panic"
  by (auto simp: validate_control_assertion_def and_then_eq_Panic no_panic
      split: control_claim.splits option.splits)

lemma validate_opening_position_no_panic [no_panic]: "validate_opening_position X e n i q \<noteq> Panic"
  by (auto simp: validate_opening_position_def and_then_eq_Panic no_panic Let_def split: option.splits)

section \<open>What a validated event says\<close>

lemma expect_single_cash_Ok:
  "expect_single_cash e n m sg = Ok u \<longleftrightarrow>
     (\<exists>l. cash_legs e = [l] \<and> l_money l = Some m \<and>
          (case sg of Positive \<Rightarrow> m_amount m > 0 | Negative \<Rightarrow> m_amount m < 0 | Any \<Rightarrow> True))"
  by (auto simp: expect_single_cash_def single_leg_money_Ok Let_def)

lemma find_pair:
  assumes "length ls = 2" "List.find P ls = Some a" "List.find Q ls = Some b" "\<And>x. \<not> (P x \<and> Q x)"
  shows "mset ls = {#a, b#} \<and> P a \<and> Q b"
proof -
  obtain x y where ls: "ls = [x, y]" using assms(1) by (auto simp: numeral_2_eq_2 length_Suc_conv)
  show ?thesis using assms by (auto simp: ls split: if_splits)
qed

lemma validate_transfer_Ok:
  assumes "validate_transfer e n from to declared = Ok u"
  shows "from \<noteq> to \<and> e_account e \<in> {from, to} \<and> m_amount declared > 0 \<and>
    (\<exists>out inn. mset (cash_legs e) = {#out, inn#} \<and> l_account out = from \<and> l_account inn = to \<and>
       l_money inn = Some declared \<and>
       l_money out = Some (money_new (- m_amount declared) (m_currency declared)))"
proof -
  from assms have ne: "from \<noteq> to" and acc: "e_account e \<in> {from, to}" and len: "length (cash_legs e) = 2"
    by (auto simp: validate_transfer_def Let_def split: if_splits)
  from assms obtain out inn mo mi r where
    f: "List.find (\<lambda>l. l_account l = from) (cash_legs e) = Some out"
       "List.find (\<lambda>l. l_account l = to) (cash_legs e) = Some inn"
    and m: "l_money out = Some mo" "l_money inn = Some mi" "m_currency mo = m_currency mi"
    and s: "m_amount declared > 0" "try_add mo mi = Ok r" "money_is_zero r" "mi = declared"
    by (auto simp: validate_transfer_def leg_money_def Let_def split: if_splits)
  have pair: "mset (cash_legs e) = {#out, inn#} \<and> l_account out = from \<and> l_account inn = to"
    by (rule find_pair [OF len f]) (use ne in auto)
  have "mo = money_new (- m_amount declared) (m_currency declared)"
    using s m(3) by (cases mo) (auto simp: try_add_Ok money_is_zero_def money_new_def)
  then show ?thesis using ne acc pair m s by auto
qed

text \<open>The settlement of a trade as plain integer arithmetic in one currency.\<close>

definition settlement_total :: "trade_side \<Rightarrow> money \<Rightarrow> money option \<Rightarrow> money option \<Rightarrow> int" where
  "settlement_total side gross fee ai =
     (let amt = (\<lambda>x. case x of None \<Rightarrow> 0 | Some m \<Rightarrow> m_amount m); base = m_amount gross + amt ai in
      case side of Buy \<Rightarrow> - (base + amt fee) | Sell \<Rightarrow> base - amt fee)"

lemma trade_settlement_Ok:
  assumes "trade_settlement side gross fee ai = Ok s"
  shows "s = money_new (settlement_total side gross fee ai) (m_currency gross) \<and>
    (\<forall>m. fee = Some m \<or> ai = Some m \<longrightarrow> m_currency m = m_currency gross)"
  using assms
  by (cases side; cases fee; cases ai; cases gross)
     (auto simp: trade_settlement_def settlement_total_def money_new_def checked_negate_def pm_defs try_sub_def
        require_same_currency_def)

lemma validate_trade_Ok:
  assumes "validate_trade X e n side d = Ok u"
  shows "\<exists>lc ls q. cash_legs e = [lc] \<and> security_legs e = [ls] \<and>
     l_account lc = e_account e \<and> l_account ls = e_account e \<and>
     trade_settlement side (td_gross d) (td_fee d) (td_accrued_interest d) = Ok (the (l_money lc)) \<and>
     l_money lc \<noteq> None \<and> l_instrument ls = Some (td_instrument d) \<and> l_quantity ls = Some q \<and>
     (case side of Buy \<Rightarrow> d_eq X q (td_quantity d)
      | Sell \<Rightarrow> \<exists>nq. dec_checked_neg X (td_quantity d) = Ok nq \<and> d_eq X q nq)"
proof -
  from assms obtain m lc s where c: "cash_legs e = [lc]" "l_money lc = Some m" "l_account lc = e_account e"
    "trade_settlement side (td_gross d) (td_fee d) (td_accrued_interest d) = Ok s" "m = s"
    by (auto simp: validate_trade_def single_leg_money_Ok require_own_account_def Let_def)
  from assms obtain ls where l1: "security_legs e = [ls]"
    by (auto simp: validate_trade_def Let_def length_Suc_conv split: if_splits)
  from assms [unfolded validate_trade_def Let_def] obtain eq q where
    "l_account ls = e_account e" "l_instrument ls = Some (td_instrument d)"
    "(case side of Buy \<Rightarrow> Ok (td_quantity d)
      | Sell \<Rightarrow> map_err VNumeric (dec_checked_neg X (td_quantity d))) = Ok eq"
    "l_quantity ls = Some q" "d_eq X q eq"
    by (auto simp: l1 require_own_account_def require_same_instrument_def split: option.splits)
  then show ?thesis using c l1 by (cases side) auto
qed

section \<open>Properties\<close>

lemma validate_structure_returns [simp]: "validate_structure X e \<noteq> Panic"
  by (cases "e_kind e") (simp_all add: validate_structure_def no_panic)

text \<open>
  (C28) The backtracking leg matcher accepts an event exactly when its legs can be reordered so
  that they match the expected legs one by one; its diagnosis never indexes out of range.
\<close>

theorem expect_legs_iff_perfect_matching:
  "(expect_legs X e name expected = Ok () \<longleftrightarrow>
      (\<exists>legs'. mset legs' = mset (e_legs e) \<and> list_all2 (matches X) legs' expected)) \<and>
   expect_legs X e name expected \<noteq> Panic"
  by (simp add: expect_legs_Ok)

text \<open>
  Structural validation returns for every event: no slice index of any branch is out of
  range, whatever legs the event carries.
\<close>

lemma validate_structure_never_panics:
  "validate_structure X e \<noteq> Panic"
  by (rule validate_structure_returns)

text \<open>
  (C10) A validated transfer names two different accounts, is posted on one of them, and its
  cash legs are exactly two: minus the declared amount on the source and plus the declared
  positive amount on the destination, so they add up to zero.
\<close>

theorem validated_transfer_balances:
  assumes "e_kind e = CashTransfer t from to declared" "validate_structure X e = Ok ()"
  shows "from \<noteq> to \<and> e_account e \<in> {from, to} \<and> m_amount declared > 0 \<and>
    (\<exists>out inn. mset (cash_legs e) = {#out, inn#} \<and> l_account out = from \<and> l_account inn = to \<and>
       l_money inn = Some declared \<and>
       l_money out = Some (money_new (- m_amount declared) (m_currency declared)))"
  using assms by (intro validate_transfer_Ok [of e "''cash_transfer''"]) (simp add: validate_structure_def)

definition sample_of :: "event_kind \<Rightarrow> leg list \<Rightarrow> event" where
  "sample_of k ls =
     \<lparr>e_id = EventId 1, e_owner = OwnerId 1, e_account = AccountId 1,
      e_kind = k, e_dates = dates_for_cash 1, e_order = order_new 1 1, e_legs = ls,
      e_provenance = provenance_new (SourceId 1) [] [], e_relation = NoRelation,
      e_confidence = Known, e_idempotency_key = None\<rparr>"

theorem validated_transfer_balances_witness:
  "validate_structure ref_deps
     (sample_of (CashTransfer (TransferId 1) (AccountId 1) (AccountId 2) (money_new 500 Rub))
        [leg_cash (AccountId 1) (money_new (- 500) Rub), leg_cash (AccountId 2) (money_new 500 Rub)]) = Ok () \<and>
   AccountId 1 \<noteq> AccountId 2"
proof -
  let ?e = "sample_of (CashTransfer (TransferId 1) (AccountId 1) (AccountId 2) (money_new 500 Rub))
        [leg_cash (AccountId 1) (money_new (- 500) Rub), leg_cash (AccountId 2) (money_new 500 Rub)]"
  have k: "e_kind ?e = CashTransfer (TransferId 1) (AccountId 1) (AccountId 2) (money_new 500 Rub)"
    by (simp add: sample_of_def)
  have v: "validate_structure ref_deps ?e = Ok ()"
    by (simp add: validate_structure_def sample_of_def validate_transfer_def cash_legs_def legs_of_kind_def
        leg_cash_def leg_money_def money_new_def money_is_zero_def i64_defs try_add_def
        require_same_currency_def pm_defs to_i64_def require_equal_def)
  show ?thesis using v validated_transfer_balances [OF k v] by simp
qed

text \<open>
  A validated trade has one cash leg and one security leg, both on the account of the
  event; the cash leg is the settlement (gross and accrued interest plus the fee, paid, for a
  purchase; less the fee, received, for a sale) in the currency of the gross amount, and the
  security leg carries the declared instrument and the declared quantity, negated for a sale.
\<close>

lemma validated_trade_settles:
  assumes "e_kind e = Trade side i q gross fee bf bfx ai" "validate_structure X e = Ok ()"
  shows "\<exists>lc ls lq. cash_legs e = [lc] \<and> security_legs e = [ls] \<and>
     l_account lc = e_account e \<and> l_account ls = e_account e \<and>
     l_money lc = Some (money_new (settlement_total side gross fee ai) (m_currency gross)) \<and>
     l_instrument ls = Some i \<and> l_quantity ls = Some lq \<and>
     (case side of Buy \<Rightarrow> d_eq X lq q | Sell \<Rightarrow> \<exists>nq. dec_checked_neg X q = Ok nq \<and> d_eq X lq nq)"
proof -
  let ?d = "\<lparr>td_instrument = i, td_quantity = q, td_gross = gross, td_fee = fee,
             td_accrued_interest = ai, td_basis_fee = bf, td_basis_fee_exact = bfx\<rparr>"
  have "validate_trade X e ''trade'' side ?d = Ok ()"
    using assms by (simp add: validate_structure_def)
  from validate_trade_Ok [OF this, simplified] obtain lc ls lq where
    l: "cash_legs e = [lc]" "security_legs e = [ls]" "l_account lc = e_account e"
       "l_account ls = e_account e" "trade_settlement side gross fee ai = Ok (the (l_money lc))"
       "l_money lc \<noteq> None" "l_instrument ls = Some i" "l_quantity ls = Some lq"
       "case side of Buy \<Rightarrow> d_eq X lq q | Sell \<Rightarrow> \<exists>nq. dec_checked_neg X q = Ok nq \<and> d_eq X lq nq"
    by (cases side) auto
  then have "l_money lc = Some (money_new (settlement_total side gross fee ai) (m_currency gross))"
    using trade_settlement_Ok [OF l(5)] by auto
  with l show ?thesis by blast
qed

text \<open>A purchase of ten units for 1000.00 with a fee of 2.50 and accrued interest of 1.00.\<close>

definition sample_trade :: event where
  "sample_trade =
     sample_of (Trade Buy (InstrumentId 7) (Decimal 10 0) (money_new 100000 Rub) (Some (money_new 250 Rub))
                  None None (Some (money_new 100 Rub)))
       [leg_cash (AccountId 1) (money_new (- 100350) Rub),
        leg_security (AccountId 1) (CustodyId 3) (InstrumentId 7) (Decimal 100 1)]"

lemmas validation_eval =
  validate_structure_def sample_of_def validate_trade_def cash_legs_def security_legs_def
  legs_of_kind_def leg_cash_def leg_fee_def leg_security_def leg_money_def money_new_def i64_defs try_add_def
  require_same_currency_def pm_defs to_i64_def require_equal_def require_positive_def
  require_positive_quantity_def single_leg_money_def idx_def require_own_account_def
  trade_settlement_def checked_negate_def require_same_instrument_def dec_is_positive_def

lemma sample_trade_valid: "validate_structure ref_deps sample_trade = Ok ()"
  by (simp add: sample_trade_def validation_eval ref_deps_def ref_cmp_def ref_align_def)

text \<open>
  The count of monetary legs looks at the kind \<open>Cash\<close> only, while fee, tax and principal legs
  move cash too: a trade that carries an additional fee leg passes validation.
\<close>

lemma trade_with_extra_fee_leg_validates:
  "validate_structure ref_deps
     (sample_trade\<lparr>e_legs := e_legs sample_trade @ [leg_fee (AccountId 1) (money_new (- 999) Rub)]\<rparr>) = Ok () \<and>
   event_cash_effect
     (sample_trade\<lparr>e_legs := e_legs sample_trade @ [leg_fee (AccountId 1) (money_new (- 999) Rub)]\<rparr>) Rub =
     Ok (money_new (- 101349) Rub)"
proof
  show "validate_structure ref_deps
     (sample_trade\<lparr>e_legs := e_legs sample_trade @ [leg_fee (AccountId 1) (money_new (- 999) Rub)]\<rparr>) = Ok ()"
    by (simp add: sample_trade_def validation_eval ref_deps_def ref_cmp_def ref_align_def)
  show "event_cash_effect
     (sample_trade\<lparr>e_legs := e_legs sample_trade @ [leg_fee (AccountId 1) (money_new (- 999) Rub)]\<rparr>) Rub =
     Ok (money_new (- 101349) Rub)"
    by (simp add: event_cash_effect_def sample_trade_def sample_of_def leg_cash_effect_def leg_cash_def
        leg_fee_def leg_security_def List.map_filter_def money_new_def i64_defs)
qed

text \<open>
  A validated external cash movement has exactly one cash leg, which carries the declared
  amount: positive for cash in, refunds and income, negative for cash out.
\<close>

lemma validated_cash_movement_signed:
  assumes "validate_structure X e = Ok ()"
    "e_kind e = CashIn m \<or> e_kind e = Refund m \<or> (\<exists>i k. e_kind e = Income i m k) \<or> e_kind e = CashOut m"
  shows "\<exists>l. cash_legs e = [l] \<and> l_money l = Some m \<and>
           (if e_kind e = CashOut m then m_amount m < 0 else m_amount m > 0)"
  using assms by (auto simp: validate_structure_def expect_single_cash_Ok)

end
