(* ===== verification/Flows.thy ===== *)
theory Flows
  imports Validation
begin

text \<open>
  Contours (\<open>contour.rs\<close>) and the flow log (\<open>projection/flows.rs\<close>). A contour is a set of
  accounts; an event is classified by what it does at the contour's boundary, and the log
  records the money that crosses it. Counters of \<open>u64\<close> are natural numbers: they count
  events of a slice held in memory.
\<close>

section \<open>Contours\<close>

datatype contour_version = ContourVersion nat

record contour_definition =
  cd_id :: contour_id
  cd_version :: contour_version
  cd_accounts :: "account_id set"

definition contour_new :: "contour_id \<Rightarrow> contour_version \<Rightarrow> account_id list \<Rightarrow> contour_definition" where
  "contour_new i v accounts = \<lparr>cd_id = i, cd_version = v, cd_accounts = set accounts\<rparr>"

definition contour_contains :: "contour_definition \<Rightarrow> account_id \<Rightarrow> bool" where
  "contour_contains d a \<longleftrightarrow> a \<in> cd_accounts d"

datatype flow_class =
    ExternalIn contour_id contour_version
  | ExternalOut contour_id contour_version
  | Internal
  | Indeterminate contour_id contour_version
  | Irrelevant

definition classify :: "contour_definition \<Rightarrow> event \<Rightarrow> flow_class" where
  "classify d e =
     (let inbound = ExternalIn (cd_id d) (cd_version d);
          outbound = ExternalOut (cd_id d) (cd_version d) in
      case flow_endpoints_of (e_kind e) of
        InboundFromOutside \<Rightarrow> if contour_contains d (e_account e) then inbound else Irrelevant
      | OutboundToOutside \<Rightarrow> if contour_contains d (e_account e) then outbound else Irrelevant
      | BetweenAccounts from to \<Rightarrow>
          (case (contour_contains d from, contour_contains d to) of
             (True, True) \<Rightarrow> Internal
           | (False, True) \<Rightarrow> inbound
           | (True, False) \<Rightarrow> outbound
           | (False, False) \<Rightarrow> Irrelevant)
      | OwnAccountUnnamed \<Rightarrow>
          if contour_contains d (e_account e) then Indeterminate (cd_id d) (cd_version d) else Irrelevant
      | WithinAccount \<Rightarrow> if contour_contains d (e_account e) then Internal else Irrelevant)"

section \<open>The flow log\<close>

datatype flow_direction = DirIn | DirOut

fun flow_direction_code :: "flow_direction \<Rightarrow> string" where
  "flow_direction_code DirIn = ''in''"
| "flow_direction_code DirOut = ''out''"

record external_flow =
  xf_event :: event_id
  xf_date :: date
  xf_amount :: money
  xf_direction :: flow_direction
  xf_contour :: contour_id
  xf_version :: contour_version

datatype flow_error =
    FlowWithoutDate event_id
  | DirectionContradictsAmount event_id flow_direction int currency_code
  | FlowOverflow event_id

record flow_log =
  fl_external :: "external_flow list"
  fl_internal :: nat
  fl_indeterminate :: nat
  fl_irrelevant :: nat

definition flow_log_new :: flow_log where
  "flow_log_new = \<lparr>fl_external = [], fl_internal = 0, fl_indeterminate = 0, fl_irrelevant = 0\<rparr>"

definition moves_money :: "event \<Rightarrow> bool" where
  "moves_money e \<longleftrightarrow> list_ex (\<lambda>l. leg_cash_effect l \<noteq> None) (e_legs e)"

definition contour_cash_step :: "event \<Rightarrow> contour_definition \<Rightarrow> (currency_code, posted_minor) btree \<Rightarrow> leg
    \<Rightarrow> ((currency_code, posted_minor) btree, flow_error) result" where
  "contour_cash_step e d totals l =
     (if \<not> contour_contains d (l_account l) then Ok totals
      else case leg_cash_effect l of
             None \<Rightarrow> Ok totals
           | Some money \<Rightarrow> ok_or (bt_checked_add (m_currency money) (m_amount money) totals) (FlowOverflow (e_id e)))"

definition contour_cash_effect :: "event \<Rightarrow> contour_definition \<Rightarrow> ((currency_code, posted_minor) btree, flow_error) result" where
  "contour_cash_effect e d =
     map_ok (filter (\<lambda>(_, amount). amount \<noteq> 0)) (try_fold (contour_cash_step e d) [] (e_legs e))"

definition require_sign_matches :: "event_id \<Rightarrow> flow_direction \<Rightarrow> money \<Rightarrow> (unit, flow_error) result" where
  "require_sign_matches i direction money =
     (let raw = m_amount money;
          sign_ok = (case direction of DirIn \<Rightarrow> raw > 0 | DirOut \<Rightarrow> raw < 0) in
      if sign_ok then Ok () else Err (DirectionContradictsAmount i direction raw (m_currency money)))"

definition push_flow :: "event \<Rightarrow> date \<Rightarrow> flow_direction \<Rightarrow> contour_id \<Rightarrow> contour_version
    \<Rightarrow> flow_log \<Rightarrow> currency_code \<times> posted_minor \<Rightarrow> (flow_log, flow_error) result" where
  "push_flow e date direction c v fl entry =
     (let money = money_new (snd entry) (fst entry) in
      and_then (require_sign_matches (e_id e) direction money) (\<lambda>_.
      Ok (fl\<lparr>fl_external := fl_external fl @
        [\<lparr>xf_event = e_id e, xf_date = date, xf_amount = money, xf_direction = direction,
          xf_contour = c, xf_version = v\<rparr>]\<rparr>)))"

definition flow_apply_external :: "contour_definition \<Rightarrow> flow_log \<Rightarrow> event \<Rightarrow> flow_direction \<Rightarrow> contour_id
    \<Rightarrow> contour_version \<Rightarrow> (flow_log, flow_error) result" where
  "flow_apply_external d fl e direction c v =
     and_then (ok_or (effective_date (e_dates e)) (FlowWithoutDate (e_id e))) (\<lambda>date.
     and_then (contour_cash_effect e d) (\<lambda>totals.
     try_fold (push_flow e date direction c v) fl totals))"

definition flow_apply :: "contour_definition \<Rightarrow> flow_log \<Rightarrow> event \<Rightarrow> (flow_log, flow_error) result" where
  "flow_apply d fl e =
     (case classify d e of
        ExternalIn c v \<Rightarrow> flow_apply_external d fl e DirIn c v
      | ExternalOut c v \<Rightarrow> flow_apply_external d fl e DirOut c v
      | Internal \<Rightarrow> Ok (if moves_money e then fl\<lparr>fl_internal := fl_internal fl + 1\<rparr> else fl)
      | Indeterminate _ _ \<Rightarrow>
          Ok (if moves_money e then fl\<lparr>fl_indeterminate := fl_indeterminate fl + 1\<rparr> else fl)
      | Irrelevant \<Rightarrow> Ok (if moves_money e then fl\<lparr>fl_irrelevant := fl_irrelevant fl + 1\<rparr> else fl))"

section \<open>Cash effects of legs and events, as plain sums\<close>

text \<open>The postings of a leg list: account and currency with the posted amount.\<close>

definition leg_postings :: "leg list \<Rightarrow> ((account_id \<times> currency_code) \<times> int) list" where
  "leg_postings ls = List.map_filter (\<lambda>l. map_option (\<lambda>m. ((l_account l, m_currency m), m_amount m)) (leg_cash_effect l)) ls"

definition effect_on :: "(account_id \<Rightarrow> bool) \<Rightarrow> currency_code \<Rightarrow> leg list \<Rightarrow> int" where
  "effect_on A c ls = (\<Sum>((a, c'), v) \<leftarrow> leg_postings ls. if A a \<and> c' = c then v else 0)"

lemma leg_postings_simps [simp]:
  "leg_postings [] = []"
  "leg_postings (l # ls) =
     (case leg_cash_effect l of None \<Rightarrow> leg_postings ls
      | Some m \<Rightarrow> ((l_account l, m_currency m), m_amount m) # leg_postings ls)"
  by (simp_all add: leg_postings_def List.map_filter_simps split: option.splits)

lemma leg_postings_append [simp]: "leg_postings (xs @ ys) = leg_postings xs @ leg_postings ys"
  by (induction xs) (auto split: option.splits)

lemma effect_on_simps [simp]:
  "effect_on A c [] = 0"
  "effect_on A c (l # ls) =
     (case leg_cash_effect l of None \<Rightarrow> 0
      | Some m \<Rightarrow> if A (l_account l) \<and> m_currency m = c then m_amount m else 0) + effect_on A c ls"
  by (auto simp: effect_on_def split: option.splits)

lemma effect_on_append [simp]: "effect_on A c (xs @ ys) = effect_on A c xs + effect_on A c ys"
  by (induction xs) auto

lemma effect_on_mset: "mset xs = mset ys \<Longrightarrow> effect_on A c xs = effect_on A c ys"
proof -
  have "effect_on A c zs = (\<Sum>l \<in># mset zs. case leg_cash_effect l of None \<Rightarrow> 0
      | Some m \<Rightarrow> if A (l_account l) \<and> m_currency m = c then m_amount m else 0)" for zs
    by (induction zs) auto
  then show "mset xs = mset ys \<Longrightarrow> effect_on A c xs = effect_on A c ys" by simp
qed

section \<open>The cash effect on the contour\<close>

definition in_contour_postings :: "contour_definition \<Rightarrow> leg list \<Rightarrow> (currency_code \<times> int) list" where
  "in_contour_postings d ls =
     map (\<lambda>((a, c), v). (c, v)) (filter (\<lambda>((a, c), v). contour_contains d a) (leg_postings ls))"

lemma in_contour_postings_simps [simp]:
  "in_contour_postings d [] = []"
  "in_contour_postings d (ls @ [l]) = in_contour_postings d ls @
     (if contour_contains d (l_account l)
      then (case leg_cash_effect l of None \<Rightarrow> [] | Some m \<Rightarrow> [(m_currency m, m_amount m)]) else [])"
  by (auto simp: in_contour_postings_def split: option.splits)

lemma posted_total_in_contour: "posted_total (in_contour_postings d ls) c = effect_on (contour_contains d) c ls"
proof -
  have "posted_total (map (\<lambda>((a, c), v). (c, v)) (filter (\<lambda>((a, c), v). contour_contains d a) ps)) c =
      (\<Sum>((a, c'), v) \<leftarrow> ps. if contour_contains d a \<and> c' = c then v else 0)" for ps
    by (induction ps) auto
  then show ?thesis unfolding in_contour_postings_def effect_on_def .
qed

lemma contour_cash_fold:
  "try_fold (contour_cash_step e d) [] ls = Ok m \<Longrightarrow> accumulated m (in_contour_postings d ls)"
proof (induction ls arbitrary: m rule: rev_induct)
  case (snoc l ls)
  from snoc.prems obtain u where u: "try_fold (contour_cash_step e d) [] ls = Ok u"
    "contour_cash_step e d u l = Ok m" by (auto simp: try_fold_snoc_Ok)
  have "accumulated u (in_contour_postings d ls)" by (rule snoc.IH [OF u(1)])
  with u(2) show ?case
    by (auto simp: contour_cash_step_def intro: accumulated_snoc split: if_splits option.splits)
qed simp

text \<open>What the contour gains or loses in an event, currency by currency, without zeros.\<close>

lemma contour_cash_effect_Ok:
  assumes "contour_cash_effect e d = Ok totals"
  shows "bt_invar totals \<and>
    (\<forall>c v. (c, v) \<in> set totals \<longleftrightarrow> v = effect_on (contour_contains d) c (e_legs e) \<and> v \<noteq> 0)"
proof -
  from assms obtain m where m: "try_fold (contour_cash_step e d) [] (e_legs e) = Ok m"
    and t: "totals = filter (\<lambda>(_, amount). amount \<noteq> 0) m" by (auto simp: contour_cash_effect_def)
  have acc: "accumulated m (in_contour_postings d (e_legs e))" by (rule contour_cash_fold [OF m])
  then have inv: "bt_invar m" by (simp add: accumulated_def)
  have "(c, v) \<in> set m \<and> v \<noteq> 0 \<longleftrightarrow> v = effect_on (contour_contains d) c (e_legs e) \<and> v \<noteq> 0" for c v
    using acc bt.get_entries [OF inv, of c v] posted_total_absent [of c "in_contour_postings d (e_legs e)"]
    by (auto simp: accumulated_def posted_total_in_contour split: if_splits)
  then show ?thesis using bt_invar_filter [OF inv] by (auto simp: t)
qed

lemma contour_cash_effect_returns: "contour_cash_effect e d \<noteq> Panic"
proof -
  have "try_fold (contour_cash_step e d) [] (e_legs e) \<noteq> Panic"
    by (rule try_fold_never_panics [where P = "\<lambda>_. True"])
       (auto simp: contour_cash_step_def split: option.splits)
  then show ?thesis by (simp add: contour_cash_effect_def)
qed

section \<open>Invariant of the log\<close>

definition flow_ok :: "contour_definition \<Rightarrow> external_flow \<Rightarrow> bool" where
  "flow_ok d f \<longleftrightarrow> xf_contour f = cd_id d \<and> xf_version f = cd_version d \<and>
     (case xf_direction f of DirIn \<Rightarrow> m_amount (xf_amount f) > 0 | DirOut \<Rightarrow> m_amount (xf_amount f) < 0)"

definition flow_log_ok :: "contour_definition \<Rightarrow> flow_log \<Rightarrow> bool" where
  "flow_log_ok d fl \<longleftrightarrow> list_all (flow_ok d) (fl_external fl)"

definition flows_for :: "event \<Rightarrow> date \<Rightarrow> flow_direction \<Rightarrow> contour_id \<Rightarrow> contour_version
    \<Rightarrow> (currency_code \<times> posted_minor) list \<Rightarrow> external_flow list" where
  "flows_for e date direction c v totals =
     map (\<lambda>(cur, amount). \<lparr>xf_event = e_id e, xf_date = date, xf_amount = money_new amount cur,
            xf_direction = direction, xf_contour = c, xf_version = v\<rparr>) totals"

lemma push_flows_Ok:
  "try_fold (push_flow e date dir c v) fl totals = Ok fl' \<longleftrightarrow>
     fl' = fl\<lparr>fl_external := fl_external fl @ flows_for e date dir c v totals\<rparr> \<and>
     (\<forall>t \<in> set totals. case dir of DirIn \<Rightarrow> snd t > 0 | DirOut \<Rightarrow> snd t < 0)"
proof (induction totals arbitrary: fl)
  case Nil
  then show ?case by (cases fl) (auto simp: flows_for_def)
next
  case (Cons t totals)
  obtain cur amount where t: "t = (cur, amount)" by (cases t)
  show ?case
    using Cons.IH
    by (cases dir) (auto simp: push_flow_def require_sign_matches_def flows_for_def Let_def t money_new_def)
qed

lemma flow_apply_external_Ok:
  assumes "flow_apply_external d fl e dir c v = Ok fl'"
  shows "\<exists>date totals. effective_date (e_dates e) = Some date \<and> contour_cash_effect e d = Ok totals \<and>
     fl' = fl\<lparr>fl_external := fl_external fl @ flows_for e date dir c v totals\<rparr> \<and>
     (\<forall>t \<in> set totals. case dir of DirIn \<Rightarrow> snd t > 0 | DirOut \<Rightarrow> snd t < 0)"
  using assms by (auto simp: flow_apply_external_def push_flows_Ok)

lemma classify_ids:
  "classify d e = ExternalIn c v \<Longrightarrow> c = cd_id d \<and> v = cd_version d"
  "classify d e = ExternalOut c v \<Longrightarrow> c = cd_id d \<and> v = cd_version d"
  by (auto simp: classify_def Let_def split: flow_endpoints.splits if_splits bool.splits)

lemma flow_apply_returns: "flow_apply d fl e \<noteq> Panic"
proof -
  have "require_sign_matches i dir m \<noteq> Panic" for i dir m by (simp add: require_sign_matches_def Let_def)
  then have "try_fold (push_flow e date dir c v) fg totals \<noteq> Panic" for date dir c v fg totals
    by (intro try_fold_never_panics [where P = "\<lambda>_. True"])
       (auto simp: push_flow_def and_then_eq_Panic Let_def)
  then have "flow_apply_external d fl e dir c v \<noteq> Panic" for dir c v
    by (auto simp: flow_apply_external_def and_then_eq_Panic contour_cash_effect_returns)
  then show ?thesis by (auto simp: flow_apply_def split: flow_class.splits)
qed

lemma flow_apply_keeps_ok:
  assumes "flow_log_ok d fl" "flow_apply d fl e = Ok fl'"
  shows "flow_log_ok d fl'"
proof -
  have ext: "flow_log_ok d fl'" if "flow_apply_external d fl e dir (cd_id d) (cd_version d) = Ok fl'" for dir
    using flow_apply_external_Ok [OF that] assms(1)
    by (cases dir) (fastforce simp: flow_log_ok_def flow_ok_def flows_for_def list_all_iff money_new_def)+
  show ?thesis
  proof (cases "classify d e")
    case (ExternalIn c v)
    then show ?thesis using classify_ids(1) [OF ExternalIn] assms(2) ext by (simp add: flow_apply_def)
  next
    case (ExternalOut c v)
    then show ?thesis using classify_ids(2) [OF ExternalOut] assms(2) ext by (simp add: flow_apply_def)
  qed (use assms in \<open>auto simp: flow_apply_def flow_log_ok_def\<close>)
qed

interpretation flow: component flow_log_new "flow_apply d" "flow_log_ok d" for d
proof unfold_locales
  show "flow_log_ok d flow_log_new" by (simp add: flow_log_ok_def flow_log_new_def)
  show "flow_log_ok d s'" if "flow_log_ok d s" "flow_apply d s x = Ok s'" for s x s'
    using that by (rule flow_apply_keeps_ok)
  show "flow_apply d s x \<noteq> Panic" for s x by (rule flow_apply_returns)
qed

section \<open>Properties\<close>

definition crossing_direction :: "contour_definition \<Rightarrow> event \<Rightarrow> flow_direction option" where
  "crossing_direction d e = (case classify d e of
     ExternalIn _ _ \<Rightarrow> Some DirIn | ExternalOut _ _ \<Rightarrow> Some DirOut | _ \<Rightarrow> None)"

text \<open>The flow an event records in a currency: its net effect on the contour, if not zero.\<close>

definition is_flow_of :: "contour_definition \<Rightarrow> event \<Rightarrow> external_flow \<Rightarrow> bool" where
  "is_flow_of d e f \<longleftrightarrow>
     crossing_direction d e = Some (xf_direction f) \<and> xf_event f = e_id e \<and>
     effective_date (e_dates e) = Some (xf_date f) \<and>
     xf_contour f = cd_id d \<and> xf_version f = cd_version d \<and> m_amount (xf_amount f) \<noteq> 0 \<and>
     m_amount (xf_amount f) = effect_on (contour_contains d) (m_currency (xf_amount f)) (e_legs e)"

lemma flow_apply_Ok:
  assumes "flow_apply d fl e = Ok fl'"
  shows "(\<exists>new. fl_external fl' = fl_external fl @ new \<and> (\<forall>f. f \<in> set new \<longleftrightarrow> is_flow_of d e f)) \<and>
    fl_internal fl' = fl_internal fl + (if classify d e = Internal \<and> moves_money e then 1 else 0) \<and>
    fl_irrelevant fl' = fl_irrelevant fl + (if classify d e = Irrelevant \<and> moves_money e then 1 else 0)"
proof -
  have ext: ?thesis if x: "flow_apply_external d fl e dir (cd_id d) (cd_version d) = Ok fl'"
    and dir: "crossing_direction d e = Some dir" for dir
  proof -
    from flow_apply_external_Ok [OF x] obtain dt totals where
      r: "effective_date (e_dates e) = Some dt" "contour_cash_effect e d = Ok totals"
         "fl' = fl\<lparr>fl_external := fl_external fl @ flows_for e dt dir (cd_id d) (cd_version d) totals\<rparr>" by auto
    have mem: "(c, v) \<in> set totals \<longleftrightarrow> v = effect_on (contour_contains d) c (e_legs e) \<and> v \<noteq> 0" for c v
      using contour_cash_effect_Ok [OF r(2)] by blast
    have "f \<in> set (flows_for e dt dir (cd_id d) (cd_version d) totals) \<longleftrightarrow> is_flow_of d e f" for f
    proof
      assume "f \<in> set (flows_for e dt dir (cd_id d) (cd_version d) totals)"
      then obtain c v where "(c, v) \<in> set totals" "f = \<lparr>xf_event = e_id e, xf_date = dt,
          xf_amount = money_new v c, xf_direction = dir, xf_contour = cd_id d, xf_version = cd_version d\<rparr>"
        by (auto simp: flows_for_def)
      then show "is_flow_of d e f" using mem r(1) dir by (simp add: is_flow_of_def money_new_def)
    next
      assume f: "is_flow_of d e f"
      then have "(m_currency (xf_amount f), m_amount (xf_amount f)) \<in> set totals"
        by (simp add: mem is_flow_of_def)
      moreover have "f = \<lparr>xf_event = e_id e, xf_date = dt,
          xf_amount = money_new (m_amount (xf_amount f)) (m_currency (xf_amount f)),
          xf_direction = dir, xf_contour = cd_id d, xf_version = cd_version d\<rparr>"
        using f r(1) dir by (simp add: is_flow_of_def money_new_def)
      ultimately show "f \<in> set (flows_for e dt dir (cd_id d) (cd_version d) totals)"
        unfolding flows_for_def set_map
        by (intro image_eqI [where x = "(m_currency (xf_amount f), m_amount (xf_amount f))"]) auto
    qed
    moreover have "classify d e \<noteq> Internal" "classify d e \<noteq> Irrelevant"
      using dir by (auto simp: crossing_direction_def)
    ultimately show ?thesis by (auto simp: r(3))
  qed
  have none: "\<not> is_flow_of d e f" if "crossing_direction d e = None" for f
    using that by (simp add: is_flow_of_def)
  show ?thesis
  proof (cases "classify d e")
    case (ExternalIn c v)
    then show ?thesis
      using classify_ids(1) [OF ExternalIn] assms by (intro ext [of DirIn]) (auto simp: flow_apply_def crossing_direction_def)
  next
    case (ExternalOut c v)
    then show ?thesis
      using classify_ids(2) [OF ExternalOut] assms by (intro ext [of DirOut]) (auto simp: flow_apply_def crossing_direction_def)
  qed (use assms none in \<open>auto simp: flow_apply_def crossing_direction_def split: if_splits\<close>)
qed

text \<open>
  (C27) The flow log is sound and complete: its external flows are exactly the nonzero net
  effects, per currency, of the events that cross the contour's boundary, dated by the event
  and signed by the direction; the counters count the internal and irrelevant events that
  move money.
\<close>

theorem flow_log_sound_and_complete:
  assumes "try_fold (flow_apply d) flow_log_new es = Ok fl"
  shows "(\<forall>f. f \<in> set (fl_external fl) \<longleftrightarrow> (\<exists>e \<in> set es. is_flow_of d e f)) \<and>
    (\<forall>f \<in> set (fl_external fl). case xf_direction f of
       DirIn \<Rightarrow> m_amount (xf_amount f) > 0 | DirOut \<Rightarrow> m_amount (xf_amount f) < 0) \<and>
    fl_internal fl = length (filter (\<lambda>e. classify d e = Internal \<and> moves_money e) es) \<and>
    fl_irrelevant fl = length (filter (\<lambda>e. classify d e = Irrelevant \<and> moves_money e) es)"
proof -
  have "(\<forall>f. f \<in> set (fl_external fl) \<longleftrightarrow> (\<exists>e \<in> set es. is_flow_of d e f)) \<and>
    fl_internal fl = length (filter (\<lambda>e. classify d e = Internal \<and> moves_money e) es) \<and>
    fl_irrelevant fl = length (filter (\<lambda>e. classify d e = Irrelevant \<and> moves_money e) es)"
    using assms
  proof (induction es arbitrary: fl rule: rev_induct)
    case Nil
    then show ?case by (auto simp: flow_log_new_def)
  next
    case (snoc e es)
    from snoc.prems obtain u where u: "try_fold (flow_apply d) flow_log_new es = Ok u"
      "flow_apply d u e = Ok fl" by (auto simp: try_fold_snoc_Ok)
    from flow_apply_Ok [OF u(2)] obtain new where
      n: "fl_external fl = fl_external u @ new" "\<forall>f. f \<in> set new \<longleftrightarrow> is_flow_of d e f" by blast
    then show ?case using snoc.IH [OF u(1)] flow_apply_Ok [OF u(2)] by auto
  qed
  moreover have "flow_log_ok d fl" by (rule flow.inv_fold [OF assms])
  ultimately show ?thesis by (auto simp: flow_log_ok_def flow_ok_def list_all_iff)
qed

theorem flow_log_sound_and_complete_witness:
  "\<exists>fl. try_fold (flow_apply (contour_new (ContourId 1) (ContourVersion 1) [AccountId 1])) flow_log_new
     [sample_of (CashIn (money_new 700 Rub)) [leg_cash (AccountId 1) (money_new 700 Rub)]] = Ok fl \<and>
     (\<forall>f \<in> set (fl_external fl). xf_direction f = DirIn)"
proof -
  let ?d = "contour_new (ContourId 1) (ContourVersion 1) [AccountId 1]"
  let ?e = "sample_of (CashIn (money_new 700 Rub)) [leg_cash (AccountId 1) (money_new 700 Rub)]"
  have "\<exists>fl. try_fold (flow_apply ?d) flow_log_new [?e] = Ok fl"
    by (simp add: flow_apply_def classify_def sample_of_def contour_new_def
        contour_contains_def flow_apply_external_def effective_date_def dates_for_cash_def dates_empty_def
        or_else_def contour_cash_effect_def contour_cash_step_def leg_cash_def leg_cash_effect_def
        money_new_def bt_checked_add_def pm_defs to_i64_def i64_defs push_flow_def require_sign_matches_def)
  then obtain fl where fl: "try_fold (flow_apply ?d) flow_log_new [?e] = Ok fl" ..
  have "crossing_direction ?d ?e = Some DirIn"
    by (simp add: crossing_direction_def classify_def sample_of_def contour_new_def contour_contains_def)
  then show ?thesis
    using fl flow_log_sound_and_complete [OF fl] by (auto simp: is_flow_of_def)
qed

end
