(* ===== verification/Balances.thy ===== *)
theory Balances
  imports Flows
begin

text \<open>
  Cash balances and positions, \<open>projection/balances.rs\<close>: both are folds of the legs of the
  replayed events. The refinement lemma says that a slot of the cash map is the integer sum
  of the postings to it; a failed application returns the error and its caller discards the
  partly updated value, so an error carries no state here.
\<close>

datatype position_key = PositionKey (pk_account: account_id) (pk_instrument: instrument_id)

instantiation position_key :: linorder
begin

definition less_eq_position_key :: "position_key \<Rightarrow> position_key \<Rightarrow> bool" where
  "less_eq_position_key a b \<longleftrightarrow> (pk_account a, pk_instrument a) \<le> (pk_account b, pk_instrument b)"

definition less_position_key :: "position_key \<Rightarrow> position_key \<Rightarrow> bool" where
  "less_position_key a b \<longleftrightarrow> (pk_account a, pk_instrument a) < (pk_account b, pk_instrument b)"

instance
proof
  fix x y z :: position_key
  show "x < y \<longleftrightarrow> x \<le> y \<and> \<not> y \<le> x"
    unfolding less_eq_position_key_def less_position_key_def by (rule less_le_not_le)
  show "x \<le> x" by (simp add: less_eq_position_key_def)
  show "x \<le> y \<Longrightarrow> y \<le> z \<Longrightarrow> x \<le> z" unfolding less_eq_position_key_def by (rule order_trans)
  show "x \<le> y \<or> y \<le> x" unfolding less_eq_position_key_def by (rule linear)
  show "x = y" if "x \<le> y" "y \<le> x"
  proof -
    have "(pk_account x, pk_instrument x) = (pk_account y, pk_instrument y)"
      using that unfolding less_eq_position_key_def by (rule order_antisym)
    then show ?thesis by (cases x; cases y) simp
  qed
qed

end

datatype balance_error =
    CashOverflow account_id currency_code
  | QuantityWithoutInstrument event_id
  | BalanceNumeric numeric_error

record balances =
  bal_cash :: "(account_id \<times> currency_code, posted_minor) btree"
  bal_positions :: "(position_key, quantity) btree"

definition balances_new :: balances where
  "balances_new = \<lparr>bal_cash = [], bal_positions = []\<rparr>"

definition balances_apply_cash :: "balances \<Rightarrow> leg \<Rightarrow> (balances, balance_error) result" where
  "balances_apply_cash b l = (case leg_cash_effect l of
     None \<Rightarrow> Ok b
   | Some money \<Rightarrow>
       and_then (ok_or (bt_checked_add (l_account l, m_currency money) (m_amount money) (bal_cash b))
                   (CashOverflow (l_account l) (m_currency money))) (\<lambda>cash.
       Ok (b\<lparr>bal_cash := cash\<rparr>)))"

definition balances_apply_position :: "deps \<Rightarrow> event_id \<Rightarrow> balances \<Rightarrow> leg \<Rightarrow> (balances, balance_error) result" where
  "balances_apply_position X i b l = (case l_quantity l of
     None \<Rightarrow> Ok b
   | Some quantity \<Rightarrow>
       and_then (ok_or (l_instrument l) (QuantityWithoutInstrument i)) (\<lambda>instrument.
       let key = PositionKey (l_account l) instrument;
           slot = (case bt_get (bal_positions b) key of None \<Rightarrow> quantity_zero | Some q \<Rightarrow> q) in
       and_then (map_err BalanceNumeric (dec_checked_add X slot quantity)) (\<lambda>total.
       Ok (b\<lparr>bal_positions := bt_insert key total (bal_positions b)\<rparr>))))"

definition balances_apply_leg :: "deps \<Rightarrow> event_id \<Rightarrow> balances \<Rightarrow> leg \<Rightarrow> (balances, balance_error) result" where
  "balances_apply_leg X i b l =
     and_then (balances_apply_cash b l) (\<lambda>b'. balances_apply_position X i b' l)"

definition balances_apply :: "deps \<Rightarrow> balances \<Rightarrow> event \<Rightarrow> (balances, balance_error) result" where
  "balances_apply X b e = try_fold (balances_apply_leg X (e_id e)) b (e_legs e)"

definition balances_cash :: "balances \<Rightarrow> account_id \<Rightarrow> currency_code \<Rightarrow> money option" where
  "balances_cash b a c = map_option (\<lambda>amount. money_new amount c) (bt_get (bal_cash b) (a, c))"

definition iter_cash :: "balances \<Rightarrow> (account_id \<times> money) list" where
  "iter_cash b = map (\<lambda>((a, c), amount). (a, money_new amount c)) (bal_cash b)"

definition balances_position :: "balances \<Rightarrow> position_key \<Rightarrow> quantity option" where
  "balances_position b k = bt_get (bal_positions b) k"

definition negative_cash :: "balances \<Rightarrow> (account_id \<times> money) list" where
  "negative_cash b = filter (\<lambda>(_, m). m_amount m < 0) (iter_cash b)"

section \<open>Refinement to sums of postings\<close>

definition journal_legs :: "event list \<Rightarrow> leg list" where
  "journal_legs es = concat (map e_legs es)"

lemma journal_legs_simps [simp]:
  "journal_legs [] = []" "journal_legs (es @ [e]) = journal_legs es @ e_legs e"
  "journal_legs (e # es) = e_legs e @ journal_legs es"
  by (simp_all add: journal_legs_def)

definition balances_ok :: "balances \<Rightarrow> bool" where
  "balances_ok b \<longleftrightarrow> bt_invar (bal_cash b) \<and> bt_invar (bal_positions b)"

lemma balances_apply_cash_Ok:
  "balances_apply_cash b l = Ok b' \<Longrightarrow>
     bal_positions b' = bal_positions b \<and>
     (accumulated (bal_cash b) kvs \<longrightarrow> accumulated (bal_cash b') (kvs @ leg_postings [l]))"
  by (auto simp: balances_apply_cash_def intro: accumulated_snoc split: option.splits)

lemma balances_apply_position_cash: "balances_apply_position X i b l = Ok b' \<Longrightarrow> bal_cash b' = bal_cash b"
  by (auto simp: balances_apply_position_def Let_def split: option.splits)

lemma balances_apply_legs_accumulate:
  "try_fold (balances_apply_leg X i) b ls = Ok b' \<Longrightarrow> accumulated (bal_cash b) kvs \<Longrightarrow>
     accumulated (bal_cash b') (kvs @ leg_postings ls)"
proof (induction ls arbitrary: b kvs)
  case (Cons l ls)
  from Cons.prems(1) obtain v where v: "balances_apply_leg X i b l = Ok v"
    "try_fold (balances_apply_leg X i) v ls = Ok b'" by auto
  from v(1) obtain u where u: "balances_apply_cash b l = Ok u" "balances_apply_position X i u l = Ok v"
    by (auto simp: balances_apply_leg_def)
  note uv = u v(2)
  have "accumulated (bal_cash v) (kvs @ leg_postings [l])"
    using balances_apply_cash_Ok [OF uv(1), of kvs] balances_apply_position_cash [OF uv(2)] Cons.prems(2) by simp
  from Cons.IH [OF uv(3) this] show ?case
    by (simp split: option.splits)
qed simp

lemma balances_apply_accumulate:
  "balances_apply X b e = Ok b' \<Longrightarrow> accumulated (bal_cash b) kvs \<Longrightarrow>
     accumulated (bal_cash b') (kvs @ leg_postings (e_legs e))"
  unfolding balances_apply_def by (rule balances_apply_legs_accumulate)

lemma balances_fold_accumulate:
  "try_fold (balances_apply X) balances_new es = Ok b \<Longrightarrow>
     accumulated (bal_cash b) (leg_postings (journal_legs es))"
proof (induction es arbitrary: b rule: rev_induct)
  case Nil
  then show ?case by (auto simp: balances_new_def)
next
  case (snoc e es)
  from snoc.prems obtain u where u: "try_fold (balances_apply X) balances_new es = Ok u"
    "balances_apply X u e = Ok b" by (auto simp: try_fold_snoc_Ok)
  show ?case using balances_apply_accumulate [OF u(2) snoc.IH [OF u(1)]] by simp
qed

lemma balances_apply_leg_ok:
  "balances_ok b \<Longrightarrow> balances_apply_leg X i b l = Ok b' \<Longrightarrow> balances_ok b'"
  by (auto simp: balances_ok_def balances_apply_leg_def balances_apply_cash_def
      balances_apply_position_def bt_checked_add_Some Let_def split: option.splits)

interpretation bal: component balances_new "balances_apply X" balances_ok for X
proof unfold_locales
  show "balances_ok balances_new" by (simp add: balances_ok_def balances_new_def)
  show "balances_ok s'" if "balances_ok s" "balances_apply X s x = Ok s'" for s x s'
    by (rule try_fold_invariant [OF that(2) [unfolded balances_apply_def]])
       (use that(1) in \<open>auto intro: balances_apply_leg_ok\<close>)
  have "balances_apply_leg X i b l \<noteq> Panic" for i b l
    by (auto simp: balances_apply_leg_def balances_apply_cash_def balances_apply_position_def
        dec_checked_add_def and_then_eq_Panic Let_def split: option.splits)
  then show "balances_apply X s x \<noteq> Panic" for s x
    unfolding balances_apply_def by (intro try_fold_never_panics [where P = "\<lambda>_. True"]) auto
qed

section \<open>Positions\<close>

text \<open>The quantities posted to one position.\<close>

definition posted_quantities :: "position_key \<Rightarrow> leg list \<Rightarrow> quantity list" where
  "posted_quantities k ls =
     List.map_filter (\<lambda>l. if l_account l = pk_account k \<and> l_instrument l = Some (pk_instrument k)
                          then l_quantity l else None) ls"

lemma posted_quantities_simps [simp]:
  "posted_quantities k [] = []"
  "posted_quantities k (l # ls) =
     (if l_account l = pk_account k \<and> l_instrument l = Some (pk_instrument k)
      then (case l_quantity l of None \<Rightarrow> [] | Some q \<Rightarrow> [q]) else []) @ posted_quantities k ls"
  by (auto simp: posted_quantities_def List.map_filter_simps split: option.splits)

lemma posted_quantities_append [simp]:
  "posted_quantities k (xs @ ys) = posted_quantities k xs @ posted_quantities k ys"
  by (induction xs) auto

definition positions_hold :: "deps \<Rightarrow> (position_key, quantity) btree \<Rightarrow> leg list \<Rightarrow> bool" where
  "positions_hold X m ls \<longleftrightarrow>
     (\<forall>k. case bt_get m k of
            None \<Rightarrow> posted_quantities k ls = []
          | Some q \<Rightarrow> posted_quantities k ls \<noteq> [] \<and> dec_sum X (posted_quantities k ls) = Ok q)"

lemma dec_sum_snoc: "dec_sum X (qs @ [q]) = and_then (dec_sum X qs) (\<lambda>s. dec_checked_add X s q)"
  by (simp add: dec_sum_def try_fold_append)

lemma positions_hold_leg:
  assumes "positions_hold X (bal_positions b) ls" "balances_apply_position X i b l = Ok b'"
  shows "positions_hold X (bal_positions b') (ls @ [l])"
proof (cases "l_quantity l")
  case None
  then have "posted_quantities k (ls @ [l]) = posted_quantities k ls" for k by simp
  then show ?thesis using assms None by (simp only: balances_apply_position_def positions_hold_def) simp
next
  case (Some q)
  with assms(2) obtain ins total where ins: "l_instrument l = Some ins"
    and total: "dec_checked_add X (case bt_get (bal_positions b) (PositionKey (l_account l) ins) of
        None \<Rightarrow> quantity_zero | Some q \<Rightarrow> q) q = Ok total"
    and b': "bal_positions b' = bt_insert (PositionKey (l_account l) ins) total (bal_positions b)"
    by (auto simp: balances_apply_position_def Let_def)
  show ?thesis
    unfolding positions_hold_def
  proof
    fix k
    show "case bt_get (bal_positions b') k of None \<Rightarrow> posted_quantities k (ls @ [l]) = []
        | Some q \<Rightarrow> posted_quantities k (ls @ [l]) \<noteq> [] \<and> dec_sum X (posted_quantities k (ls @ [l])) = Ok q"
    proof (cases "k = PositionKey (l_account l) ins")
      case True
      have "dec_sum X (posted_quantities k ls) = Ok (case bt_get (bal_positions b) k of
          None \<Rightarrow> quantity_zero | Some q \<Rightarrow> q)"
        using assms(1) unfolding positions_hold_def
        by (cases "bt_get (bal_positions b) k") (auto simp: dec_sum_def quantity_zero_def dest: spec [of _ k])
      with True total show ?thesis by (simp add: b' ins Some dec_sum_snoc)
    next
      case False
      then have same: "posted_quantities k (ls @ [l]) = posted_quantities k ls"
        by (cases k) (auto simp: ins Some)
      show ?thesis unfolding same using assms(1) False by (simp add: b' positions_hold_def)
    qed
  qed
qed

lemma balances_legs_positions:
  "try_fold (balances_apply_leg X i) b ls = Ok b' \<Longrightarrow> positions_hold X (bal_positions b) done \<Longrightarrow>
     positions_hold X (bal_positions b') (done @ ls)"
proof (induction ls arbitrary: b "done")
  case (Cons l ls)
  from Cons.prems(1) obtain v where v: "balances_apply_leg X i b l = Ok v"
    "try_fold (balances_apply_leg X i) v ls = Ok b'" by auto
  from v(1) obtain u where u: "balances_apply_cash b l = Ok u" "balances_apply_position X i u l = Ok v"
    by (auto simp: balances_apply_leg_def)
  note uv = u v(2)
  have "positions_hold X (bal_positions u) done"
    using balances_apply_cash_Ok [OF uv(1), of "[]"] Cons.prems(2) by simp
  from Cons.IH [OF uv(3) positions_hold_leg [OF this uv(2)]] show ?case by simp
qed simp

lemma balances_fold_positions:
  "try_fold (balances_apply X) balances_new es = Ok b \<Longrightarrow>
     positions_hold X (bal_positions b) (journal_legs es)"
proof (induction es arbitrary: b rule: rev_induct)
  case Nil
  then show ?case by (auto simp: balances_new_def positions_hold_def)
next
  case (snoc e es)
  from snoc.prems obtain u where u: "try_fold (balances_apply X) balances_new es = Ok u"
    "balances_apply X u e = Ok b" by (auto simp: try_fold_snoc_Ok)
  show ?case
    using balances_legs_positions [OF u(2) [unfolded balances_apply_def] snoc.IH [OF u(1)]] by simp
qed

section \<open>Properties\<close>

lemma posted_total_effect: "posted_total (leg_postings ls) (a, c) = effect_on (\<lambda>x. x = a) c ls"
proof -
  have "posted_total ps (a, c) = (\<Sum>((b, c'), v) \<leftarrow> ps. if b = a \<and> c' = c then v else 0)" for ps
    by (induction ps) auto
  then show ?thesis by (simp add: effect_on_def)
qed

text \<open>
  The cash balance of an account in a currency is the integer sum of the cash effects of
  all replayed legs on it, and is absent exactly when no leg posted to it.
\<close>

lemma cash_of_fold:
  assumes "try_fold (balances_apply X) balances_new es = Ok b"
  shows "balances_cash b a c =
    (if (a, c) \<in> fst ` set (leg_postings (journal_legs es))
     then Some (money_new (effect_on (\<lambda>x. x = a) c (journal_legs es)) c) else None)"
  using balances_fold_accumulate [OF assms]
  by (simp add: accumulated_def balances_cash_def posted_total_effect)

lemma sample_cash_fold:
  "try_fold (balances_apply ref_deps) balances_new
     [sample_of (CashIn (money_new 700 Rub)) [leg_cash (AccountId 1) (money_new 700 Rub)],
      sample_of (Fee (money_new (- 20) Rub) Brokerage) [leg_fee (AccountId 1) (money_new (- 20) Rub)]] =
   Ok \<lparr>bal_cash = [((AccountId 1, Rub), 680)], bal_positions = []\<rparr>"
  by (simp add: balances_apply_def balances_apply_leg_def balances_apply_cash_def balances_apply_position_def
      balances_new_def sample_of_def leg_cash_def leg_fee_def leg_cash_effect_def money_new_def
      bt_checked_add_def pm_defs to_i64_def i64_defs bt_get_def)

text \<open>
  A position exists exactly when some replayed leg posted a quantity to it, and it holds
  the decimal sum of those quantities in replay order.
\<close>

lemma position_is_sum_of_quantities:
  assumes "try_fold (balances_apply X) balances_new es = Ok b"
  shows "case balances_position b k of
           None \<Rightarrow> posted_quantities k (journal_legs es) = []
         | Some q \<Rightarrow> posted_quantities k (journal_legs es) \<noteq> [] \<and>
                    dec_sum X (posted_quantities k (journal_legs es)) = Ok q"
  using balances_fold_positions [OF assms] unfolding positions_hold_def balances_position_def by blast

section \<open>The flow log explains the cash of the contour\<close>

definition crosses :: "contour_definition \<Rightarrow> event \<Rightarrow> bool" where
  "crosses d e \<longleftrightarrow> (case classify d e of ExternalIn _ _ \<Rightarrow> True | ExternalOut _ _ \<Rightarrow> True | _ \<Rightarrow> False)"

definition flow_total :: "currency_code \<Rightarrow> external_flow list \<Rightarrow> int" where
  "flow_total c fs = (\<Sum>f \<leftarrow> fs. if m_currency (xf_amount f) = c then m_amount (xf_amount f) else 0)"

definition contour_cash :: "contour_definition \<Rightarrow> currency_code \<Rightarrow> balances \<Rightarrow> int" where
  "contour_cash d c b = (\<Sum>((a, c'), v) \<leftarrow> bal_cash b. if contour_contains d a \<and> c' = c then v else 0)"

lemma sum_selected_key:
  "distinct (map fst m) \<Longrightarrow> (\<Sum>(j, v) \<leftarrow> m. if j = k then v else (0::int)) = (case map_of m k of None \<Rightarrow> 0 | Some v \<Rightarrow> v)"
proof (induction m)
  case (Cons e m)
  obtain j v where e: "e = (j, v)" by (cases e)
  have "map_of m j = None" using Cons.prems by (simp add: e map_of_eq_None_iff)
  with Cons show ?case by (auto simp: e)
qed simp

lemma contour_totals_sum:
  assumes "contour_cash_effect e d = Ok totals"
  shows "(\<Sum>(j, v) \<leftarrow> totals. if j = c then v else 0) = effect_on (contour_contains d) c (e_legs e)"
proof -
  note t = contour_cash_effect_Ok [OF assms]
  have d: "distinct (map fst totals)" using t bt_invar_distinct by blast
  have "map_of totals c = (if effect_on (contour_contains d) c (e_legs e) = 0 then None
      else Some (effect_on (contour_contains d) c (e_legs e)))"
    using t map_of_eq_Some_iff [OF d, of c] by (cases "map_of totals c") auto
  then show ?thesis by (simp add: sum_selected_key [OF d])
qed

lemma flow_total_flows_for: "flow_total c (flows_for e dt dir i v totals) = (\<Sum>(j, x) \<leftarrow> totals. if j = c then x else 0)"
  by (induction totals) (auto simp: flow_total_def flows_for_def money_new_def)

lemma flow_total_apply:
  assumes "flow_apply d fl e = Ok fl'"
  shows "flow_total c (fl_external fl') = flow_total c (fl_external fl) +
           (if crosses d e then effect_on (contour_contains d) c (e_legs e) else 0)"
proof -
  have ext: "flow_total c (fl_external fl') = flow_total c (fl_external fl) + effect_on (contour_contains d) c (e_legs e)"
    if x: "flow_apply_external d fl e dir i v = Ok fl'" for dir i v
  proof -
    from flow_apply_external_Ok [OF x] obtain dt totals where
      r: "contour_cash_effect e d = Ok totals"
         "fl' = fl\<lparr>fl_external := fl_external fl @ flows_for e dt dir i v totals\<rparr>" by auto
    have "flow_total c (fl_external fl') = flow_total c (fl_external fl) + flow_total c (flows_for e dt dir i v totals)"
      by (simp add: r(2) flow_total_def)
    then show ?thesis by (simp only: flow_total_flows_for contour_totals_sum [OF r(1)])
  qed
  show ?thesis
    using assms ext by (cases "classify d e") (auto simp: flow_apply_def crosses_def split: if_splits)
qed

text \<open>
  (C5) For every journal both read models accept, the cash the contour's accounts hold in a
  currency is exactly the sum of the recorded external flows in it plus the cash effect on
  those accounts of the events that do not cross the boundary: no crossing money is lost,
  counted twice or recorded with another amount.
\<close>

theorem flow_log_explains_contour_cash:
  assumes "try_fold (balances_apply X) balances_new es = Ok b"
    and "try_fold (flow_apply d) flow_log_new es = Ok fl"
  shows "contour_cash d c b = flow_total c (fl_external fl) +
           effect_on (contour_contains d) c (journal_legs (filter (\<lambda>e. \<not> crosses d e) es))"
proof -
  have "flow_total c (fl_external fl) + effect_on (contour_contains d) c (journal_legs (filter (\<lambda>e. \<not> crosses d e) es)) =
        effect_on (contour_contains d) c (journal_legs es)"
    using assms(2)
  proof (induction es arbitrary: fl rule: rev_induct)
    case Nil
    then show ?case by (auto simp: flow_log_new_def flow_total_def)
  next
    case (snoc e es)
    from snoc.prems obtain u where u: "try_fold (flow_apply d) flow_log_new es = Ok u"
      "flow_apply d u e = Ok fl" by (auto simp: try_fold_snoc_Ok)
    show ?case using snoc.IH [OF u(1)] flow_total_apply [OF u(2), of c] by simp
  qed
  moreover have sel: "(\<lambda>((a, c'), v). if contour_contains d a \<and> c' = c then v else 0) =
      (\<lambda>(j, v). if (case j of (a, c') \<Rightarrow> contour_contains d a \<and> c' = c) then v else (0::int))"
    by (auto simp: fun_eq_iff)
  have "contour_cash d c b = effect_on (contour_contains d) c (journal_legs es)"
    unfolding contour_cash_def effect_on_def sel
    using accumulated_sum [OF balances_fold_accumulate [OF assms(1)], of "\<lambda>(a, c'). contour_contains d a \<and> c' = c"] .
  ultimately show ?thesis by simp
qed

definition sample_contour :: contour_definition where
  "sample_contour = contour_new (ContourId 1) (ContourVersion 1) [AccountId 1]"

theorem flow_log_explains_contour_cash_witness:
  "\<exists>fl. try_fold (flow_apply sample_contour) flow_log_new
     [sample_of (CashIn (money_new 700 Rub)) [leg_cash (AccountId 1) (money_new 700 Rub)],
      sample_of (Fee (money_new (- 20) Rub) Brokerage) [leg_fee (AccountId 1) (money_new (- 20) Rub)]] = Ok fl \<and>
   contour_cash sample_contour Rub \<lparr>bal_cash = [((AccountId 1, Rub), 680)], bal_positions = []\<rparr> =
     flow_total Rub (fl_external fl) + (- 20)"
proof -
  let ?es = "[sample_of (CashIn (money_new 700 Rub)) [leg_cash (AccountId 1) (money_new 700 Rub)],
      sample_of (Fee (money_new (- 20) Rub) Brokerage) [leg_fee (AccountId 1) (money_new (- 20) Rub)]]"
  have "\<exists>fl. try_fold (flow_apply sample_contour) flow_log_new ?es = Ok fl"
    by (simp add: flow_apply_def classify_def sample_of_def sample_contour_def contour_new_def
        contour_contains_def flow_apply_external_def effective_date_def dates_for_cash_def dates_empty_def
        or_else_def contour_cash_effect_def contour_cash_step_def leg_cash_def leg_fee_def leg_cash_effect_def
        money_new_def bt_checked_add_def pm_defs to_i64_def i64_defs push_flow_def require_sign_matches_def)
  then obtain fl where fl: "try_fold (flow_apply sample_contour) flow_log_new ?es = Ok fl" ..
  have "journal_legs (filter (\<lambda>e. \<not> crosses sample_contour e) ?es) = [leg_fee (AccountId 1) (money_new (- 20) Rub)]"
    by (simp add: crosses_def classify_def sample_of_def sample_contour_def contour_new_def contour_contains_def)
  then show ?thesis
    using fl flow_log_explains_contour_cash [OF sample_cash_fold fl, of Rub]
    by (auto simp: sample_contour_def contour_new_def contour_contains_def leg_fee_def leg_cash_effect_def money_new_def)
qed

end
