(* ===== verification/Ownership.thy ===== *)
theory Ownership
  imports EventModel OrderedMap
begin

text \<open>
  What is known of the settlement of an event (\<open>settlement.rs\<close>) and the ownership of an
  instrument on a day derived from it (\<open>projection/ownership.rs\<close>). The answer is an interval
  computation; the main theorem says that a definite answer holds under every settlement
  the knowledge admits.
\<close>

section \<open>Settlement knowledge\<close>

datatype settlement_knowledge = SExact date | SBounded date date | SUnbounded

datatype applied = AYes | ANo | AMaybe

definition settlement_bounded :: "date \<Rightarrow> date \<Rightarrow> date \<Rightarrow> applied" where
  "settlement_bounded earliest latest day =
     (if latest < day then AYes else if day < earliest then ANo else AMaybe)"

fun applied_before :: "settlement_knowledge \<Rightarrow> date \<Rightarrow> applied" where
  "applied_before (SExact d) day = settlement_bounded d d day"
| "applied_before (SBounded earliest latest) day = settlement_bounded earliest latest day"
| "applied_before SUnbounded day = AMaybe"

datatype settlement_lag_policy_version = SettlementLagPolicyVersion nat

record settlement_lag_policy =
  slp_version :: settlement_lag_policy_version
  slp_max_calendar_days :: "(parser_version, nat) btree"

definition settlement_policy_new :: "settlement_lag_policy_version \<Rightarrow> settlement_lag_policy" where
  "settlement_policy_new v = \<lparr>slp_version = v, slp_max_calendar_days = []\<rparr>"

definition settlement_policy_v1 :: settlement_lag_policy where
  "settlement_policy_v1 = settlement_policy_new (SettlementLagPolicyVersion 1)"

definition settlement_with_profile :: "settlement_lag_policy \<Rightarrow> parser_version \<Rightarrow> nat \<Rightarrow> settlement_lag_policy" where
  "settlement_with_profile p profile days =
     p\<lparr>slp_max_calendar_days := bt_insert profile days (slp_max_calendar_days p)\<rparr>"

definition knowledge_of :: "deps \<Rightarrow> settlement_lag_policy \<Rightarrow> event_dates \<Rightarrow> parser_version \<Rightarrow> settlement_knowledge" where
  "knowledge_of X p dates parser =
     (case ed_settled dates of
        Some settled \<Rightarrow> SExact settled
      | None \<Rightarrow> (case ed_trade dates of
          None \<Rightarrow> SUnbounded
        | Some trade \<Rightarrow> (case bt_get (slp_max_calendar_days p) parser of
            None \<Rightarrow> SUnbounded
          | Some max_days \<Rightarrow> (case t_checked_add_days X trade (int max_days) of
              None \<Rightarrow> SUnbounded
            | Some latest \<Rightarrow> SBounded trade latest))))"

section \<open>Ownership\<close>

datatype ownership = Owned | NotOwned | OwnershipUnknown

record ownership_change =
  oc_delta :: quantity
  oc_settlement :: settlement_knowledge

record ownership_history =
  oh_changes :: "ownership_change list"

definition ownership_new :: ownership_history where
  "ownership_new = \<lparr>oh_changes = []\<rparr>"

definition ownership_observe :: "ownership_history \<Rightarrow> quantity \<Rightarrow> settlement_knowledge \<Rightarrow> ownership_history" where
  "ownership_observe h delta s =
     h\<lparr>oh_changes := oh_changes h @ [\<lparr>oc_delta = delta, oc_settlement = s\<rparr>]\<rparr>"

text \<open>The loop: \<open>None\<close> is the early return with \<open>Unknown\<close> on an overflow.\<close>

fun ownership_loop :: "deps \<Rightarrow> date \<Rightarrow> decimal \<Rightarrow> decimal \<Rightarrow> ownership_change list \<Rightarrow> (decimal \<times> decimal) option" where
  "ownership_loop X day lo hi [] = Some (lo, hi)"
| "ownership_loop X day lo hi (c # cs) =
     (case applied_before (oc_settlement c) day of
        AYes \<Rightarrow> Option.bind (d_checked_add X lo (oc_delta c)) (\<lambda>lo'.
                Option.bind (d_checked_add X hi (oc_delta c)) (\<lambda>hi'.
                ownership_loop X day lo' hi' cs))
      | ANo \<Rightarrow> ownership_loop X day lo hi cs
      | AMaybe \<Rightarrow>
          if dec_is_negative X (oc_delta c)
          then Option.bind (d_checked_add X lo (oc_delta c)) (\<lambda>lo'. ownership_loop X day lo' hi cs)
          else Option.bind (d_checked_add X hi (oc_delta c)) (\<lambda>hi'. ownership_loop X day lo hi' cs))"

definition ownership_at :: "deps \<Rightarrow> ownership_history \<Rightarrow> date \<Rightarrow> ownership" where
  "ownership_at X h day =
     (case ownership_loop X day dec_zero dec_zero (oh_changes h) of
        None \<Rightarrow> OwnershipUnknown
      | Some (lo, hi) \<Rightarrow>
          if dec_is_positive X lo then Owned
          else if d_is_zero X hi then NotOwned
          else OwnershipUnknown)"

section \<open>Settlements the knowledge admits\<close>

fun settles_on :: "settlement_knowledge \<Rightarrow> date \<Rightarrow> bool" where
  "settles_on (SExact e) d \<longleftrightarrow> d = e"
| "settles_on (SBounded earliest latest) d \<longleftrightarrow> earliest \<le> d \<and> d \<le> latest"
| "settles_on SUnbounded d \<longleftrightarrow> True"

text \<open>A change settled on a day before is in force, one settled later is not; on the day itself either.\<close>

definition in_force :: "settlement_knowledge \<Rightarrow> date \<Rightarrow> bool \<Rightarrow> bool" where
  "in_force k day b \<longleftrightarrow> (\<exists>d. settles_on k d \<and> (d < day \<longrightarrow> b) \<and> (day < d \<longrightarrow> \<not> b))"

definition admits :: "date \<Rightarrow> ownership_change list \<Rightarrow> bool list \<Rightarrow> bool" where
  "admits day cs bs \<longleftrightarrow> list_all2 (\<lambda>c b. in_force (oc_settlement c) day b) cs bs"

definition held_under :: "ownership_change list \<Rightarrow> bool list \<Rightarrow> rat" where
  "held_under cs bs = (\<Sum>(c, b) \<leftarrow> zip cs bs. if b then dec_val (oc_delta c) else 0)"

lemma applied_before_sound:
  "applied_before k day = AYes \<Longrightarrow> in_force k day b \<Longrightarrow> b"
  "applied_before k day = ANo \<Longrightarrow> in_force k day b \<Longrightarrow> \<not> b"
  by (cases k; auto simp: in_force_def settlement_bounded_def split: if_splits)+

lemma held_under_simps [simp]:
  "held_under [] bs = 0"
  "held_under (c # cs) (b # bs) = (if b then dec_val (oc_delta c) else 0) + held_under cs bs"
  by (simp_all add: held_under_def)

text \<open>Everything the loop adds stays a number the decimal type holds.\<close>

definition fits_decimal :: "nat \<Rightarrow> rat \<Rightarrow> ownership_change list \<Rightarrow> bool" where
  "fits_decimal s base cs \<longleftrightarrow> s \<le> 28 \<and> (\<forall>c \<in> set cs. multiple s (dec_val (oc_delta c))) \<and>
     (base + (\<Sum>c \<leftarrow> cs. \<bar>dec_val (oc_delta c)\<bar>)) * 10 ^ s < 2 ^ 96"

lemma abs_sum_nonneg: "0 \<le> (\<Sum>c \<leftarrow> cs. \<bar>dec_val (oc_delta c)\<bar>)"
  by (induction cs) auto

lemma fits_decimal_tail:
  assumes "fits_decimal s base (c # cs)" "base' \<le> base + \<bar>dec_val (oc_delta c)\<bar>"
  shows "fits_decimal s base' cs"
proof -
  have "(base' + (\<Sum>c \<leftarrow> cs. \<bar>dec_val (oc_delta c)\<bar>)) * 10 ^ s \<le>
        (base + (\<Sum>c \<leftarrow> c # cs. \<bar>dec_val (oc_delta c)\<bar>)) * 10 ^ s"
    using assms(2) by (intro mult_right_mono) auto
  also have "\<dots> < 2 ^ 96" using assms(1) by (simp only: fits_decimal_def)
  finally show ?thesis using assms(1) by (auto simp only: fits_decimal_def list.set)
qed

lemma multiple_dec_val: "multiple (scale d) (dec_val d)"
  by (auto simp: multiple_def dec_val_def)

lemma sum_laws_add:
  assumes "sum_laws X s" "holds s (dec_val a)" "holds s (dec_val b)" "holds s (dec_val a + dec_val b)"
    and "d_checked_add X a b = Some c"
  shows "dec_val c = dec_val a + dec_val b"
  using assms unfolding sum_laws_def by blast

lemma add_within:
  assumes "sum_laws X s" "fits_decimal s base (c # cs)" "multiple s (dec_val a)" "\<bar>dec_val a\<bar> \<le> base"
    and "d_checked_add X a (oc_delta c) = Some r"
  shows "dec_val r = dec_val a + dec_val (oc_delta c) \<and> multiple s (dec_val r) \<and>
         \<bar>dec_val r\<bar> \<le> base + \<bar>dec_val (oc_delta c)\<bar>"
proof -
  let ?x = "dec_val (oc_delta c)"
  have m: "multiple s ?x" "s \<le> 28" using assms(2) by (auto simp: fits_decimal_def)
  have bound: "(base + \<bar>?x\<bar>) * 10 ^ s < 2 ^ 96"
  proof -
    have "(base + \<bar>?x\<bar>) * 10 ^ s \<le> (base + (\<Sum>c \<leftarrow> c # cs. \<bar>dec_val (oc_delta c)\<bar>)) * 10 ^ s"
      using abs_sum_nonneg [of cs] by (intro mult_right_mono) auto
    also have "\<dots> < 2 ^ 96" using assms(2) by (simp only: fits_decimal_def)
    finally show ?thesis .
  qed
  have small: "\<bar>r\<bar> * 10 ^ s < 2 ^ 96" if "\<bar>r\<bar> \<le> base + \<bar>?x\<bar>" for r :: rat
    by (rule le_less_trans [OF mult_right_mono [OF that] bound]) simp
  have "holds s (dec_val a)" "holds s ?x" "holds s (dec_val a + ?x)"
    unfolding holds_iff using assms(3,4) m multiple_add [OF assms(3) m(1)]
    by (intro conjI small; simp)+
  then have "dec_val r = dec_val a + ?x"
    using sum_laws_add [OF assms(1) _ _ _ assms(5)] by blast
  then show ?thesis using assms(3,4) m multiple_add by auto
qed

lemma ownership_loop_bounds:
  assumes "sum_laws X s" "order_laws X"
  shows "ownership_loop X day lo hi cs = Some (lo', hi') \<Longrightarrow> admits day cs bs \<Longrightarrow>
    fits_decimal s base cs \<Longrightarrow> multiple s (dec_val lo) \<Longrightarrow> multiple s (dec_val hi) \<Longrightarrow>
    \<bar>dec_val lo\<bar> \<le> base \<Longrightarrow> \<bar>dec_val hi\<bar> \<le> base \<Longrightarrow> dec_val lo \<le> x \<Longrightarrow> x \<le> dec_val hi \<Longrightarrow>
    dec_val lo' \<le> x + held_under cs bs \<and> x + held_under cs bs \<le> dec_val hi'"
proof (induction cs arbitrary: lo hi bs base x)
  case Nil
  then show ?case by (simp add: admits_def)
next
  case (Cons c cs)
  let ?x = "dec_val (oc_delta c)"
  from Cons.prems(2) obtain b bs' where bs: "bs = b # bs'" and force: "in_force (oc_settlement c) day b"
    and adm: "admits day cs bs'" by (auto simp: admits_def list_all2_Cons1)
  note add = add_within [OF assms(1) Cons.prems(3)]
  have base0: "0 \<le> base" using Cons.prems(6) by linarith
  have tail: "fits_decimal s (base + \<bar>?x\<bar>) cs" by (rule fits_decimal_tail [OF Cons.prems(3)]) simp
  show ?case
  proof (cases "applied_before (oc_settlement c) day")
    case AYes
    with Cons.prems(1) obtain l h where lh: "d_checked_add X lo (oc_delta c) = Some l"
      "d_checked_add X hi (oc_delta c) = Some h" "ownership_loop X day l h cs = Some (lo', hi')"
      by (auto simp: bind_eq_Some_conv)
    have b: b using applied_before_sound(1) [OF AYes force] .
    show ?thesis
      using Cons.IH [OF lh(3) adm tail, of "x + ?x"] add [OF Cons.prems(4,6) lh(1)]
        add [OF Cons.prems(5,7) lh(2)] Cons.prems(8,9) b by (auto simp: bs algebra_simps)
  next
    case ANo
    have "\<not> b" using applied_before_sound(2) [OF ANo force] .
    then show ?thesis
      using Cons.IH [OF _ adm tail Cons.prems(4,5), of x] Cons.prems ANo by (simp add: bs)
  next
    case AMaybe
    show ?thesis
    proof (cases "dec_is_negative X (oc_delta c)")
      case True
      then have neg: "?x < 0" by (simp add: dec_sign_cases(2) [OF assms(2)])
      from Cons.prems(1) True AMaybe obtain l where l: "d_checked_add X lo (oc_delta c) = Some l"
        "ownership_loop X day l hi cs = Some (lo', hi')" by (auto simp: bind_eq_Some_conv)
      show ?thesis
        using Cons.IH [OF l(2) adm tail, of "x + (if b then ?x else 0)"] add [OF Cons.prems(4,6) l(1)]
          Cons.prems(5,7,8,9) neg by (auto simp: bs algebra_simps split: if_splits)
    next
      case False
      then have nonneg: "0 \<le> ?x" by (simp add: dec_sign_cases(2) [OF assms(2)])
      from Cons.prems(1) False AMaybe obtain h where h: "d_checked_add X hi (oc_delta c) = Some h"
        "ownership_loop X day lo h cs = Some (lo', hi')" by (auto simp: bind_eq_Some_conv)
      show ?thesis
        using Cons.IH [OF h(2) adm tail, of "x + (if b then ?x else 0)"] add [OF Cons.prems(5,7) h(1)]
          Cons.prems(4,6,8,9) nonneg by (auto simp: bs algebra_simps split: if_splits)
    qed
  qed
qed

section \<open>Properties\<close>

lemma dec_val_zero [simp]: "dec_val dec_zero = 0"
  by (simp add: dec_val_def dec_zero_def)

text \<open>
  (C9) A definite ownership answer holds under every settlement the knowledge admits: if the
  answer is owned, the quantity in force on the day is positive however the uncertain
  changes settled; if it is not owned, it is never positive.
\<close>

theorem ownership_answer_is_sound:
  assumes "sum_laws X s" "order_laws X" "fits_decimal s 0 (oh_changes h)"
    and "admits day (oh_changes h) bs"
  shows "(ownership_at X h day = Owned \<longrightarrow> held_under (oh_changes h) bs > 0) \<and>
         (ownership_at X h day = NotOwned \<longrightarrow> held_under (oh_changes h) bs \<le> 0)"
proof (cases "ownership_loop X day dec_zero dec_zero (oh_changes h)")
  case None
  then show ?thesis by (simp add: ownership_at_def)
next
  case (Some r)
  obtain lo hi where r: "r = (lo, hi)" by (cases r)
  have b: "dec_val lo \<le> held_under (oh_changes h) bs \<and> held_under (oh_changes h) bs \<le> dec_val hi"
    using ownership_loop_bounds [OF assms(1,2) Some [unfolded r] assms(4,3), of 0] by simp
  have "dec_val lo > 0" if "dec_is_positive X lo"
    using that by (simp add: dec_sign_cases(1) [OF assms(2)])
  moreover have "dec_val hi = 0" if "d_is_zero X hi"
    using that assms(2) by (auto simp: order_laws_def)
  ultimately show ?thesis using b by (auto simp: ownership_at_def Some r)
qed

theorem ownership_answer_is_sound_witness:
  "ownership_at ref_deps \<lparr>oh_changes = [\<lparr>oc_delta = Decimal 5 0, oc_settlement = SExact 10\<rparr>,
       \<lparr>oc_delta = Decimal (- 2) 0, oc_settlement = SUnbounded\<rparr>]\<rparr> 20 = Owned \<and>
   held_under [\<lparr>oc_delta = Decimal 5 0, oc_settlement = SExact 10\<rparr>,
       \<lparr>oc_delta = Decimal (- 2) 0, oc_settlement = SUnbounded\<rparr>] [True, True] > 0"
proof -
  let ?h = "\<lparr>oh_changes = [\<lparr>oc_delta = Decimal 5 0, oc_settlement = SExact 10\<rparr>,
       \<lparr>oc_delta = Decimal (- 2) 0, oc_settlement = SUnbounded\<rparr>]\<rparr>"
  have o1: "ownership_at ref_deps ?h 20 = Owned"
    by (simp add: ownership_at_def settlement_bounded_def ref_deps_def ref_add_def ref_align_def ref_dec_def
        dec_zero_def dec_is_negative_def dec_is_positive_def)
  have fits: "fits_decimal 0 0 (oh_changes ?h)"
    using multiple_dec_val [of "Decimal 5 0"] multiple_dec_val [of "Decimal (- 2) 0"]
    by (simp add: fits_decimal_def) (simp add: dec_val_def)
  have adm: "admits 20 (oh_changes ?h) [True, True]"
    by (auto simp: admits_def in_force_def intro: exI [of _ 10])
  from ownership_answer_is_sound [OF ref_sum_laws ref_order_laws fits adm] o1
  show ?thesis by simp
qed

end
