(* ===== verification/LotRules.thy ===== *)
theory LotRules
  imports Ownership
begin

text \<open>
  The versioned rules the lot book calls: disposal of lots (\<open>rules/lot_disposal.rs\<close>, the
  FIFO rule), amortisation (\<open>rules/amortisation.rs\<close>) and the part of the registry
  (\<open>rules/mod.rs\<close>) that holds them. A rule is a trait object in the source; here it is a
  function, and what the lot book relies on is the contract of the locales at the end.
  The operators of \<open>Decimal\<close> panic where the checked operation returns \<open>None\<close>.
\<close>

section \<open>Lots and disposals\<close>

record lot =
  lot_id :: lot_id
  lot_instrument :: instrument_id
  lot_acquired :: "trade_date option"
  lot_quantity :: quantity
  lot_cost_basis :: money
  lot_acquisition_basis :: "money option"
  lot_accrued_interest_paid :: "money option"
  lot_received_to_date :: "money option"

datatype rule_id = RuleId string

record disposal_input =
  di_lots :: "lot list"
  di_quantity :: quantity

record disposed_part =
  dp_lot :: lot_id
  dp_quantity :: quantity
  dp_basis_released :: money
  dp_acquired :: "trade_date option"
  dp_accrued_interest_released :: "money option"

record disposal_result =
  dr_rule :: rule_id
  dr_disposed :: "disposed_part list"
  dr_remaining :: "lot list"
  dr_basis_released :: money

datatype disposal_error =
    InsufficientQuantity string string
  | MixedCurrencies
  | NoLots
  | DisposalMoney money_error

type_synonym disposal_rule = "disposal_input \<Rightarrow> (disposal_result, disposal_error) result"

definition split_basis :: "deps \<Rightarrow> money \<Rightarrow> decimal \<Rightarrow> decimal \<Rightarrow> (money, disposal_error) result" where
  "split_basis X amount taken_qty lot_qty =
     (let minor = d_from_i64 X (m_amount amount) in
      and_then (expect (d_checked_mul X minor taken_qty)) (\<lambda>product.
      and_then (expect (d_checked_div X product lot_qty)) (\<lambda>scaled.
      let rounded = d_round_half_even X scaled 0 in
      and_then (ok_or (to_i64 (mantissa (d_trunc X rounded))) (DisposalMoney MoneyOverflow)) (\<lambda>v.
      Ok (money_new v (m_currency amount))))))"

definition split_optional_basis :: "deps \<Rightarrow> money option \<Rightarrow> decimal \<Rightarrow> decimal
    \<Rightarrow> (money option \<times> money option, disposal_error) result" where
  "split_optional_basis X amount taken_qty lot_qty = (case amount of
     None \<Rightarrow> Ok (None, None)
   | Some amount \<Rightarrow>
       and_then (split_basis X amount taken_qty lot_qty) (\<lambda>taken.
       and_then (map_err DisposalMoney (try_sub amount taken)) (\<lambda>kept.
       Ok (Some taken, Some kept))))"

definition whole_part :: "lot \<Rightarrow> disposed_part" where
  "whole_part l = \<lparr>dp_lot = lot_id l, dp_quantity = lot_quantity l, dp_basis_released = lot_cost_basis l,
     dp_acquired = lot_acquired l, dp_accrued_interest_released = lot_accrued_interest_paid l\<rparr>"

text \<open>The split of the lot that is consumed in part.\<close>

definition split_lot :: "deps \<Rightarrow> decimal \<Rightarrow> lot \<Rightarrow> (disposed_part \<times> lot, disposal_error) result" where
  "split_lot X left l =
     (let lot_qty = lot_quantity l in
      and_then (split_basis X (lot_cost_basis l) left lot_qty) (\<lambda>taken_basis.
      and_then (map_err DisposalMoney (try_sub (lot_cost_basis l) taken_basis)) (\<lambda>kept_basis.
      and_then (split_optional_basis X (lot_accrued_interest_paid l) left lot_qty) (\<lambda>(taken_ai, kept_ai).
      and_then (split_optional_basis X (lot_acquisition_basis l) left lot_qty) (\<lambda>(_, kept_acq).
      and_then (split_optional_basis X (lot_received_to_date l) left lot_qty) (\<lambda>(_, kept_received).
      and_then (expect (d_checked_sub X lot_qty left)) (\<lambda>kept_qty.
      Ok (\<lparr>dp_lot = lot_id l, dp_quantity = left, dp_basis_released = taken_basis,
           dp_acquired = lot_acquired l, dp_accrued_interest_released = taken_ai\<rparr>,
          l\<lparr>lot_quantity := kept_qty, lot_cost_basis := kept_basis, lot_acquisition_basis := kept_acq,
            lot_accrued_interest_paid := kept_ai, lot_received_to_date := kept_received\<rparr>))))))))"

text \<open>The loop over the lots: what is left to dispose of, the parts and the remainder so far.\<close>

fun fifo_loop :: "deps \<Rightarrow> decimal \<Rightarrow> lot list \<Rightarrow> (disposed_part list \<times> lot list, disposal_error) result" where
  "fifo_loop X left [] = Ok ([], [])"
| "fifo_loop X left (l # ls) =
     (if d_is_zero X left
      then and_then (fifo_loop X left ls) (\<lambda>(disposed, remaining). Ok (disposed, l # remaining))
      else if d_le X (lot_quantity l) left
      then and_then (expect (d_checked_sub X left (lot_quantity l))) (\<lambda>left'.
           and_then (fifo_loop X left' ls) (\<lambda>(disposed, remaining). Ok (whole_part l # disposed, remaining)))
      else and_then (split_lot X left l) (\<lambda>(part, kept).
           and_then (fifo_loop X dec_zero ls) (\<lambda>(disposed, remaining). Ok (part # disposed, kept # remaining))))"

definition fifo_id :: rule_id where
  "fifo_id = RuleId ''fifo/214.1/v1''"

definition fifo_apply :: "deps \<Rightarrow> disposal_rule" where
  "fifo_apply X input =
     (case di_lots input of
        [] \<Rightarrow> Err NoLots
      | first # _ \<Rightarrow>
          let currency = m_currency (lot_cost_basis first) in
          if list_ex (\<lambda>l. m_currency (lot_cost_basis l) \<noteq> currency) (di_lots input) then Err MixedCurrencies
          else and_then (try_fold (\<lambda>acc l. expect (d_checked_add X acc (lot_quantity l))) dec_zero (di_lots input)) (\<lambda>available.
          if d_cmp X (di_quantity input) available = Greater
          then Err (InsufficientQuantity (d_to_string X (di_quantity input)) (d_to_string X available))
          else and_then (fifo_loop X (di_quantity input) (di_lots input)) (\<lambda>(disposed, remaining).
          and_then (map_err DisposalMoney (money_sum (map dp_basis_released disposed) currency)) (\<lambda>released.
          Ok \<lparr>dr_rule = fifo_id, dr_disposed = disposed, dr_remaining = remaining, dr_basis_released = released\<rparr>))))"

section \<open>Amortisation\<close>

datatype amortisation_error = AmortisationNumeric numeric_error | AmortisationDisposal disposal_error

type_synonym amortisation_rule = "lot \<Rightarrow> returned_share \<Rightarrow> (money, amortisation_error) result"

definition pro_rata_basis_returned :: "deps \<Rightarrow> amortisation_rule" where
  "pro_rata_basis_returned X l share =
     map_err AmortisationDisposal (split_basis X (lot_cost_basis l) share dec_one)"

section \<open>The registry\<close>

datatype lot_rule_version = LotRuleVersion (lot_rule_number: nat)
datatype amortisation_rule_version = AmortisationRuleVersion (amortisation_rule_number: nat)

record rule_registry =
  rr_lot_rules :: "(nat, disposal_rule) btree"
  rr_amortisation_rules :: "(nat, amortisation_rule) btree"

definition with_defaults :: "deps \<Rightarrow> rule_registry" where
  "with_defaults X =
     \<lparr>rr_lot_rules = bt_insert 1 (fifo_apply X) [],
      rr_amortisation_rules = bt_insert 1 (pro_rata_basis_returned X) []\<rparr>"

definition registry_disposal_rule :: "rule_registry \<Rightarrow> lot_rule_version \<Rightarrow> disposal_rule option" where
  "registry_disposal_rule r v = bt_get (rr_lot_rules r) (lot_rule_number v)"

definition registry_amortisation_rule :: "rule_registry \<Rightarrow> amortisation_rule_version \<Rightarrow> amortisation_rule option" where
  "registry_amortisation_rule r v = bt_get (rr_amortisation_rules r) (amortisation_rule_number v)"

definition latest_disposal_version :: "rule_registry \<Rightarrow> lot_rule_version option" where
  "latest_disposal_version r =
     (case rr_lot_rules r of [] \<Rightarrow> None | es \<Rightarrow> Some (LotRuleVersion (fst (last es))))"

definition latest_amortisation_version :: "rule_registry \<Rightarrow> amortisation_rule_version option" where
  "latest_amortisation_version r =
     (case rr_amortisation_rules r of [] \<Rightarrow> None | es \<Rightarrow> Some (AmortisationRuleVersion (fst (last es))))"

section \<open>Conservation of basis by a disposal\<close>

definition lots_basis :: "lot list \<Rightarrow> int" where
  "lots_basis ls = (\<Sum>l \<leftarrow> ls. m_amount (lot_cost_basis l))"

lemma lots_basis_simps [simp]:
  "lots_basis [] = 0" "lots_basis (l # ls) = m_amount (lot_cost_basis l) + lots_basis ls"
  "lots_basis (xs @ ys) = lots_basis xs + lots_basis ys"
  by (simp_all add: lots_basis_def)

definition lots_currency :: "currency_code \<Rightarrow> lot list \<Rightarrow> bool" where
  "lots_currency c ls \<longleftrightarrow> (\<forall>l \<in> set ls. m_currency (lot_cost_basis l) = c)"

lemma lots_currency_simps [simp]:
  "lots_currency c []" "lots_currency c (l # ls) \<longleftrightarrow> m_currency (lot_cost_basis l) = c \<and> lots_currency c ls"
  "lots_currency c (xs @ ys) \<longleftrightarrow> lots_currency c xs \<and> lots_currency c ys"
  by (auto simp: lots_currency_def)

text \<open>What a disposal rule promises: nothing of the basis appears or disappears.\<close>

definition conserves_basis :: "lot list \<Rightarrow> disposal_result \<Rightarrow> bool" where
  "conserves_basis ls r \<longleftrightarrow> ls \<noteq> [] \<and>
     lots_currency (m_currency (dr_basis_released r)) ls \<and>
     lots_currency (m_currency (dr_basis_released r)) (dr_remaining r) \<and>
     lots_basis ls = m_amount (dr_basis_released r) + lots_basis (dr_remaining r)"

lemma split_basis_currency: "split_basis X t a b = Ok m \<Longrightarrow> m_currency m = m_currency t"
  by (auto simp: split_basis_def Let_def money_new_def)

lemma split_lot_Ok:
  assumes "split_lot X left l = Ok (part, kept)"
  shows "m_amount (lot_cost_basis l) = m_amount (dp_basis_released part) + m_amount (lot_cost_basis kept) \<and>
    m_currency (dp_basis_released part) = m_currency (lot_cost_basis l) \<and>
    m_currency (lot_cost_basis kept) = m_currency (lot_cost_basis l) \<and>
    lot_id kept = lot_id l \<and> dp_lot part = lot_id l \<and> dp_quantity part = left \<and>
    lot_acquired kept = lot_acquired l \<and> dp_acquired part = lot_acquired l \<and> lot_instrument kept = lot_instrument l"
proof -
  from assms obtain taken kb where "split_basis X (lot_cost_basis l) left (lot_quantity l) = Ok taken"
    "try_sub (lot_cost_basis l) taken = Ok kb" "dp_basis_released part = taken" "lot_cost_basis kept = kb"
    "lot_id kept = lot_id l" "dp_lot part = lot_id l" "dp_quantity part = left"
    "lot_acquired kept = lot_acquired l" "dp_acquired part = lot_acquired l" "lot_instrument kept = lot_instrument l"
    by (auto simp: split_lot_def Let_def)
  then show ?thesis using split_basis_currency [of X "lot_cost_basis l" left "lot_quantity l" taken] by auto
qed

lemma fifo_loop_Ok:
  "fifo_loop X left ls = Ok (disposed, remaining) \<Longrightarrow>
     lots_basis ls = (\<Sum>d \<leftarrow> disposed. m_amount (dp_basis_released d)) + lots_basis remaining \<and>
     (lots_currency c ls \<longrightarrow> lots_currency c remaining \<and> (\<forall>d \<in> set disposed. m_currency (dp_basis_released d) = c))"
proof (induction ls arbitrary: left disposed remaining)
  case (Cons l ls)
  consider (zero) "d_is_zero X left" | (whole) "\<not> d_is_zero X left" "d_le X (lot_quantity l) left"
    | (part) "\<not> d_is_zero X left" "\<not> d_le X (lot_quantity l) left" by blast
  then show ?case
  proof cases
    case zero
    with Cons.prems obtain rs where "fifo_loop X left ls = Ok (disposed, rs)" "remaining = l # rs" by auto
    with Cons.IH [of left disposed rs] show ?thesis by auto
  next
    case whole
    with Cons.prems obtain left' ds where "fifo_loop X left' ls = Ok (ds, remaining)" "disposed = whole_part l # ds"
      by auto
    with Cons.IH [of left' ds remaining] show ?thesis by (auto simp: whole_part_def)
  next
    case part
    with Cons.prems obtain p k ds rs where s: "split_lot X left l = Ok (p, k)"
      "fifo_loop X dec_zero ls = Ok (ds, rs)" "disposed = p # ds" "remaining = k # rs" by auto
    with Cons.IH [OF s(2)] split_lot_Ok [OF s(1)] show ?thesis by auto
  qed
qed simp

lemma fifo_apply_Ok:
  assumes "fifo_apply X input = Ok r"
  obtains l ls where "di_lots input = l # ls" "lots_currency (m_currency (lot_cost_basis l)) (di_lots input)"
    "fifo_loop X (di_quantity input) (di_lots input) = Ok (dr_disposed r, dr_remaining r)"
    "money_sum (map dp_basis_released (dr_disposed r)) (m_currency (lot_cost_basis l)) = Ok (dr_basis_released r)"
    "dr_rule r = fifo_id"
proof (cases "di_lots input")
  case Nil
  then show ?thesis using assms by (simp add: fifo_apply_def)
next
  case (Cons l ls)
  from assms that [of l ls] show ?thesis
    by (auto simp: fifo_apply_def Cons lots_currency_def list_ex_iff Let_def split: if_splits)
qed

lemma fifo_conserves: "fifo_apply X input = Ok r \<Longrightarrow> conserves_basis (di_lots input) r"
proof (erule fifo_apply_Ok)
  fix l ls
  assume l: "di_lots input = l # ls" "lots_currency (m_currency (lot_cost_basis l)) (di_lots input)"
    and loop: "fifo_loop X (di_quantity input) (di_lots input) = Ok (dr_disposed r, dr_remaining r)"
    and sum: "money_sum (map dp_basis_released (dr_disposed r)) (m_currency (lot_cost_basis l)) = Ok (dr_basis_released r)"
  from sum have s: "m_currency (dr_basis_released r) = m_currency (lot_cost_basis l)"
    "m_amount (dr_basis_released r) = (\<Sum>d \<leftarrow> dr_disposed r. m_amount (dp_basis_released d))"
    by (auto simp: comp_def)
  from fifo_loop_Ok [OF loop, of "m_currency (lot_cost_basis l)"] l(2) show "conserves_basis (di_lots input) r"
    unfolding conserves_basis_def s by (simp add: l(1))
qed

text \<open>The contract of the two kinds of rules, for every rule a registry holds.\<close>

locale registry_contract =
  fixes registry :: rule_registry
  assumes disposal_conserves: "registry_disposal_rule registry v = Some rule \<Longrightarrow> rule input = Ok r \<Longrightarrow>
      conserves_basis (di_lots input) r"
    and amortisation_currency: "registry_amortisation_rule registry w = Some arule \<Longrightarrow> arule l share = Ok m \<Longrightarrow>
      m_currency m = m_currency (lot_cost_basis l)"

interpretation defaults: registry_contract "with_defaults X" for X
proof unfold_locales
  show "conserves_basis (di_lots input) r"
    if "registry_disposal_rule (with_defaults X) v = Some rule" "rule input = Ok r" for v rule input r
    using that by (auto simp: registry_disposal_rule_def with_defaults_def bt_get_def fifo_conserves split: if_splits)
  show "m_currency m = m_currency (lot_cost_basis l)"
    if "registry_amortisation_rule (with_defaults X) w = Some arule" "arule l share = Ok m" for w arule l share m
    using that by (auto simp: registry_amortisation_rule_def with_defaults_def bt_get_def
        pro_rata_basis_returned_def split_basis_currency split: if_splits)
qed

section \<open>Properties\<close>

lemma fifo_loop_zero: "d_is_zero X left \<Longrightarrow> fifo_loop X left ls = Ok ([], ls)"
  by (induction ls) auto

text \<open>The shape of a first-in first-out consumption: whole lots, at most one split, the rest.\<close>

definition fifo_shape :: "lot list \<Rightarrow> disposed_part list \<Rightarrow> lot list \<Rightarrow> bool" where
  "fifo_shape ls disposed remaining \<longleftrightarrow>
     (\<exists>pre. ls = pre @ remaining \<and> disposed = map whole_part pre) \<or>
     (\<exists>pre l rest part kept. ls = pre @ l # rest \<and> disposed = map whole_part pre @ [part] \<and>
        remaining = kept # rest \<and> dp_lot part = lot_id l \<and> lot_id kept = lot_id l \<and>
        lot_acquired kept = lot_acquired l \<and> dp_acquired part = lot_acquired l \<and>
        m_amount (lot_cost_basis l) = m_amount (dp_basis_released part) + m_amount (lot_cost_basis kept))"

lemma fifo_shape_Cons:
  assumes "fifo_shape ls ds rs"
  shows "fifo_shape (l # ls) (whole_part l # ds) rs"
  using assms unfolding fifo_shape_def
proof (elim disjE exE conjE)
  fix pre assume "ls = pre @ rs" "ds = map whole_part pre"
  then have "\<exists>pre. l # ls = pre @ rs \<and> whole_part l # ds = map whole_part pre"
    by (intro exI [of _ "l # pre"]) simp
  then show "(\<exists>pre. l # ls = pre @ rs \<and> whole_part l # ds = map whole_part pre) \<or> Q" for Q by blast
next
  fix pre m rest part kept
  assume "ls = pre @ m # rest" "ds = map whole_part pre @ [part]" "rs = kept # rest" "dp_lot part = lot_id m"
    "lot_id kept = lot_id m" "lot_acquired kept = lot_acquired m" "dp_acquired part = lot_acquired m"
    "m_amount (lot_cost_basis m) = m_amount (dp_basis_released part) + m_amount (lot_cost_basis kept)"
  then show "P \<or> (\<exists>pre la rest part kept. l # ls = pre @ la # rest \<and> whole_part l # ds = map whole_part pre @ [part] \<and>
        rs = kept # rest \<and> dp_lot part = lot_id la \<and> lot_id kept = lot_id la \<and>
        lot_acquired kept = lot_acquired la \<and> dp_acquired part = lot_acquired la \<and>
        m_amount (lot_cost_basis la) = m_amount (dp_basis_released part) + m_amount (lot_cost_basis kept))" for P
    by (intro disjI2 exI [of _ "l # pre"] exI [of _ m] exI [of _ rest] exI [of _ part] exI [of _ kept]) simp
qed

lemma fifo_loop_shape:
  assumes "d_is_zero X dec_zero"
  shows "fifo_loop X left ls = Ok (disposed, remaining) \<Longrightarrow> fifo_shape ls disposed remaining"
proof (induction ls arbitrary: left disposed remaining)
  case Nil
  then show ?case by (simp add: fifo_shape_def)
next
  case (Cons l ls)
  consider (zero) "d_is_zero X left" | (whole) "\<not> d_is_zero X left" "d_le X (lot_quantity l) left"
    | (part) "\<not> d_is_zero X left" "\<not> d_le X (lot_quantity l) left" by blast
  then show ?case
  proof cases
    case zero
    then show ?thesis using Cons.prems fifo_loop_zero [OF zero, of "l # ls"] by (auto simp: fifo_shape_def)
  next
    case whole
    with Cons.prems obtain left' ds where "fifo_loop X left' ls = Ok (ds, remaining)" "disposed = whole_part l # ds"
      by auto
    with Cons.IH [of left' ds remaining] show ?thesis by (simp add: fifo_shape_Cons)
  next
    case part
    with Cons.prems obtain p k where s: "split_lot X left l = Ok (p, k)" "disposed = [p]" "remaining = k # ls"
      by (auto simp: fifo_loop_zero [OF assms])
    show ?thesis
      unfolding fifo_shape_def using split_lot_Ok [OF s(1)] s(2,3)
      by (intro disjI2 exI [of _ "[]"] exI [of _ l] exI [of _ ls] exI [of _ p] exI [of _ k]) simp
  qed
qed

text \<open>
  (C8) A FIFO disposal that returns consumes the lots from the front: whole lots, then at most
  one lot split in two with its identity and acquisition date kept, then untouched lots; and
  the basis of all lots is exactly the released basis plus the basis of what remains, in one
  currency.
\<close>

theorem fifo_disposal_conserves_basis:
  assumes "order_laws X" "fifo_apply X input = Ok r"
  shows "fifo_shape (di_lots input) (dr_disposed r) (dr_remaining r) \<and>
     lots_currency (m_currency (dr_basis_released r)) (di_lots input) \<and>
     lots_currency (m_currency (dr_basis_released r)) (dr_remaining r) \<and>
     lots_basis (di_lots input) = m_amount (dr_basis_released r) + lots_basis (dr_remaining r) \<and>
     m_amount (dr_basis_released r) = (\<Sum>d \<leftarrow> dr_disposed r. m_amount (dp_basis_released d))"
proof -
  have z: "d_is_zero X dec_zero" using assms(1) by (simp add: order_laws_def dec_zero_def dec_val_def)
  have "fifo_shape (di_lots input) (dr_disposed r) (dr_remaining r)"
    using assms(2) by (rule fifo_apply_Ok) (rule fifo_loop_shape [OF z])
  moreover have "m_amount (dr_basis_released r) = (\<Sum>d \<leftarrow> dr_disposed r. m_amount (dp_basis_released d))"
    using assms(2) by (rule fifo_apply_Ok) (auto simp: comp_def)
  ultimately show ?thesis using fifo_conserves [OF assms(2)] by (simp add: conserves_basis_def)
qed

definition sample_lot :: "nat \<Rightarrow> int \<Rightarrow> int \<Rightarrow> lot" where
  "sample_lot i q b = \<lparr>lot_id = LotId (of_nat i), lot_instrument = InstrumentId 7, lot_acquired = Some 1,
     lot_quantity = Decimal q 0, lot_cost_basis = money_new b Rub, lot_acquisition_basis = None,
     lot_accrued_interest_paid = None, lot_received_to_date = None\<rparr>"

lemma sample_fifo:
  "fifo_apply ref_deps \<lparr>di_lots = [sample_lot 1 2 100, sample_lot 2 3 100], di_quantity = Decimal 3 0\<rparr> =
   Ok \<lparr>dr_rule = fifo_id,
       dr_disposed = [whole_part (sample_lot 1 2 100),
         \<lparr>dp_lot = LotId 2, dp_quantity = Decimal 1 0, dp_basis_released = money_new 33 Rub,
          dp_acquired = Some 1, dp_accrued_interest_released = None\<rparr>],
       dr_remaining = [sample_lot 2 2 67], dr_basis_released = money_new 133 Rub\<rparr>"
  by (simp add: fifo_apply_def sample_lot_def money_new_def ref_deps_def ref_add_def ref_sub_def ref_mul_def
      ref_div_def ref_cmp_def ref_align_def ref_dec_def ref_round_def ref_trunc_def dec_zero_def split_lot_def
      split_basis_def split_optional_basis_def whole_part_def try_sub_def require_same_currency_def pm_defs
      to_i64_def i64_defs Let_def quot_to_zero_def)

theorem fifo_disposal_conserves_basis_witness:
  "\<exists>r. fifo_apply ref_deps \<lparr>di_lots = [sample_lot 1 2 100, sample_lot 2 3 100], di_quantity = Decimal 3 0\<rparr> = Ok r \<and>
       m_amount (dr_basis_released r) = 133 \<and> lots_basis (dr_remaining r) = 67"
  using sample_fifo fifo_disposal_conserves_basis [OF ref_order_laws sample_fifo]
  by (auto simp: sample_lot_def money_new_def)

end
