(* ===== verification/Lots.thy ===== *)
theory Lots
  imports LotRules
begin

text \<open>
  The lot book, \<open>projection/lots.rs\<close>: for each account and instrument the open lots, what was
  acquired and released, what was restored without a cost, and the income received. Every
  handler of an event is one definition; \<open>lot_book_apply\<close> dispatches like \<open>LotBook::apply\<close>.
  The invariant says that in every entry the acquired basis equals the released basis plus
  the basis of the open lots, in one currency; it is proved for every registry whose rules
  meet the contract, and then for the default registry.
\<close>

section \<open>Data\<close>

datatype lot_key = LotKey (lk_account: account_id) (lk_instrument: instrument_id)

instantiation lot_key :: linorder
begin

definition less_eq_lot_key :: "lot_key \<Rightarrow> lot_key \<Rightarrow> bool" where
  "less_eq_lot_key a b \<longleftrightarrow> (lk_account a, lk_instrument a) \<le> (lk_account b, lk_instrument b)"

definition less_lot_key :: "lot_key \<Rightarrow> lot_key \<Rightarrow> bool" where
  "less_lot_key a b \<longleftrightarrow> (lk_account a, lk_instrument a) < (lk_account b, lk_instrument b)"

instance
proof
  fix x y z :: lot_key
  show "x < y \<longleftrightarrow> x \<le> y \<and> \<not> y \<le> x"
    unfolding less_eq_lot_key_def less_lot_key_def by (rule less_le_not_le)
  show "x \<le> x" by (simp add: less_eq_lot_key_def)
  show "x \<le> y \<Longrightarrow> y \<le> z \<Longrightarrow> x \<le> z" unfolding less_eq_lot_key_def by (rule order_trans)
  show "x \<le> y \<or> y \<le> x" unfolding less_eq_lot_key_def by (rule linear)
  show "x = y" if "x \<le> y" "y \<le> x"
  proof -
    have "(lk_account x, lk_instrument x) = (lk_account y, lk_instrument y)"
      using that unfolding less_eq_lot_key_def by (rule order_antisym)
    then show ?thesis by (cases x; cases y) simp
  qed
qed

end

datatype lot_error =
    UnknownRule lot_rule_version
  | SaleWithoutPosition event_id instrument_id
  | UnknownAmortisationRule amortisation_rule_version
  | QuantityMismatch quantity quantity
  | LotAmortisation amortisation_error
  | LotDisposal disposal_error
  | LotMoney money_error
  | LotNumeric numeric_error

datatype basis_gap = RestoredWithoutBasis | AmortisationAllocationUnknown

fun basis_gap_code :: "basis_gap \<Rightarrow> string" where
  "basis_gap_code RestoredWithoutBasis = ''restored_without_basis''"
| "basis_gap_code AmortisationAllocationUnknown = ''amortisation_allocation_unknown''"

record cohort =
  co_acquired :: trade_date
  co_quantity :: quantity
  co_cost_basis :: money
  co_acquisition_basis :: "money option"
  co_accrued_interest_paid :: "money option"
  co_received_to_date :: "money option"

datatype cohort_gap =
    AcquisitionDateUnknown
  | IncomeKindUnknown
  | CohortRestoredWithoutBasis
  | InconsistentQuantity
  | InconsistentCostBasisCurrency
  | InconsistentCostBasisOverflow
  | InconsistentOptionalMoneyCurrency
  | InconsistentOptionalMoneyOverflow

record acquisition_history =
  ah_earliest :: "trade_date option"
  ah_undated :: bool

definition acquisition_history_new :: acquisition_history where
  "acquisition_history_new = \<lparr>ah_earliest = None, ah_undated = False\<rparr>"

definition acquisition_observe :: "acquisition_history \<Rightarrow> trade_date option \<Rightarrow> acquisition_history" where
  "acquisition_observe h acquired = (case acquired of
     Some d \<Rightarrow> h\<lparr>ah_earliest := Some (case ah_earliest h of Some known \<Rightarrow> min known d | None \<Rightarrow> d)\<rparr>
   | None \<Rightarrow> h\<lparr>ah_undated := True\<rparr>)"

definition acquisition_lower_bound :: "acquisition_history \<Rightarrow> trade_date option" where
  "acquisition_lower_bound h = (if ah_undated h then None else ah_earliest h)"

record instrument_lots =
  il_unpriced :: quantity
  il_lots :: "lot list"
  il_realized :: "money option"
  il_acquired_basis :: "money option"
  il_released_basis :: "money option"
  il_gap :: "basis_gap option"
  il_income_kind_unknown :: bool
  il_unallocated_income :: "money option"
  il_unpriced_income :: "money option"
  il_acquisitions :: acquisition_history
  il_ownership :: ownership_history

definition instrument_lots_default :: instrument_lots where
  "instrument_lots_default =
     \<lparr>il_unpriced = quantity_zero, il_lots = [], il_realized = None, il_acquired_basis = None,
      il_released_basis = None, il_gap = None, il_income_kind_unknown = False,
      il_unallocated_income = None, il_unpriced_income = None,
      il_acquisitions = acquisition_history_new, il_ownership = ownership_new\<rparr>"

section \<open>Operations of one entry\<close>

definition earliest_acquired :: "deps \<Rightarrow> instrument_lots \<Rightarrow> trade_date option" where
  "earliest_acquired X e =
     (if \<not> d_is_zero X (il_unpriced e) then None else acquisition_lower_bound (il_acquisitions e))"

definition entry_ownership_at :: "deps \<Rightarrow> instrument_lots \<Rightarrow> date \<Rightarrow> ownership" where
  "entry_ownership_at X e day = ownership_at X (il_ownership e) day"

definition push_lot_with_settlement :: "instrument_lots \<Rightarrow> lot \<Rightarrow> settlement_knowledge \<Rightarrow> instrument_lots" where
  "push_lot_with_settlement e l s =
     e\<lparr>il_acquisitions := acquisition_observe (il_acquisitions e) (lot_acquired l),
       il_ownership := ownership_observe (il_ownership e) (lot_quantity l) s,
       il_lots := il_lots e @ [l]\<rparr>"

definition insert_restored_lot_with_settlement :: "instrument_lots \<Rightarrow> lot \<Rightarrow> settlement_knowledge \<Rightarrow> instrument_lots" where
  "insert_restored_lot_with_settlement e l s =
     e\<lparr>il_acquisitions := acquisition_observe (il_acquisitions e) (lot_acquired l),
       il_ownership := ownership_observe (il_ownership e) (lot_quantity l) s,
       il_lots := l # il_lots e\<rparr>"

definition remaining_basis :: "instrument_lots \<Rightarrow> (money option, money_error) result" where
  "remaining_basis e = (case il_lots e of
     [] \<Rightarrow> Ok None
   | first # _ \<Rightarrow> map_ok Some (money_sum (map lot_cost_basis (il_lots e)) (m_currency (lot_cost_basis first))))"

definition mark_basis_gap :: "instrument_lots \<Rightarrow> basis_gap \<Rightarrow> instrument_lots" where
  "mark_basis_gap e gap = e\<lparr>il_gap := Some gap, il_realized := None\<rparr>"

text \<open>\<open>Some(match slot { Some(previous) => previous.try_add(amount)?, None => amount })\<close>.\<close>

definition add_to_slot :: "money option \<Rightarrow> money \<Rightarrow> (money option, money_error) result" where
  "add_to_slot slot amount = (case slot of
     Some previous \<Rightarrow> map_ok Some (try_add previous amount)
   | None \<Rightarrow> Ok (Some amount))"

definition add_realised :: "instrument_lots \<Rightarrow> money \<Rightarrow> (instrument_lots, money_error) result" where
  "add_realised e amount =
     (if il_gap e \<noteq> None then Ok e
      else map_ok (\<lambda>r. e\<lparr>il_realized := r\<rparr>) (add_to_slot (il_realized e) amount))"

definition add_released_basis :: "instrument_lots \<Rightarrow> money \<Rightarrow> (instrument_lots, money_error) result" where
  "add_released_basis e amount = map_ok (\<lambda>r. e\<lparr>il_released_basis := r\<rparr>) (add_to_slot (il_released_basis e) amount)"

definition add_acquired_basis :: "instrument_lots \<Rightarrow> money \<Rightarrow> (instrument_lots, money_error) result" where
  "add_acquired_basis e amount = map_ok (\<lambda>r. e\<lparr>il_acquired_basis := r\<rparr>) (add_to_slot (il_acquired_basis e) amount)"

definition entry_quantity :: "deps \<Rightarrow> instrument_lots \<Rightarrow> (quantity, numeric_error) result" where
  "entry_quantity X e = try_fold (\<lambda>acc l. dec_checked_add X acc (lot_quantity l)) (il_unpriced e) (il_lots e)"

fun add_received_loop :: "deps \<Rightarrow> money \<Rightarrow> decimal \<Rightarrow> lot list \<Rightarrow> (lot list, lot_error) result" where
  "add_received_loop X remaining_amount remaining_quantity [] = Ok []"
| "add_received_loop X remaining_amount remaining_quantity (l # ls) =
     (if d_is_zero X (lot_quantity l)
      then map_ok (\<lambda>ls'. l # ls') (add_received_loop X remaining_amount remaining_quantity ls)
      else and_then (map_err LotDisposal (split_basis X remaining_amount (lot_quantity l) remaining_quantity)) (\<lambda>received.
      and_then (map_err LotMoney (add_to_slot (lot_received_to_date l) received)) (\<lambda>to_date.
      and_then (map_err LotMoney (try_sub remaining_amount received)) (\<lambda>amount'.
      and_then (ok_or (d_checked_sub X remaining_quantity (lot_quantity l)) (LotNumeric Overflow)) (\<lambda>quantity'.
      map_ok (\<lambda>ls'. l\<lparr>lot_received_to_date := to_date\<rparr> # ls') (add_received_loop X amount' quantity' ls))))))"

definition add_received :: "deps \<Rightarrow> instrument_lots \<Rightarrow> money \<Rightarrow> (instrument_lots, lot_error) result" where
  "add_received X e amount =
     and_then (map_err LotNumeric (entry_quantity X e)) (\<lambda>total_quantity.
     if d_is_zero X total_quantity
     then map_ok (\<lambda>u. e\<lparr>il_unallocated_income := u\<rparr>)
            (map_err LotMoney (add_to_slot (il_unallocated_income e) amount))
     else and_then
       (if \<not> d_is_zero X (il_unpriced e)
        then and_then (map_err LotDisposal (split_basis X amount (il_unpriced e) total_quantity)) (\<lambda>unpriced_amount.
             and_then (map_err LotMoney (add_to_slot (il_unpriced_income e) unpriced_amount)) (\<lambda>ui.
             and_then (map_err LotMoney (try_sub amount unpriced_amount)) (\<lambda>rest.
             and_then (ok_or (d_checked_sub X total_quantity (il_unpriced e)) (LotNumeric Overflow)) (\<lambda>rest_quantity.
             Ok (e\<lparr>il_unpriced_income := ui\<rparr>, rest, rest_quantity)))))
        else Ok (e, amount, total_quantity)) (\<lambda>(e', remaining_amount, remaining_quantity).
     map_ok (\<lambda>ls. e'\<lparr>il_lots := ls\<rparr>) (add_received_loop X remaining_amount remaining_quantity (il_lots e'))))"

section \<open>Cohorts\<close>

definition money_gap :: "cohort_gap \<Rightarrow> cohort_gap \<Rightarrow> money_error \<Rightarrow> cohort_gap" where
  "money_gap mismatch overflow e = (case e of CurrencyMismatch _ _ \<Rightarrow> mismatch | _ \<Rightarrow> overflow)"

fun sum_optional_loop :: "(lot \<Rightarrow> money option) \<Rightarrow> money option \<Rightarrow> lot list \<Rightarrow> (money option, cohort_gap) result" where
  "sum_optional_loop select acc [] = Ok acc"
| "sum_optional_loop select acc (l # ls) = (case select l of
     None \<Rightarrow> Ok None
   | Some v \<Rightarrow>
       and_then (map_err (money_gap InconsistentOptionalMoneyCurrency InconsistentOptionalMoneyOverflow)
                   (add_to_slot acc v)) (\<lambda>acc'.
       sum_optional_loop select acc' ls))"

definition sum_optional_money :: "lot list \<Rightarrow> (lot \<Rightarrow> money option) \<Rightarrow> (money option, cohort_gap) result" where
  "sum_optional_money ls select = sum_optional_loop select None ls"

definition group_step :: "(trade_date, lot list) btree \<Rightarrow> lot \<Rightarrow> ((trade_date, lot list) btree, cohort_gap) result" where
  "group_step grouped l =
     and_then (ok_or (lot_acquired l) AcquisitionDateUnknown) (\<lambda>acquired.
     Ok (bt_upsert acquired [] (\<lambda>ls. ls @ [l]) grouped))"

definition cohort_step :: "deps \<Rightarrow> decimal \<times> money \<Rightarrow> lot \<Rightarrow> (decimal \<times> money, cohort_gap) result" where
  "cohort_step X acc l =
     and_then (map_err (\<lambda>_. InconsistentQuantity) (dec_checked_add X (fst acc) (lot_quantity l))) (\<lambda>q.
     and_then (map_err (money_gap InconsistentCostBasisCurrency InconsistentCostBasisOverflow)
                 (try_add (snd acc) (lot_cost_basis l))) (\<lambda>b.
     Ok (q, b)))"

definition cohort_of :: "deps \<Rightarrow> trade_date \<times> lot list \<Rightarrow> (cohort, cohort_gap) result" where
  "cohort_of X g =
     and_then (sum_optional_money (snd g) lot_acquisition_basis) (\<lambda>acquisition_basis.
     and_then (idx (snd g) 0) (\<lambda>first.
     and_then (try_fold (cohort_step X) (dec_zero, money_zero (m_currency (lot_cost_basis first))) (snd g)) (\<lambda>(quantity, cost_basis).
     and_then (sum_optional_money (snd g) lot_accrued_interest_paid) (\<lambda>ai.
     and_then (sum_optional_money (snd g) lot_received_to_date) (\<lambda>received.
     Ok \<lparr>co_acquired = fst g, co_quantity = quantity, co_cost_basis = cost_basis,
         co_acquisition_basis = acquisition_basis, co_accrued_interest_paid = ai, co_received_to_date = received\<rparr>)))))"

definition cohorts :: "deps \<Rightarrow> instrument_lots \<Rightarrow> (cohort list, cohort_gap) result" where
  "cohorts X e =
     (if \<not> d_is_zero X (il_unpriced e) then Err AcquisitionDateUnknown
      else if il_income_kind_unknown e then Err IncomeKindUnknown
      else if il_gap e = Some RestoredWithoutBasis then Err CohortRestoredWithoutBasis
      else and_then (try_fold group_step [] (il_lots e)) (\<lambda>grouped. try_map (cohort_of X) grouped))"

section \<open>The book\<close>

record lot_book =
  lb_entries :: "(lot_key, instrument_lots) btree"
  lb_rule_version :: lot_rule_version
  lb_applied_rule :: "rule_id option"
  lb_amortisation_version :: amortisation_rule_version
  lb_settlement_policy :: settlement_lag_policy

definition default_amortisation_version :: amortisation_rule_version where
  "default_amortisation_version = AmortisationRuleVersion 1"

definition lot_book_new :: "lot_rule_version \<Rightarrow> lot_book" where
  "lot_book_new v =
     \<lparr>lb_entries = [], lb_rule_version = v, lb_applied_rule = None,
      lb_amortisation_version = default_amortisation_version, lb_settlement_policy = settlement_policy_v1\<rparr>"

definition with_amortisation_version :: "lot_book \<Rightarrow> amortisation_rule_version \<Rightarrow> lot_book" where
  "with_amortisation_version b v = b\<lparr>lb_amortisation_version := v\<rparr>"

definition with_settlement_lag_policy :: "lot_book \<Rightarrow> settlement_lag_policy \<Rightarrow> lot_book" where
  "with_settlement_lag_policy b p = b\<lparr>lb_settlement_policy := p\<rparr>"

definition entry_or_default :: "lot_book \<Rightarrow> lot_key \<Rightarrow> instrument_lots" where
  "entry_or_default b k = (case bt_get (lb_entries b) k of None \<Rightarrow> instrument_lots_default | Some e \<Rightarrow> e)"

definition put_entry :: "lot_book \<Rightarrow> lot_key \<Rightarrow> instrument_lots \<Rightarrow> lot_book" where
  "put_entry b k e = b\<lparr>lb_entries := bt_insert k e (lb_entries b)\<rparr>"

record trade_facts =
  tf_side :: trade_side
  tf_instrument :: instrument_id
  tf_quantity :: quantity
  tf_gross :: money
  tf_fee :: "money option"
  tf_basis_fee :: "money option"
  tf_accrued_interest :: "money option"

record amortisation_facts =
  af_instrument :: instrument_id
  af_quantity :: quantity
  af_allocation :: basis_allocation
  af_compensation :: money

record conversion_facts =
  cf_predecessor :: instrument_id
  cf_successor :: instrument_id
  cf_ratio :: decimal
  cf_quantity_in :: quantity
  cf_quantity_out :: quantity
  cf_basis_transfer :: basis_transfer_rule
  cf_effective_date :: date

record restore_facts =
  rf_instrument :: instrument_id
  rf_quantity :: quantity
  rf_cost_basis :: "money option"
  rf_acquired :: "trade_date option"

record disposal_facts =
  df_key :: lot_key
  df_quantity :: quantity
  df_proceeds :: money

definition dec_min :: "deps \<Rightarrow> decimal \<Rightarrow> decimal \<Rightarrow> decimal" where
  "dec_min X a b = (if d_cmp X b a = Less then b else a)"

text \<open>The part of a disposal taken from the quantity without a cost.\<close>

definition dispose_unpriced :: "deps \<Rightarrow> instrument_lots \<Rightarrow> decimal \<Rightarrow> (instrument_lots, lot_error) result" where
  "dispose_unpriced X entry from_unpriced =
     (if \<not> d_is_zero X from_unpriced
      then and_then (map_err LotNumeric (dec_checked_sub X (il_unpriced entry) from_unpriced)) (\<lambda>u.
           Ok (entry\<lparr>il_unpriced := u, il_realized := None, il_gap := Some RestoredWithoutBasis\<rparr>))
      else Ok entry)"

text \<open>The part taken from the lots by the rule, and the result realised on it.\<close>

definition dispose_lots :: "disposal_rule \<Rightarrow> instrument_lots \<Rightarrow> decimal \<Rightarrow> money \<Rightarrow> (instrument_lots \<times> rule_id, lot_error) result" where
  "dispose_lots rule entry left proceeds =
     and_then (map_err LotDisposal (rule \<lparr>di_lots = il_lots entry, di_quantity = left\<rparr>)) (\<lambda>r.
     and_then (map_err LotMoney (add_to_slot (il_released_basis entry) (dr_basis_released r))) (\<lambda>released.
     let entry2 = entry\<lparr>il_lots := dr_remaining r, il_released_basis := released\<rparr> in
     and_then (if il_gap entry2 = None
               then and_then (map_err LotMoney (try_sub proceeds (dr_basis_released r))) (\<lambda>realized.
                    and_then (map_err LotMoney (add_to_slot (il_realized entry2) realized)) (\<lambda>slot.
                    Ok (entry2\<lparr>il_realized := slot\<rparr>)))
               else Ok entry2) (\<lambda>entry3.
     Ok (entry3, dr_rule r))))"

definition dispose :: "deps \<Rightarrow> rule_registry \<Rightarrow> lot_book \<Rightarrow> event \<Rightarrow> disposal_facts \<Rightarrow> settlement_knowledge
    \<Rightarrow> (lot_book, lot_error) result" where
  "dispose X rules b ev f settlement =
     and_then (map_err LotNumeric (dec_checked_neg X (df_quantity f))) (\<lambda>delta.
     and_then (ok_or (registry_disposal_rule rules (lb_rule_version b)) (UnknownRule (lb_rule_version b))) (\<lambda>rule.
     and_then (ok_or (bt_get (lb_entries b) (df_key f)) (SaleWithoutPosition (e_id ev) (lk_instrument (df_key f)))) (\<lambda>entry.
     let from_unpriced = dec_min X (il_unpriced entry) (df_quantity f) in
     and_then (dispose_unpriced X entry from_unpriced) (\<lambda>entry1.
     and_then (map_err LotNumeric (dec_checked_sub X (df_quantity f) from_unpriced)) (\<lambda>left.
     if d_is_zero X left
     then Ok (put_entry b (df_key f) (entry1\<lparr>il_ownership := ownership_observe (il_ownership entry1) delta settlement\<rparr>))
     else and_then (dispose_lots rule entry1 left (df_proceeds f)) (\<lambda>(entry3, rid).
     Ok ((put_entry b (df_key f) (entry3\<lparr>il_ownership := ownership_observe (il_ownership entry3) delta settlement\<rparr>))
           \<lparr>lb_applied_rule := Some rid\<rparr>)))))))"

definition restore :: "deps \<Rightarrow> lot_book \<Rightarrow> event \<Rightarrow> restore_facts \<Rightarrow> settlement_knowledge \<Rightarrow> (lot_book, lot_error) result" where
  "restore X b ev f settlement =
     (let key = LotKey (e_account ev) (rf_instrument f); entry = entry_or_default b key in
      case rf_cost_basis f of
        Some basis \<Rightarrow>
          and_then (map_err LotMoney (add_to_slot (il_acquired_basis entry) basis)) (\<lambda>acquired_basis.
          Ok (put_entry b key
            (insert_restored_lot_with_settlement (entry\<lparr>il_acquired_basis := acquired_basis\<rparr>)
               \<lparr>lot_id = LotId (event_uuid (e_id ev)), lot_instrument = rf_instrument f, lot_acquired = rf_acquired f,
                lot_quantity = rf_quantity f, lot_cost_basis = basis, lot_acquisition_basis = Some basis,
                lot_accrued_interest_paid = None, lot_received_to_date = None\<rparr> settlement)))
      | None \<Rightarrow>
          and_then (map_err LotNumeric (dec_checked_add X (il_unpriced entry) (rf_quantity f))) (\<lambda>unpriced.
          Ok (put_entry b key
            (entry\<lparr>il_unpriced := unpriced, il_gap := Some RestoredWithoutBasis,
                   il_acquisitions := acquisition_observe (il_acquisitions entry) None,
                   il_ownership := ownership_observe (il_ownership entry) (rf_quantity f) settlement\<rparr>))))"

definition require_whole_position :: "deps \<Rightarrow> lot_book \<Rightarrow> event \<Rightarrow> lot_key \<Rightarrow> quantity \<Rightarrow> (unit, lot_error) result" where
  "require_whole_position X b ev key declared =
     and_then (ok_or (bt_get (lb_entries b) key) (SaleWithoutPosition (e_id ev) (lk_instrument key))) (\<lambda>entry.
     and_then (map_err LotNumeric (entry_quantity X entry)) (\<lambda>held.
     ensure (d_eq X held declared) (QuantityMismatch held declared)))"

text \<open>The lots moved by a conversion; the last one takes what is left of the declared quantity.\<close>

fun conversion_loop :: "deps \<Rightarrow> conversion_facts \<Rightarrow> decimal \<Rightarrow> lot list \<Rightarrow> (lot list, lot_error) result" where
  "conversion_loop X f assigned [] = Ok []"
| "conversion_loop X f assigned (l # ls) =
     and_then (map_err LotNumeric
        (if ls = [] then dec_checked_sub X (cf_quantity_out f) assigned
         else dec_checked_mul X (lot_quantity l) (cf_ratio f))) (\<lambda>quantity.
     and_then (map_err LotNumeric (dec_checked_add X assigned quantity)) (\<lambda>assigned'.
     and_then (conversion_loop X f assigned' ls) (\<lambda>moved.
     Ok (\<lparr>lot_id = lot_id l, lot_instrument = cf_successor f,
          lot_acquired = (case cf_basis_transfer f of CarryOver \<Rightarrow> lot_acquired l | Restart \<Rightarrow> Some (cf_effective_date f)),
          lot_quantity = quantity, lot_cost_basis = lot_cost_basis l, lot_acquisition_basis = lot_acquisition_basis l,
          lot_accrued_interest_paid = lot_accrued_interest_paid l, lot_received_to_date = lot_received_to_date l\<rparr> # moved))))"

text \<open>The predecessor loses its lots and releases their basis; the successor acquires both.\<close>

definition convert_source :: "instrument_lots \<Rightarrow> money \<Rightarrow> quantity \<Rightarrow> settlement_knowledge \<Rightarrow> (instrument_lots, lot_error) result" where
  "convert_source source carried delta settlement =
     and_then (map_err LotMoney (add_released_basis (source\<lparr>il_lots := []\<rparr>) carried)) (\<lambda>source'.
     Ok (source'\<lparr>il_ownership := ownership_observe (il_ownership source') delta settlement\<rparr>))"

definition convert_target :: "instrument_lots \<Rightarrow> money \<Rightarrow> lot list \<Rightarrow> quantity \<Rightarrow> settlement_knowledge \<Rightarrow> (instrument_lots, lot_error) result" where
  "convert_target target carried moved quantity_out settlement =
     and_then (map_err LotMoney (add_acquired_basis target carried)) (\<lambda>target'.
     Ok (target'\<lparr>il_ownership := ownership_observe (il_ownership target') quantity_out settlement,
                 il_acquisitions := foldl acquisition_observe (il_acquisitions target') (map lot_acquired moved),
                 il_lots := il_lots target' @ moved\<rparr>))"

definition apply_conversion :: "deps \<Rightarrow> lot_book \<Rightarrow> event \<Rightarrow> conversion_facts \<Rightarrow> settlement_knowledge \<Rightarrow> (lot_book, lot_error) result" where
  "apply_conversion X b ev f settlement =
     (let from = LotKey (e_account ev) (cf_predecessor f); to = LotKey (e_account ev) (cf_successor f) in
      and_then (require_whole_position X b ev from (cf_quantity_in f)) (\<lambda>_.
      and_then (map_err LotNumeric (dec_checked_neg X (cf_quantity_in f))) (\<lambda>delta.
      and_then (ok_or (bt_get (lb_entries b) from) (SaleWithoutPosition (e_id ev) (cf_predecessor f))) (\<lambda>source.
      and_then (conversion_loop X f dec_zero (il_lots source)) (\<lambda>moved.
      case il_lots source of
        [] \<Rightarrow> Ok b
      | first # _ \<Rightarrow>
          and_then (map_err LotMoney (money_sum (map lot_cost_basis (il_lots source)) (m_currency (lot_cost_basis first)))) (\<lambda>carried.
          and_then (convert_source source carried delta settlement) (\<lambda>source'.
          let b1 = put_entry b from source' in
          and_then (convert_target (entry_or_default b1 to) carried moved (cf_quantity_out f) settlement) (\<lambda>target'.
          Ok (put_entry b1 to target')))))))))"

fun amortise_loop :: "amortisation_rule \<Rightarrow> returned_share \<Rightarrow> money \<Rightarrow> lot list \<Rightarrow> (money \<times> lot list, lot_error) result" where
  "amortise_loop rule share returned_total [] = Ok (returned_total, [])"
| "amortise_loop rule share returned_total (l # ls) =
     and_then (map_err LotAmortisation (rule l share)) (\<lambda>returned.
     and_then (map_err LotMoney (try_sub (lot_cost_basis l) returned)) (\<lambda>basis.
     and_then (map_err LotMoney (try_add returned_total returned)) (\<lambda>total'.
     and_then (amortise_loop rule share total' ls) (\<lambda>(t, ls').
     Ok (t, l\<lparr>lot_cost_basis := basis\<rparr> # ls')))))"

definition apply_amortisation :: "deps \<Rightarrow> rule_registry \<Rightarrow> lot_book \<Rightarrow> event \<Rightarrow> amortisation_facts \<Rightarrow> (lot_book, lot_error) result" where
  "apply_amortisation X rules b ev f =
     (let key = LotKey (e_account ev) (af_instrument f) in
      and_then (require_whole_position X b ev key (af_quantity f)) (\<lambda>_.
      and_then (ok_or (registry_amortisation_rule rules (lb_amortisation_version b))
                  (UnknownAmortisationRule (lb_amortisation_version b))) (\<lambda>rule.
      and_then (ok_or (bt_get (lb_entries b) key) (SaleWithoutPosition (e_id ev) (af_instrument f))) (\<lambda>entry.
      and_then (case af_allocation f of
          KnownAllocation share _ \<Rightarrow>
            and_then (amortise_loop rule share (money_zero (m_currency (af_compensation f))) (il_lots entry)) (\<lambda>(t, ls).
            Ok (t, entry\<lparr>il_lots := ls\<rparr>))
        | UnknownAllocation _ \<Rightarrow>
            Ok (money_zero (m_currency (af_compensation f)), mark_basis_gap entry AmortisationAllocationUnknown)) (\<lambda>(returned_total, next).
      and_then (add_received X next (af_compensation f)) (\<lambda>next1.
      and_then (if \<not> money_is_zero returned_total then map_err LotMoney (add_released_basis next1 returned_total)
                else Ok next1) (\<lambda>next2.
      and_then (map_err LotMoney (try_sub (af_compensation f) returned_total)) (\<lambda>gain.
      and_then (map_err LotMoney (add_realised next2 gain)) (\<lambda>next3.
      Ok (put_entry b key next3))))))))))"

definition apply_offer_exercise :: "deps \<Rightarrow> rule_registry \<Rightarrow> lot_book \<Rightarrow> event \<Rightarrow> offer_exercise_action
    \<Rightarrow> settlement_knowledge \<Rightarrow> (lot_book, lot_error) result" where
  "apply_offer_exercise X rules b ev action settlement = (case action of
     Submitted _ _ _ _ \<Rightarrow> Ok b
   | Cancelled _ _ \<Rightarrow> Ok b
   | Settled _ instrument _ quantity gross fee accrued_interest \<Rightarrow>
       and_then (map_err LotMoney (case accrued_interest of Some i \<Rightarrow> try_add gross i | None \<Rightarrow> Ok gross)) (\<lambda>p1.
       and_then (map_err LotMoney (case fee of Some f \<Rightarrow> try_sub p1 f | None \<Rightarrow> Ok p1)) (\<lambda>proceeds.
       dispose X rules b ev
         \<lparr>df_key = LotKey (e_account ev) instrument, df_quantity = quantity, df_proceeds = proceeds\<rparr> settlement)))"

definition apply_corporate_action :: "deps \<Rightarrow> rule_registry \<Rightarrow> lot_book \<Rightarrow> event \<Rightarrow> corporate_action
    \<Rightarrow> settlement_knowledge \<Rightarrow> (lot_book, lot_error) result" where
  "apply_corporate_action X rules b ev action settlement = (case action of
     PartialRedemption instrument _ quantity _ compensation _ _ _ allocation \<Rightarrow>
       apply_amortisation X rules b ev
         \<lparr>af_instrument = instrument, af_quantity = quantity, af_allocation = allocation, af_compensation = compensation\<rparr>
   | Redemption instrument _ quantity _ compensation _ _ _ \<Rightarrow>
       (let key = LotKey (e_account ev) instrument in
        and_then (require_whole_position X b ev key quantity) (\<lambda>_.
        dispose X rules b ev \<lparr>df_key = key, df_quantity = quantity, df_proceeds = compensation\<rparr> settlement))
   | Conversion predecessor successor _ ratio quantity_in quantity_out _ _ eff_day _ _ basis_transfer \<Rightarrow>
       apply_conversion X b ev
         \<lparr>cf_predecessor = predecessor, cf_successor = successor, cf_ratio = ratio, cf_quantity_in = quantity_in,
          cf_quantity_out = quantity_out, cf_basis_transfer = basis_transfer, cf_effective_date = eff_day\<rparr>
         settlement)"

definition apply_trade :: "deps \<Rightarrow> rule_registry \<Rightarrow> lot_book \<Rightarrow> event \<Rightarrow> trade_facts \<Rightarrow> settlement_knowledge
    \<Rightarrow> (lot_book, lot_error) result" where
  "apply_trade X rules b ev t settlement =
     (let key = LotKey (e_account ev) (tf_instrument t) in
      case tf_side t of
        Buy \<Rightarrow>
          and_then (map_err LotMoney (case tf_fee t of Some f \<Rightarrow> try_add (tf_gross t) f | None \<Rightarrow> Ok (tf_gross t))) (\<lambda>basis1.
          and_then (map_err LotMoney (case tf_basis_fee t of Some f \<Rightarrow> try_add basis1 f | None \<Rightarrow> Ok basis1)) (\<lambda>basis.
          let entry = entry_or_default b key in
          and_then (map_err LotMoney (add_to_slot (il_acquired_basis entry) basis)) (\<lambda>acquired_basis.
          Ok (put_entry b key
            (push_lot_with_settlement (entry\<lparr>il_acquired_basis := acquired_basis\<rparr>)
               \<lparr>lot_id = LotId (event_uuid (e_id ev)), lot_instrument = tf_instrument t,
                lot_acquired = ed_trade (e_dates ev), lot_quantity = tf_quantity t, lot_cost_basis = basis,
                lot_acquisition_basis = Some basis, lot_accrued_interest_paid = tf_accrued_interest t,
                lot_received_to_date = None\<rparr> settlement)))))
      | Sell \<Rightarrow>
          and_then (map_err LotMoney (case tf_fee t of Some f \<Rightarrow> try_sub (tf_gross t) f | None \<Rightarrow> Ok (tf_gross t))) (\<lambda>p1.
          and_then (map_err LotMoney (case tf_basis_fee t of Some f \<Rightarrow> try_sub p1 f | None \<Rightarrow> Ok p1)) (\<lambda>proceeds.
          dispose X rules b ev
            \<lparr>df_key = key, df_quantity = tf_quantity t, df_proceeds = proceeds\<rparr> settlement)))"

definition apply_income :: "deps \<Rightarrow> lot_book \<Rightarrow> event \<Rightarrow> instrument_id \<Rightarrow> money \<Rightarrow> income_kind option
    \<Rightarrow> (lot_book, lot_error) result" where
  "apply_income X b ev instrument amount kind =
     (let key = LotKey (e_account ev) instrument; entry = entry_or_default b key in
      case kind of
        Some Coupon \<Rightarrow> map_ok (put_entry b key) (add_received X entry amount)
      | Some Dividend \<Rightarrow> Ok (put_entry b key entry)
      | Some DepositInterest \<Rightarrow> Ok (put_entry b key entry)
      | None \<Rightarrow> Ok (put_entry b key (entry\<lparr>il_income_kind_unknown := True\<rparr>)))"

definition lot_book_apply :: "deps \<Rightarrow> rule_registry \<Rightarrow> lot_book \<Rightarrow> event \<Rightarrow> (lot_book, lot_error) result" where
  "lot_book_apply X rules b ev =
     (let settlement = knowledge_of X (lb_settlement_policy b) (e_dates ev) (pv_parser_version (e_provenance ev)) in
      case e_kind ev of
        Trade side instrument quantity gross fee basis_fee _ accrued_interest \<Rightarrow>
          apply_trade X rules b ev
            \<lparr>tf_side = side, tf_instrument = instrument, tf_quantity = quantity, tf_gross = gross, tf_fee = fee,
             tf_basis_fee = basis_fee, tf_accrued_interest = accrued_interest\<rparr> settlement
      | OpeningPosition instrument quantity cost_basis assertions \<Rightarrow>
          (let acquired = (case (oa_acquisition_date assertions, oa_acquisition_date_certainty assertions) of
                 (Some day, DateKnown) \<Rightarrow> Some day | _ \<Rightarrow> None);
               restored_settlement = (case acquired of Some day \<Rightarrow> SExact day | None \<Rightarrow> SUnbounded) in
           restore X b ev
             \<lparr>rf_instrument = instrument, rf_quantity = quantity, rf_cost_basis = cost_basis, rf_acquired = acquired\<rparr>
             restored_settlement)
      | Income (Some instrument) gross kind \<Rightarrow> apply_income X b ev instrument gross kind
      | CorporateAction action \<Rightarrow> apply_corporate_action X rules b ev action settlement
      | OfferExercise action \<Rightarrow> apply_offer_exercise X rules b ev action settlement
      | _ \<Rightarrow> Ok b)"

section \<open>The basis invariant of an entry\<close>

definition slot_amount :: "money option \<Rightarrow> int" where
  "slot_amount s = (case s of None \<Rightarrow> 0 | Some m \<Rightarrow> m_amount m)"

definition slot_in :: "currency_code \<Rightarrow> money option \<Rightarrow> bool" where
  "slot_in c s \<longleftrightarrow> (case s of None \<Rightarrow> True | Some m \<Rightarrow> m_currency m = c)"

text \<open>
  Either nothing was ever acquired with a basis, and then there is no lot and nothing was
  released, or acquired, released and open lots are in one currency and balance. The three
  arguments are the acquired basis, the released basis and the bases of the open lots.
\<close>

definition basis_ok :: "money option \<Rightarrow> money option \<Rightarrow> money list \<Rightarrow> bool" where
  "basis_ok a r ms \<longleftrightarrow> (case a of
     None \<Rightarrow> ms = [] \<and> r = None
   | Some a \<Rightarrow> (\<forall>m \<in> set ms. m_currency m = m_currency a) \<and> slot_in (m_currency a) r \<and>
               m_amount a = slot_amount r + (\<Sum>m \<leftarrow> ms. m_amount m))"

definition entry_ok :: "instrument_lots \<Rightarrow> bool" where
  "entry_ok e \<longleftrightarrow> basis_ok (il_acquired_basis e) (il_released_basis e) (map lot_cost_basis (il_lots e))"

definition lot_book_ok :: "lot_book \<Rightarrow> bool" where
  "lot_book_ok b \<longleftrightarrow> bt_invar (lb_entries b) \<and> (\<forall>k e. bt_get (lb_entries b) k = Some e \<longrightarrow> entry_ok e)"

lemma slot_simps [simp]:
  "slot_amount None = 0" "slot_amount (Some m) = m_amount m"
  "slot_in c None" "slot_in c (Some m) \<longleftrightarrow> m_currency m = c"
  by (simp_all add: slot_amount_def slot_in_def)

lemma add_to_slot_Ok:
  "add_to_slot s m = Ok r \<longleftrightarrow> slot_in (m_currency m) s \<and> (s \<noteq> None \<longrightarrow> i64 (slot_amount s + m_amount m)) \<and>
     r = Some \<lparr>m_amount = slot_amount s + m_amount m, m_currency = m_currency m\<rparr>"
  by (cases s; cases m) (auto simp: add_to_slot_def)

lemma add_to_slot_returns [simp]: "add_to_slot s m \<noteq> Panic"
  by (auto simp: add_to_slot_def try_add_def require_same_currency_def and_then_eq_Panic split: option.splits)

lemma lots_basis_map: "lots_basis ls = (\<Sum>m \<leftarrow> map lot_cost_basis ls. m_amount m)"
  by (simp add: lots_basis_def comp_def)

lemma lots_currency_map: "lots_currency c ls \<longleftrightarrow> (\<forall>m \<in> set (map lot_cost_basis ls). m_currency m = c)"
  by (simp add: lots_currency_def)

lemma basis_ok_acquire:
  assumes "basis_ok a r ms" "add_to_slot a m = Ok a'" "\<forall>x \<in> set ns. m_currency x = m_currency m"
    and "(\<Sum>x \<leftarrow> ns. m_amount x) = m_amount m" "mset ms' = mset ms + mset ns"
  shows "basis_ok a' r ms'"
proof -
  have set: "set ms' = set ms \<union> set ns" using assms(5) by (metis set_mset_mset set_mset_union)
  have sum: "(\<Sum>x \<leftarrow> ms'. m_amount x) = (\<Sum>x \<leftarrow> ms. m_amount x) + (\<Sum>x \<leftarrow> ns. m_amount x)"
  proof -
    have "mset (map m_amount ms') = mset (map m_amount (ms @ ns))" using assms(5) by simp
    then have "sum_list (map m_amount ms') = sum_list (map m_amount (ms @ ns))"
      unfolding sum_mset_sum_list [symmetric] by simp
    then show ?thesis by simp
  qed
  show ?thesis
  proof (cases a)
    case None
    then show ?thesis using assms(1-4) sum by (auto simp: basis_ok_def add_to_slot_Ok set)
  next
    case (Some b)
    then show ?thesis using assms(1-4) sum by (auto simp: basis_ok_def add_to_slot_Ok set)
  qed
qed

lemma basis_ok_release:
  assumes "basis_ok a r ms" "ms \<noteq> []" "add_to_slot r m = Ok r'"
    and "\<forall>x \<in> set ms. m_currency x = m_currency m" "\<forall>x \<in> set ms'. m_currency x = m_currency m"
    and "(\<Sum>x \<leftarrow> ms. m_amount x) = m_amount m + (\<Sum>x \<leftarrow> ms'. m_amount x)"
  shows "basis_ok a r' ms'"
proof -
  obtain x xs where ms: "ms = x # xs" using assms(2) by (cases ms) auto
  obtain b where a: "a = Some b" using assms(1) ms by (cases a) (auto simp: basis_ok_def)
  have "m_currency b = m_currency m" using assms(1,4) by (auto simp: basis_ok_def a ms)
  then show ?thesis using assms by (auto simp: basis_ok_def a add_to_slot_Ok)
qed

lemma basis_ok_keep:
  assumes "basis_ok a r ms" "length ms' = length ms" "\<And>c. \<forall>x \<in> set ms. m_currency x = c \<Longrightarrow> \<forall>x \<in> set ms'. m_currency x = c"
    and "(\<Sum>x \<leftarrow> ms'. m_amount x) = (\<Sum>x \<leftarrow> ms. m_amount x)"
  shows "basis_ok a r ms'"
proof (cases a)
  case None
  then show ?thesis using assms(1,2) by (simp add: basis_ok_def)
next
  case (Some b)
  then have "\<forall>x \<in> set ms. m_currency x = m_currency b" using assms(1) by (simp add: basis_ok_def)
  from assms(3) [OF this] show ?thesis using assms(1,4) by (simp add: basis_ok_def Some)
qed

lemma entry_ok_default [simp]: "entry_ok instrument_lots_default"
  by (simp add: entry_ok_def basis_ok_def instrument_lots_default_def)

lemma entry_or_default_ok: "lot_book_ok b \<Longrightarrow> entry_ok (entry_or_default b k)"
  by (auto simp: lot_book_ok_def entry_or_default_def split: option.splits)

lemma lot_book_ok_get: "lot_book_ok b \<Longrightarrow> bt_get (lb_entries b) k = Some e \<Longrightarrow> entry_ok e"
  by (auto simp: lot_book_ok_def)

lemma put_entry_ok: "lot_book_ok b \<Longrightarrow> entry_ok e \<Longrightarrow> lot_book_ok (put_entry b k e)"
  by (auto simp: lot_book_ok_def put_entry_def)

lemma lot_book_ok_applied [simp]: "lot_book_ok (b\<lparr>lb_applied_rule := r\<rparr>) \<longleftrightarrow> lot_book_ok b"
  by (simp add: lot_book_ok_def)

text \<open>Handlers that only touch other fields keep the invariant of the entry.\<close>

lemma entry_ok_other [simp]:
  "entry_ok (e\<lparr>il_ownership := oh\<rparr>) \<longleftrightarrow> entry_ok e"
  "entry_ok (e\<lparr>il_acquisitions := ah\<rparr>) \<longleftrightarrow> entry_ok e"
  "entry_ok (e\<lparr>il_unpriced := u\<rparr>) \<longleftrightarrow> entry_ok e"
  "entry_ok (e\<lparr>il_gap := g\<rparr>) \<longleftrightarrow> entry_ok e"
  "entry_ok (e\<lparr>il_realized := rz\<rparr>) \<longleftrightarrow> entry_ok e"
  "entry_ok (e\<lparr>il_income_kind_unknown := k\<rparr>) \<longleftrightarrow> entry_ok e"
  "entry_ok (e\<lparr>il_unallocated_income := ui\<rparr>) \<longleftrightarrow> entry_ok e"
  "entry_ok (e\<lparr>il_unpriced_income := ui\<rparr>) \<longleftrightarrow> entry_ok e"
  by (simp_all add: entry_ok_def)

lemma add_received_loop_Ok:
  "add_received_loop X a q ls = Ok ls' \<Longrightarrow> map lot_cost_basis ls' = map lot_cost_basis ls"
proof (induction ls arbitrary: a q ls')
  case (Cons l ls)
  show ?case
  proof (cases "d_is_zero X (lot_quantity l)")
    case True
    with Cons.prems obtain r where "add_received_loop X a q ls = Ok r" "ls' = l # r" by auto
    with Cons.IH show ?thesis by simp
  next
    case False
    with Cons.prems obtain a' q' t r where "add_received_loop X a' q' ls = Ok r"
      "ls' = l\<lparr>lot_received_to_date := t\<rparr> # r" by auto
    with Cons.IH show ?thesis by simp
  qed
qed simp

lemma add_received_Ok:
  assumes "add_received X e m = Ok e'"
  shows "il_acquired_basis e' = il_acquired_basis e \<and> il_released_basis e' = il_released_basis e \<and>
    map lot_cost_basis (il_lots e') = map lot_cost_basis (il_lots e)"
  using assms by (auto simp: add_received_def dest!: add_received_loop_Ok split: if_splits)

lemma add_received_ok: "add_received X e m = Ok e' \<Longrightarrow> entry_ok e' \<longleftrightarrow> entry_ok e"
  using add_received_Ok [of X e m e'] by (simp add: entry_ok_def)

section \<open>Every handler keeps the invariant\<close>

context registry_contract
begin

lemma dispose_lots_ok:
  assumes "entry_ok e" "registry_disposal_rule registry v = Some rule" "dispose_lots rule e left p = Ok (e', rid)"
  shows "entry_ok e'"
proof -
  from assms(3) obtain r rel where r: "rule \<lparr>di_lots = il_lots e, di_quantity = left\<rparr> = Ok r"
    and rel: "add_to_slot (il_released_basis e) (dr_basis_released r) = Ok rel"
    and e': "entry_ok e' \<longleftrightarrow> entry_ok (e\<lparr>il_lots := dr_remaining r, il_released_basis := rel\<rparr>)"
    by (auto simp: dispose_lots_def Let_def split: if_splits)
  have c: "conserves_basis (il_lots e) r" using disposal_conserves [OF assms(2) r] by simp
  have "basis_ok (il_acquired_basis e) rel (map lot_cost_basis (dr_remaining r))"
    using c by (intro basis_ok_release [OF assms(1) [unfolded entry_ok_def] _ rel])
         (auto simp: conserves_basis_def lots_basis_map lots_currency_map)
  then show ?thesis by (simp add: e') (simp add: entry_ok_def)
qed

lemma dispose_ok:
  assumes "lot_book_ok b" "dispose X registry b ev f s = Ok b'"
  shows "lot_book_ok b'"
proof -
  from assms(2) obtain delta rule entry entry1 left where
    rule: "registry_disposal_rule registry (lb_rule_version b) = Some rule"
    and entry: "bt_get (lb_entries b) (df_key f) = Some entry"
    and e1: "dispose_unpriced X entry (dec_min X (il_unpriced entry) (df_quantity f)) = Ok entry1"
    and res: "(if d_is_zero X left
       then Ok (put_entry b (df_key f) (entry1\<lparr>il_ownership := ownership_observe (il_ownership entry1) delta s\<rparr>))
       else and_then (dispose_lots rule entry1 left (df_proceeds f)) (\<lambda>(entry3, rid).
         Ok ((put_entry b (df_key f) (entry3\<lparr>il_ownership := ownership_observe (il_ownership entry3) delta s\<rparr>))
           \<lparr>lb_applied_rule := Some rid\<rparr>))) = Ok b'"
    unfolding dispose_def Let_def and_then_eq_Ok [of "map_err f m" for f m] and_then_eq_Ok [of "ok_or f m" for f m]
      and_then_eq_Ok [of "dispose_unpriced X e u" for e u] map_err_eq_Ok ok_or_eq_Ok by blast
  have ok: "entry_ok entry1"
    using e1 lot_book_ok_get [OF assms(1) entry] by (auto simp: dispose_unpriced_def split: if_splits)
  show ?thesis
  proof (cases "d_is_zero X left")
    case True
    with res have "b' = put_entry b (df_key f) (entry1\<lparr>il_ownership := ownership_observe (il_ownership entry1) delta s\<rparr>)"
      by simp
    then show ?thesis using put_entry_ok [OF assms(1)] ok by simp
  next
    case False
    with res obtain e3 rid where d: "dispose_lots rule entry1 left (df_proceeds f) = Ok (e3, rid)"
      and b3: "b' = (put_entry b (df_key f) (e3\<lparr>il_ownership := ownership_observe (il_ownership e3) delta s\<rparr>))
        \<lparr>lb_applied_rule := Some rid\<rparr>" by auto
    have "entry_ok e3" by (rule dispose_lots_ok [OF ok rule d])
    then show ?thesis using put_entry_ok [OF assms(1)] by (simp add: b3)
  qed
qed

lemma amortise_loop_Ok:
  assumes "registry_amortisation_rule registry v = Some rule"
  shows "amortise_loop rule share t ls = Ok (t', ls') \<Longrightarrow>
    lots_basis ls = (m_amount t' - m_amount t) + lots_basis ls' \<and> m_currency t' = m_currency t \<and>
    lots_currency (m_currency t) ls \<and> lots_currency (m_currency t) ls' \<and> length ls' = length ls"
proof (induction ls arbitrary: t ls')
  case (Cons l ls)
  from Cons.prems obtain ret basis t1 r where s: "rule l share = Ok ret" "try_sub (lot_cost_basis l) ret = Ok basis"
    "try_add t ret = Ok t1" "amortise_loop rule share t1 ls = Ok (t', r)" "ls' = l\<lparr>lot_cost_basis := basis\<rparr> # r"
    by auto
  from Cons.IH [OF s(4)] s(2,3,5) amortisation_currency [OF assms s(1)] show ?case by auto
qed simp

lemma amortised_entry_ok:
  assumes "registry_amortisation_rule registry v = Some rule" "entry_ok e"
    and "amortise_loop rule share (money_zero c) (il_lots e) = Ok (t, ls)"
    and "map lot_cost_basis (il_lots e1) = map lot_cost_basis ls"
    and "il_acquired_basis e1 = il_acquired_basis e" "il_released_basis e1 = il_released_basis e"
    and "(if \<not> money_is_zero t then map_err LotMoney (add_released_basis e1 t) else Ok e1) = Ok e2"
  shows "entry_ok e2"
proof -
  note am = amortise_loop_Ok [OF assms(1,3)]
  have sums: "(\<Sum>x \<leftarrow> map lot_cost_basis (il_lots e). m_amount x) = m_amount t + (\<Sum>x \<leftarrow> map lot_cost_basis ls. m_amount x)"
    using am by (simp add: lots_basis_map money_zero_def)
  have curs: "\<forall>x \<in> set (map lot_cost_basis (il_lots e)). m_currency x = m_currency t"
    "\<forall>x \<in> set (map lot_cost_basis ls). m_currency x = m_currency t"
    using am by (auto simp: lots_currency_map money_zero_def)
  show ?thesis
  proof (cases "money_is_zero t")
    case True
    then have e2: "e2 = e1" using assms(7) by simp
    have "basis_ok (il_acquired_basis e) (il_released_basis e) (map lot_cost_basis ls)"
    proof (rule basis_ok_keep [OF assms(2) [unfolded entry_ok_def]])
      show "length (map lot_cost_basis ls) = length (map lot_cost_basis (il_lots e))" using am by simp
      show "\<forall>x \<in> set (map lot_cost_basis ls). m_currency x = c'"
        if h: "\<forall>x \<in> set (map lot_cost_basis (il_lots e)). m_currency x = c'" for c'
      proof (cases "il_lots e")
        case Nil
        then have "ls = []" using am by simp
        then show ?thesis by simp
      next
        case (Cons l0 rest)
        then have "c' = m_currency t" using h curs(1) by force
        then show ?thesis using curs(2) by simp
      qed
      show "(\<Sum>x \<leftarrow> map lot_cost_basis ls. m_amount x) = (\<Sum>x \<leftarrow> map lot_cost_basis (il_lots e). m_amount x)"
        using sums True by (simp add: money_is_zero_def)
    qed
    then show ?thesis by (simp add: e2 entry_ok_def assms(4-6))
  next
    case False
    then obtain r where r: "add_to_slot (il_released_basis e1) t = Ok r" "e2 = e1\<lparr>il_released_basis := r\<rparr>"
      using assms(7) by (auto simp: add_released_basis_def)
    have "il_lots e \<noteq> []"
      using False assms(3) by (auto simp: money_is_zero_def money_zero_def)
    then have ne: "map lot_cost_basis (il_lots e) \<noteq> []" by simp
    have "basis_ok (il_acquired_basis e) r (map lot_cost_basis ls)"
      by (rule basis_ok_release [OF assms(2) [unfolded entry_ok_def] ne r(1) [unfolded assms(6)] curs sums])
    then show ?thesis by (simp add: r(2) entry_ok_def assms(4,5))
  qed
qed

lemma apply_amortisation_ok:
  assumes "lot_book_ok b" "apply_amortisation X registry b ev f = Ok b'"
  shows "lot_book_ok b'"
proof -
  let ?key = "LotKey (e_account ev) (af_instrument f)"
  from assms(2) obtain rule entry t next1 next2 next3 nx gain where
    rule: "registry_amortisation_rule registry (lb_amortisation_version b) = Some rule"
    and entry: "bt_get (lb_entries b) ?key = Some entry"
    and alloc: "(case af_allocation f of
          KnownAllocation share _ \<Rightarrow>
            and_then (amortise_loop rule share (money_zero (m_currency (af_compensation f))) (il_lots entry)) (\<lambda>(t, ls).
            Ok (t, entry\<lparr>il_lots := ls\<rparr>))
        | UnknownAllocation _ \<Rightarrow>
            Ok (money_zero (m_currency (af_compensation f)), mark_basis_gap entry AmortisationAllocationUnknown)) = Ok (t, nx)"
    and rec: "add_received X nx (af_compensation f) = Ok next1"
    and rel: "(if \<not> money_is_zero t then map_err LotMoney (add_released_basis next1 t) else Ok next1) = Ok next2"
    and real: "add_realised next2 gain = Ok next3" and b': "b' = put_entry b ?key next3"
    by (auto simp: apply_amortisation_def Let_def)
  have ok: "entry_ok entry" by (rule lot_book_ok_get [OF assms(1) entry])
  have n3: "entry_ok next3 \<longleftrightarrow> entry_ok next2"
    using real by (auto simp: add_realised_def split: if_splits)
  have "entry_ok next2"
  proof (cases "af_allocation f")
    case (UnknownAllocation g)
    then have "entry_ok nx" "next2 = next1"
      using alloc ok rel by (auto simp: mark_basis_gap_def money_zero_def money_is_zero_def)
    then show ?thesis using add_received_ok [OF rec] by simp
  next
    case (KnownAllocation share evd)
    then obtain ls where ls: "amortise_loop rule share (money_zero (m_currency (af_compensation f))) (il_lots entry) = Ok (t, ls)"
      and nx: "nx = entry\<lparr>il_lots := ls\<rparr>" using alloc by auto
    show ?thesis
      using add_received_Ok [OF rec] by (intro amortised_entry_ok [OF rule ok ls _ _ _ rel]) (auto simp: nx)
  qed
  then show ?thesis using put_entry_ok [OF assms(1)] b' n3 by simp
qed

end

text \<open>The handlers that call no rule.\<close>

lemma acquire_entry_ok:
  assumes "entry_ok e" "add_to_slot (il_acquired_basis e) m = Ok a"
    and "il_acquired_basis e' = a" "il_released_basis e' = il_released_basis e"
    and "mset (map lot_cost_basis (il_lots e')) = mset (map lot_cost_basis (il_lots e)) + mset ns"
    and "\<forall>x \<in> set ns. m_currency x = m_currency m" "(\<Sum>x \<leftarrow> ns. m_amount x) = m_amount m"
  shows "entry_ok e'"
  using basis_ok_acquire [OF assms(1) [unfolded entry_ok_def] assms(2,6,7,5)] by (simp add: entry_ok_def assms(3,4))

lemma restore_ok:
  assumes "lot_book_ok b" "restore X b ev f s = Ok b'"
  shows "lot_book_ok b'"
proof (cases "rf_cost_basis f")
  case None
  then show ?thesis
    using assms(2) by (auto simp: restore_def Let_def intro!: put_entry_ok assms(1) entry_or_default_ok)
next
  case (Some basis)
  let ?e = "entry_or_default b (LotKey (e_account ev) (rf_instrument f))"
  from Some assms(2) obtain a l where a: "add_to_slot (il_acquired_basis ?e) basis = Ok a"
    and b': "b' = put_entry b (LotKey (e_account ev) (rf_instrument f))
       (insert_restored_lot_with_settlement (?e\<lparr>il_acquired_basis := a\<rparr>) l s)" and l: "lot_cost_basis l = basis"
    by (auto simp: restore_def Let_def)
  have "entry_ok (insert_restored_lot_with_settlement (?e\<lparr>il_acquired_basis := a\<rparr>) l s)"
    by (rule acquire_entry_ok [OF entry_or_default_ok [OF assms(1)] a, where ns = "[basis]"])
       (auto simp: insert_restored_lot_with_settlement_def l)
  then show ?thesis using put_entry_ok [OF assms(1)] b' by simp
qed

lemma conversion_loop_Ok:
  "conversion_loop X f assigned ls = Ok moved \<Longrightarrow> map lot_cost_basis moved = map lot_cost_basis ls"
proof (induction ls arbitrary: assigned moved)
  case (Cons l ls)
  from Cons.prems obtain a m q where "conversion_loop X f a ls = Ok m" "moved = q # m" "lot_cost_basis q = lot_cost_basis l"
    by auto
  with Cons.IH show ?case by simp
qed simp

lemma convert_source_ok:
  assumes "entry_ok e" "il_lots e \<noteq> []" "convert_source e carried d s = Ok e'"
    and "\<forall>x \<in> set (map lot_cost_basis (il_lots e)). m_currency x = m_currency carried"
    and "m_amount carried = (\<Sum>x \<leftarrow> map lot_cost_basis (il_lots e). m_amount x)"
  shows "entry_ok e'"
proof -
  from assms(3) obtain rel where rel: "add_to_slot (il_released_basis e) carried = Ok rel"
    and e': "entry_ok e' \<longleftrightarrow> entry_ok (e\<lparr>il_lots := [], il_released_basis := rel\<rparr>)"
    by (auto simp: convert_source_def add_released_basis_def)
  have "basis_ok (il_acquired_basis e) rel []"
    by (rule basis_ok_release [OF assms(1) [unfolded entry_ok_def] _ rel]) (use assms(2,4,5) in auto)
  then show ?thesis by (simp add: e') (simp add: entry_ok_def)
qed

lemma convert_target_ok:
  assumes "entry_ok e" "convert_target e carried moved q s = Ok e'"
    and "\<forall>x \<in> set (map lot_cost_basis moved). m_currency x = m_currency carried"
    and "m_amount carried = (\<Sum>x \<leftarrow> map lot_cost_basis moved. m_amount x)"
  shows "entry_ok e'"
proof -
  from assms(2) obtain acq where acq: "add_to_slot (il_acquired_basis e) carried = Ok acq"
    and e': "il_acquired_basis e' = acq" "il_released_basis e' = il_released_basis e" "il_lots e' = il_lots e @ moved"
    by (auto simp: convert_target_def add_acquired_basis_def)
  show ?thesis
    by (rule acquire_entry_ok [OF assms(1) acq e'(1,2), where ns = "map lot_cost_basis moved"])
       (use assms(3,4) in \<open>auto simp: e'(3)\<close>)
qed

lemma apply_conversion_ok:
  assumes "lot_book_ok b" "apply_conversion X b ev f s = Ok b'"
  shows "lot_book_ok b'"
proof -
  let ?from = "LotKey (e_account ev) (cf_predecessor f)"
  let ?to = "LotKey (e_account ev) (cf_successor f)"
  from assms(2) obtain source moved where src: "bt_get (lb_entries b) ?from = Some source"
    and moved: "conversion_loop X f dec_zero (il_lots source) = Ok moved"
    by (auto simp: apply_conversion_def Let_def)
  show ?thesis
  proof (cases "il_lots source")
    case Nil
    then show ?thesis using assms src moved by (auto simp: apply_conversion_def Let_def)
  next
    case (Cons first rest)
    from assms(2) src moved Cons obtain carried d source' target' where
      sum: "money_sum (map lot_cost_basis (il_lots source)) (m_currency (lot_cost_basis first)) = Ok carried"
      and s': "convert_source source carried d s = Ok source'"
      and t': "convert_target (entry_or_default (put_entry b ?from source') ?to) carried moved (cf_quantity_out f) s = Ok target'"
      and b': "b' = put_entry (put_entry b ?from source') ?to target'"
      by (auto simp del: money_sum_Ok simp: apply_conversion_def Let_def)
    have c: "\<forall>x \<in> set (map lot_cost_basis (il_lots source)). m_currency x = m_currency carried"
      "m_amount carried = (\<Sum>x \<leftarrow> map lot_cost_basis (il_lots source). m_amount x)"
      using sum by auto
    have "entry_ok source'"
      by (rule convert_source_ok [OF lot_book_ok_get [OF assms(1) src] _ s' c]) (simp add: Cons)
    then have b1: "lot_book_ok (put_entry b ?from source')" by (rule put_entry_ok [OF assms(1)])
    have "entry_ok target'"
      by (rule convert_target_ok [OF entry_or_default_ok [OF b1] t' c [folded conversion_loop_Ok [OF moved]]])
    then show ?thesis using put_entry_ok [OF b1] b' by simp
  qed
qed

lemma apply_income_ok:
  assumes "lot_book_ok b" "apply_income X b ev i m k = Ok b'"
  shows "lot_book_ok b'"
proof -
  let ?e = "entry_or_default b (LotKey (e_account ev) i)"
  have e: "entry_ok ?e" by (rule entry_or_default_ok [OF assms(1)])
  from assms(2) obtain e' where "b' = put_entry b (LotKey (e_account ev) i) e'" "entry_ok e'"
    using e add_received_ok
    by (auto simp: apply_income_def Let_def split: option.splits income_kind.splits)
  then show ?thesis using put_entry_ok [OF assms(1)] by simp
qed

lemma buy_ok:
  assumes "lot_book_ok b" "apply_trade X rules b ev t s = Ok b'" "tf_side t = Buy"
  shows "lot_book_ok b'"
proof -
  let ?e = "entry_or_default b (LotKey (e_account ev) (tf_instrument t))"
  from assms(2,3) obtain basis a l where a: "add_to_slot (il_acquired_basis ?e) basis = Ok a"
    and b': "b' = put_entry b (LotKey (e_account ev) (tf_instrument t))
       (push_lot_with_settlement (?e\<lparr>il_acquired_basis := a\<rparr>) l s)" and l: "lot_cost_basis l = basis"
    by (auto simp: apply_trade_def Let_def)
  have "entry_ok (push_lot_with_settlement (?e\<lparr>il_acquired_basis := a\<rparr>) l s)"
    by (rule acquire_entry_ok [OF entry_or_default_ok [OF assms(1)] a, where ns = "[basis]"])
       (auto simp: push_lot_with_settlement_def l)
  then show ?thesis using put_entry_ok [OF assms(1)] b' by simp
qed

context registry_contract
begin

lemma apply_ok:
  assumes "lot_book_ok b" "lot_book_apply X registry b ev = Ok b'"
  shows "lot_book_ok b'"
proof -
  note rules = dispose_ok [OF assms(1)] apply_amortisation_ok [OF assms(1)] apply_conversion_ok [OF assms(1)]
    restore_ok [OF assms(1)] apply_income_ok [OF assms(1)] buy_ok [OF assms(1)]
  have trade: "lot_book_ok b'" if "apply_trade X registry b ev t s = Ok b'" for t s
    using that rules(6) [OF that] rules(1) by (cases "tf_side t") (auto simp: apply_trade_def Let_def)
  have corp: "lot_book_ok b'" if "apply_corporate_action X registry b ev a s = Ok b'" for a s
    using that rules(1,2,3) by (cases a) (auto simp: apply_corporate_action_def Let_def)
  have offer: "lot_book_ok b'" if "apply_offer_exercise X registry b ev a s = Ok b'" for a s
    using that rules(1) assms(1) by (cases a) (auto simp: apply_offer_exercise_def)
  show ?thesis
    using assms(2) trade corp offer rules(4,5) assms(1)
    by (cases "e_kind ev") (auto simp: lot_book_apply_def Let_def split: option.splits)
qed

end

section \<open>The default registry\<close>

definition lot_book_start :: "lot_rule_version \<Rightarrow> amortisation_rule_version \<Rightarrow> settlement_lag_policy \<Rightarrow> lot_book" where
  "lot_book_start v w p = with_settlement_lag_policy (with_amortisation_version (lot_book_new v) w) p"

interpretation book: stateful "lot_book_start v w p" "lot_book_apply X (with_defaults X)" lot_book_ok for v w p X
proof unfold_locales
  show "lot_book_ok (lot_book_start v w p)"
    by (simp add: lot_book_ok_def lot_book_start_def with_settlement_lag_policy_def with_amortisation_version_def
        lot_book_new_def)
  show "lot_book_ok s'" if "lot_book_ok s" "lot_book_apply X (with_defaults X) s x = Ok s'" for s x s'
    using that by (rule defaults.apply_ok)
qed

section \<open>Cohorts cover the lots\<close>

lemma group_step_Ok:
  assumes "try_fold group_step [] ls = Ok g"
  shows "bt_invar g \<and> (\<forall>l \<in> set ls. lot_acquired l \<noteq> None) \<and>
    (\<forall>d. bt_get g d = (case filter (\<lambda>l. lot_acquired l = Some d) ls of [] \<Rightarrow> None | xs \<Rightarrow> Some xs))"
  using assms
proof (induction ls arbitrary: g rule: rev_induct)
  case Nil
  then show ?case by auto
next
  case (snoc l ls)
  from snoc.prems obtain u where u: "try_fold group_step [] ls = Ok u" "group_step u l = Ok g"
    by (auto simp: try_fold_snoc_Ok)
  from u(2) obtain d where d: "lot_acquired l = Some d" "g = bt_upsert d [] (\<lambda>xs. xs @ [l]) u"
    by (auto simp: group_step_def)
  note IH = snoc.IH [OF u(1)]
  have "bt_get g d' = (case filter (\<lambda>l. lot_acquired l = Some d') (ls @ [l]) of [] \<Rightarrow> None | xs \<Rightarrow> Some xs)" for d'
  proof (cases "d' = d")
    case True
    then show ?thesis using IH by (auto simp: d split: list.splits)
  next
    case False
    then show ?thesis using IH by (simp add: d)
  qed
  then show ?case using IH by (auto simp: d)
qed

lemma cohort_fold_Ok:
  "try_fold (cohort_step X) (q, m) ls = Ok (q', m') \<Longrightarrow>
     m_amount m' = m_amount m + lots_basis ls \<and> m_currency m' = m_currency m"
proof (induction ls arbitrary: q m)
  case (Cons l ls)
  from Cons.prems obtain u where u: "cohort_step X (q, m) l = Ok u" "try_fold (cohort_step X) u ls = Ok (q', m')"
    by auto
  obtain q1 m1 where u': "u = (q1, m1)" by (cases u)
  have "m_amount m1 = m_amount m + m_amount (lot_cost_basis l)" "m_currency m1 = m_currency m"
    using u(1) by (auto simp: u' cohort_step_def)
  with Cons.IH [OF u(2) [unfolded u']] show ?case by simp
qed simp

lemma cohort_of_Ok:
  assumes "cohort_of X g = Ok co"
  shows "co_acquired co = fst g \<and> m_amount (co_cost_basis co) = lots_basis (snd g)"
  using assms by (auto simp: cohort_of_def money_zero_def dest!: cohort_fold_Ok)

text \<open>Grouping loses no basis: the groups partition the lots.\<close>

lemma grouped_basis:
  assumes "bt_invar g" "\<forall>l \<in> set ls. lot_acquired l \<noteq> None"
    and "\<forall>d. bt_get g d = (case filter (\<lambda>l. lot_acquired l = Some d) ls of [] \<Rightarrow> None | xs \<Rightarrow> Some xs)"
  shows "(\<Sum>x \<leftarrow> g. lots_basis (snd x)) = lots_basis ls"
proof -
  have groups: "snd x = filter (\<lambda>l. lot_acquired l = Some (fst x)) ls" if "x \<in> set g" for x
  proof -
    have "bt_get g (fst x) = Some (snd x)" using bt.get_entries [OF assms(1), of "fst x" "snd x"] that by simp
    then show ?thesis using assms(3) by (auto split: list.splits)
  qed
  have keys: "set (map fst g) = (the \<circ> lot_acquired) ` set ls"
  proof -
    have "bt_get g d \<noteq> None \<longleftrightarrow> (\<exists>l \<in> set ls. lot_acquired l = Some d)" for d
      using assms(3) by (auto simp: filter_empty_conv split: list.splits)
    moreover have "(\<exists>l \<in> set ls. lot_acquired l = Some d) \<longleftrightarrow> d \<in> (the \<circ> lot_acquired) ` set ls" for d
      using assms(2) by (force simp: image_iff)
    ultimately show ?thesis using bt.set_keys [OF assms(1)] by blast
  qed
  have "(\<Sum>x \<leftarrow> g. lots_basis (snd x)) = (\<Sum>x \<leftarrow> g. \<Sum>l \<leftarrow> ls. if lot_acquired l = Some (fst x) then m_amount (lot_cost_basis l) else 0)"
  proof (rule arg_cong [of _ _ sum_list], rule map_cong [OF refl])
    fix x assume x: "x \<in> set g"
    have "lots_basis (filter P xs) = (\<Sum>l \<leftarrow> xs. if P l then m_amount (lot_cost_basis l) else 0)" for P xs
      by (induction xs) auto
    then show "lots_basis (snd x) = (\<Sum>l \<leftarrow> ls. if lot_acquired l = Some (fst x) then m_amount (lot_cost_basis l) else 0)"
      using groups [OF x] by simp
  qed
  also have "\<dots> = (\<Sum>k \<in> set (map fst g). \<Sum>l \<leftarrow> ls. if lot_acquired l = Some k then m_amount (lot_cost_basis l) else 0)"
    using bt.distinct_keys [OF assms(1)]
    by (simp add: sum_list_distinct_conv_sum_set distinct_map sum.reindex)
  also have "\<dots> = lots_basis ls"
  proof -
    have "(\<Sum>k \<in> K. \<Sum>l \<leftarrow> xs. if lot_acquired l = Some k then m_amount (lot_cost_basis l) else 0) = lots_basis xs"
      if "finite K" "\<forall>l \<in> set xs. \<exists>k \<in> K. lot_acquired l = Some k" for K xs
      using that(2)
    proof (induction xs)
      case (Cons l xs)
      then obtain k where k: "k \<in> K" "lot_acquired l = Some k" by auto
      have "(\<Sum>j \<in> K. if lot_acquired l = Some j then m_amount (lot_cost_basis l) else 0) = m_amount (lot_cost_basis l)"
        using that(1) k by (simp add: sum.delta' k(2) eq_commute [of k])
      with Cons show ?case by (simp add: sum.distrib)
    qed simp
    moreover have "\<forall>l \<in> set ls. \<exists>k \<in> set (map fst g). lot_acquired l = Some k"
      unfolding keys using assms(2) by force
    ultimately show ?thesis by simp
  qed
  finally show ?thesis .
qed

section \<open>Properties\<close>

text \<open>
  (C2) In every book the default rules can build, each entry conserves its basis: either no
  basis was ever acquired, and there are no lots and nothing was released, or the acquired
  basis is exactly the released basis plus the basis of the open lots, all in one currency.
\<close>

theorem lot_book_conserves_basis:
  assumes "reaches (lot_book_apply X (with_defaults X)) (lot_book_start v w p) b"
    and "bt_get (lb_entries b) k = Some e"
  shows "case il_acquired_basis e of
     None \<Rightarrow> il_lots e = [] \<and> il_released_basis e = None
   | Some a \<Rightarrow> (\<forall>l \<in> set (il_lots e). m_currency (lot_cost_basis l) = m_currency a) \<and>
       (case il_released_basis e of
          None \<Rightarrow> m_amount a = lots_basis (il_lots e)
        | Some r \<Rightarrow> m_currency r = m_currency a \<and> m_amount a = m_amount r + lots_basis (il_lots e))"
proof -
  have "entry_ok e" using lot_book_ok_get [OF book.inv_reaches [OF assms(1)] assms(2)] .
  then show ?thesis
    by (cases "il_acquired_basis e"; cases "il_released_basis e") (auto simp: entry_ok_def basis_ok_def lots_basis_map)
qed

definition sample_buy :: event where
  "sample_buy =
     \<lparr>e_id = EventId 1, e_owner = OwnerId 1, e_account = AccountId 1,
      e_kind = Trade Buy (InstrumentId 7) (Decimal 10 0) (money_new 1000 Rub) (Some (money_new 5 Rub)) None None None,
      e_dates = dates_for_trade 1 (Some 3), e_order = order_new 1 1,
      e_legs = [leg_cash (AccountId 1) (money_new (- 1005) Rub),
                leg_security (AccountId 1) (CustodyId 3) (InstrumentId 7) (Decimal 10 0)],
      e_provenance = provenance_new (SourceId 1) [] [], e_relation = NoRelation,
      e_confidence = Known, e_idempotency_key = None\<rparr>"

theorem lot_book_conserves_basis_witness:
  "\<exists>b e. lot_book_apply ref_deps (with_defaults ref_deps)
       (lot_book_start (LotRuleVersion 1) (AmortisationRuleVersion 1) settlement_policy_v1) sample_buy = Ok b \<and>
     bt_get (lb_entries b) (LotKey (AccountId 1) (InstrumentId 7)) = Some e \<and> lots_basis (il_lots e) = 1005"
proof -
  let ?b0 = "lot_book_start (LotRuleVersion 1) (AmortisationRuleVersion 1) settlement_policy_v1"
  have "\<exists>b e. lot_book_apply ref_deps (with_defaults ref_deps) ?b0 sample_buy = Ok b \<and>
     bt_get (lb_entries b) (LotKey (AccountId 1) (InstrumentId 7)) = Some e \<and>
     il_acquired_basis e = Some (money_new 1005 Rub) \<and> il_released_basis e = None"
    by (simp add: lot_book_apply_def sample_buy_def apply_trade_def entry_or_default_def lot_book_start_def
        with_settlement_lag_policy_def with_amortisation_version_def lot_book_new_def instrument_lots_default_def
        add_to_slot_def put_entry_def push_lot_with_settlement_def money_new_def i64_defs try_add_def
        require_same_currency_def pm_defs to_i64_def bt_get_def)
  then obtain b e where b: "lot_book_apply ref_deps (with_defaults ref_deps) ?b0 sample_buy = Ok b"
    and e: "bt_get (lb_entries b) (LotKey (AccountId 1) (InstrumentId 7)) = Some e"
      "il_acquired_basis e = Some (money_new 1005 Rub)" "il_released_basis e = None" by blast
  have "reaches (lot_book_apply ref_deps (with_defaults ref_deps)) ?b0 b"
    by (rule reaches_step [where app = "lot_book_apply ref_deps (with_defaults ref_deps)", OF reaches_init b])
  from lot_book_conserves_basis [OF this e(1)] show ?thesis using b e by (auto simp: money_new_def)
qed

text \<open>
  When an entry's lots can be grouped into cohorts, there is one cohort per acquisition
  date, in ascending order, and the cohorts carry together exactly the basis of the open
  lots; grouping never panics on an empty group.
\<close>

lemma cohorts_partition_basis:
  "case cohorts X e of
     Ok cs \<Rightarrow> (\<Sum>c \<leftarrow> cs. m_amount (co_cost_basis c)) = lots_basis (il_lots e) \<and>
             sorted_wrt (<) (map co_acquired cs)
   | Err g \<Rightarrow> True
   | Panic \<Rightarrow> False"
proof (cases "cohorts X e")
  case (Ok cs)
  then obtain g where g: "try_fold group_step [] (il_lots e) = Ok g" "list_all2 (\<lambda>x c. cohort_of X x = Ok c) g cs"
    by (auto simp: cohorts_def try_map_Ok_iff split: if_splits)
  note gs = group_step_Ok [OF g(1)]
  have "map co_acquired cs = map fst g \<and> (\<Sum>c \<leftarrow> cs. m_amount (co_cost_basis c)) = (\<Sum>x \<leftarrow> g. lots_basis (snd x))"
    using g(2) by (induction rule: list_all2_induct) (auto dest: cohort_of_Ok)
  then show ?thesis using gs grouped_basis [of g "il_lots e"] Ok by (simp add: bt_invar_def)
next
  case Panic
  have opt: "sum_optional_loop sel acc ls \<noteq> Panic" for sel acc ls
    by (induction ls arbitrary: acc) (auto simp: and_then_eq_Panic split: option.splits)
  have one: "cohort_of X x \<noteq> Panic" if "snd x \<noteq> []" for x
  proof -
    have "cohort_step X a l \<noteq> Panic" for a l
      by (simp add: cohort_step_def and_then_eq_Panic dec_checked_add_def try_add_def require_same_currency_def)
    then have "try_fold (cohort_step X) a ls \<noteq> Panic" for a ls
      by (intro try_fold_never_panics [where P = "\<lambda>_. True"]) auto
    then show ?thesis
      using that by (auto simp: cohort_of_def sum_optional_money_def opt and_then_eq_Panic)
  qed
  have map: "try_map f xs \<noteq> Panic" if "\<forall>x \<in> set xs. f x \<noteq> Panic" for f and xs :: "(trade_date \<times> lot list) list"
    using that by (induction xs) (auto simp: and_then_eq_Panic)
  have "\<forall>x \<in> set g. snd x \<noteq> []" if "try_fold group_step [] (il_lots e) = Ok g" for g
    using group_step_Ok [OF that] bt.get_entries [of g] by (force split: list.splits)
  then have "try_map (cohort_of X) g \<noteq> Panic" if "try_fold group_step [] (il_lots e) = Ok g" for g
    using that one by (intro map) blast
  moreover have "try_fold group_step [] (il_lots e) \<noteq> Panic"
    by (rule try_fold_never_panics [where P = "\<lambda>_. True"]) (auto simp: group_step_def and_then_eq_Panic)
  ultimately have "cohorts X e \<noteq> Panic" by (auto simp: cohorts_def and_then_eq_Panic)
  then show ?thesis using Panic by simp
qed simp

end
