(* ===== verification/Income.thy ===== *)
theory Income
  imports Lots Validation
begin

text \<open>
  The income ledger, \<open>projection/income.rs\<close>: for each account and instrument the coupons,
  principal repayments and offer settlements received, with the day of payment, and the
  reason why the list may be incomplete. The theorems say that the ledger is the list of the
  receipts of the replayed events in replay order, and that every receipt of a validated
  event is money one of its legs posted.
\<close>

section \<open>Data\<close>

text \<open>The kinds of \<open>rules/cashflow.rs\<close>; the prefix keeps them apart from the income kinds.\<close>

datatype posting_kind = PCoupon | PPrincipalReturn | POfferSettlement

record received_posting =
  rp_event :: event_id
  rp_date :: date
  rp_amount :: money
  rp_kind :: posting_kind

datatype income_gap = IncomeKindNotStated | PaymentDateUnknown

datatype income_error = IncomeMoney money_error

record income_entry =
  ie_postings :: "received_posting list"
  ie_gap :: "income_gap option"

record income_ledger =
  in_entries :: "(lot_key, income_entry) btree"

definition income_entry_default :: income_entry where
  "income_entry_default = \<lparr>ie_postings = [], ie_gap = None\<rparr>"

definition income_ledger_new :: income_ledger where
  "income_ledger_new = \<lparr>in_entries = []\<rparr>"

section \<open>Operations\<close>

definition income_postings :: "income_ledger \<Rightarrow> lot_key \<Rightarrow> received_posting list" where
  "income_postings led k = (case bt_get (in_entries led) k of None \<Rightarrow> [] | Some entry \<Rightarrow> ie_postings entry)"

definition income_gap_of :: "income_ledger \<Rightarrow> lot_key \<Rightarrow> income_gap option" where
  "income_gap_of led k = (case bt_get (in_entries led) k of None \<Rightarrow> None | Some entry \<Rightarrow> ie_gap entry)"

definition income_is_empty :: "income_ledger \<Rightarrow> bool" where
  "income_is_empty led \<longleftrightarrow> in_entries led = []"

definition payment_date :: "event \<Rightarrow> date option" where
  "payment_date e = or_else (ed_cash_posted (e_dates e)) (ed_paid (e_dates e))"

definition income_record :: "income_ledger \<Rightarrow> lot_key \<Rightarrow> received_posting \<Rightarrow> income_ledger" where
  "income_record led k p =
     led\<lparr>in_entries := bt_upsert k income_entry_default
           (\<lambda>entry. entry\<lparr>ie_postings := ie_postings entry @ [p]\<rparr>) (in_entries led)\<rparr>"

definition income_mark :: "income_ledger \<Rightarrow> lot_key \<Rightarrow> income_gap \<Rightarrow> income_ledger" where
  "income_mark led k gap =
     led\<lparr>in_entries := bt_upsert k income_entry_default
           (\<lambda>entry. if ie_gap entry = None then entry\<lparr>ie_gap := Some gap\<rparr> else entry) (in_entries led)\<rparr>"

definition income_apply_corporate_action :: "income_ledger \<Rightarrow> event \<Rightarrow> corporate_action \<Rightarrow> income_ledger" where
  "income_apply_corporate_action led e action =
     (let received = (case action of
            PartialRedemption instrument _ _ _ compensation _ _ _ _ \<Rightarrow> Some (instrument, compensation)
          | Redemption instrument _ _ _ compensation _ _ _ \<Rightarrow> Some (instrument, compensation)
          | Conversion _ _ _ _ _ _ _ _ _ _ _ _ \<Rightarrow> None) in
      case received of
        None \<Rightarrow> led
      | Some (instrument, compensation) \<Rightarrow>
          let key = LotKey (e_account e) instrument in
          (case payment_date e of
             None \<Rightarrow> income_mark led key PaymentDateUnknown
           | Some d \<Rightarrow> income_record led key
               \<lparr>rp_event = e_id e, rp_date = d, rp_amount = compensation, rp_kind = PPrincipalReturn\<rparr>))"

definition income_apply_offer_exercise :: "income_ledger \<Rightarrow> event \<Rightarrow> offer_exercise_action
    \<Rightarrow> (income_ledger, income_error) result" where
  "income_apply_offer_exercise led e action = (case action of
     Submitted _ _ _ _ \<Rightarrow> Ok led
   | Cancelled _ _ \<Rightarrow> Ok led
   | Settled _ instrument _ _ gross fee accrued_interest \<Rightarrow>
       let key = LotKey (e_account e) instrument in
       (case payment_date e of
          None \<Rightarrow> Ok (income_mark led key PaymentDateUnknown)
        | Some d \<Rightarrow>
            and_then (case accrued_interest of
                Some interest \<Rightarrow> map_err IncomeMoney (try_add gross interest) | None \<Rightarrow> Ok gross) (\<lambda>amount.
            and_then (case fee of
                Some f \<Rightarrow> map_err IncomeMoney (try_sub amount f) | None \<Rightarrow> Ok amount) (\<lambda>amount.
            Ok (income_record led key
              \<lparr>rp_event = e_id e, rp_date = d, rp_amount = amount, rp_kind = POfferSettlement\<rparr>)))))"

definition income_apply_income :: "income_ledger \<Rightarrow> event \<Rightarrow> lot_key \<Rightarrow> money \<Rightarrow> income_kind option \<Rightarrow> income_ledger" where
  "income_apply_income led e key amount kind = (case kind of
     Some Coupon \<Rightarrow> (case payment_date e of
         None \<Rightarrow> income_mark led key PaymentDateUnknown
       | Some d \<Rightarrow> income_record led key
           \<lparr>rp_event = e_id e, rp_date = d, rp_amount = amount, rp_kind = PCoupon\<rparr>)
   | Some Dividend \<Rightarrow> led
   | Some DepositInterest \<Rightarrow> led
   | None \<Rightarrow> income_mark led key IncomeKindNotStated)"

definition income_apply :: "income_ledger \<Rightarrow> event \<Rightarrow> (income_ledger, income_error) result" where
  "income_apply led e = (case e_kind e of
     Income (Some instrument) gross kind \<Rightarrow>
       Ok (income_apply_income led e (LotKey (e_account e) instrument) gross kind)
   | CorporateAction action \<Rightarrow> Ok (income_apply_corporate_action led e action)
   | OfferExercise action \<Rightarrow> income_apply_offer_exercise led e action
   | _ \<Rightarrow> Ok led)"

section \<open>What one event contributes\<close>

text \<open>
  The receipt an event reports, read off its kind alone: the entry it belongs to, the amount
  and the kind of payment; or a payment whose kind nobody stated.
\<close>

datatype receipt = NoReceipt | Receipt instrument_id money posting_kind | KindUnknown instrument_id

definition signed_part :: "money option \<Rightarrow> int" where
  "signed_part m = (case m of None \<Rightarrow> 0 | Some x \<Rightarrow> m_amount x)"

fun receipt_of :: "event_kind \<Rightarrow> receipt" where
  "receipt_of (Income (Some i) gross (Some Coupon)) = Receipt i gross PCoupon"
| "receipt_of (Income (Some i) gross None) = KindUnknown i"
| "receipt_of (CorporateAction (PartialRedemption i _ _ _ m _ _ _ _)) = Receipt i m PPrincipalReturn"
| "receipt_of (CorporateAction (Redemption i _ _ _ m _ _ _)) = Receipt i m PPrincipalReturn"
| "receipt_of (OfferExercise (Settled _ i _ _ gross fee ai)) =
     Receipt i (money_new (m_amount gross + signed_part ai - signed_part fee) (m_currency gross)) POfferSettlement"
| "receipt_of _ = NoReceipt"

definition posting_under :: "lot_key \<Rightarrow> event \<Rightarrow> received_posting option" where
  "posting_under k e = (case (receipt_of (e_kind e), payment_date e) of
     (Receipt i m kind, Some d) \<Rightarrow>
       if k = LotKey (e_account e) i
       then Some \<lparr>rp_event = e_id e, rp_date = d, rp_amount = m, rp_kind = kind\<rparr> else None
   | _ \<Rightarrow> None)"

definition gap_under :: "lot_key \<Rightarrow> event \<Rightarrow> income_gap option" where
  "gap_under k e = (case receipt_of (e_kind e) of
     Receipt i m kind \<Rightarrow>
       if k = LotKey (e_account e) i \<and> payment_date e = None then Some PaymentDateUnknown else None
   | KindUnknown i \<Rightarrow> if k = LotKey (e_account e) i then Some IncomeKindNotStated else None
   | NoReceipt \<Rightarrow> None)"

lemma or_else_None_right [simp]: "or_else a None = a"
  by (cases a) auto

lemma income_record_lookup [simp]:
  "income_postings (income_record led k p) j = income_postings led j @ (if j = k then [p] else [])"
  "income_gap_of (income_record led k p) j = income_gap_of led j"
  by (auto simp: income_postings_def income_gap_of_def income_record_def income_entry_default_def
      split: option.split)

lemma income_mark_lookup [simp]:
  "income_postings (income_mark led k g) j = income_postings led j"
  "income_gap_of (income_mark led k g) j = or_else (income_gap_of led j) (if j = k then Some g else None)"
  by (auto simp: income_postings_def income_gap_of_def income_mark_def income_entry_default_def
      split: option.split)

lemma settled_amount:
  assumes "and_then (case ai of Some i \<Rightarrow> map_err IncomeMoney (try_add gross i) | None \<Rightarrow> Ok gross)
      (\<lambda>a. and_then (case fee of Some f \<Rightarrow> map_err IncomeMoney (try_sub a f) | None \<Rightarrow> Ok a) g) = Ok r"
  shows "g (money_new (m_amount gross + signed_part ai - signed_part fee) (m_currency gross)) = Ok r"
proof -
  obtain a b where a: "(case ai of Some i \<Rightarrow> map_err IncomeMoney (try_add gross i) | None \<Rightarrow> Ok gross) = Ok a"
    and b: "(case fee of Some f \<Rightarrow> map_err IncomeMoney (try_sub a f) | None \<Rightarrow> Ok a) = Ok b" and r: "g b = Ok r"
    using assms by auto
  have "a = money_new (m_amount gross + signed_part ai) (m_currency gross)"
    using a by (cases ai) (auto simp: signed_part_def try_add_Ok money_new_def)
  moreover have "b = money_new (m_amount a - signed_part fee) (m_currency a)"
    using b by (cases fee) (auto simp: signed_part_def try_sub_Ok money_new_def)
  ultimately show ?thesis using r by (simp add: money_new_def)
qed

lemma income_apply_lookup:
  assumes "income_apply led e = Ok led'"
  shows "income_postings led' k = income_postings led k @ (case posting_under k e of None \<Rightarrow> [] | Some p \<Rightarrow> [p])"
    and "income_gap_of led' k = or_else (income_gap_of led k) (gap_under k e)"
proof -
  have "income_postings led' k = income_postings led k @ (case posting_under k e of None \<Rightarrow> [] | Some p \<Rightarrow> [p]) \<and>
        income_gap_of led' k = or_else (income_gap_of led k) (gap_under k e)"
  proof (cases "e_kind e")
    case (Income i gross kind)
    then show ?thesis
      using assms by (auto simp: income_apply_def income_apply_income_def posting_under_def gap_under_def
          split: option.splits income_kind.splits)
  next
    case (CorporateAction action)
    then show ?thesis
      using assms by (cases action) (auto simp: income_apply_def income_apply_corporate_action_def
          posting_under_def gap_under_def Let_def split: option.splits)
  next
    case (OfferExercise action)
    show ?thesis
    proof (cases action)
      case (Settled s i c q gross fee ai)
      note kind = OfferExercise Settled
      show ?thesis
      proof (cases "payment_date e")
        case None
        then show ?thesis
          using assms kind by (auto simp: income_apply_def income_apply_offer_exercise_def posting_under_def gap_under_def)
      next
        case (Some d)
        have "led' = income_record led (LotKey (e_account e) i)
          \<lparr>rp_event = e_id e, rp_date = d,
           rp_amount = money_new (m_amount gross + signed_part ai - signed_part fee) (m_currency gross),
           rp_kind = POfferSettlement\<rparr>"
          using settled_amount [OF assms [unfolded income_apply_def income_apply_offer_exercise_def kind event_kind.case
              offer_exercise_action.case Let_def Some option.case]] by simp
        then show ?thesis using Some kind by (simp add: posting_under_def gap_under_def)
      qed
    qed (use assms OfferExercise in \<open>auto simp: income_apply_def income_apply_offer_exercise_def
          posting_under_def gap_under_def\<close>)
  qed (use assms in \<open>auto simp: income_apply_def posting_under_def gap_under_def\<close>)
  then show "income_postings led' k = income_postings led k @ (case posting_under k e of None \<Rightarrow> [] | Some p \<Rightarrow> [p])"
    "income_gap_of led' k = or_else (income_gap_of led k) (gap_under k e)" by blast+
qed

section \<open>The ledger of a replay\<close>

fun first_gap :: "lot_key \<Rightarrow> event list \<Rightarrow> income_gap option" where
  "first_gap k [] = None"
| "first_gap k (e # es) = or_else (gap_under k e) (first_gap k es)"

lemma or_else_assoc: "or_else (or_else a b) c = or_else a (or_else b c)"
  by (cases a) auto

lemma income_fold_lookup:
  assumes "try_fold income_apply led es = Ok led'"
  shows "income_postings led' k = income_postings led k @ List.map_filter (posting_under k) es \<and>
         income_gap_of led' k = or_else (income_gap_of led k) (first_gap k es)"
  using assms
proof (induction es arbitrary: led)
  case (Cons e es)
  then obtain led1 where step: "income_apply led e = Ok led1" and rest: "try_fold income_apply led1 es = Ok led'"
    by auto
  show ?case
    using Cons.IH [OF rest] income_apply_lookup [OF step, of k]
    by (simp add: List.map_filter_simps or_else_assoc split: option.split)
qed (simp add: List.map_filter_simps)

lemma matched_leg:
  assumes "expect_legs X e name expected = Ok ()" "x \<in> set expected"
  obtains l where "l \<in> set (e_legs e)" "matches X l x"
proof -
  from assms(1) obtain legs' where legs': "mset legs' = mset (e_legs e)" "list_all2 (matches X) legs' expected"
    by (auto simp: expect_legs_Ok)
  from assms(2) obtain i where "i < length expected" "expected ! i = x" by (auto simp: in_set_conv_nth)
  then have "legs' ! i \<in> set legs'" "matches X (legs' ! i) x"
    using legs'(2) by (auto simp: list_all2_conv_all_nth)
  then show ?thesis using that legs'(1) mset_eq_setD by metis
qed

lemma matched_money:
  assumes "matches X l x" "x_money x = Some m" "x_kind x \<noteq> LSecurityQuantity"
  shows "leg_cash_effect l = Some m \<and> l_account l = x_account x"
  using assms by (auto simp: matches_iff leg_cash_effect_def not_differs_Some split: leg_kind.split)

text \<open>A validated event that reports a receipt has a leg that posted it.\<close>

lemma receipt_posted:
  assumes "validate_structure X e = Ok ()" "receipt_of (e_kind e) = Receipt i m kind"
  shows "\<exists>l \<in> set (e_legs e). leg_cash_effect l = Some m"
proof (cases "e_kind e")
  case (Income j gross k)
  then have "m = gross" using assms(2) by (cases "(Income j gross k)" rule: receipt_of.cases) auto
  moreover obtain l where "cash_legs e = [l]" "l_money l = Some gross"
    using assms(1) Income by (auto simp: validate_structure_def Let_def expect_single_cash_Ok)
  moreover from this have "l \<in> set (e_legs e)" "l_kind l = LCash"
    by (auto simp: cash_legs_def legs_of_kind_def filter_eq_Cons_iff)
  ultimately show ?thesis by (auto simp: leg_cash_effect_def intro!: bexI [of _ l])
next
  case (CorporateAction action)
  have "\<exists>name xs. expect_legs X e name (x_principal_leg (e_account e) i m # xs) = Ok ()"
    using assms CorporateAction by (cases action) (auto simp: validate_structure_def Let_def)
  then obtain l where "l \<in> set (e_legs e)" "matches X l (x_principal_leg (e_account e) i m)"
    by (auto elim: matched_leg)
  then show ?thesis using matched_money by (fastforce simp: x_principal_leg_def)
next
  case (OfferExercise action)
  obtain s c q gross fee ai where action: "action = Settled s i c q gross fee ai"
    and m: "m = money_new (m_amount gross + signed_part ai - signed_part fee) (m_currency gross)"
    using assms(2) OfferExercise by (cases action) auto
  obtain name xs t where t: "trade_settlement Sell gross fee ai = Ok t"
    and x: "expect_legs X e name (x_cash_leg (e_account e) t # xs) = Ok ()"
    using assms(1) OfferExercise action by (auto simp: validate_structure_def validate_offer_exercise_def Let_def)
  have "t = m"
    using trade_settlement_Ok [OF t] by (auto simp: m settlement_total_def signed_part_def Let_def split: option.split)
  moreover from x obtain l where "l \<in> set (e_legs e)" "matches X l (x_cash_leg (e_account e) t)"
    by (auto elim: matched_leg)
  ultimately show ?thesis using matched_money by (fastforce simp: x_cash_leg_def)
qed (use assms in auto)

text \<open>
  The income ledger of a replay is complete and in order: under each account and
  instrument it lists exactly one posting for every replayed coupon, redemption and settled
  offer whose payment day is known, in replay order, and it reports the first gap, if any, of
  those it could not list.
\<close>

lemma income_ledger_lists_receipts:
  assumes "try_fold income_apply income_ledger_new es = Ok led"
  shows "income_postings led k = List.map_filter (posting_under k) es \<and> income_gap_of led k = first_gap k es"
  using income_fold_lookup [OF assms, of k]
  by (simp add: income_ledger_new_def income_postings_def income_gap_of_def)

definition sample_coupon :: event where
  "sample_coupon = (sample_of (Income (Some (InstrumentId 7)) (money_new 500 Rub) (Some Coupon))
     [leg_cash (AccountId 1) (money_new 500 Rub)])\<lparr>e_dates := dates_for_cash 100\<rparr>"

lemma sample_coupon_ledger:
  "try_fold income_apply income_ledger_new [sample_coupon] =
     Ok (income_record income_ledger_new (LotKey (AccountId 1) (InstrumentId 7))
       \<lparr>rp_event = e_id sample_coupon, rp_date = 100, rp_amount = money_new 500 Rub, rp_kind = PCoupon\<rparr>)"
  by (simp add: sample_coupon_def sample_of_def income_apply_def income_apply_income_def payment_date_def
      dates_for_cash_def)

text \<open>
  Every posting of the income ledger is money that was really posted: when the replayed
  events are structurally valid, the posting's event is one of them, belongs to the entry's
  account, and one of its legs carries exactly the recorded amount.
\<close>

lemma recorded_income_was_posted:
  assumes "try_fold income_apply income_ledger_new es = Ok led"
    and "\<forall>e \<in> set es. validate_structure X e = Ok ()"
    and "p \<in> set (income_postings led k)"
  shows "\<exists>e \<in> set es. rp_event p = e_id e \<and> e_account e = lk_account k \<and> payment_date e = Some (rp_date p) \<and>
           (\<exists>l \<in> set (e_legs e). leg_cash_effect l = Some (rp_amount p))"
proof -
  have "p \<in> set (List.map_filter (posting_under k) es)"
    using income_fold_lookup [OF assms(1), of k] assms(3)
    by (simp add: income_ledger_new_def income_postings_def)
  then obtain e where e: "e \<in> set es" "posting_under k e = Some p"
    by (auto simp: List.map_filter_def)
  then obtain i kind where r: "receipt_of (e_kind e) = Receipt i (rp_amount p) kind"
    and rest: "rp_event p = e_id e" "payment_date e = Some (rp_date p)" "k = LotKey (e_account e) i"
    by (auto simp: posting_under_def split: receipt.splits option.splits if_splits)
  show ?thesis using e(1) rest receipt_posted [OF _ r] assms(2) by (intro bexI [of _ e]) auto
qed

end
