(* ===== verification/Prices.thy ===== *)
theory Prices
  imports Validation OrderedMap
begin

text \<open>
  Observed prices and exchange rates, \<open>valuation.rs\<close>: the price board the projection builds
  from \<open>Valuation\<close> events, the lookup of the last price known on a day, the exchange-rate
  table and the conversion of a posted amount. The theorem says what the board answers in
  terms of the replayed events.
\<close>

section \<open>The price board\<close>

fun price_quality_code :: "price_quality \<Rightarrow> string" where
  "price_quality_code Executable = ''executable''"
| "price_quality_code PreviousClose = ''previous_close''"
| "price_quality_code CarriedForward = ''carried_forward''"
| "price_quality_code Stale = ''stale''"
| "price_quality_code OwnerEstimate = ''owner_estimate''"

record instrument_price =
  ip_instrument :: instrument_id
  ip_price :: decimal
  ip_currency :: currency_code
  ip_quality :: price_quality
  ip_as_of :: date

record price_board =
  pb_prices :: "(instrument_id, (date, instrument_price) btree) btree"

definition price_board_new :: price_board where
  "price_board_new = \<lparr>pb_prices = []\<rparr>"

definition board_record :: "price_board \<Rightarrow> instrument_price \<Rightarrow> price_board" where
  "board_record b p = b\<lparr>pb_prices := bt_upsert (ip_instrument p) [] (bt_insert (ip_as_of p) p) (pb_prices b)\<rparr>"

definition board_observe :: "price_board \<Rightarrow> event \<Rightarrow> price_board" where
  "board_observe b e = (case e_kind e of
     Valuation instrument price currency quality \<Rightarrow>
       (case effective_date (e_dates e) of
          None \<Rightarrow> b
        | Some as_of \<Rightarrow> board_record b
            \<lparr>ip_instrument = instrument, ip_price = price, ip_currency = currency, ip_quality = quality,
             ip_as_of = as_of\<rparr>)
   | _ \<Rightarrow> b)"

definition price_at_or_before :: "price_board \<Rightarrow> instrument_id \<Rightarrow> date \<Rightarrow> instrument_price option" where
  "price_at_or_before b instrument as_of = (case bt_get (pb_prices b) instrument of
     None \<Rightarrow> None
   | Some prices \<Rightarrow> map_option snd (bt_last_upto prices as_of))"

definition observations_at_or_before :: "price_board \<Rightarrow> instrument_id \<Rightarrow> date \<Rightarrow> instrument_price list" where
  "observations_at_or_before b instrument as_of = (case bt_get (pb_prices b) instrument of
     None \<Rightarrow> []
   | Some prices \<Rightarrow> map snd (rev (filter (\<lambda>e. fst e \<le> as_of) prices)))"

definition board_iter :: "price_board \<Rightarrow> (instrument_id \<times> instrument_price) list" where
  "board_iter b = List.map_filter
     (\<lambda>(instrument, prices). case prices of [] \<Rightarrow> None | _ \<Rightarrow> Some (instrument, snd (last prices))) (pb_prices b)"

definition board_len :: "price_board \<Rightarrow> nat" where
  "board_len b = length (pb_prices b)"

definition board_is_empty :: "price_board \<Rightarrow> bool" where
  "board_is_empty b \<longleftrightarrow> pb_prices b = []"

section \<open>Exchange rates\<close>

datatype fx_source = CbrOfficial | OwnerSupplied

fun fx_source_code :: "fx_source \<Rightarrow> string" where
  "fx_source_code CbrOfficial = ''cbr_official''"
| "fx_source_code OwnerSupplied = ''owner_supplied''"

record fx_table =
  fx_source_of :: fx_source
  fx_rates :: "(currency_code \<times> currency_code \<times> date, decimal) btree"

definition fx_new :: "fx_source \<Rightarrow> fx_table" where
  "fx_new s = \<lparr>fx_source_of = s, fx_rates = []\<rparr>"

definition fx_with_rate :: "fx_table \<Rightarrow> currency_code \<Rightarrow> currency_code \<Rightarrow> date \<Rightarrow> decimal \<Rightarrow> fx_table" where
  "fx_with_rate t from to d rate = t\<lparr>fx_rates := bt_insert (from, to, d) rate (fx_rates t)\<rparr>"

definition fx_rate :: "fx_table \<Rightarrow> currency_code \<Rightarrow> currency_code \<Rightarrow> date \<Rightarrow> decimal option" where
  "fx_rate t from to d = (if from = to then Some dec_one else bt_get (fx_rates t) (from, to, d))"

datatype valuation_error =
    MissingPrice instrument_id
  | MissingFxRate currency_code currency_code date
  | ValuationNumeric numeric_error

fun valuation_error_code :: "valuation_error \<Rightarrow> string" where
  "valuation_error_code (MissingPrice _) = ''missing_price''"
| "valuation_error_code (MissingFxRate _ _ _) = ''missing_fx_rate''"
| "valuation_error_code (ValuationNumeric _) = ''numeric''"

definition fx_convert :: "deps \<Rightarrow> money \<Rightarrow> currency_code \<Rightarrow> date \<Rightarrow> fx_table \<Rightarrow> (decimal, valuation_error) result" where
  "fx_convert X amount to d fx =
     and_then (ok_or (fx_rate fx (m_currency amount) to d) (MissingFxRate (m_currency amount) to d)) (\<lambda>rate.
     map_err ValuationNumeric (dec_checked_mul X (to_calc_dec X amount) rate))"

section \<open>What the board knows\<close>

text \<open>The price an event observes, and the last of them in replay order for one day.\<close>

definition observed_price :: "event \<Rightarrow> instrument_price option" where
  "observed_price e = (case (e_kind e, effective_date (e_dates e)) of
     (Valuation i p c q, Some d) \<Rightarrow>
       Some \<lparr>ip_instrument = i, ip_price = p, ip_currency = c, ip_quality = q, ip_as_of = d\<rparr>
   | _ \<Rightarrow> None)"

definition observed_on :: "instrument_id \<Rightarrow> date \<Rightarrow> event list \<Rightarrow> instrument_price list" where
  "observed_on i d es = filter (\<lambda>p. ip_instrument p = i \<and> ip_as_of p = d) (List.map_filter observed_price es)"

definition board_lookup :: "price_board \<Rightarrow> instrument_id \<Rightarrow> date \<Rightarrow> instrument_price option" where
  "board_lookup b i d = (case bt_get (pb_prices b) i of None \<Rightarrow> None | Some prices \<Rightarrow> bt_get prices d)"

definition board_ok :: "price_board \<Rightarrow> bool" where
  "board_ok b \<longleftrightarrow> bt_invar (pb_prices b) \<and>
     (\<forall>i prices. bt_get (pb_prices b) i = Some prices \<longrightarrow> prices \<noteq> [] \<and> bt_invar prices)"

lemma board_observe_cases:
  "board_observe b e = (case observed_price e of None \<Rightarrow> b | Some p \<Rightarrow> board_record b p)"
  by (auto simp: board_observe_def observed_price_def split: event_kind.split option.split)

lemma bt_insert_not_Nil [simp]: "bt_insert k v m \<noteq> []"
proof (induction m)
  case (Cons e m)
  then show ?case by (cases e) simp
qed simp

lemma board_record_ok: "board_ok b \<Longrightarrow> board_ok (board_record b p)"
  by (auto simp: board_ok_def board_record_def split: option.split)

lemma board_record_lookup [simp]:
  "board_lookup (board_record b p) i d =
     (if ip_instrument p = i \<and> ip_as_of p = d then Some p else board_lookup b i d)"
  by (auto simp: board_lookup_def board_record_def split: option.split)

lemma board_observe_ok: "board_ok b \<Longrightarrow> board_ok (board_observe b e)"
  by (simp add: board_observe_cases board_record_ok split: option.split)

lemma board_new_ok [simp]: "board_ok price_board_new"
  by (simp add: board_ok_def price_board_new_def)

lemma foldl_board_ok: "board_ok b \<Longrightarrow> board_ok (foldl board_observe b es)"
  by (induction es arbitrary: b) (auto intro: board_observe_ok)

lemma observed_on_simps [simp]:
  "observed_on i d [] = []"
  "observed_on i d (es @ [e]) = observed_on i d es @ observed_on i d [e]"
  by (simp_all add: observed_on_def List.map_filter_def)

lemma foldl_board_lookup:
  "board_lookup (foldl board_observe price_board_new es) i d =
     (if observed_on i d es = [] then None else Some (last (observed_on i d es)))"
proof (induction es rule: rev_induct)
  case Nil
  then show ?case by (simp add: board_lookup_def price_board_new_def)
next
  case (snoc e es)
  show ?case
  proof (cases "observed_price e")
    case None
    then show ?thesis
      using snoc by (simp add: board_observe_cases observed_on_def [of _ _ "[e]"] List.map_filter_simps)
  next
    case (Some p)
    then show ?thesis
      using snoc by (auto simp: board_observe_cases observed_on_def [of _ _ "[e]"] List.map_filter_simps)
  qed
qed

lemma price_at_or_before_lookup:
  assumes "board_ok b"
  shows "price_at_or_before b i d = Some p \<longleftrightarrow>
     (\<exists>j \<le> d. board_lookup b i j = Some p \<and> (\<forall>n w. board_lookup b i n = Some w \<longrightarrow> n \<le> d \<longrightarrow> n \<le> j))"
proof (cases "bt_get (pb_prices b) i")
  case None
  then show ?thesis by (simp add: price_at_or_before_def board_lookup_def)
next
  case (Some prices)
  then have "bt_invar prices" using assms by (auto simp: board_ok_def)
  note last = bt_last_upto_Some [OF this]
  show ?thesis
    using Some last [of d _ p] by (auto simp: price_at_or_before_def board_lookup_def)
qed

text \<open>
  The price asked for a day is the latest observed one: it is the last price replayed
  for the greatest day, not after the day asked, on which a valuation of the instrument was
  observed; and no price is answered exactly when there is no such day.
\<close>

lemma price_is_latest_observation:
  "case price_at_or_before (foldl board_observe price_board_new es) i d of
     Some p \<Rightarrow> ip_instrument p = i \<and> ip_as_of p \<le> d \<and>
       observed_on i (ip_as_of p) es \<noteq> [] \<and> last (observed_on i (ip_as_of p) es) = p \<and>
       (\<forall>n. n > ip_as_of p \<and> n \<le> d \<longrightarrow> observed_on i n es = [])
   | None \<Rightarrow> \<not> (\<exists>n \<le> d. observed_on i n es \<noteq> [])"
proof -
  let ?b = "foldl board_observe price_board_new es"
  have ok: "board_ok ?b" by (rule foldl_board_ok) simp
  have lk: "board_lookup ?b i n = Some w \<longleftrightarrow> observed_on i n es \<noteq> [] \<and> last (observed_on i n es) = w" for n w
    by (simp add: foldl_board_lookup)
  have stamp: "ip_instrument w = i \<and> ip_as_of w = n" if "observed_on i n es \<noteq> []" "last (observed_on i n es) = w" for n w
    using last_in_set [OF that(1)] that(2) by (auto simp: observed_on_def)
  show ?thesis
  proof (cases "price_at_or_before ?b i d")
    case (Some p)
    then obtain j where j: "j \<le> d" "observed_on i j es \<noteq> []" "last (observed_on i j es) = p"
      and top: "\<forall>n w. board_lookup ?b i n = Some w \<longrightarrow> n \<le> d \<longrightarrow> n \<le> j"
      using price_at_or_before_lookup [OF ok] by (auto simp: lk)
    have st: "ip_instrument p = i" "ip_as_of p = j" using stamp [OF j(2,3)] by auto
    have "observed_on i n es = []" if "n > j" "n \<le> d" for n
    proof (rule ccontr)
      assume "observed_on i n es \<noteq> []"
      then have "board_lookup ?b i n = Some (last (observed_on i n es))" by (simp add: lk)
      then show False using top that by fastforce
    qed
    then show ?thesis using Some j st by simp
  next
    case None
    have False if ex: "n \<le> d" "observed_on i n es \<noteq> []" for n
    proof -
      define D where "D = {m. m \<le> d \<and> observed_on i m es \<noteq> []}"
      have "D \<subseteq> ip_as_of ` set (List.map_filter observed_price es)"
        by (auto simp: D_def observed_on_def filter_empty_conv)
      then have fin: "finite D" using finite_surj by blast
      have "n \<in> D" using ex by (simp add: D_def)
      then have m: "Max D \<in> D" using fin Max_in by blast
      then have "board_lookup ?b i (Max D) = Some (last (observed_on i (Max D) es))" by (simp add: lk D_def)
      moreover have "\<forall>n w. board_lookup ?b i n = Some w \<longrightarrow> n \<le> d \<longrightarrow> n \<le> Max D"
        using fin by (auto simp: lk D_def)
      ultimately have "price_at_or_before ?b i d = Some (last (observed_on i (Max D) es))"
        using price_at_or_before_lookup [OF ok] m by (auto simp: D_def)
      then show False using None by simp
    qed
    then show ?thesis using None by auto
  qed
qed

definition sample_valuation :: "decimal \<Rightarrow> date \<Rightarrow> event" where
  "sample_valuation price d =
     (sample_of (Valuation (InstrumentId 7) price Rub Executable) [])\<lparr>e_dates := dates_for_cash d\<rparr>"

end
