(* ===== verification/Ledger.thy ===== *)
theory Ledger
  imports Income Prices Balances
begin

text \<open>
  The state of the ledger projection, \<open>projection/state.rs\<close>: the read models side by side,
  the coverage they were built from, the fingerprint of a state and the digest of a list of
  events. Serialisation (\<open>ciborium\<close>) and \<open>SHA-256\<close> (\<open>sha2\<close>) are parameters, the record
  \<open>hashing\<close>; what the digest needs of them is named in \<open>delimits\<close> and \<open>separates\<close>.
\<close>

section \<open>Coverage\<close>

record coverage =
  cov_events_applied :: nat
  cov_first_event_by_account :: "(account_id, date) btree"
  cov_first_event :: "date option"
  cov_last_event :: "date option"
  cov_restored_accounts :: "account_id set"
  cov_estimated_events :: nat

definition coverage_new :: coverage where
  "coverage_new = \<lparr>cov_events_applied = 0, cov_first_event_by_account = [], cov_first_event = None,
     cov_last_event = None, cov_restored_accounts = {}, cov_estimated_events = 0\<rparr>"

definition first_event_for :: "coverage \<Rightarrow> account_id \<Rightarrow> date option" where
  "first_event_for c a = bt_get (cov_first_event_by_account c) a"

text \<open>The dated part of \<open>observe\<close>.\<close>

definition coverage_observe_date :: "coverage \<Rightarrow> account_id \<Rightarrow> date \<Rightarrow> coverage" where
  "coverage_observe_date c a d =
     c\<lparr>cov_first_event := Some (case cov_first_event c of Some existing \<Rightarrow> min existing d | None \<Rightarrow> d),
       cov_first_event_by_account := bt_insert a
         (case bt_get (cov_first_event_by_account c) a of Some existing \<Rightarrow> min existing d | None \<Rightarrow> d)
         (cov_first_event_by_account c),
       cov_last_event := Some (case cov_last_event c of Some existing \<Rightarrow> max existing d | None \<Rightarrow> d)\<rparr>"

definition coverage_observe :: "coverage \<Rightarrow> event \<Rightarrow> coverage" where
  "coverage_observe c e =
     (let c0 = c\<lparr>cov_events_applied := cov_events_applied c + 1\<rparr>;
          c1 = (case effective_date (e_dates e) of
                  Some d \<Rightarrow> coverage_observe_date c0 (e_account e) d | None \<Rightarrow> c0);
          c2 = (case e_confidence e of
                  Known \<Rightarrow> c1 | _ \<Rightarrow> c1\<lparr>cov_estimated_events := cov_estimated_events c1 + 1\<rparr>) in
      case e_kind e of
        OpeningCash _ \<Rightarrow> c2\<lparr>cov_restored_accounts := insert (e_account e) (cov_restored_accounts c2)\<rparr>
      | OpeningPosition _ _ _ _ \<Rightarrow> c2\<lparr>cov_restored_accounts := insert (e_account e) (cov_restored_accounts c2)\<rparr>
      | _ \<Rightarrow> c2)"

section \<open>The state\<close>

record ledger_state =
  ls_balances :: balances
  ls_book :: lot_book
  ls_flows :: flow_log
  ls_income :: income_ledger
  ls_prices :: price_board
  ls_coverage :: coverage

definition ledger_state_new :: "lot_book \<Rightarrow> ledger_state" where
  "ledger_state_new book =
     \<lparr>ls_balances = balances_new, ls_book = book, ls_flows = flow_log_new, ls_income = income_ledger_new,
      ls_prices = price_board_new, ls_coverage = coverage_new\<rparr>"

definition state_observe :: "ledger_state \<Rightarrow> event \<Rightarrow> ledger_state" where
  "state_observe st e = st\<lparr>ls_coverage := coverage_observe (ls_coverage st) e\<rparr>"

section \<open>Fingerprint and digest\<close>

type_synonym byte = "8 word"
type_synonym state_hash = "byte list"

record hashing =
  h_sha256 :: "byte list \<Rightarrow> byte list"
  h_cbor_state :: "ledger_state \<Rightarrow> byte list option"
  h_cbor_event :: "event \<Rightarrow> byte list option"
  h_ordinal :: "date \<Rightarrow> nat"

text \<open>The bytes of an ASCII literal, and \<open>to_be_bytes\<close> of an integer \<open>w\<close> bytes wide.\<close>

definition ascii_bytes :: "string \<Rightarrow> byte list" where
  "ascii_bytes = map (\<lambda>c. word_of_nat (of_char c))"

definition be_bytes :: "nat \<Rightarrow> int \<Rightarrow> byte list" where
  "be_bytes w n = map (\<lambda>i. word_of_int (n div 256 ^ i)) (rev [0..<w])"

definition uuid_bytes :: "uuid \<Rightarrow> byte list" where
  "uuid_bytes u = be_bytes 16 (uint u)"

text \<open>
  \<open>None\<close> in the definitions below is a serialiser that fails, on which the code panics.
\<close>

definition state_fingerprint :: "hashing \<Rightarrow> ledger_state \<Rightarrow> state_hash option" where
  "state_fingerprint H st =
     map_option (\<lambda>body. h_sha256 H (ascii_bytes ''iaam/ledger-state/v2'' @ body)) (h_cbor_state H st)"

definition feed_date :: "deps \<Rightarrow> hashing \<Rightarrow> date \<Rightarrow> byte list" where
  "feed_date X H d = be_bytes 4 (t_year X d) @ be_bytes 2 (int (h_ordinal H d))"

definition event_bytes :: "deps \<Rightarrow> hashing \<Rightarrow> event \<Rightarrow> byte list option" where
  "event_bytes X H e =
     map_option (\<lambda>body. uuid_bytes (event_uuid (e_id e)) @ feed_date X H (eo_date (e_order e)) @
       be_bytes 4 (int (eo_sequence (e_order e))) @ body) (h_cbor_event H e)"

text \<open>\<open>u64::try_from(len).unwrap_or(u64::MAX)\<close>.\<close>

definition length_bytes :: "'a list \<Rightarrow> byte list" where
  "length_bytes xs = be_bytes 8 (int (if length xs < 2 ^ 64 then length xs else 2 ^ 64 - 1))"

definition prefix_message :: "deps \<Rightarrow> hashing \<Rightarrow> event list \<Rightarrow> byte list option" where
  "prefix_message X H events =
     map_option (\<lambda>parts. ascii_bytes ''iaam/journal-prefix/v3'' @ length_bytes events @ concat parts)
       (those (map (event_bytes X H) events))"

definition prefix_digest :: "deps \<Rightarrow> hashing \<Rightarrow> event list \<Rightarrow> state_hash option" where
  "prefix_digest X H events = map_option (h_sha256 H) (prefix_message X H events)"

section \<open>What the digest identifies\<close>

text \<open>
  A CBOR item is self-delimiting: no encoding is a proper prefix of another. On the events of
  a journal the encoding is moreover lossless.
\<close>

definition delimits :: "hashing \<Rightarrow> event set \<Rightarrow> bool" where
  "delimits H E \<longleftrightarrow> (\<forall>e \<in> E. \<forall>f \<in> E. \<forall>b c r s.
     h_cbor_event H e = Some b \<longrightarrow> h_cbor_event H f = Some c \<longrightarrow> b @ r = c @ s \<longrightarrow> e = f)"

text \<open>The hash separates the messages of the duplicate-free lists of events of a journal.\<close>

definition separates :: "deps \<Rightarrow> hashing \<Rightarrow> event set \<Rightarrow> bool" where
  "separates X H E \<longleftrightarrow> (\<forall>es fs m n. distinct es \<longrightarrow> distinct fs \<longrightarrow> set es \<subseteq> E \<longrightarrow> set fs \<subseteq> E \<longrightarrow>
     prefix_message X H es = Some m \<longrightarrow> prefix_message X H fs = Some n \<longrightarrow> h_sha256 H m = h_sha256 H n \<longrightarrow> m = n)"

lemma those_map_Some: "those (map f xs) = Some ys \<longleftrightarrow> list_all2 (\<lambda>x y. f x = Some y) xs ys"
  by (induction xs arbitrary: ys) (auto simp: list_all2_Cons1 split: option.split)

lemma length_be_bytes [simp]: "length (be_bytes w n) = w"
  by (simp add: be_bytes_def)

lemma length_fields [simp]: "length (uuid_bytes u) = 16" "length (feed_date X H d) = 6" "length (length_bytes xs) = 8"
  by (simp_all add: uuid_bytes_def feed_date_def length_bytes_def)

lemma event_bytes_Some:
  "event_bytes X H e = Some b \<longleftrightarrow> (\<exists>body. h_cbor_event H e = Some body \<and>
     b = uuid_bytes (event_uuid (e_id e)) @ feed_date X H (eo_date (e_order e)) @
         be_bytes 4 (int (eo_sequence (e_order e))) @ body)"
  by (auto simp: event_bytes_def)

lemma event_bytes_delimited:
  assumes "delimits H E" "e \<in> E" "f \<in> E"
    and "event_bytes X H e = Some b" "event_bytes X H f = Some c" "b @ r = c @ s"
  shows "e = f"
proof -
  obtain p body where p: "h_cbor_event H e = Some body" "b = p @ body" "length p = 26"
    using assms(4) by (auto simp: event_bytes_Some simp flip: append_assoc)
  obtain q cody where q: "h_cbor_event H f = Some cody" "c = q @ cody" "length q = 26"
    using assms(5) by (auto simp: event_bytes_Some simp flip: append_assoc)
  have "body @ r = cody @ s"
    using assms(6) p q by (simp add: append_eq_append_conv)
  then show ?thesis using assms(1-3) p(1) q(1) unfolding delimits_def by blast
qed

lemma event_bytes_not_Nil [simp]: "event_bytes X H e \<noteq> Some []"
proof
  assume "event_bytes X H e = Some []"
  then have "length (uuid_bytes (event_uuid (e_id e))) = 0" unfolding event_bytes_Some by auto
  then show False by simp
qed

lemma concat_events_inject:
  assumes "delimits H E" "set es \<subseteq> E" "set fs \<subseteq> E"
    and "list_all2 (\<lambda>e b. event_bytes X H e = Some b) es bs"
    and "list_all2 (\<lambda>e b. event_bytes X H e = Some b) fs cs"
    and "concat bs = concat cs"
  shows "es = fs"
  using assms
proof (induction es arbitrary: fs bs cs)
  case Nil
  then show ?case by (cases fs; cases cs) auto
next
  case (Cons e es)
  then obtain b bs' where b: "bs = b # bs'" "event_bytes X H e = Some b"
    "list_all2 (\<lambda>e b. event_bytes X H e = Some b) es bs'" by (auto simp: list_all2_Cons1)
  have "fs \<noteq> []" using Cons.prems(5,6) b by auto
  then obtain f fs' where f: "fs = f # fs'" by (cases fs) auto
  then obtain c cs' where c: "cs = c # cs'" "event_bytes X H f = Some c"
    "list_all2 (\<lambda>e b. event_bytes X H e = Some b) fs' cs'" using Cons.prems(5) by (auto simp: list_all2_Cons1)
  have same: "e = f"
    using event_bytes_delimited [OF Cons.prems(1) _ _ b(2) c(2), of "concat bs'" "concat cs'"] Cons.prems(2,3,6) b c f
    by simp
  then have "concat bs' = concat cs'" using Cons.prems(6) b c by simp
  then have "es = fs'" using Cons.IH [of fs' bs' cs'] Cons.prems(1-3) b(3) c(3) f by simp
  then show ?case using same f by simp
qed

lemma prefix_message_inject:
  assumes "delimits H E" "set es \<subseteq> E" "set fs \<subseteq> E"
    and "prefix_message X H es = Some m" "prefix_message X H fs = Some m"
  shows "es = fs"
proof -
  obtain bs where bs: "list_all2 (\<lambda>e b. event_bytes X H e = Some b) es bs"
    "m = ascii_bytes ''iaam/journal-prefix/v3'' @ length_bytes es @ concat bs"
    using assms(4) by (auto simp: prefix_message_def those_map_Some)
  obtain cs where cs: "list_all2 (\<lambda>e b. event_bytes X H e = Some b) fs cs"
    "m = ascii_bytes ''iaam/journal-prefix/v3'' @ length_bytes fs @ concat cs"
    using assms(5) by (auto simp: prefix_message_def those_map_Some)
  have "concat bs = concat cs" using bs(2) cs(2) by (simp add: append_eq_append_conv)
  then show ?thesis by (rule concat_events_inject [OF assms(1-3) bs(1) cs(1)])
qed

lemma prefix_digest_inject:
  assumes "delimits H E" "separates X H E" "distinct es" "distinct fs" "set es \<subseteq> E" "set fs \<subseteq> E"
    and "prefix_digest X H es = Some h" "prefix_digest X H fs = Some h"
  shows "es = fs"
proof -
  obtain m where m: "prefix_message X H es = Some m" "h_sha256 H m = h"
    using assms(7) by (auto simp: prefix_digest_def)
  obtain n where n: "prefix_message X H fs = Some n" "h_sha256 H n = h"
    using assms(8) by (auto simp: prefix_digest_def)
  have "m = n" using assms(2-6) m n unfolding separates_def by metis
  then show ?thesis using prefix_message_inject [OF assms(1,5,6) m(1)] n(1) by simp
qed

section \<open>What the coverage says\<close>

definition dates_of :: "event list \<Rightarrow> date list" where
  "dates_of es = List.map_filter (\<lambda>e. effective_date (e_dates e)) es"

definition earliest :: "date list \<Rightarrow> date option" where
  "earliest ds = (if ds = [] then None else Some (Min (set ds)))"

definition latest :: "date list \<Rightarrow> date option" where
  "latest ds = (if ds = [] then None else Some (Max (set ds)))"

fun restores :: "event_kind \<Rightarrow> bool" where
  "restores (OpeningCash _) = True"
| "restores (OpeningPosition _ _ _ _) = True"
| "restores _ = False"

lemma dates_of_simps [simp]:
  "dates_of [] = []"
  "dates_of (es @ [e]) = dates_of es @ (case effective_date (e_dates e) of None \<Rightarrow> [] | Some d \<Rightarrow> [d])"
  by (simp_all add: dates_of_def List.map_filter_def split: option.split)

lemma earliest_snoc [simp]:
  "earliest [] = None"
  "earliest (ds @ [d]) = Some (case earliest ds of Some x \<Rightarrow> min x d | None \<Rightarrow> d)"
  by (auto simp: earliest_def min.commute)

lemma latest_snoc [simp]:
  "latest [] = None"
  "latest (ds @ [d]) = Some (case latest ds of Some x \<Rightarrow> max x d | None \<Rightarrow> d)"
  by (auto simp: latest_def max.commute)

lemma coverage_observe_fields:
  "cov_events_applied (coverage_observe c e) = cov_events_applied c + 1"
  "cov_estimated_events (coverage_observe c e) = cov_estimated_events c + (if e_confidence e = Known then 0 else 1)"
  "cov_restored_accounts (coverage_observe c e) =
     cov_restored_accounts c \<union> (if restores (e_kind e) then {e_account e} else {})"
  "cov_first_event (coverage_observe c e) = (case effective_date (e_dates e) of
     None \<Rightarrow> cov_first_event c
   | Some d \<Rightarrow> Some (case cov_first_event c of Some x \<Rightarrow> min x d | None \<Rightarrow> d))"
  "cov_last_event (coverage_observe c e) = (case effective_date (e_dates e) of
     None \<Rightarrow> cov_last_event c
   | Some d \<Rightarrow> Some (case cov_last_event c of Some x \<Rightarrow> max x d | None \<Rightarrow> d))"
  "first_event_for (coverage_observe c e) a = (case effective_date (e_dates e) of
     None \<Rightarrow> first_event_for c a
   | Some d \<Rightarrow> if e_account e = a
               then Some (case first_event_for c a of Some x \<Rightarrow> min x d | None \<Rightarrow> d) else first_event_for c a)"
  by (auto simp: coverage_observe_def coverage_observe_date_def first_event_for_def Let_def
      split: option.split event_kind.split confidence.split)

text \<open>
  The coverage of a replay is what was replayed: the number of events and of uncertain
  ones, the earliest and the latest effective date, per account too, and the accounts that
  were restored by an opening event.
\<close>

lemma coverage_describes_replay:
  "let c = foldl coverage_observe coverage_new es in
     cov_events_applied c = length es \<and>
     cov_estimated_events c = length (filter (\<lambda>e. e_confidence e \<noteq> Known) es) \<and>
     cov_first_event c = earliest (dates_of es) \<and> cov_last_event c = latest (dates_of es) \<and>
     first_event_for c a = earliest (dates_of (filter (\<lambda>e. e_account e = a) es)) \<and>
     cov_restored_accounts c = e_account ` {e \<in> set es. restores (e_kind e)}"
proof (induction es rule: rev_induct)
  case Nil
  then show ?case by (simp add: coverage_new_def first_event_for_def)
next
  case (snoc e es)
  have "e_account ` {x \<in> set (es @ [e]). restores (e_kind x)} =
      e_account ` {x \<in> set es. restores (e_kind x)} \<union> (if restores (e_kind e) then {e_account e} else {})"
    by auto
  then show ?case
    using snoc.IH by (simp add: Let_def coverage_observe_fields split: option.split)
qed

end
