(* ===== verification/Invariants.thy ===== *)
theory Invariants
  imports Ledger
begin

text \<open>
  The checks that guard every projection, \<open>projection/invariants.rs\<close>: every replayed event
  is structurally valid, the lots of each account and instrument add up to its position, the
  basis of each entry is conserved, and no external flow is zero. The addition of the
  remaining and the released basis is not checked in the source; the model panics where it
  would leave 64 bits. The lemmas say what a passed check guarantees and which of the checks
  can fail at all on a book that conserves its basis.
\<close>

section \<open>Definitions\<close>

datatype checked_invariant =
    CheckedEventStructure nat
  | CheckedLotsMatchPositions nat
  | CheckedBasisConserved nat
  | CheckedFlowsNonZero nat

datatype invariant_violation =
    EventStructure event_id validation_error
  | LotsDoNotMatchPosition lot_key string string
  | BasisNotConserved lot_key int int int
  | ZeroExternalFlow event_id
  | InvariantNumeric numeric_error

fun invariant_violation_code :: "invariant_violation \<Rightarrow> string" where
  "invariant_violation_code (EventStructure _ _) = ''event_structure''"
| "invariant_violation_code (LotsDoNotMatchPosition _ _ _) = ''lots_do_not_match_position''"
| "invariant_violation_code (BasisNotConserved _ _ _ _) = ''basis_not_conserved''"
| "invariant_violation_code (ZeroExternalFlow _) = ''zero_external_flow''"
| "invariant_violation_code (InvariantNumeric _) = ''numeric''"

record invariant_report =
  ir_checked :: "checked_invariant list"

definition check_event :: "deps \<Rightarrow> event \<Rightarrow> (unit, invariant_violation) result" where
  "check_event X e = map_err (EventStructure (e_id e)) (validate_structure X e)"

definition position_of :: "ledger_state \<Rightarrow> lot_key \<Rightarrow> quantity" where
  "position_of st k = (case balances_position (ls_balances st) (PositionKey (lk_account k) (lk_instrument k)) of
     None \<Rightarrow> quantity_zero | Some q \<Rightarrow> q)"

definition checked_keys :: "ledger_state \<Rightarrow> lot_key list" where
  "checked_keys st = sorted_list_of_set
     (set (map fst (lb_entries (ls_book st)) @
           map (\<lambda>(k, _). LotKey (pk_account k) (pk_instrument k)) (bal_positions (ls_balances st))))"

definition check_basis :: "lot_key \<Rightarrow> instrument_lots \<Rightarrow> money \<Rightarrow> (unit, invariant_violation) result" where
  "check_basis key entry acquired =
     and_then (map_err (\<lambda>_. BasisNotConserved key (m_amount acquired) 0 0) (remaining_basis entry)) (\<lambda>r.
     let remaining = (case r of Some m \<Rightarrow> m | None \<Rightarrow> money_zero (m_currency acquired));
         released = (case il_released_basis entry of Some m \<Rightarrow> m | None \<Rightarrow> money_zero (m_currency acquired)) in
     and_then (expect (to_i64 (m_amount remaining + m_amount released))) (\<lambda>sum.
     ensure (sum = m_amount acquired)
       (BasisNotConserved key (m_amount acquired) (m_amount remaining) (m_amount released))))"

definition check_key :: "deps \<Rightarrow> ledger_state \<Rightarrow> nat \<times> nat \<Rightarrow> lot_key \<Rightarrow> (nat \<times> nat, invariant_violation) result" where
  "check_key X st counts key =
     (let entry = bt_get (lb_entries (ls_book st)) key; position = position_of st key in
      and_then (case entry of
          Some e \<Rightarrow> map_err InvariantNumeric (entry_quantity X e) | None \<Rightarrow> Ok quantity_zero) (\<lambda>lots.
      if \<not> d_eq X lots position
      then Err (LotsDoNotMatchPosition key (d_to_string X lots) (d_to_string X position))
      else (case entry of
              None \<Rightarrow> Ok (fst counts + 1, snd counts)
            | Some e \<Rightarrow> (case il_acquired_basis e of
                  None \<Rightarrow> Ok (fst counts + 1, snd counts)
                | Some acquired \<Rightarrow> and_then (check_basis key e acquired) (\<lambda>_.
                    Ok (fst counts + 1, snd counts + 1))))))"

definition check_flow :: "external_flow \<Rightarrow> (unit, invariant_violation) result" where
  "check_flow f = ensure (\<not> money_is_zero (xf_amount f)) (ZeroExternalFlow (xf_event f))"

definition check_invariants :: "deps \<Rightarrow> ledger_state \<Rightarrow> event list \<Rightarrow> (invariant_report, invariant_violation) result" where
  "check_invariants X st events =
     and_then (try_map (check_event X) events) (\<lambda>_.
     and_then (try_fold (check_key X st) (0, 0) (checked_keys st)) (\<lambda>(pairs, basis_pairs).
     and_then (try_map check_flow (fl_external (ls_flows st))) (\<lambda>_.
     Ok \<lparr>ir_checked = [CheckedEventStructure (length events), CheckedLotsMatchPositions pairs,
           CheckedBasisConserved basis_pairs, CheckedFlowsNonZero (length (fl_external (ls_flows st)))]\<rparr>)))"

section \<open>What a passed check guarantees\<close>

definition lots_match :: "deps \<Rightarrow> ledger_state \<Rightarrow> lot_key \<Rightarrow> bool" where
  "lots_match X st k \<longleftrightarrow> (case bt_get (lb_entries (ls_book st)) k of
     None \<Rightarrow> d_eq X quantity_zero (position_of st k)
   | Some e \<Rightarrow> (\<exists>q. entry_quantity X e = Ok q \<and> d_eq X q (position_of st k)))"

lemma try_fold_each:
  assumes "try_fold f s xs = Ok t" "\<And>u x v. f u x = Ok v \<Longrightarrow> P x"
  shows "\<forall>x \<in> set xs. P x"
  using assms by (induction xs arbitrary: s) auto

lemma check_key_Ok: "check_key X st c k = Ok c' \<Longrightarrow> lots_match X st k"
  by (auto simp: check_key_def lots_match_def Let_def split: option.splits if_splits)

lemma try_map_each: "try_map f xs = Ok ys \<Longrightarrow> \<forall>x \<in> set xs. \<exists>y. f x = Ok y"
  unfolding try_map_Ok_iff by (induction rule: list_all2_induct) auto

lemma check_invariants_Ok:
  assumes "check_invariants X st events = Ok rep"
  shows "(\<forall>e \<in> set events. validate_structure X e = Ok ()) \<and> (\<forall>k \<in> set (checked_keys st). lots_match X st k) \<and>
     (\<forall>f \<in> set (fl_external (ls_flows st)). m_amount (xf_amount f) \<noteq> 0)"
proof -
  obtain us cs vs where u: "try_map (check_event X) events = Ok us"
    and c: "try_fold (check_key X st) (0, 0) (checked_keys st) = Ok cs"
    and v: "try_map check_flow (fl_external (ls_flows st)) = Ok vs"
    using assms by (auto simp: check_invariants_def split: prod.splits)
  have "\<forall>e \<in> set events. validate_structure X e = Ok ()"
    using try_map_each [OF u] by (simp add: check_event_def)
  moreover have "\<forall>k \<in> set (checked_keys st). lots_match X st k"
    using c by (rule try_fold_each) (rule check_key_Ok)
  moreover have "\<forall>f \<in> set (fl_external (ls_flows st)). m_amount (xf_amount f) \<noteq> 0"
    using try_map_each [OF v] by (simp add: check_flow_def money_is_zero_def)
  ultimately show ?thesis by blast
qed

lemma checked_keys_set:
  assumes "bt_invar (lb_entries (ls_book st))" "bt_invar (bal_positions (ls_balances st))"
  shows "k \<in> set (checked_keys st) \<longleftrightarrow> bt_get (lb_entries (ls_book st)) k \<noteq> None \<or>
     balances_position (ls_balances st) (PositionKey (lk_account k) (lk_instrument k)) \<noteq> None"
proof -
  have a: "k \<in> fst ` set (lb_entries (ls_book st)) \<longleftrightarrow> bt_get (lb_entries (ls_book st)) k \<noteq> None"
    using bt.set_keys [OF assms(1)] by auto
  have "k \<in> (\<lambda>(k, _). LotKey (pk_account k) (pk_instrument k)) ` set (bal_positions (ls_balances st)) \<longleftrightarrow>
      PositionKey (lk_account k) (lk_instrument k) \<in> fst ` set (bal_positions (ls_balances st))"
    by (cases k) (force simp: image_iff)
  also have "\<dots> \<longleftrightarrow> balances_position (ls_balances st) (PositionKey (lk_account k) (lk_instrument k)) \<noteq> None"
    using bt.set_keys [OF assms(2)] by (auto simp: balances_position_def)
  finally show ?thesis using a by (auto simp: checked_keys_def)
qed

section \<open>Which checks can fail\<close>

lemma entry_quantity_no_panic [simp]: "entry_quantity X e \<noteq> Panic"
  unfolding entry_quantity_def
  by (rule try_fold_never_panics [where P = "\<lambda>_. True"]) (auto simp: dec_checked_add_def)

text \<open>On an entry that conserves its basis, the check fails only where the sum overflows.\<close>

lemma check_basis_conserving:
  assumes "entry_ok e" "il_acquired_basis e = Some a" "i64 (m_amount a)"
  shows "check_basis k e a =
     (if prefixes_i64 0 (map (\<lambda>l. m_amount (lot_cost_basis l)) (il_lots e)) then Ok ()
      else Err (BasisNotConserved k (m_amount a) 0 0))"
proof -
  have cur: "\<forall>l \<in> set (il_lots e). m_currency (lot_cost_basis l) = m_currency a"
    and bal: "m_amount a = slot_amount (il_released_basis e) + lots_basis (il_lots e)"
    using assms(1,2) by (auto simp: entry_ok_def basis_ok_def lots_basis_map)
  have rel: "m_amount (case il_released_basis e of Some m \<Rightarrow> m | None \<Rightarrow> money_zero (m_currency a)) =
      slot_amount (il_released_basis e)"
    by (simp add: slot_amount_def split: option.split)
  show ?thesis
  proof (cases "il_lots e")
    case Nil
    then show ?thesis using bal assms(3) rel by (simp add: check_basis_def remaining_basis_def Let_def)
  next
    case (Cons l ls)
    let ?ms = "map lot_cost_basis (il_lots e)"
    have r: "remaining_basis e = map_ok Some (money_sum ?ms (m_currency a))"
      using cur Cons by (simp add: remaining_basis_def)
    have pre: "map m_amount ?ms = map (\<lambda>l. m_amount (lot_cost_basis l)) (il_lots e)" by (simp add: comp_def)
    show ?thesis
    proof (cases "prefixes_i64 0 (map m_amount ?ms)")
      case True
      then have "money_sum ?ms (m_currency a) = Ok \<lparr>m_amount = lots_basis (il_lots e), m_currency = m_currency a\<rparr>"
        unfolding money_sum_Ok using cur by (auto simp: lots_basis_map)
      then show ?thesis
        using True [unfolded pre] bal assms(3) rel
        by (simp add: check_basis_def r Let_def add.commute del: money_sum_Ok map_map)
    next
      case False
      then have "money_sum ?ms (m_currency a) \<noteq> Ok m" for m unfolding money_sum_Ok by blast
      then obtain x where "money_sum ?ms (m_currency a) = Err x"
        using money_sum_no_panic by (cases "money_sum ?ms (m_currency a)") blast+
      then show ?thesis using False [unfolded pre] by (simp add: check_basis_def r del: map_map)
    qed
  qed
qed

definition basis_in_range :: "lot_book \<Rightarrow> bool" where
  "basis_in_range b \<longleftrightarrow> (\<forall>k e a. bt_get (lb_entries b) k = Some e \<longrightarrow> il_acquired_basis e = Some a \<longrightarrow> i64 (m_amount a))"

lemma check_key_conserving:
  assumes "lot_book_ok (ls_book st)" "basis_in_range (ls_book st)"
  shows "check_key X st c k \<noteq> Panic \<and> check_key X st c k \<noteq> Err (ZeroExternalFlow i) \<and>
     (check_key X st c k = Err (BasisNotConserved j a r f) \<longrightarrow>
        (\<exists>e. bt_get (lb_entries (ls_book st)) j = Some e \<and>
             \<not> prefixes_i64 0 (map (\<lambda>l. m_amount (lot_cost_basis l)) (il_lots e))))"
proof (cases "bt_get (lb_entries (ls_book st)) k")
  case None
  then show ?thesis by (simp add: check_key_def Let_def)
next
  case (Some e)
  have eok: "entry_ok e" using assms(1) Some by (auto simp: lot_book_ok_def)
  show ?thesis
  proof (cases "il_acquired_basis e")
    case None
    then show ?thesis
      using Some by (auto simp: check_key_def Let_def and_then_eq_Panic and_then_eq_Err map_err_eq_Err)
  next
    case (Some a')
    then have "i64 (m_amount a')"
      using assms(2) \<open>bt_get (lb_entries (ls_book st)) k = Some e\<close> by (auto simp: basis_in_range_def)
    note basis = check_basis_conserving [OF eok Some this]
    show ?thesis
      using Some \<open>bt_get (lb_entries (ls_book st)) k = Some e\<close>
      by (auto simp: check_key_def Let_def and_then_eq_Panic and_then_eq_Err map_err_eq_Err basis split: if_splits)
  qed
qed

lemma try_fold_error:
  assumes "try_fold f s xs = Err x" shows "\<exists>u y. y \<in> set xs \<and> f u y = Err x"
  using assms by (induction xs arbitrary: s) (simp, fastforce simp: and_then_eq_Err)

lemma try_map_error: "try_map f xs = Err x \<Longrightarrow> \<exists>y \<in> set xs. f y = Err x"
  by (induction xs) (auto simp: and_then_eq_Err)

lemma try_map_no_panic: "(\<And>x. x \<in> set xs \<Longrightarrow> f x \<noteq> Panic) \<Longrightarrow> try_map f xs \<noteq> Panic"
  by (induction xs) (auto simp: and_then_eq_Panic)

lemma check_flow_Ok:
  assumes "flow_log_ok d fl" "f \<in> set (fl_external fl)"
  shows "check_flow f = Ok ()"
  using assms unfolding flow_log_ok_def list_all_iff
  by (cases "xf_direction f") (fastforce simp: check_flow_def money_is_zero_def flow_ok_def)+

lemma try_map_constant: "\<forall>x \<in> set xs. f x = Ok y \<Longrightarrow> try_map f xs = Ok (replicate (length xs) y)"
  by (induction xs) auto

lemma check_invariants_conserving:
  assumes "lot_book_ok (ls_book st)" "basis_in_range (ls_book st)" "flow_log_ok d (ls_flows st)"
  shows "check_invariants X st events \<noteq> Panic"
    and "check_invariants X st events \<noteq> Err (ZeroExternalFlow i)"
    and "check_invariants X st events = Err (BasisNotConserved k a r f) \<Longrightarrow>
       \<exists>e. bt_get (lb_entries (ls_book st)) k = Some e \<and>
           \<not> prefixes_i64 0 (map (\<lambda>l. m_amount (lot_cost_basis l)) (il_lots e))"
proof -
  have ev: "try_map (check_event X) events \<noteq> Panic"
    by (rule try_map_no_panic) (simp add: check_event_def)
  have ev_err: "try_map (check_event X) events = Err x \<Longrightarrow> \<exists>i y. x = EventStructure i y" for x
    using try_map_error by (fastforce simp: check_event_def map_err_eq_Err)
  have "check_flow fl = Ok ()" if "fl \<in> set (fl_external (ls_flows st))" for fl
    using assms(3) that by (rule check_flow_Ok)
  then have fl: "try_map check_flow (fl_external (ls_flows st)) \<noteq> Panic"
    "try_map check_flow (fl_external (ls_flows st)) \<noteq> Err x" for x
    using try_map_no_panic [of "fl_external (ls_flows st)" check_flow] try_map_error [of check_flow] by fastforce+
  have keys: "try_fold (check_key X st) c (checked_keys st) \<noteq> Panic" for c
    by (rule try_fold_never_panics [where P = "\<lambda>_. True"]) (use check_key_conserving [OF assms(1,2)] in auto)
  show "check_invariants X st events \<noteq> Panic"
    using ev keys fl by (auto simp: check_invariants_def and_then_eq_Panic split: prod.splits)
  show "check_invariants X st events \<noteq> Err (ZeroExternalFlow i)"
    using ev_err fl try_fold_error check_key_conserving [OF assms(1,2)]
    by (fastforce simp: check_invariants_def and_then_eq_Err split: prod.splits)
  show "\<exists>e. bt_get (lb_entries (ls_book st)) k = Some e \<and>
           \<not> prefixes_i64 0 (map (\<lambda>l. m_amount (lot_cost_basis l)) (il_lots e))"
    if "check_invariants X st events = Err (BasisNotConserved k a r f)"
  proof -
    have "try_fold (check_key X st) (0, 0) (checked_keys st) = Err (BasisNotConserved k a r f)"
      using that ev_err fl by (auto simp: check_invariants_def and_then_eq_Err split: prod.splits)
    then show ?thesis using try_fold_error check_key_conserving [OF assms(1,2)] by metis
  qed
qed

end
