(* ===== verification/Projection.thy ===== *)
theory Projection
  imports Invariants Correction
begin

text \<open>
  The ledger projection, \<open>projection/mod.rs\<close>: a journal is resolved to its effective events,
  which are replayed into the read models, checked and sealed in a snapshot; a later journal
  can be projected by advancing a snapshot, provided the events it was built from are still
  the beginning of the effective list. The theorems say that advancing is projecting, what a
  returned projection guarantees, and which checks of a projection can never fail.
\<close>

section \<open>Data\<close>

definition PROJECTION_VERSION :: nat where
  "PROJECTION_VERSION = 8"

record projection_context =
  pc_contour :: contour_definition
  pc_rules :: rule_registry
  pc_lot_rule :: lot_rule_version

datatype projection_error =
    SnapshotVersionMismatch nat nat
  | SnapshotFingerprintMismatch
  | SnapshotContourMismatch contour_id contour_version contour_id contour_version
  | SnapshotRuleMismatch lot_rule_version lot_rule_version
  | PrefixChanged state_hash state_hash
  | ProjCorrection correction_error
  | ProjBalance balance_error
  | ProjLot lot_error
  | ProjFlow flow_error
  | ProjIncome income_error
  | ProjInvariant invariant_violation

fun projection_error_code :: "projection_error \<Rightarrow> string" where
  "projection_error_code (SnapshotVersionMismatch _ _) = ''snapshot_version_mismatch''"
| "projection_error_code SnapshotFingerprintMismatch = ''snapshot_fingerprint_mismatch''"
| "projection_error_code (SnapshotContourMismatch _ _ _ _) = ''snapshot_contour_mismatch''"
| "projection_error_code (SnapshotRuleMismatch _ _) = ''snapshot_rule_mismatch''"
| "projection_error_code (PrefixChanged _ _) = ''prefix_changed''"
| "projection_error_code (ProjCorrection _) = ''correction''"
| "projection_error_code (ProjBalance _) = ''balance''"
| "projection_error_code (ProjLot _) = ''lot''"
| "projection_error_code (ProjFlow _) = ''flow''"
| "projection_error_code (ProjIncome _) = ''income''"
| "projection_error_code (ProjInvariant _) = ''invariant''"

fun is_invariant_violation :: "projection_error \<Rightarrow> bool" where
  "is_invariant_violation (ProjInvariant _) = True"
| "is_invariant_violation _ = False"

record snapshot =
  sn_projection_version :: nat
  sn_contour :: contour_id
  sn_contour_version :: contour_version
  sn_lot_rule :: lot_rule_version
  sn_through :: "effective_order option"
  sn_state :: ledger_state
  sn_fingerprint :: state_hash
  sn_prefix_digest :: state_hash

text \<open>The stored form of a snapshot, with the same fields in the open.\<close>

record snapshot_parts =
  sp_projection_version :: nat
  sp_contour :: contour_id
  sp_contour_version :: contour_version
  sp_lot_rule :: lot_rule_version
  sp_through :: "effective_order option"
  sp_state :: ledger_state
  sp_fingerprint :: state_hash
  sp_prefix_digest :: state_hash

definition snapshot_restore :: "snapshot_parts \<Rightarrow> snapshot" where
  "snapshot_restore parts =
     \<lparr>sn_projection_version = sp_projection_version parts, sn_contour = sp_contour parts,
      sn_contour_version = sp_contour_version parts, sn_lot_rule = sp_lot_rule parts, sn_through = sp_through parts,
      sn_state = sp_state parts, sn_fingerprint = sp_fingerprint parts, sn_prefix_digest = sp_prefix_digest parts\<rparr>"

definition snapshot_into_parts :: "snapshot \<Rightarrow> snapshot_parts" where
  "snapshot_into_parts s =
     \<lparr>sp_projection_version = sn_projection_version s, sp_contour = sn_contour s,
      sp_contour_version = sn_contour_version s, sp_lot_rule = sn_lot_rule s, sp_through = sn_through s,
      sp_state = sn_state s, sp_fingerprint = sn_fingerprint s, sp_prefix_digest = sn_prefix_digest s\<rparr>"

record projection =
  pr_snapshot :: snapshot
  pr_invariants :: invariant_report

section \<open>Operations\<close>

text \<open>The body of the replay loop.\<close>

definition ledger_apply :: "deps \<Rightarrow> projection_context \<Rightarrow> ledger_state \<Rightarrow> event \<Rightarrow> (ledger_state, projection_error) result" where
  "ledger_apply X ctx st e =
     and_then (map_err ProjBalance (balances_apply X (ls_balances st) e)) (\<lambda>b.
     and_then (map_err ProjLot (lot_book_apply X (pc_rules ctx) (ls_book st) e)) (\<lambda>book.
     and_then (map_err ProjFlow (flow_apply (pc_contour ctx) (ls_flows st) e)) (\<lambda>flows.
     and_then (map_err ProjIncome (income_apply (ls_income st) e)) (\<lambda>income.
     Ok (state_observe
       (st\<lparr>ls_balances := b, ls_book := book, ls_flows := flows, ls_income := income,
           ls_prices := board_observe (ls_prices st) e\<rparr>) e)))))"

definition fold_step :: "deps \<Rightarrow> projection_context \<Rightarrow> ledger_state \<times> effective_order option \<Rightarrow> event
    \<Rightarrow> (ledger_state \<times> effective_order option, projection_error) result" where
  "fold_step X ctx acc e = map_ok (\<lambda>st. (st, Some (e_order e))) (ledger_apply X ctx (fst acc) e)"

definition last_order :: "event list \<Rightarrow> effective_order option" where
  "last_order es = (if es = [] then None else Some (e_order (last es)))"

definition projection_fold :: "deps \<Rightarrow> hashing \<Rightarrow> projection_context \<Rightarrow> ledger_state \<Rightarrow> event list \<Rightarrow> event list
    \<Rightarrow> (projection, projection_error) result" where
  "projection_fold X H ctx st already_applied effective =
     and_then (try_fold (fold_step X ctx) (st, last_order already_applied) effective) (\<lambda>(st', through).
     let events = already_applied @ effective in
     and_then (map_err ProjInvariant (check_invariants X st' events)) (\<lambda>invariants.
     and_then (expect (state_fingerprint H st')) (\<lambda>fingerprint.
     and_then (expect (prefix_digest X H events)) (\<lambda>digest.
     Ok \<lparr>pr_snapshot =
           \<lparr>sn_projection_version = PROJECTION_VERSION, sn_contour = cd_id (pc_contour ctx),
            sn_contour_version = cd_version (pc_contour ctx), sn_lot_rule = pc_lot_rule ctx,
            sn_through = through, sn_state = st', sn_fingerprint = fingerprint, sn_prefix_digest = digest\<rparr>,
         pr_invariants = invariants\<rparr>))))"

definition project :: "deps \<Rightarrow> hashing \<Rightarrow> projection_context \<Rightarrow> event list \<Rightarrow> (projection, projection_error) result" where
  "project X H ctx events =
     (let st = ledger_state_new (lot_book_new (pc_lot_rule ctx)) in
      and_then (map_err ProjCorrection (resolve events)) (\<lambda>effective.
      projection_fold X H ctx st [] effective))"

definition check_snapshot :: "hashing \<Rightarrow> projection_context \<Rightarrow> snapshot \<Rightarrow> (unit, projection_error) result" where
  "check_snapshot H ctx previous =
     (if sn_projection_version previous \<noteq> PROJECTION_VERSION
      then Err (SnapshotVersionMismatch PROJECTION_VERSION (sn_projection_version previous))
      else if sn_contour previous \<noteq> cd_id (pc_contour ctx) \<or> sn_contour_version previous \<noteq> cd_version (pc_contour ctx)
      then Err (SnapshotContourMismatch (sn_contour previous) (sn_contour_version previous)
             (cd_id (pc_contour ctx)) (cd_version (pc_contour ctx)))
      else if sn_lot_rule previous \<noteq> pc_lot_rule ctx
      then Err (SnapshotRuleMismatch (sn_lot_rule previous) (pc_lot_rule ctx))
      else and_then (expect (state_fingerprint H (sn_state previous))) (\<lambda>fingerprint.
      ensure (fingerprint = sn_fingerprint previous) SnapshotFingerprintMismatch))"

definition split_point :: "snapshot \<Rightarrow> event list \<Rightarrow> nat" where
  "split_point previous effective = (case sn_through previous of
     None \<Rightarrow> 0
   | Some through \<Rightarrow> partition_point (\<lambda>e. order_cmp (e_order e) through \<noteq> Greater) effective)"

definition advance :: "deps \<Rightarrow> hashing \<Rightarrow> projection_context \<Rightarrow> snapshot \<Rightarrow> event list
    \<Rightarrow> (projection, projection_error) result" where
  "advance X H ctx previous events =
     and_then (check_snapshot H ctx previous) (\<lambda>_.
     and_then (map_err ProjCorrection (resolve events)) (\<lambda>effective.
     let split = split_point previous effective; prefix = take split effective; suffix = drop split effective in
     and_then (expect (prefix_digest X H prefix)) (\<lambda>found.
     if found \<noteq> sn_prefix_digest previous then Err (PrefixChanged (sn_prefix_digest previous) found)
     else projection_fold X H ctx (sn_state previous) prefix suffix)))"

section \<open>The replay as a fold of its read models\<close>

abbreviation new_state :: "projection_context \<Rightarrow> ledger_state" where
  "new_state ctx \<equiv> ledger_state_new (lot_book_new (pc_lot_rule ctx))"

lemma ledger_apply_Ok:
  "ledger_apply X ctx st e = Ok st' \<longleftrightarrow>
     balances_apply X (ls_balances st) e = Ok (ls_balances st') \<and>
     lot_book_apply X (pc_rules ctx) (ls_book st) e = Ok (ls_book st') \<and>
     flow_apply (pc_contour ctx) (ls_flows st) e = Ok (ls_flows st') \<and>
     income_apply (ls_income st) e = Ok (ls_income st') \<and>
     ls_prices st' = board_observe (ls_prices st) e \<and>
     ls_coverage st' = coverage_observe (ls_coverage st) e"
  by (cases st; cases st') (auto simp: ledger_apply_def state_observe_def)

lemma last_order_snoc [simp]: "last_order [] = None" "last_order (es @ [e]) = Some (e_order e)"
  by (simp_all add: last_order_def)

lemma map_ok_and_then: "map_ok g (and_then m f) = and_then m (\<lambda>x. map_ok g (f x))"
  by (cases m) auto

lemma and_then_map_ok: "and_then (map_ok g m) f = and_then m (\<lambda>x. f (g x))"
  by (cases m) auto

lemma fold_step_fold:
  "try_fold (fold_step X ctx) (st, last_order es0) es =
     map_ok (\<lambda>st'. (st', last_order (es0 @ es))) (try_fold (ledger_apply X ctx) st es)"
proof (induction es arbitrary: st es0)
  case (Cons e es)
  have "try_fold (fold_step X ctx) (st', Some (e_order e)) es =
      map_ok (\<lambda>st'. (st', last_order (es0 @ e # es))) (try_fold (ledger_apply X ctx) st' es)" for st'
    using Cons.IH [of st' "es0 @ [e]"] by simp
  then show ?case by (simp add: fold_step_def [of X ctx "(st, last_order es0)" e] and_then_map_ok map_ok_and_then)
qed simp

lemma replay_components:
  assumes "try_fold (ledger_apply X ctx) st es = Ok st'"
  shows "try_fold (balances_apply X) (ls_balances st) es = Ok (ls_balances st')"
    and "try_fold (lot_book_apply X (pc_rules ctx)) (ls_book st) es = Ok (ls_book st')"
    and "try_fold (flow_apply (pc_contour ctx)) (ls_flows st) es = Ok (ls_flows st')"
    and "try_fold income_apply (ls_income st) es = Ok (ls_income st')"
    and "ls_prices st' = foldl board_observe (ls_prices st) es"
    and "ls_coverage st' = foldl coverage_observe (ls_coverage st) es"
  using assms by (induction es arbitrary: st) (auto simp: ledger_apply_Ok)

lemma projection_fold_Ok:
  "projection_fold X H ctx st es0 es = Ok p \<longleftrightarrow>
     (\<exists>st' inv fp pd. try_fold (ledger_apply X ctx) st es = Ok st' \<and>
        check_invariants X st' (es0 @ es) = Ok inv \<and> state_fingerprint H st' = Some fp \<and>
        prefix_digest X H (es0 @ es) = Some pd \<and>
        p = \<lparr>pr_snapshot =
           \<lparr>sn_projection_version = PROJECTION_VERSION, sn_contour = cd_id (pc_contour ctx),
            sn_contour_version = cd_version (pc_contour ctx), sn_lot_rule = pc_lot_rule ctx,
            sn_through = last_order (es0 @ es), sn_state = st', sn_fingerprint = fp, sn_prefix_digest = pd\<rparr>,
         pr_invariants = inv\<rparr>)"
  by (auto simp: projection_fold_def Let_def fold_step_fold)

section \<open>Advancing is projecting\<close>

text \<open>The snapshot of a projection of exactly these effective events.\<close>

definition built_from :: "deps \<Rightarrow> hashing \<Rightarrow> projection_context \<Rightarrow> event list \<Rightarrow> snapshot \<Rightarrow> bool" where
  "built_from X H ctx es s \<longleftrightarrow> (\<exists>p. projection_fold X H ctx (new_state ctx) [] es = Ok p \<and> s = pr_snapshot p)"

lemma built_from_fields:
  assumes "built_from X H ctx es s"
  shows "sn_through s = last_order es" "prefix_digest X H es = Some (sn_prefix_digest s)"
    and "try_fold (ledger_apply X ctx) (new_state ctx) es = Ok (sn_state s)"
    and "check_snapshot H ctx s = Ok ()"
  using assms by (auto simp: built_from_def projection_fold_Ok check_snapshot_def)

lemma continued_fold:
  assumes "built_from X H ctx es s"
  shows "projection_fold X H ctx (sn_state s) es es' = projection_fold X H ctx (new_state ctx) [] (es @ es')"
proof -
  note st = built_from_fields(3) [OF assms]
  have "try_fold (fold_step X ctx) (new_state ctx, last_order []) (es @ es') =
      try_fold (fold_step X ctx) (sn_state s, last_order es) es'"
    unfolding fold_step_fold try_fold_append st by (simp add: fold_step_fold)
  then show ?thesis by (simp add: projection_fold_def)
qed

lemma advance_on_prefix:
  assumes "built_from X H ctx es s" "resolve events = Ok (es @ es')" "split_point s (es @ es') = length es"
  shows "advance X H ctx s events = project X H ctx events"
  using built_from_fields [OF assms(1)] assms(2,3)
  by (simp add: advance_def project_def Let_def continued_fold [OF assms(1)])

lemma split_point_append:
  assumes "sn_through s = last_order es"
    and "\<forall>e \<in> set es. order_cmp (e_order e) (e_order (last es)) \<noteq> Greater"
    and "\<forall>e \<in> set es'. order_cmp (e_order e) (e_order (last es)) = Greater"
  shows "split_point s (es @ es') = length es"
proof (cases "es = []")
  case True
  then show ?thesis using assms(1) by (simp add: split_point_def)
next
  case False
  then have "sn_through s = Some (e_order (last es))" using assms(1) by (simp add: last_order_def)
  then show ?thesis
    using partition_point_append [of es "\<lambda>e. order_cmp (e_order e) (e_order (last es)) \<noteq> Greater" es'] assms(2,3)
    by (simp add: split_point_def)
qed

text \<open>The snapshots a program can hold: those of projections and of advances from such a snapshot.\<close>

inductive derived :: "deps \<Rightarrow> hashing \<Rightarrow> projection_context \<Rightarrow> event set \<Rightarrow> snapshot \<Rightarrow> bool"
  for X H ctx E where
  derived_project: "project X H ctx events = Ok p \<Longrightarrow> set events \<subseteq> E \<Longrightarrow> derived X H ctx E (pr_snapshot p)"
| derived_advance: "derived X H ctx E s \<Longrightarrow> advance X H ctx s events = Ok p \<Longrightarrow> set events \<subseteq> E \<Longrightarrow>
    derived X H ctx E (pr_snapshot p)"

lemma resolved_list:
  assumes "resolve events = Ok es" "set events \<subseteq> E"
  shows "distinct es \<and> set es \<subseteq> E"
  using resolve_distinct_ids [OF assms(1)] resolve_members [OF assms(1)] assms(2) by (auto simp: distinct_map)

lemma advance_Ok_prefix:
  assumes "delimits H E" "separates X H E"
    and "built_from X H ctx es s" "distinct es" "set es \<subseteq> E"
    and "advance X H ctx s events = Ok p" "set events \<subseteq> E"
  obtains es' where "resolve events = Ok (es @ es')"
    "projection_fold X H ctx (new_state ctx) [] (es @ es') = Ok p"
proof -
  obtain eff where eff: "resolve events = Ok eff"
    and dig: "prefix_digest X H (take (split_point s eff) eff) = Some (sn_prefix_digest s)"
    and fold: "projection_fold X H ctx (sn_state s) (take (split_point s eff) eff) (drop (split_point s eff) eff) = Ok p"
    using assms(6) by (auto simp: advance_def Let_def split: if_splits)
  note eff_list = resolved_list [OF eff assms(7)]
  have "take (split_point s eff) eff = es"
    using prefix_digest_inject [OF assms(1,2) _ assms(4) _ assms(5) dig built_from_fields(2) [OF assms(3)]] eff_list
      set_take_subset by (metis distinct_take order_trans)
  then have "eff = es @ drop (split_point s eff) eff" "projection_fold X H ctx (sn_state s) es (drop (split_point s eff) eff) = Ok p"
    using fold by (metis append_take_drop_id)+
  then show ?thesis using that [of "drop (split_point s eff) eff"] eff continued_fold [OF assms(3)] by simp
qed

lemma derived_built_from:
  assumes "derived X H ctx E s" "delimits H E" "separates X H E"
  shows "\<exists>es. built_from X H ctx es s \<and> distinct es \<and> set es \<subseteq> E"
  using assms
proof (induction rule: derived.induct)
  case (derived_project events p)
  then obtain es where es: "resolve events = Ok es" "projection_fold X H ctx (new_state ctx) [] es = Ok p"
    by (auto simp: project_def Let_def)
  then show ?case using resolved_list [OF es(1) derived_project(2)] by (auto simp: built_from_def)
next
  case (derived_advance s events p)
  then obtain es where es: "built_from X H ctx es s" "distinct es" "set es \<subseteq> E" by blast
  from advance_Ok_prefix [OF derived_advance.prems es derived_advance.hyps(2,3)] obtain es'
    where r: "resolve events = Ok (es @ es')" "projection_fold X H ctx (new_state ctx) [] (es @ es') = Ok p" .
  then show ?case
    using resolved_list [OF r(1) derived_advance.hyps(3)] by (intro exI [of _ "es @ es'"]) (auto simp: built_from_def)
qed

text \<open>
  (C1) Advancing a snapshot never computes anything else than projecting the whole journal:
  whenever advancing a snapshot that a projection or a chain of advances produced succeeds,
  projecting the journal from scratch succeeds with the same projection, state, boundary,
  digest and report included. The encoding is assumed to delimit the held events and the hash
  to separate the messages built from them.
\<close>

theorem advance_equals_project:
  assumes "delimits H E" "separates X H E" "derived X H ctx E s" "set events \<subseteq> E"
    and "advance X H ctx s events = Ok p"
  shows "project X H ctx events = Ok p"
proof -
  obtain es where es: "built_from X H ctx es s" "distinct es" "set es \<subseteq> E"
    using derived_built_from [OF assms(3,1,2)] by blast
  from advance_Ok_prefix [OF assms(1,2) es assms(5,4)] obtain es' where
    "resolve events = Ok (es @ es')" "projection_fold X H ctx (new_state ctx) [] (es @ es') = Ok p" .
  then show ?thesis by (simp add: project_def Let_def)
qed

lemma snapshot_parts_inverse [simp]: "snapshot_restore (snapshot_into_parts s) = s"
  by (simp add: snapshot_restore_def snapshot_into_parts_def)

text \<open>
  (C7) A snapshot can be advanced: if the effective events it was built from are still the
  beginning of the effective list, none of them lies after its boundary and all others do,
  advancing it gives what projecting the journal gives, errors included.
\<close>

theorem kept_prefix_advances:
  assumes "built_from X H ctx es s" "resolve events = Ok (es @ es')"
    and "\<forall>e \<in> set es. order_cmp (e_order e) (e_order (last es)) \<noteq> Greater"
    and "\<forall>e \<in> set es'. order_cmp (e_order e) (e_order (last es)) = Greater"
  shows "advance X H ctx s events = project X H ctx events"
  by (rule advance_on_prefix [OF assms(1,2) split_point_append [OF built_from_fields(1) [OF assms(1)] assms(3,4)]])

section \<open>What a projection guarantees\<close>

lemma lot_book_new_start: "lot_book_new v = lot_book_start v default_amortisation_version settlement_policy_v1"
  by (simp add: lot_book_start_def lot_book_new_def with_settlement_lag_policy_def with_amortisation_version_def)

lemma replay_invariants:
  assumes "try_fold (ledger_apply X ctx) (new_state ctx) es = Ok st" "pc_rules ctx = with_defaults X"
  shows "balances_ok (ls_balances st)" "lot_book_ok (ls_book st)" "flow_log_ok (pc_contour ctx) (ls_flows st)"
  using replay_components [OF assms(1)] bal.inv_fold flow.inv_fold book.inv_fold
  by (auto simp: ledger_state_new_def assms(2) lot_book_new_start)

lemma project_Ok:
  "project X H ctx events = Ok p \<longleftrightarrow>
     (\<exists>es. resolve events = Ok es \<and> projection_fold X H ctx (new_state ctx) [] es = Ok p)"
  by (simp add: project_def Let_def)

text \<open>
  (C3) A returned projection is consistent: every event it replayed is structurally valid;
  wherever the lot book or the balances know an account and instrument, the quantity of the
  lots is the position; in every entry of the lot book the acquired basis is the released
  basis plus the basis of the open lots; and no recorded external flow is zero.
\<close>

theorem projection_is_consistent:
  assumes "project X H ctx events = Ok p" "pc_rules ctx = with_defaults X" "st = sn_state (pr_snapshot p)"
  shows "(\<exists>es. resolve events = Ok es \<and> (\<forall>e \<in> set es. validate_structure X e = Ok ())) \<and>
    (\<forall>k. bt_get (lb_entries (ls_book st)) k \<noteq> None \<or>
         balances_position (ls_balances st) (PositionKey (lk_account k) (lk_instrument k)) \<noteq> None \<longrightarrow>
         lots_match X st k) \<and>
    (\<forall>k e. bt_get (lb_entries (ls_book st)) k = Some e \<longrightarrow> entry_ok e) \<and>
    (\<forall>f \<in> set (fl_external (ls_flows st)). m_amount (xf_amount f) \<noteq> 0)"
proof -
  obtain es inv where es: "resolve events = Ok es" and st: "try_fold (ledger_apply X ctx) (new_state ctx) es = Ok st"
    and inv: "check_invariants X st es = Ok inv"
    using assms(1,3) by (auto simp: project_Ok projection_fold_Ok)
  note ok = replay_invariants [OF st assms(2)]
  note passed = check_invariants_Ok [OF inv]
  have keys: "k \<in> set (checked_keys st) \<longleftrightarrow> bt_get (lb_entries (ls_book st)) k \<noteq> None \<or>
      balances_position (ls_balances st) (PositionKey (lk_account k) (lk_instrument k)) \<noteq> None" for k
    using ok by (intro checked_keys_set) (auto simp: lot_book_ok_def balances_ok_def)
  have "\<forall>k e. bt_get (lb_entries (ls_book st)) k = Some e \<longrightarrow> entry_ok e"
    using ok(2) by (auto simp: lot_book_ok_def)
  then show ?thesis using es passed unfolding keys [symmetric] by blast
qed

text \<open>
  Under the default rules the guard against an unconserved basis never meets one: the
  checks of a replayed state do not panic, never report a zero flow, and report an
  unconserved basis only for an entry whose sum of open lots leaves 64 bits.
\<close>

lemma basis_guard_meets_only_overflow:
  assumes "try_fold (ledger_apply X ctx) (new_state ctx) es = Ok st" "pc_rules ctx = with_defaults X"
    and "basis_in_range (ls_book st)"
  shows "check_invariants X st events \<noteq> Panic \<and> check_invariants X st events \<noteq> Err (ZeroExternalFlow i) \<and>
    (check_invariants X st events = Err (BasisNotConserved k a r f) \<longrightarrow>
       (\<exists>e. bt_get (lb_entries (ls_book st)) k = Some e \<and>
            \<not> prefixes_i64 0 (map (\<lambda>l. m_amount (lot_cost_basis l)) (il_lots e))))"
  using check_invariants_conserving [OF replay_invariants(2) [OF assms(1,2)] assms(3) replay_invariants(3) [OF assms(1,2)]]
  by blast

text \<open>
  (C6) The cash of a projection is the cash the effective events posted: for every account
  and currency it is the sum of the cash effects of the legs of the events that stand, and
  absent exactly when none of them posted to it. The order in which the journal lists its
  events has no influence on the projection.
\<close>

theorem projection_cash_is_effective_cash:
  assumes "project X H ctx events = Ok p" "mset events' = mset events"
  shows "project X H ctx events' = Ok p \<and>
    (\<exists>es. resolve events = Ok es \<and>
       balances_cash (ls_balances (sn_state (pr_snapshot p))) a c =
         (if (a, c) \<in> fst ` set (leg_postings (journal_legs es))
          then Some (money_new (effect_on (\<lambda>x. x = a) c (journal_legs es)) c) else None))"
proof -
  obtain es where es: "resolve events = Ok es" and fold: "projection_fold X H ctx (new_state ctx) [] es = Ok p"
    using assms(1) by (auto simp: project_Ok)
  then have "try_fold (ledger_apply X ctx) (new_state ctx) es = Ok (sn_state (pr_snapshot p))"
    by (auto simp: projection_fold_Ok)
  then have bal: "try_fold (balances_apply X) balances_new es = Ok (ls_balances (sn_state (pr_snapshot p)))"
    using replay_components(1) by (fastforce simp: ledger_state_new_def)
  have "resolve events' = Ok es" using resolve_perm [OF assms(2) [symmetric] es] .
  then show ?thesis using es fold cash_of_fold [OF bal] by (auto simp: project_Ok)
qed

section \<open>A concrete journal\<close>

definition sample_hashing :: hashing where
  "sample_hashing = \<lparr>h_sha256 = (\<lambda>m. m), h_cbor_state = (\<lambda>_. Some []),
     h_cbor_event = (\<lambda>e. Some [word_of_nat (eo_sequence (e_order e))]), h_ordinal = (\<lambda>_. 1)\<rparr>"

definition sample_context :: projection_context where
  "sample_context = \<lparr>pc_contour = contour_new (ContourId 1) (ContourVersion 1) [AccountId 1],
     pc_rules = with_defaults ref_deps, pc_lot_rule = LotRuleVersion 1\<rparr>"

definition sample_journal :: "event list" where
  "sample_journal = [sample_event 1 NoRelation, sample_event 2 NoRelation]"

lemma sample_resolve_journal:
  "resolve [] = Ok []"
  "resolve [sample_event 1 NoRelation] = Ok [sample_event 1 NoRelation]"
  "resolve sample_journal = Ok sample_journal"
  by (simp_all add: sample_journal_def resolve_def resolve_with_supersession_def resolution_from_events_def relations_of_def
      resolve_supersession_def resolve_supersession_inner_def insert_id_def apply_relation_def
      supersession_stands_def sample_event_def bt_get_def sort_by_def compare_for_replay_def order_new_def cmp_of_def
      cmp_some_first_def provenance_new_def)

lemma sample_apply:
  assumes "ls_balances st = \<lparr>bal_cash = (if n = 0 then [] else [((AccountId 1, Rub), int n)]), bal_positions = []\<rparr>"
    "n < 1000"
  shows "\<exists>st'. ledger_apply ref_deps sample_context st (sample_event k NoRelation) = Ok st' \<and>
     ls_balances st' = \<lparr>bal_cash = [((AccountId 1, Rub), int (n + 100))], bal_positions = []\<rparr> \<and>
     ls_book st' = ls_book st"
  using assms
  by (simp add: ledger_apply_def balances_apply_def balances_apply_leg_def balances_apply_cash_def
      balances_apply_position_def sample_event_def leg_cash_def leg_cash_effect_def money_new_def bt_checked_add_def pm_defs
      to_i64_def i64_defs bt_get_def lot_book_apply_def Let_def flow_apply_def classify_def sample_context_def contour_new_def
      contour_contains_def flow_apply_external_def contour_cash_effect_def contour_cash_step_def push_flow_def
      require_sign_matches_def dates_for_cash_def dates_empty_def effective_date_def income_apply_def state_observe_def)

lemma sample_valid: "validate_structure ref_deps (sample_event k NoRelation) = Ok ()"
  by (simp add: validate_structure_def expect_single_cash_Ok cash_legs_def legs_of_kind_def sample_event_def leg_cash_def
      money_new_def)

text \<open>Events that the replay treats like a sample deposit.\<close>

definition deposit :: "event \<Rightarrow> bool" where
  "deposit e \<longleftrightarrow> validate_structure ref_deps e = Ok () \<and>
     (\<exists>n. \<forall>st. ledger_apply ref_deps sample_context st e = ledger_apply ref_deps sample_context st (sample_event n NoRelation))"

lemma deposits_replay:
  assumes "\<forall>e \<in> set es. deposit e" "length es < 10"
  shows "\<exists>st. try_fold (ledger_apply ref_deps sample_context) (new_state sample_context) es = Ok st \<and>
     ls_balances st = \<lparr>bal_cash = (if 100 * length es = 0 then [] else [((AccountId 1, Rub), int (100 * length es))]),
       bal_positions = []\<rparr> \<and> lb_entries (ls_book st) = []"
  using assms
proof (induction es rule: rev_induct)
  case Nil
  then show ?case by (simp add: ledger_state_new_def balances_new_def lot_book_new_def)
next
  case (snoc e es)
  then obtain st where st: "try_fold (ledger_apply ref_deps sample_context) (new_state sample_context) es = Ok st"
    "ls_balances st = \<lparr>bal_cash = (if 100 * length es = 0 then [] else [((AccountId 1, Rub), int (100 * length es))]),
       bal_positions = []\<rparr>" "lb_entries (ls_book st) = []" by auto
  obtain n where "\<forall>st. ledger_apply ref_deps sample_context st e = ledger_apply ref_deps sample_context st (sample_event n NoRelation)"
    using snoc.prems(1) by (auto simp: deposit_def)
  moreover obtain st' where "ledger_apply ref_deps sample_context st (sample_event n NoRelation) = Ok st'"
    "ls_balances st' = \<lparr>bal_cash = [((AccountId 1, Rub), int (100 * length es + 100))], bal_positions = []\<rparr>"
    "ls_book st' = ls_book st"
    using sample_apply [OF st(2), of n] snoc.prems(2) by auto
  ultimately show ?case using st by (intro exI [of _ st']) (simp add: try_fold_append)
qed

lemma deposits_project:
  assumes "\<forall>e \<in> set es. deposit e" "length es < 10"
  shows "is_ok (projection_fold ref_deps sample_hashing sample_context (new_state sample_context) [] es)"
proof -
  obtain st where st: "try_fold (ledger_apply ref_deps sample_context) (new_state sample_context) es = Ok st"
    "bal_positions (ls_balances st) = []" "lb_entries (ls_book st) = []"
    using deposits_replay [OF assms] by auto
  have ok: "flow_log_ok (pc_contour sample_context) (ls_flows st)"
    by (rule replay_invariants(3) [OF st(1)]) (simp add: sample_context_def)
  have "try_map (check_event ref_deps) es = Ok (replicate (length es) ())"
    by (rule try_map_constant) (use assms(1) in \<open>auto simp: check_event_def deposit_def\<close>)
  moreover have "try_map check_flow (fl_external (ls_flows st)) = Ok (replicate (length (fl_external (ls_flows st))) ())"
    by (rule try_map_constant) (use check_flow_Ok [OF ok] in blast)
  moreover have "checked_keys st = []" using st by (simp add: checked_keys_def)
  ultimately have "is_ok (check_invariants ref_deps st es)" by (simp add: check_invariants_def)
  moreover have "those (map (event_bytes ref_deps sample_hashing) es) \<noteq> None"
    by (induction es) (auto simp: event_bytes_def sample_hashing_def)
  ultimately show ?thesis
    using st(1) by (auto simp: is_ok_iff projection_fold_Ok state_fingerprint_def prefix_digest_def prefix_message_def
        sample_hashing_def)
qed

lemma sample_deposit: "deposit (sample_event k NoRelation)"
  by (auto simp: deposit_def sample_valid)

lemma sample_projected:
  "is_ok (projection_fold ref_deps sample_hashing sample_context (new_state sample_context) [] [sample_event 1 NoRelation])"
  "is_ok (projection_fold ref_deps sample_hashing sample_context (new_state sample_context) [] sample_journal)"
  by (rule deposits_project; simp add: sample_journal_def sample_deposit)+

lemma sample_delimits: "delimits sample_hashing (set sample_journal)"
  by (auto simp: delimits_def sample_hashing_def sample_journal_def sample_event_def order_new_def)

lemma sample_separates: "separates ref_deps sample_hashing E"
  by (simp add: separates_def sample_hashing_def)

lemma sample_built:
  "\<exists>p. project ref_deps sample_hashing sample_context [sample_event 1 NoRelation] = Ok p \<and>
    built_from ref_deps sample_hashing sample_context [sample_event 1 NoRelation] (pr_snapshot p)"
  using sample_projected(1) sample_resolve_journal(2)
  by (auto simp: is_ok_iff project_Ok built_from_def)

lemma sample_orders:
  "order_cmp (e_order (sample_event 1 NoRelation)) (e_order (sample_event 1 NoRelation)) \<noteq> Greater"
  "order_cmp (e_order (sample_event 2 NoRelation)) (e_order (sample_event 1 NoRelation)) = Greater"
  by (simp_all add: order_cmp_def sample_event_def order_new_def cmp_of_def cmp_some_first_def)

text \<open>The snapshot of a journal with one event advances over the second one.\<close>

theorem kept_prefix_advances_witness:
  "\<exists>s. built_from ref_deps sample_hashing sample_context [sample_event 1 NoRelation] s \<and>
     advance ref_deps sample_hashing sample_context s sample_journal =
     project ref_deps sample_hashing sample_context sample_journal"
proof -
  obtain p :: projection where p: "built_from ref_deps sample_hashing sample_context [sample_event 1 NoRelation] (pr_snapshot p)"
    using sample_built by blast
  have "resolve sample_journal = Ok ([sample_event 1 NoRelation] @ [sample_event 2 NoRelation])"
    using sample_resolve_journal(3) by (simp add: sample_journal_def)
  moreover have "\<forall>e \<in> set [sample_event 1 NoRelation].
      order_cmp (e_order e) (e_order (last [sample_event 1 NoRelation])) \<noteq> Greater"
    "\<forall>e \<in> set [sample_event 2 NoRelation].
      order_cmp (e_order e) (e_order (last [sample_event 1 NoRelation])) = Greater"
    using sample_orders by simp_all
  ultimately show ?thesis using kept_prefix_advances [OF p] p by blast
qed

theorem advance_equals_project_witness:
  "\<exists>s p. derived ref_deps sample_hashing sample_context (set sample_journal) s \<and>
     project ref_deps sample_hashing sample_context sample_journal = Ok p"
proof -
  obtain p where p: "project ref_deps sample_hashing sample_context [sample_event 1 NoRelation] = Ok p"
    "built_from ref_deps sample_hashing sample_context [sample_event 1 NoRelation] (pr_snapshot p)"
    using sample_built by blast
  have d: "derived ref_deps sample_hashing sample_context (set sample_journal) (pr_snapshot p)"
    using p(1) by (rule derived_project) (simp add: sample_journal_def)
  have r: "resolve sample_journal = Ok ([sample_event 1 NoRelation] @ [sample_event 2 NoRelation])"
    using sample_resolve_journal(3) by (simp add: sample_journal_def)
  have "split_point (pr_snapshot p) ([sample_event 1 NoRelation] @ [sample_event 2 NoRelation]) = 1"
    using split_point_append [OF built_from_fields(1) [OF p(2)], of "[sample_event 2 NoRelation]"] sample_orders by simp
  then have "advance ref_deps sample_hashing sample_context (pr_snapshot p) sample_journal =
      project ref_deps sample_hashing sample_context sample_journal"
    using advance_on_prefix [OF p(2) r] by simp
  moreover obtain q where "project ref_deps sample_hashing sample_context sample_journal = Ok q"
    using sample_projected(2) sample_resolve_journal(3) by (auto simp: is_ok_iff project_Ok)
  ultimately have "advance ref_deps sample_hashing sample_context (pr_snapshot p) sample_journal = Ok q" by simp
  from advance_equals_project [OF sample_delimits sample_separates d order_refl this] d show ?thesis by blast
qed

theorem projection_is_consistent_witness:
  "\<exists>p. project ref_deps sample_hashing sample_context [sample_event 1 NoRelation] = Ok p \<and>
     (\<forall>f \<in> set (fl_external (ls_flows (sn_state (pr_snapshot p)))). m_amount (xf_amount f) \<noteq> 0)"
proof -
  obtain p where p: "project ref_deps sample_hashing sample_context [sample_event 1 NoRelation] = Ok p"
    using sample_built by blast
  have "pc_rules sample_context = with_defaults ref_deps" by (simp add: sample_context_def)
  from projection_is_consistent [OF p this refl] p show ?thesis by blast
qed

theorem projection_cash_is_effective_cash_witness:
  "\<exists>p. project ref_deps sample_hashing sample_context [sample_event 1 NoRelation] = Ok p \<and>
     balances_cash (ls_balances (sn_state (pr_snapshot p))) (AccountId 1) Rub = Some (money_new 100 Rub)"
proof -
  obtain p where p: "project ref_deps sample_hashing sample_context [sample_event 1 NoRelation] = Ok p"
    using sample_built by blast
  from projection_cash_is_effective_cash [OF p refl, of "AccountId 1" Rub] p sample_resolve_journal(2)
  show ?thesis by (simp add: sample_event_def leg_cash_def leg_cash_effect_def money_new_def)
qed

section \<open>A position without a cost\<close>

lemmas ref_eval = ref_deps_def ref_add_def ref_sub_def ref_mul_def ref_dec_def ref_align_def ref_cmp_def cmp_of_def
  dec_zero_def quantity_zero_def dec_checked_add_def dec_checked_sub_def dec_checked_neg_def dec_checked_mul_def

definition unpriced_opening :: event where
  "unpriced_opening = (sample_of (OpeningPosition (InstrumentId 7) (Decimal 10 0) None opening_assertions_default)
     [leg_security (AccountId 1) (CustodyId 3) (InstrumentId 7) (Decimal 10 0)])"

definition unpriced_conversion :: event where
  "unpriced_conversion = (sample_of (CorporateAction (Conversion (InstrumentId 7) (InstrumentId 8) (CustodyId 3)
       (Decimal 2 0) (Decimal 10 0) (Decimal 20 0) NotApplicable None 2 None None CarryOver))
     [leg_security (AccountId 1) (CustodyId 3) (InstrumentId 7) (Decimal (- 10) 0),
      leg_security (AccountId 1) (CustodyId 3) (InstrumentId 8) (Decimal 20 0)])\<lparr>e_id := EventId 2, e_order := order_new 2 2\<rparr>"

lemma unpriced_resolve: "resolve [unpriced_opening, unpriced_conversion] = Ok [unpriced_opening, unpriced_conversion]"
  by (simp add: resolve_def resolve_with_supersession_def resolution_from_events_def relations_of_def
      resolve_supersession_def resolve_supersession_inner_def insert_id_def apply_relation_def
      supersession_stands_def unpriced_opening_def unpriced_conversion_def sample_of_def bt_get_def sort_by_def compare_for_replay_def order_new_def cmp_of_def
      cmp_some_first_def provenance_new_def)

lemma unpriced_valid: "validate_structure ref_deps unpriced_conversion = Ok ()"
  by (simp add: validate_structure_def unpriced_conversion_def sample_of_def require_positive_quantity_def
     dec_is_positive_def require_conversion_ratio_def require_fraction_compensation_def
     dec_checked_neg_def dec_checked_sub_def dec_checked_mul_def ref_deps_def ref_mul_def ref_sub_def ref_dec_def ref_align_def dec_zero_def ref_cmp_def cmp_of_def
     expect_legs_def leg_security_def x_security_leg_def matches_iff order_new_def Let_def)

lemma unpriced_replay:
  "\<exists>st. try_fold (ledger_apply ref_deps sample_context) (new_state sample_context) [unpriced_opening, unpriced_conversion] = Ok st \<and>
     bal_positions (ls_balances st) = [(PositionKey (AccountId 1) (InstrumentId 7), Decimal 0 0), (PositionKey (AccountId 1) (InstrumentId 8), Decimal 20 0)] \<and>
     lb_entries (ls_book st) = [(LotKey (AccountId 1) (InstrumentId 7), instrument_lots_default\<lparr>il_unpriced := Decimal 10 0, il_gap := Some RestoredWithoutBasis,
                   il_acquisitions := acquisition_observe (il_acquisitions instrument_lots_default) None,
                   il_ownership := ownership_observe (il_ownership instrument_lots_default) (Decimal 10 0) SUnbounded\<rparr>)]"
  by (simp add: ledger_apply_def balances_apply_def balances_apply_leg_def balances_apply_cash_def
      balances_apply_position_def sample_of_def leg_security_def leg_cash_effect_def 
      bt_get_def lot_book_apply_def Let_def flow_apply_def classify_def sample_context_def contour_new_def
      contour_contains_def unpriced_opening_def unpriced_conversion_def income_apply_def income_apply_corporate_action_def
      state_observe_def ledger_state_new_def balances_new_def lot_book_new_def less_position_key_def less_instrument_id_def
      restore_def apply_corporate_action_def apply_conversion_def require_whole_position_def opening_assertions_default_def
      entry_or_default_def put_entry_def instrument_lots_default_def entry_quantity_def moves_money_def ref_eval)

lemma unpriced_valid_opening: "validate_structure ref_deps unpriced_opening = Ok ()"
  by (simp add: validate_structure_def validate_opening_position_def unpriced_opening_def sample_of_def
     require_positive_quantity_def dec_is_positive_def require_own_account_def require_same_instrument_def
     cash_legs_def security_legs_def legs_of_kind_def leg_security_def idx_def Let_def ref_eval)

text \<open>
  (C31) A position restored without a cost cannot be carried through a conversion: both events
  of this journal are structurally valid, the conversion moves the position between the two
  securities, but the lot book leaves the unpriced quantity with the old one, so the
  projection of the journal is refused.
\<close>

theorem unpriced_conversion_is_refused:
  "validate_structure ref_deps unpriced_opening = Ok () \<and> validate_structure ref_deps unpriced_conversion = Ok () \<and>
   project ref_deps H sample_context [unpriced_opening, unpriced_conversion] =
     Err (ProjInvariant (LotsDoNotMatchPosition (LotKey (AccountId 1) (InstrumentId 7)) [] []))"
proof -
  let ?k7 = "LotKey (AccountId 1) (InstrumentId 7)" and ?k8 = "LotKey (AccountId 1) (InstrumentId 8)"
  obtain st where st: "try_fold (ledger_apply ref_deps sample_context) (new_state sample_context)
        [unpriced_opening, unpriced_conversion] = Ok st"
    and pos: "bal_positions (ls_balances st) =
        [(PositionKey (AccountId 1) (InstrumentId 7), Decimal 0 0), (PositionKey (AccountId 1) (InstrumentId 8), Decimal 20 0)]"
    and book: "map fst (lb_entries (ls_book st)) = [?k7]"
    and entry: "entry_quantity ref_deps (the (bt_get (lb_entries (ls_book st)) ?k7)) = Ok (Decimal 10 0)"
      "bt_get (lb_entries (ls_book st)) ?k7 \<noteq> None"
    using unpriced_replay by (auto simp: entry_quantity_def bt_get_def instrument_lots_default_def)
  have "?k7 < ?k8" by (simp add: less_lot_key_def less_instrument_id_def)
  then have keys: "checked_keys st = [?k7, ?k8]"
    unfolding checked_keys_def book pos by simp
  obtain y where y: "bt_get (lb_entries (ls_book st)) ?k7 = Some y" "entry_quantity ref_deps y = Ok (Decimal 10 0)"
    using entry by auto
  have "position_of st ?k7 = Decimal 0 0" by (simp add: position_of_def balances_position_def bt_get_def pos)
  moreover have "d_cmp ref_deps (Decimal 10 0) (Decimal 0 0) = Greater" "d_to_string ref_deps q = []" for q
    by (simp_all add: ref_eval)
  ultimately have "check_key ref_deps st (0, 0) ?k7 = Err (LotsDoNotMatchPosition ?k7 [] [])"
    using y by (simp add: check_key_def)
  then have "check_invariants ref_deps st [unpriced_opening, unpriced_conversion] = Err (LotsDoNotMatchPosition ?k7 [] [])"
    by (simp add: check_invariants_def check_event_def unpriced_valid unpriced_valid_opening keys)
  then show ?thesis
    using unpriced_valid unpriced_valid_opening fold_step_fold [of ref_deps sample_context "new_state sample_context" "[]"]
    by (simp add: project_def Let_def unpriced_resolve projection_fold_def st del: try_fold.simps)
qed

section \<open>Source times and the boundary\<close>

text \<open>
  Three deposits of one moment, from different documents: the replay order compares the
  documents before the sequence numbers, the boundary of a snapshot does not.
\<close>

definition timed_event :: "nat \<Rightarrow> string \<Rightarrow> nat \<Rightarrow> event" where
  "timed_event n document k = (sample_event n NoRelation)
     \<lparr>e_order := order_with_source_time 1 0 k, e_provenance := provenance_new (SourceId 1) document []\<rparr>"

definition timed_journal :: "event list" where
  "timed_journal = [timed_event 1 ''a'' 1, timed_event 2 ''b'' 3, timed_event 3 ''c'' 2]"

lemma timed_resolve: "resolve timed_journal = Ok timed_journal"
  by (simp add: timed_journal_def resolve_def resolve_with_supersession_def resolution_from_events_def relations_of_def
      resolve_supersession_def resolve_supersession_inner_def insert_id_def apply_relation_def
      supersession_stands_def sample_event_def timed_event_def bt_get_def sort_by_def compare_for_replay_def
      order_with_source_time_def cmp_of_def cmp_some_first_def provenance_new_def)

lemma timed_apply:
  "ledger_apply ref_deps sample_context st (timed_event n document k) =
   ledger_apply ref_deps sample_context st (sample_event n NoRelation)"
  by (simp add: timed_event_def sample_event_def ledger_apply_def balances_apply_def lot_book_apply_def Let_def
      flow_apply_def classify_def flow_apply_external_def contour_cash_effect_def contour_cash_step_def push_flow_def [abs_def]
      income_apply_def board_observe_def state_observe_def coverage_observe_def sample_context_def contour_new_def
      contour_contains_def leg_cash_def leg_cash_effect_def dates_for_cash_def dates_empty_def effective_date_def)

lemma timed_deposit: "deposit (timed_event n document k)"
proof -
  have "validate_structure ref_deps (timed_event n document k) = Ok ()"
    by (simp add: validate_structure_def expect_single_cash_Ok cash_legs_def legs_of_kind_def timed_event_def
        sample_event_def leg_cash_def money_new_def)
  then show ?thesis using timed_apply by (auto simp: deposit_def)
qed

lemma timed_delimits: "delimits sample_hashing (set timed_journal)"
  by (auto simp: delimits_def sample_hashing_def timed_journal_def timed_event_def order_with_source_time_def)

text \<open>
  (C32) The boundary of a snapshot is an effective order, but the effective list is sorted by
  the replay order, which places the document before the sequence number when the source
  states a time. On this journal of three valid deposits of one moment the binary search for
  the boundary therefore misses it, and advancing a snapshot over the very journal it was
  built from is refused as a changed prefix.
\<close>

theorem unchanged_journal_may_not_advance:
  "\<exists>s found. built_from ref_deps sample_hashing sample_context timed_journal s \<and> resolve timed_journal = Ok timed_journal \<and>
     advance ref_deps sample_hashing sample_context s timed_journal = Err (PrefixChanged (sn_prefix_digest s) found)"
proof -
  have "is_ok (projection_fold ref_deps sample_hashing sample_context (new_state sample_context) [] timed_journal)"
    by (rule deposits_project) (simp_all add: timed_journal_def timed_deposit)
  then obtain s where s: "built_from ref_deps sample_hashing sample_context timed_journal s"
    by (auto simp: is_ok_iff built_from_def)
  have "sn_through s = Some (order_with_source_time 1 0 2)"
    using built_from_fields(1) [OF s] by (simp add: last_order_def timed_journal_def timed_event_def)
  then have split: "split_point s timed_journal = 1"
    by (simp add: split_point_def partition_point_def pp_loop.simps timed_journal_def timed_event_def
        order_with_source_time_def order_cmp_def cmp_of_def cmp_some_first_def Let_def)
  have "length (take 1 timed_journal) \<noteq> length timed_journal" by (simp add: timed_journal_def)
  then have "take 1 timed_journal \<noteq> timed_journal" by metis
  moreover have "distinct timed_journal"
    using resolve_distinct_ids [OF timed_resolve] by (simp add: distinct_map)
  ultimately have ne: "prefix_digest ref_deps sample_hashing (take 1 timed_journal) \<noteq> Some (sn_prefix_digest s)"
    using prefix_digest_inject [OF timed_delimits sample_separates _ _ set_take_subset order_refl _ built_from_fields(2) [OF s]]
    by (metis distinct_take)
  obtain found where "prefix_digest ref_deps sample_hashing (take 1 timed_journal) = Some found"
    by (simp add: prefix_digest_def prefix_message_def timed_journal_def event_bytes_def sample_hashing_def)
  then have "advance ref_deps sample_hashing sample_context s timed_journal = Err (PrefixChanged (sn_prefix_digest s) found)"
    using ne built_from_fields(4) [OF s] split by (simp add: advance_def timed_resolve Let_def)
  then show ?thesis using s timed_resolve by blast
qed

end
