(* ===== verification/Batch.thy ===== *)
theory Batch
  imports EventModel
begin

text \<open>
  A batch of cash movements before it is a journal, \<open>batch.rs\<close>: its totals per account and
  currency, and their comparison with the control section the source printed. The totals
  are shown to be the sums of the movements, and every verdict of the comparison to say what
  the sums say.
\<close>

section \<open>Totals\<close>

record batch_movement =
  bm_account :: account_id
  bm_amount :: money
  bm_date :: "date option"

record batch_total =
  bt_account :: account_id
  bt_currency :: currency_code
  bt_rows :: nat
  bt_debit :: posted_minor
  bt_credit :: posted_minor
  bt_net :: posted_minor

type_synonym batch_bucket = "nat \<times> money \<times> money"

definition bucket_add :: "batch_bucket \<Rightarrow> money \<Rightarrow> (batch_bucket, money_error) result" where
  "bucket_add bucket amount = (case bucket of (rows, debit, credit) \<Rightarrow>
     if m_amount amount \<ge> 0
     then and_then (try_add debit amount) (\<lambda>debit'. Ok (rows + 1, debit', credit))
     else and_then (try_sub credit amount) (\<lambda>credit'. Ok (rows + 1, debit, credit')))"

definition batch_step :: "(account_id \<times> currency_code, batch_bucket) btree \<Rightarrow> batch_movement
    \<Rightarrow> ((account_id \<times> currency_code, batch_bucket) btree, money_error) result" where
  "batch_step folded movement =
     (let amount = bm_amount movement; currency = m_currency amount; key = (bm_account movement, currency);
          bucket = (case bt_get folded key of Some b \<Rightarrow> b | None \<Rightarrow> (0, money_zero currency, money_zero currency)) in
      and_then (bucket_add bucket amount) (\<lambda>bucket'. Ok (bt_insert key bucket' folded)))"

definition batch_total_of :: "(account_id \<times> currency_code) \<times> batch_bucket \<Rightarrow> (batch_total, money_error) result" where
  "batch_total_of entry = (case entry of ((account, currency), (rows, debit, credit)) \<Rightarrow>
     and_then (try_sub debit credit) (\<lambda>net.
     Ok \<lparr>bt_account = account, bt_currency = currency, bt_rows = rows, bt_debit = m_amount debit,
         bt_credit = m_amount credit, bt_net = m_amount net\<rparr>))"

definition batch_totals :: "batch_movement list \<Rightarrow> (batch_total list, money_error) result" where
  "batch_totals movements =
     and_then (try_fold batch_step [] movements) (\<lambda>folded. try_map batch_total_of folded)"

section \<open>Comparison with a control section\<close>

record control_section =
  cs_account :: account_id
  cs_currency :: currency_code
  cs_period :: assertion_period
  cs_opening :: "posted_minor option"
  cs_closing :: "posted_minor option"
  cs_debit_turnover :: "posted_minor option"
  cs_credit_turnover :: "posted_minor option"

definition states_nothing :: "control_section \<Rightarrow> bool" where
  "states_nothing s \<longleftrightarrow>
     cs_opening s = None \<and> cs_closing s = None \<and> cs_debit_turnover s = None \<and> cs_credit_turnover s = None"

datatype control_figure = ClosingBalance | DebitTurnover | CreditTurnover

fun control_figure_code :: "control_figure \<Rightarrow> string" where
  "control_figure_code ClosingBalance = ''closing_balance''"
| "control_figure_code DebitTurnover = ''debit_turnover''"
| "control_figure_code CreditTurnover = ''credit_turnover''"

datatype no_counterpart = OpeningBalanceNotStated

fun no_counterpart_code :: "no_counterpart \<Rightarrow> string" where
  "no_counterpart_code OpeningBalanceNotStated = ''opening_balance_not_stated''"

datatype control_check =
    Matched control_figure posted_minor posted_minor
  | Mismatched control_figure posted_minor posted_minor posted_minor
  | NotChecked control_figure posted_minor no_counterpart

fun check_figure :: "control_check \<Rightarrow> control_figure" where
  "check_figure (Matched f _ _) = f"
| "check_figure (Mismatched f _ _ _) = f"
| "check_figure (NotChecked f _ _) = f"

fun control_check_code :: "control_check \<Rightarrow> string" where
  "control_check_code (Matched _ _ _) = ''matched''"
| "control_check_code (Mismatched _ _ _ _) = ''mismatched''"
| "control_check_code (NotChecked _ _ _) = ''not_checked''"

fun is_mismatch :: "control_check \<Rightarrow> bool" where
  "is_mismatch (Mismatched _ _ _ _) = True"
| "is_mismatch _ = False"

record interval_fit =
  if_outside :: nat
  if_undated :: nat
  if_span :: "(date \<times> date) option"

definition misplaced :: "interval_fit \<Rightarrow> nat" where
  "misplaced f = if_outside f + if_undated f"

definition fits :: "interval_fit \<Rightarrow> bool" where
  "fits f \<longleftrightarrow> misplaced f = 0"

record control_comparison =
  cc_account :: account_id
  cc_currency :: currency_code
  cc_stated :: "control_section option"
  cc_observed :: batch_total
  cc_checks :: "control_check list"
  cc_fit :: "interval_fit option"

definition checked :: "control_figure \<Rightarrow> posted_minor \<Rightarrow> posted_minor \<Rightarrow> currency_code \<Rightarrow> (control_check, money_error) result" where
  "checked figure claimed observed currency =
     (if claimed = observed then Ok (Matched figure claimed observed)
      else and_then (try_sub (money_new claimed currency) (money_new observed currency)) (\<lambda>delta.
           Ok (Mismatched figure claimed observed (m_amount delta))))"

definition turnover_check :: "control_figure \<Rightarrow> posted_minor option \<Rightarrow> posted_minor \<Rightarrow> currency_code
    \<Rightarrow> (control_check list, money_error) result" where
  "turnover_check figure stated observed currency = (case stated of
     Some claimed \<Rightarrow> map_ok (\<lambda>c. [c]) (checked figure claimed observed currency)
   | None \<Rightarrow> Ok [])"

definition closing_check :: "control_section \<Rightarrow> batch_total \<Rightarrow> (control_check list, money_error) result" where
  "closing_check s observed = (case cs_closing s of
     None \<Rightarrow> Ok []
   | Some claimed \<Rightarrow> (case cs_opening s of
       Some opening \<Rightarrow>
         and_then (try_add (money_new opening (cs_currency s)) (money_new (bt_net observed) (cs_currency s))) (\<lambda>derived.
         map_ok (\<lambda>c. [c]) (checked ClosingBalance claimed (m_amount derived) (cs_currency s)))
     | None \<Rightarrow> Ok [NotChecked ClosingBalance claimed OpeningBalanceNotStated]))"

definition checks_for :: "control_section \<Rightarrow> batch_total \<Rightarrow> (control_check list, money_error) result" where
  "checks_for s observed =
     and_then (turnover_check DebitTurnover (cs_debit_turnover s) (bt_debit observed) (cs_currency s)) (\<lambda>debit.
     and_then (turnover_check CreditTurnover (cs_credit_turnover s) (bt_credit observed) (cs_currency s)) (\<lambda>credit.
     and_then (closing_check s observed) (\<lambda>closing.
     Ok (debit @ credit @ closing))))"

definition fit_step :: "control_section \<Rightarrow> interval_fit \<Rightarrow> batch_movement \<Rightarrow> interval_fit" where
  "fit_step s fit movement = (case bm_date movement of
     None \<Rightarrow> fit\<lparr>if_undated := if_undated fit + 1\<rparr>
   | Some d \<Rightarrow>
       if period_contains (cs_period s) d then fit
       else fit\<lparr>if_outside := if_outside fit + 1,
                if_span := Some (case if_span fit of None \<Rightarrow> (d, d) | Some (from, to) \<Rightarrow> (min from d, max to d))\<rparr>)"

definition fit_of :: "control_section \<Rightarrow> batch_movement list \<Rightarrow> interval_fit" where
  "fit_of s movements = foldl (fit_step s) \<lparr>if_outside = 0, if_undated = 0, if_span = None\<rparr>
     (filter (\<lambda>m. bm_account m = cs_account s \<and> m_currency (bm_amount m) = cs_currency s) movements)"

definition compare_key :: "control_section list \<Rightarrow> batch_movement list \<Rightarrow> batch_total list \<Rightarrow> account_id \<times> currency_code
    \<Rightarrow> (control_comparison, money_error) result" where
  "compare_key sections movements totals key =
     (let account = fst key; currency = snd key;
          stated = List.find (\<lambda>s. cs_account s = account \<and> cs_currency s = currency) sections;
          observed = (case List.find (\<lambda>t. bt_account t = account \<and> bt_currency t = currency) totals of
              Some t \<Rightarrow> t
            | None \<Rightarrow> \<lparr>bt_account = account, bt_currency = currency, bt_rows = 0, bt_debit = 0, bt_credit = 0, bt_net = 0\<rparr>) in
      and_then (case stated of Some s \<Rightarrow> checks_for s observed | None \<Rightarrow> Ok []) (\<lambda>checks.
      Ok \<lparr>cc_account = account, cc_currency = currency, cc_stated = stated, cc_observed = observed,
          cc_checks = checks, cc_fit = map_option (\<lambda>s. fit_of s movements) stated\<rparr>))"

definition batch_compare :: "control_section list \<Rightarrow> batch_movement list \<Rightarrow> (control_comparison list, money_error) result" where
  "batch_compare sections movements =
     and_then (batch_totals movements) (\<lambda>totals.
     let keys = foldl (\<lambda>m s. bt_insert (cs_account s, cs_currency s) () m)
                  (foldl (\<lambda>m t. bt_insert (bt_account t, bt_currency t) () m) [] totals) sections in
     try_map (compare_key sections movements totals) (map fst keys))"

section \<open>The totals are sums\<close>

definition key_of :: "batch_movement \<Rightarrow> account_id \<times> currency_code" where
  "key_of m = (bm_account m, m_currency (bm_amount m))"

definition amounts_of :: "account_id \<times> currency_code \<Rightarrow> batch_movement list \<Rightarrow> int list" where
  "amounts_of k ms = map (\<lambda>m. m_amount (bm_amount m)) (filter (\<lambda>m. key_of m = k) ms)"

definition arrived :: "int list \<Rightarrow> int" where
  "arrived xs = sum_list (filter (\<lambda>x. x \<ge> 0) xs)"

definition departed :: "int list \<Rightarrow> int" where
  "departed xs = - sum_list (filter (\<lambda>x. x < 0) xs)"

lemma arrived_departed: "arrived xs - departed xs = sum_list xs"
  by (induction xs) (auto simp: arrived_def departed_def)

text \<open>What the buckets hold after a list of movements.\<close>

definition folded_ok :: "batch_movement list \<Rightarrow> (account_id \<times> currency_code, batch_bucket) btree \<Rightarrow> bool" where
  "folded_ok ms folded \<longleftrightarrow> bt_invar folded \<and>
     (\<forall>k. bt_get folded k = (if amounts_of k ms = [] then None
        else Some (length (amounts_of k ms), money_new (arrived (amounts_of k ms)) (snd k),
                   money_new (departed (amounts_of k ms)) (snd k))))"

lemma amounts_of_snoc [simp]:
  "amounts_of k [] = []"
  "amounts_of k (ms @ [m]) = amounts_of k ms @ (if key_of m = k then [m_amount (bm_amount m)] else [])"
  by (simp_all add: amounts_of_def)

lemma folded_okD:
  assumes "folded_ok ms folded"
  shows "bt_invar folded"
    and "amounts_of k ms = [] \<Longrightarrow> bt_get folded k = None"
    and "amounts_of k ms \<noteq> [] \<Longrightarrow> bt_get folded k = Some (length (amounts_of k ms),
       money_new (arrived (amounts_of k ms)) (snd k), money_new (departed (amounts_of k ms)) (snd k))"
  using assms unfolding folded_ok_def by presburger+

lemma bucket_add_Ok:
  assumes "bucket_add (length xs, money_new (arrived xs) c, money_new (departed xs) c) m = Ok bucket"
  shows "bucket = (length (xs @ [m_amount m]), money_new (arrived (xs @ [m_amount m])) c,
           money_new (departed (xs @ [m_amount m])) c)"
  using assms by (auto simp: bucket_add_def try_sub_Ok arrived_def departed_def money_new_def split: if_splits)

lemma batch_step_ok:
  assumes "folded_ok ms folded" "batch_step folded m = Ok folded'"
  shows "folded_ok (ms @ [m]) folded'"
proof -
  let ?k = "key_of m" and ?xs = "amounts_of (key_of m) ms" and ?c = "m_currency (bm_amount m)"
  have old: "(case bt_get folded ?k of Some b \<Rightarrow> b | None \<Rightarrow> (0, money_zero ?c, money_zero ?c)) =
      (length ?xs, money_new (arrived ?xs) ?c, money_new (departed ?xs) ?c)"
    using folded_okD(2,3) [OF assms(1), of ?k]
    by (cases "?xs = []") (simp_all add: arrived_def departed_def money_zero_def money_new_def key_of_def)
  obtain bucket where b: "bucket_add (length ?xs, money_new (arrived ?xs) ?c, money_new (departed ?xs) ?c) (bm_amount m) = Ok bucket"
    "folded' = bt_insert ?k bucket folded"
    using assms(2) old by (auto simp: batch_step_def Let_def key_of_def)
  note bucket_add_Ok [OF b(1)]
  then show ?thesis using assms(1) b(2) unfolding folded_ok_def by (simp add: key_of_def)
qed

lemma batch_fold_ok: "try_fold batch_step [] ms = Ok folded \<Longrightarrow> folded_ok ms folded"
proof (induction ms arbitrary: folded rule: rev_induct)
  case Nil
  then show ?case by (simp add: folded_ok_def)
next
  case (snoc m ms)
  then show ?case using batch_step_ok by (auto simp: try_fold_snoc_Ok)
qed

definition total_of :: "batch_movement list \<Rightarrow> account_id \<times> currency_code \<Rightarrow> batch_total" where
  "total_of ms k = \<lparr>bt_account = fst k, bt_currency = snd k, bt_rows = length (amounts_of k ms),
     bt_debit = arrived (amounts_of k ms), bt_credit = departed (amounts_of k ms), bt_net = sum_list (amounts_of k ms)\<rparr>"

lemma batch_totals_Ok:
  assumes "batch_totals ms = Ok ts"
  shows "ts = map (total_of ms) (sorted_list_of_set (key_of ` set ms))"
proof -
  obtain folded where f: "try_fold batch_step [] ms = Ok folded" "try_map batch_total_of folded = Ok ts"
    using assms by (auto simp: batch_totals_def)
  note ok = folded_okD [OF batch_fold_ok [OF f(1)]]
  have keys: "map fst folded = sorted_list_of_set (key_of ` set ms)"
  proof -
    have "set (map fst folded) = {k. bt_get folded k \<noteq> None}" using ok(1) bt.set_keys by blast
    also have "\<dots> = {k. amounts_of k ms \<noteq> []}" using ok(2,3) by fastforce
    also have "\<dots> = key_of ` set ms" by (force simp: amounts_of_def filter_empty_conv)
    finally have "set (map fst folded) = key_of ` set ms" .
    moreover have "sorted_wrt (<) (map fst folded)" using ok by (simp add: bt_invar_def)
    ultimately show ?thesis
      by (metis strict_sorted_iff sorted_list_of_set.idem_if_sorted_distinct)
  qed
  have "batch_total_of e = Ok t \<Longrightarrow> e \<in> set folded \<Longrightarrow> t = total_of ms (fst e)" for e t
  proof -
    assume t: "batch_total_of e = Ok t" "e \<in> set folded"
    obtain k rows debit credit where e: "e = (k, rows, debit, credit)" by (cases e) auto
    have "bt_get folded k = Some (rows, debit, credit)" using t(2) ok(1) e bt.get_entries by metis
    then have b: "rows = length (amounts_of k ms)" "debit = money_new (arrived (amounts_of k ms)) (snd k)"
      "credit = money_new (departed (amounts_of k ms)) (snd k)"
      using ok(2,3) [of k] by (cases "amounts_of k ms = []"; simp)+
    obtain net where net: "try_sub debit credit = Ok net"
      and t': "t = \<lparr>bt_account = fst k, bt_currency = snd k, bt_rows = rows, bt_debit = m_amount debit,
         bt_credit = m_amount credit, bt_net = m_amount net\<rparr>"
      using t(1) by (cases k) (auto simp: batch_total_of_def e)
    have "m_amount net = sum_list (amounts_of k ms)"
      using net arrived_departed [of "amounts_of k ms"] by (simp add: try_sub_Ok b money_new_def)
    then show ?thesis by (simp add: t' total_of_def b e money_new_def)
  qed
  then have "list_all2 (\<lambda>e t. t = total_of ms (fst e)) folded ts"
    using f(2) unfolding try_map_Ok_iff by (auto simp: list_all2_conv_all_nth)
  then have "ts = map (\<lambda>e. total_of ms (fst e)) folded"
    by (simp add: list_all2_conv_all_nth list_eq_iff_nth_eq)
  then show ?thesis unfolding keys [symmetric] by (simp add: comp_def)
qed

section \<open>The verdicts\<close>

text \<open>What a control section claims and the movements give, figure by figure.\<close>

definition claims_of :: "control_section \<Rightarrow> int list \<Rightarrow> (control_figure \<times> int \<times> int option) list" where
  "claims_of s xs =
     (case cs_debit_turnover s of None \<Rightarrow> [] | Some c \<Rightarrow> [(DebitTurnover, c, Some (arrived xs))]) @
     (case cs_credit_turnover s of None \<Rightarrow> [] | Some c \<Rightarrow> [(CreditTurnover, c, Some (departed xs))]) @
     (case cs_closing s of None \<Rightarrow> []
      | Some c \<Rightarrow> [(ClosingBalance, c, map_option (\<lambda>opening. opening + sum_list xs) (cs_opening s))])"

definition verdict :: "control_figure \<times> int \<times> int option \<Rightarrow> control_check" where
  "verdict claim = (case claim of
     (figure, claimed, None) \<Rightarrow> NotChecked figure claimed OpeningBalanceNotStated
   | (figure, claimed, Some observed) \<Rightarrow>
       if claimed = observed then Matched figure claimed observed
       else Mismatched figure claimed observed (claimed - observed))"

lemma checked_verdict: "checked f claimed observed c = Ok v \<Longrightarrow> v = verdict (f, claimed, Some observed)"
  by (auto simp: checked_def verdict_def money_new_def split: if_splits)

lemma turnover_verdict:
  "turnover_check f stated observed c = Ok vs \<Longrightarrow>
     vs = map verdict (case stated of None \<Rightarrow> [] | Some claimed \<Rightarrow> [(f, claimed, Some observed)])"
  by (auto simp: turnover_check_def dest: checked_verdict split: option.splits)

lemma closing_verdict:
  "closing_check s t = Ok vs \<Longrightarrow> vs = map verdict (case cs_closing s of None \<Rightarrow> []
      | Some claimed \<Rightarrow> [(ClosingBalance, claimed, map_option (\<lambda>opening. opening + bt_net t) (cs_opening s))])"
  by (auto simp: closing_check_def money_new_def verdict_def [of "(_, _, None)"] dest!: checked_verdict split: option.splits)

lemma checks_for_verdicts:
  assumes "checks_for s (total_of ms k) = Ok vs"
  shows "vs = map verdict (claims_of s (amounts_of k ms))"
proof -
  obtain a b c where "turnover_check DebitTurnover (cs_debit_turnover s) (arrived (amounts_of k ms)) (cs_currency s) = Ok a"
    "turnover_check CreditTurnover (cs_credit_turnover s) (departed (amounts_of k ms)) (cs_currency s) = Ok b"
    "closing_check s (total_of ms k) = Ok c" "vs = a @ b @ c"
    using assms by (auto simp: checks_for_def total_of_def)
  then show ?thesis
    by (auto dest!: turnover_verdict closing_verdict simp: claims_of_def total_of_def split: option.split)
qed

lemma observed_total:
  assumes "batch_totals ms = Ok ts"
  shows "(case List.find (\<lambda>t. bt_account t = fst k \<and> bt_currency t = snd k) ts of Some t \<Rightarrow> t
     | None \<Rightarrow> \<lparr>bt_account = fst k, bt_currency = snd k, bt_rows = 0, bt_debit = 0, bt_credit = 0, bt_net = 0\<rparr>) =
     total_of ms k"
proof (cases "List.find (\<lambda>t. bt_account t = fst k \<and> bt_currency t = snd k) ts")
  case None
  have "set ts = total_of ms ` key_of ` set ms" using batch_totals_Ok [OF assms] by simp
  then have "k \<notin> key_of ` set ms" using None by (auto simp: find_None_iff total_of_def)
  then have "amounts_of k ms = []" by (auto simp: amounts_of_def filter_empty_conv)
  then show ?thesis using None by (simp add: total_of_def arrived_def departed_def)
next
  case (Some t)
  then have "t \<in> set ts" "bt_account t = fst k" "bt_currency t = snd k"
    by (auto simp: find_Some_iff)
  then have "t = total_of ms k" using batch_totals_Ok [OF assms] by (auto simp: total_of_def prod_eq_iff)
  then show ?thesis using Some by simp
qed

lemma list_all2_each: "list_all2 P xs ys \<Longrightarrow> y \<in> set ys \<Longrightarrow> \<exists>x. P x y"
  by (induction rule: list_all2_induct) auto

lemma foldl_insert_keys:
  assumes "bt_invar m"
  shows "bt_invar (foldl (\<lambda>m x. bt_insert (h x) () m) m xs)"
    and "fst ` set (foldl (\<lambda>m x. bt_insert (h x) () m) m xs) = fst ` set m \<union> h ` set xs"
  using assms by (induction xs arbitrary: m) (auto simp: set_bt_insert_keys)

text \<open>
  The comparison of a batch with its control sections is what arithmetic says. There is
  one comparison for every account and currency that a movement or a section names, in
  order; the observed turnovers and the net are the sums of the arrived, the departed and all
  amounts of that account and currency; every stated figure has exactly one verdict, which
  matches when the claim equals the observed figure, reports the exact difference when it
  does not, and is not checked only for a closing balance without an opening one.
\<close>

lemma batch_comparison_is_arithmetic:
  assumes "batch_compare sections ms = Ok cs"
  shows "map (\<lambda>c. (cc_account c, cc_currency c)) cs =
           sorted_list_of_set (key_of ` set ms \<union> (\<lambda>s. (cs_account s, cs_currency s)) ` set sections) \<and>
    (\<forall>c \<in> set cs. cc_observed c = total_of ms (cc_account c, cc_currency c) \<and>
       (case cc_stated c of
          None \<Rightarrow> cc_checks c = []
        | Some s \<Rightarrow> s \<in> set sections \<and>
            cc_checks c = map verdict (claims_of s (amounts_of (cc_account c, cc_currency c) ms))))"
proof -
  obtain ts where ts: "batch_totals ms = Ok ts" using assms by (auto simp: batch_compare_def)
  let ?f = "\<lambda>m s. bt_insert (cs_account s, cs_currency s) () m"
  let ?g = "\<lambda>m t. bt_insert (bt_account t, bt_currency t) () m"
  define keys where "keys = foldl ?f (foldl ?g [] ts) sections"
  have cmp: "try_map (compare_key sections ms ts) (map fst keys) = Ok cs"
    using assms ts by (simp add: batch_compare_def keys_def Let_def)
  have one_per_total: "(\<lambda>t. (bt_account t, bt_currency t)) ` set ts = key_of ` set ms"
    using batch_totals_Ok [OF ts] by (simp add: image_image total_of_def)
  have "bt_invar (foldl ?g [] ts)" "fst ` set (foldl ?g [] ts) = key_of ` set ms"
    using foldl_insert_keys [of "[]" "\<lambda>t. (bt_account t, bt_currency t)" ts] by (simp_all add: one_per_total)
  then have "set (map fst keys) = key_of ` set ms \<union> (\<lambda>s. (cs_account s, cs_currency s)) ` set sections"
    and "sorted_wrt (<) (map fst keys)"
    using foldl_insert_keys [of "foldl ?g [] ts" "\<lambda>s. (cs_account s, cs_currency s)" sections]
    by (simp_all add: keys_def bt_invar_def)
  then have keys: "map fst keys = sorted_list_of_set (key_of ` set ms \<union> (\<lambda>s. (cs_account s, cs_currency s)) ` set sections)"
    by (metis strict_sorted_iff sorted_list_of_set.idem_if_sorted_distinct)
  have one: "(cc_account c, cc_currency c) = k \<and> cc_observed c = total_of ms k \<and>
      (case cc_stated c of None \<Rightarrow> cc_checks c = []
       | Some s \<Rightarrow> s \<in> set sections \<and> cc_checks c = map verdict (claims_of s (amounts_of k ms)))"
    if "compare_key sections ms ts k = Ok c" for k c
  proof (cases "List.find (\<lambda>s. cs_account s = fst k \<and> cs_currency s = snd k) sections")
    case None
    then show ?thesis using that unfolding compare_key_def Let_def observed_total [OF ts] by auto
  next
    case (Some s)
    then have "s \<in> set sections" by (auto simp: find_Some_iff)
    then show ?thesis
      using that Some unfolding compare_key_def Let_def observed_total [OF ts] by (auto dest: checks_for_verdicts)
  qed
  have all: "list_all2 (\<lambda>k c. compare_key sections ms ts k = Ok c) (map fst keys) cs"
    using cmp by (simp add: try_map_Ok_iff)
  then have order: "map (\<lambda>c. (cc_account c, cc_currency c)) cs = map fst keys"
    by (auto simp: list_all2_conv_all_nth list_eq_iff_nth_eq dest: one)
  have "cc_observed c = total_of ms (cc_account c, cc_currency c) \<and>
      (case cc_stated c of None \<Rightarrow> cc_checks c = []
       | Some s \<Rightarrow> s \<in> set sections \<and> cc_checks c = map verdict (claims_of s (amounts_of (cc_account c, cc_currency c) ms)))"
    if "c \<in> set cs" for c
    using list_all2_each [OF all that] one by fastforce
  then show ?thesis unfolding order keys by blast
qed

definition sample_movements :: "batch_movement list" where
  "sample_movements =
     [\<lparr>bm_account = AccountId 1, bm_amount = money_new 700 Rub, bm_date = Some 5\<rparr>,
      \<lparr>bm_account = AccountId 1, bm_amount = money_new (- 200) Rub, bm_date = None\<rparr>]"

definition sample_section :: control_section where
  "sample_section = \<lparr>cs_account = AccountId 1, cs_currency = Rub, cs_period = \<lparr>ap_from = 1, ap_to = 9\<rparr>,
     cs_opening = Some 100, cs_closing = Some 590, cs_debit_turnover = Some 700, cs_credit_turnover = None\<rparr>"

end
