(* ===== verification/Perimeter.thy ===== *)
theory Perimeter
  imports Balances Correction
begin

text \<open>
  The perimeter of the system, \<open>perimeter.rs\<close>: while the effective journal is replayed, the
  cash balance of every account and currency is watched, each spell below zero becomes a
  span, and a span is classified as a settlement deficit, a margin liability or unexplained.
  The spans are shown to be the spells of the running balance and nothing else.
\<close>

section \<open>Policy, classification and exceptions\<close>

record perimeter_policy =
  settlement_window_days :: nat

definition perimeter_policy_default :: perimeter_policy where
  "perimeter_policy_default = \<lparr>settlement_window_days = 5\<rparr>"

datatype negative_cash_classification =
    TemporarySettlementDeficit | UnsupportedMarginLiability | UnclassifiedNegativeCash

fun blocks_reports :: "negative_cash_classification \<Rightarrow> bool" where
  "blocks_reports TemporarySettlementDeficit = False"
| "blocks_reports UnsupportedMarginLiability = True"
| "blocks_reports UnclassifiedNegativeCash = True"

fun negative_cash_code :: "negative_cash_classification \<Rightarrow> string" where
  "negative_cash_code TemporarySettlementDeficit = ''temporary_settlement_deficit''"
| "negative_cash_code UnsupportedMarginLiability = ''unsupported_margin_liability''"
| "negative_cash_code UnclassifiedNegativeCash = ''unclassified_negative_cash''"

record negative_cash_span =
  ns_account :: account_id
  ns_currency :: currency_code
  ns_from :: date
  ns_resolved :: "date option"
  ns_classification :: negative_cash_classification

datatype perimeter_error =
    EventWithoutDate event_id
  | PerimeterOverflow account_id currency_code
  | PerimeterCorrection correction_error

datatype reconciliation_exception = UnsupportedRepoEncumbrance | UnsupportedFinancingPresent

fun reconciliation_exception_code :: "reconciliation_exception \<Rightarrow> string" where
  "reconciliation_exception_code UnsupportedRepoEncumbrance = ''unsupported_repo_encumbrance''"
| "reconciliation_exception_code UnsupportedFinancingPresent = ''unsupported_financing_present''"

type_synonym perimeter_exceptions = "(account_id \<times> dimension \<times> reconciliation_exception) list"

definition exceptions_add ::
    "perimeter_exceptions \<Rightarrow> account_id \<Rightarrow> dimension \<Rightarrow> reconciliation_exception \<Rightarrow> perimeter_exceptions" where
  "exceptions_add entries account dimension exception =
     (if list_ex (\<lambda>(a, d, e). a = account \<and> d = dimension \<and> e = exception) entries then entries
      else entries @ [(account, dimension, exception)])"

definition exceptions_covers :: "perimeter_exceptions \<Rightarrow> account_id \<Rightarrow> dimension \<Rightarrow> reconciliation_exception option" where
  "exceptions_covers entries account dimension =
     map_option (\<lambda>(_, _, exception). exception) (List.find (\<lambda>(a, d, _). a = account \<and> d = dimension) entries)"

definition exceptions_is_empty :: "perimeter_exceptions \<Rightarrow> bool" where
  "exceptions_is_empty entries \<longleftrightarrow> entries = []"

definition exceptions_len :: "perimeter_exceptions \<Rightarrow> nat" where
  "exceptions_len entries = length entries"

section \<open>The assessment\<close>

record perimeter_assessment =
  pa_policy :: perimeter_policy
  pa_spans :: "negative_cash_span list"
  pa_financing :: "(account_id, unit) btree"

definition assessment_empty :: "perimeter_policy \<Rightarrow> perimeter_assessment" where
  "assessment_empty policy = \<lparr>pa_policy = policy, pa_spans = [], pa_financing = []\<rparr>"

definition financing_present :: "perimeter_assessment \<Rightarrow> account_id \<Rightarrow> bool" where
  "financing_present a account \<longleftrightarrow> bt_get (pa_financing a) account \<noteq> None"

definition blocks_period_reports :: "perimeter_assessment \<Rightarrow> account_id \<Rightarrow> bool" where
  "blocks_period_reports a account \<longleftrightarrow>
     list_ex (\<lambda>span. ns_account span = account \<and> blocks_reports (ns_classification span)) (pa_spans a)"

definition assessment_exceptions :: "perimeter_assessment \<Rightarrow> perimeter_exceptions" where
  "assessment_exceptions a =
     foldl (\<lambda>entries (account, _). exceptions_add entries account DCash UnsupportedFinancingPresent) [] (pa_financing a)"

definition span_classify :: "account_id \<times> currency_code \<Rightarrow> date \<Rightarrow> date option \<Rightarrow> (account_id, unit) btree
    \<Rightarrow> perimeter_policy \<Rightarrow> negative_cash_span" where
  "span_classify key from resolved financing policy =
     \<lparr>ns_account = fst key, ns_currency = snd key, ns_from = from, ns_resolved = resolved,
      ns_classification =
        (if bt_get financing (fst key) \<noteq> None then UnsupportedMarginLiability
         else if (case resolved of None \<Rightarrow> False
                  | Some end_date \<Rightarrow> end_date - from \<le> int (settlement_window_days policy))
         then TemporarySettlementDeficit
         else UnclassifiedNegativeCash)\<rparr>"

record watch =
  w_balances :: "(account_id \<times> currency_code, posted_minor) btree"
  w_open :: "(account_id \<times> currency_code, date) btree"
  w_spans :: "negative_cash_span list"

definition assess_leg :: "(account_id, unit) btree \<Rightarrow> perimeter_policy \<Rightarrow> date \<Rightarrow> watch \<Rightarrow> leg
    \<Rightarrow> (watch, perimeter_error) result" where
  "assess_leg financing policy date w l = (case leg_cash_effect l of
     None \<Rightarrow> Ok w
   | Some money \<Rightarrow>
       (let key = (l_account l, m_currency money) in
        and_then (ok_or (bt_checked_add key (m_amount money) (w_balances w))
                    (PerimeterOverflow (l_account l) (m_currency money))) (\<lambda>balances.
        let negative = (case bt_get balances key of None \<Rightarrow> False | Some slot \<Rightarrow> slot < 0) in
        Ok (case (negative, bt_get (w_open w) key) of
              (True, None) \<Rightarrow> w\<lparr>w_balances := balances, w_open := bt_insert key date (w_open w)\<rparr>
            | (False, Some start) \<Rightarrow>
                w\<lparr>w_balances := balances, w_open := bt_remove key (w_open w),
                  w_spans := w_spans w @ [span_classify key start (Some date) financing policy]\<rparr>
            | _ \<Rightarrow> w\<lparr>w_balances := balances\<rparr>))))"

definition assess_event :: "(account_id, unit) btree \<Rightarrow> perimeter_policy \<Rightarrow> watch \<Rightarrow> date \<times> event
    \<Rightarrow> (watch, perimeter_error) result" where
  "assess_event financing policy w dated = try_fold (assess_leg financing policy (fst dated)) w (e_legs (snd dated))"

definition dated_event :: "event \<Rightarrow> (date \<times> event, perimeter_error) result" where
  "dated_event e = and_then (ok_or (effective_date (e_dates e)) (EventWithoutDate (e_id e))) (\<lambda>date. Ok (date, e))"

definition is_margin_interest :: "event \<Rightarrow> bool" where
  "is_margin_interest e \<longleftrightarrow> (case e_kind e of Fee _ MarginInterest \<Rightarrow> True | _ \<Rightarrow> False)"

definition financing_of :: "(date \<times> event) list \<Rightarrow> (account_id, unit) btree" where
  "financing_of ordered =
     foldl (\<lambda>f (_, e). if is_margin_interest e then bt_insert (e_account e) () f else f) [] ordered"

definition assess_effective :: "event list \<Rightarrow> perimeter_policy \<Rightarrow> (perimeter_assessment, perimeter_error) result" where
  "assess_effective effective policy =
     and_then (try_map dated_event effective) (\<lambda>dated.
     let ordered = sort_by (\<lambda>l r. compare_for_replay (snd l) (snd r)) dated;
         financing = financing_of ordered in
     and_then (try_fold (assess_event financing policy) \<lparr>w_balances = [], w_open = [], w_spans = []\<rparr> ordered) (\<lambda>w.
     let spans = w_spans w @ map (\<lambda>(key, start). span_classify key start None financing policy) (w_open w) in
     Ok \<lparr>pa_policy = policy, pa_spans = sort_key (\<lambda>s. (ns_from s, ns_account s, ns_currency s)) spans,
         pa_financing = financing\<rparr>))"

definition assess :: "event list \<Rightarrow> perimeter_policy \<Rightarrow> (perimeter_assessment, perimeter_error) result" where
  "assess events policy = and_then (map_err PerimeterCorrection (resolve events)) (\<lambda>effective. assess_effective effective policy)"

section \<open>Spells below zero\<close>

text \<open>
  The specification, over the dated postings of one account and currency: every time the
  running balance falls below zero a spell begins, and it ends at the first later posting
  after which the balance is not negative, if there is one.
\<close>

fun recovery :: "int \<Rightarrow> (date \<times> int) list \<Rightarrow> date option" where
  "recovery b [] = None"
| "recovery b ((d, v) # xs) = (if b + v \<ge> 0 then Some d else recovery (b + v) xs)"

fun spells :: "int \<Rightarrow> (date \<times> int) list \<Rightarrow> (date \<times> date option) list" where
  "spells b [] = []"
| "spells b ((d, v) # xs) =
     (if b \<ge> 0 \<and> b + v < 0 then (d, recovery (b + v) xs) # spells (b + v) xs else spells (b + v) xs)"

definition amounts :: "(date \<times> int) list \<Rightarrow> int" where
  "amounts xs = sum_list (map snd xs)"

lemma amounts_simps [simp]:
  "amounts [] = 0" "amounts (x # xs) = snd x + amounts xs" "amounts (xs @ ys) = amounts xs + amounts ys"
  by (simp_all add: amounts_def)

lemma recovery_snoc:
  "b < 0 \<Longrightarrow> recovery b (xs @ [(d, v)]) =
     (case recovery b xs of Some r \<Rightarrow> Some r | None \<Rightarrow> if b + amounts xs + v \<ge> 0 then Some d else None)"
  by (induction b xs rule: recovery.induct) (auto simp: algebra_simps)

lemma spells_snoc:
  "spells b (xs @ [(d, v)]) =
     map (\<lambda>(f, r). (f, if r = None \<and> b + amounts xs + v \<ge> 0 then Some d else r)) (spells b xs) @
     (if b + amounts xs \<ge> 0 \<and> b + amounts xs + v < 0 then [(d, None)] else [])"
  by (induction b xs rule: spells.induct) (auto simp: recovery_snoc algebra_simps split: option.split)

lemma recovery_None: "b < 0 \<Longrightarrow> recovery b xs = None \<Longrightarrow> b + amounts xs < 0"
  by (induction b xs rule: recovery.induct) (auto simp: algebra_simps split: if_splits)

lemma spells_open: "(f, None) \<in> set (spells b xs) \<Longrightarrow> b + amounts xs < 0"
proof (induction b xs rule: spells.induct)
  case (2 b d v xs)
  then show ?case using recovery_None [of "b + v" xs] by (auto simp: algebra_simps split: if_splits)
qed simp

lemma spells_open_unique: "(f, None) \<in> set (spells b xs) \<Longrightarrow> (g, None) \<in> set (spells b xs) \<Longrightarrow> f = g"
proof (induction xs rule: rev_induct)
  case (snoc x xs)
  obtain d v where x: "x = (d, v)" by (cases x)
  show ?case
    using snoc spells_open [of f b xs] spells_open [of g b xs] spells_open [of f b "xs @ [x]"]
    by (auto simp: x spells_snoc split: if_splits)
qed simp

lemma spells_open_iff: "0 \<le> b \<Longrightarrow> (\<exists>f. (f, None) \<in> set (spells b xs)) \<longleftrightarrow> b + amounts xs < 0"
proof (induction xs rule: rev_induct)
  case (snoc x xs)
  obtain d v where x: "x = (d, v)" by (cases x)
  show ?case
    using snoc spells_open [of _ b xs] by (auto simp: x spells_snoc split: if_splits)
qed simp

section \<open>What the replay watches\<close>

definition dated_legs :: "(date \<times> event) list \<Rightarrow> (date \<times> leg) list" where
  "dated_legs ordered = concat (map (\<lambda>(d, e). map (Pair d) (e_legs e)) ordered)"

fun postings_to :: "account_id \<times> currency_code \<Rightarrow> (date \<times> leg) list \<Rightarrow> (date \<times> int) list" where
  "postings_to k [] = []"
| "postings_to k ((d, l) # ls) = (case leg_cash_effect l of
     Some m \<Rightarrow> if (l_account l, m_currency m) = k then (d, m_amount m) # postings_to k ls else postings_to k ls
   | None \<Rightarrow> postings_to k ls)"

lemma postings_to_append [simp]: "postings_to k (xs @ ys) = postings_to k xs @ postings_to k ys"
  by (induction k xs rule: postings_to.induct) (auto split: option.split)

lemma amounts_postings: "amounts (postings_to (a, c) ls) = effect_on (\<lambda>x. x = a) c (map snd ls)"
  by (induction ls) (auto split: option.splits)

lemma assess_fold_legs:
  "try_fold (assess_event financing policy) w ordered =
     try_fold (\<lambda>w (d, l). assess_leg financing policy d w l) w (dated_legs ordered)"
  by (induction ordered arbitrary: w)
     (auto simp: dated_legs_def assess_event_def try_fold_append try_fold_map)

text \<open>The watch after a list of legs, in terms of the spells of every account and currency.\<close>

definition watched :: "(account_id, unit) btree \<Rightarrow> perimeter_policy \<Rightarrow> (date \<times> leg) list \<Rightarrow> watch \<Rightarrow> bool" where
  "watched financing policy ls w \<longleftrightarrow>
     bt_invar (w_open w) \<and>
     (\<forall>k. (case bt_get (w_balances w) k of None \<Rightarrow> 0 | Some v \<Rightarrow> v) = amounts (postings_to k ls)) \<and>
     (\<forall>k f. bt_get (w_open w) k = Some f \<longleftrightarrow> (f, None) \<in> set (spells 0 (postings_to k ls))) \<and>
     (\<forall>s. s \<in> set (w_spans w) \<longleftrightarrow>
        (\<exists>k f r. (f, Some r) \<in> set (spells 0 (postings_to k ls)) \<and> s = span_classify k f (Some r) financing policy))"

lemma spells_open_snoc:
  "(f, None) \<in> set (spells 0 (xs @ [(d, v)])) \<longleftrightarrow>
     amounts xs + v < 0 \<and> ((f, None) \<in> set (spells 0 xs) \<or> (amounts xs \<ge> 0 \<and> f = d))"
  by (auto simp: spells_snoc split: if_splits)

lemma spells_closed_snoc:
  "(f, Some r) \<in> set (spells 0 (xs @ [(d, v)])) \<longleftrightarrow>
     (f, Some r) \<in> set (spells 0 xs) \<or> ((f, None) \<in> set (spells 0 xs) \<and> amounts xs + v \<ge> 0 \<and> r = d)"
  by (auto simp: spells_snoc split: if_splits) force+

lemma watchedD:
  assumes "watched financing policy ls w"
  shows "bt_invar (w_open w)"
    and "(case bt_get (w_balances w) k of None \<Rightarrow> 0 | Some v \<Rightarrow> v) = amounts (postings_to k ls)"
    and "bt_get (w_open w) k = Some f \<longleftrightarrow> (f, None) \<in> set (spells 0 (postings_to k ls))"
    and "s \<in> set (w_spans w) \<longleftrightarrow>
        (\<exists>k f r. (f, Some r) \<in> set (spells 0 (postings_to k ls)) \<and> s = span_classify k f (Some r) financing policy)"
  using assms unfolding watched_def by blast+

lemma assess_leg_watched:
  assumes w: "watched financing policy ls w" and step: "assess_leg financing policy d w l = Ok w'"
  shows "watched financing policy (ls @ [(d, l)]) w'"
proof (cases "leg_cash_effect l")
  case None
  then show ?thesis using assms by (simp add: assess_leg_def watched_def)
next
  case (Some m)
  let ?key = "(l_account l, m_currency m)" and ?v = "m_amount m"
  let ?xs = "postings_to ?key ls"
  note old = watchedD [OF w]
  have new: "postings_to k (ls @ [(d, l)]) = (if k = ?key then ?xs @ [(d, ?v)] else postings_to k ls)" for k
    using Some by auto
  define balances where "balances = bt_insert ?key (amounts ?xs + ?v) (w_balances w)"
  have add: "bt_checked_add ?key ?v (w_balances w) = Some balances"
    using step Some old(2) [of ?key]
    by (auto simp: assess_leg_def Let_def bt_checked_add_Some balances_def)
  have w': "w' = (if amounts ?xs + ?v < 0
      then (case bt_get (w_open w) ?key of
              None \<Rightarrow> w\<lparr>w_balances := balances, w_open := bt_insert ?key d (w_open w)\<rparr>
            | Some start \<Rightarrow> w\<lparr>w_balances := balances\<rparr>)
      else (case bt_get (w_open w) ?key of
              None \<Rightarrow> w\<lparr>w_balances := balances\<rparr>
            | Some start \<Rightarrow> w\<lparr>w_balances := balances, w_open := bt_remove ?key (w_open w),
                  w_spans := w_spans w @ [span_classify ?key start (Some d) financing policy]\<rparr>))"
    using step Some add by (auto simp: assess_leg_def Let_def balances_def split: option.splits)
  have bal: "(case bt_get (w_balances w') k of None \<Rightarrow> 0 | Some v \<Rightarrow> v) = amounts (postings_to k (ls @ [(d, l)]))" for k
    unfolding new using old(2) [of k] by (auto simp: w' balances_def split: option.split)
  have inv: "bt_invar (w_open w')" using old(1) by (auto simp: w' split: option.split)
  have "amounts ?xs < 0" if "bt_get (w_open w) ?key = Some f" for f
    using that old(3) [of ?key f] spells_open [of f 0 ?xs] by simp
  moreover have "amounts ?xs \<ge> 0" if "bt_get (w_open w) ?key = None"
    using that old(3) [of ?key] spells_open_iff [of 0 ?xs] by (metis add_0 not_less option.distinct(1) order_refl)
  ultimately have opened: "bt_get (w_open w') k = Some f \<longleftrightarrow> (f, None) \<in> set (spells 0 (postings_to k (ls @ [(d, l)])))" for k f
    unfolding new using old(3) [of k f] old(3) [of ?key f]
    by (cases "bt_get (w_open w) ?key") (auto simp: w' spells_open_snoc)
  have spans: "s \<in> set (w_spans w') \<longleftrightarrow>
      (\<exists>k f r. (f, Some r) \<in> set (spells 0 (postings_to k (ls @ [(d, l)]))) \<and> s = span_classify k f (Some r) financing policy)" for s
  proof -
    have "(f, Some r) \<in> set (spells 0 (postings_to k (ls @ [(d, l)]))) \<longleftrightarrow>
        (f, Some r) \<in> set (spells 0 (postings_to k ls)) \<or>
        (k = ?key \<and> (f, None) \<in> set (spells 0 ?xs) \<and> amounts ?xs + ?v \<ge> 0 \<and> r = d)" for k f r
      unfolding new using spells_closed_snoc [of f r ?xs d ?v] by simp
    then have "(\<exists>k f r. (f, Some r) \<in> set (spells 0 (postings_to k (ls @ [(d, l)]))) \<and> s = span_classify k f (Some r) financing policy) \<longleftrightarrow>
        s \<in> set (w_spans w) \<or>
        (\<exists>f. bt_get (w_open w) ?key = Some f \<and> amounts ?xs + ?v \<ge> 0 \<and> s = span_classify ?key f (Some d) financing policy)"
      unfolding old(3) old(4) by blast
    then show ?thesis by (auto simp: w' split: option.splits)
  qed
  show ?thesis unfolding watched_def using inv bal opened spans by blast
qed

lemma assess_legs_watched:
  assumes "try_fold (\<lambda>w (d, l). assess_leg financing policy d w l) \<lparr>w_balances = [], w_open = [], w_spans = []\<rparr> ls = Ok w"
  shows "watched financing policy ls w"
  using assms
proof (induction ls arbitrary: w rule: rev_induct)
  case Nil
  then show ?case by (auto simp: watched_def)
next
  case (snoc x ls)
  then show ?case by (cases x) (auto simp: try_fold_snoc_Ok intro: assess_leg_watched)
qed

section \<open>The assessment is the spells\<close>

definition with_date :: "event \<Rightarrow> date \<times> event" where
  "with_date e = (the (effective_date (e_dates e)), e)"

lemma dated_events: "try_map dated_event es = Ok dated \<Longrightarrow>
    list_all (\<lambda>e. effective_date (e_dates e) \<noteq> None) es \<and> dated = map with_date es"
  by (induction es arbitrary: dated) (auto simp: dated_event_def with_date_def)

lemma dated_legs_of: "map snd (dated_legs (map with_date es)) = journal_legs es"
  by (induction es) (auto simp: dated_legs_def with_date_def comp_def)

lemma financing_of_get:
  "bt_get (financing_of ordered) a \<noteq> None \<longleftrightarrow> (\<exists>e \<in> snd ` set ordered. is_margin_interest e \<and> e_account e = a)"
proof -
  have "bt_get (foldl (\<lambda>f (_, e). if is_margin_interest e then bt_insert (e_account e) () f else f) m ordered) a \<noteq> None \<longleftrightarrow>
      bt_get m a \<noteq> None \<or> (\<exists>e \<in> snd ` set ordered. is_margin_interest e \<and> e_account e = a)" for m
    by (induction ordered arbitrary: m) (auto split: if_splits)
  then show ?thesis by (simp add: financing_of_def)
qed

definition replayed_spells :: "event list \<Rightarrow> account_id \<Rightarrow> currency_code \<Rightarrow> (date \<times> date option) list" where
  "replayed_spells es a c = spells 0 (postings_to (a, c) (dated_legs (map with_date es)))"

lemma assess_Ok:
  assumes "assess events policy = Ok A"
  shows "\<exists>es. resolve events = Ok es \<and> list_all (\<lambda>e. effective_date (e_dates e) \<noteq> None) es \<and>
    pa_financing A = financing_of (map with_date es) \<and>
    (\<forall>s. s \<in> set (pa_spans A) \<longleftrightarrow> (\<exists>a c f r. (f, r) \<in> set (replayed_spells es a c) \<and>
        s = span_classify (a, c) f r (pa_financing A) policy))"
proof -
  obtain es dated where es: "resolve events = Ok es" "try_map dated_event es = Ok dated"
    and eff: "assess_effective es policy = Ok A"
    using assms by (auto simp: assess_def assess_effective_def)
  note dated = dated_events [OF es(2)]
  have "sorted_wrt (\<lambda>l r. compare_for_replay (snd l) (snd r) \<noteq> Greater) (map with_date es)"
    using resolve_sorted [OF es(1)] by (simp add: sorted_wrt_map with_date_def)
  then have ordered: "sort_by (\<lambda>l r. compare_for_replay (snd l) (snd r)) dated = map with_date es"
    using dated by (simp add: sort_by_sorted)
  let ?fin = "financing_of (map with_date es)"
  obtain w where w: "try_fold (assess_event ?fin policy) \<lparr>w_balances = [], w_open = [], w_spans = []\<rparr> (map with_date es) = Ok w"
    and A: "pa_financing A = ?fin"
      "set (pa_spans A) = set (w_spans w) \<union> (\<lambda>(key, start). span_classify key start None ?fin policy) ` set (w_open w)"
    using eff es(2) ordered by (auto simp: assess_effective_def Let_def)
  note v = watchedD [OF assess_legs_watched [OF w [unfolded assess_fold_legs]]]
  have entries: "(k, f) \<in> set (w_open w) \<longleftrightarrow> (f, None) \<in> set (spells 0 (postings_to k (dated_legs (map with_date es))))" for k f
    using v(1) v(3) [of k f] bt.get_entries by metis
  have opened: "s \<in> (\<lambda>(key, start). span_classify key start None ?fin policy) ` set (w_open w) \<longleftrightarrow>
      (\<exists>a c f. (f, None) \<in> set (replayed_spells es a c) \<and> s = span_classify (a, c) f None ?fin policy)" for s
    unfolding replayed_spells_def entries [symmetric] by (auto simp: image_iff) force
  have closed: "s \<in> set (w_spans w) \<longleftrightarrow>
      (\<exists>a c f r. (f, Some r) \<in> set (replayed_spells es a c) \<and> s = span_classify (a, c) f (Some r) ?fin policy)" for s
    unfolding replayed_spells_def v(4) by simp
  have "s \<in> set (pa_spans A) \<longleftrightarrow> (\<exists>a c f r. (f, r) \<in> set (replayed_spells es a c) \<and>
        s = span_classify (a, c) f r (pa_financing A) policy)" for s
  proof -
    have "s \<in> set (pa_spans A) \<longleftrightarrow>
      (\<exists>a c f r. (f, Some r) \<in> set (replayed_spells es a c) \<and> s = span_classify (a, c) f (Some r) ?fin policy) \<or>
      (\<exists>a c f. (f, None) \<in> set (replayed_spells es a c) \<and> s = span_classify (a, c) f None ?fin policy)"
      unfolding A(2) closed [symmetric] opened [symmetric] by simp
    also have "\<dots> \<longleftrightarrow> (\<exists>a c f r. (f, r) \<in> set (replayed_spells es a c) \<and> s = span_classify (a, c) f r ?fin policy)"
      by (simp add: split_option_ex) blast
    finally show ?thesis unfolding A(1) .
  qed
  then show ?thesis using es(1) dated A(1) by (intro exI [of _ es]) simp
qed

lemma span_classify_simps [simp]:
  "ns_account (span_classify k f r fin policy) = fst k"
  "ns_currency (span_classify k f r fin policy) = snd k"
  "ns_from (span_classify k f r fin policy) = f"
  "ns_resolved (span_classify k f r fin policy) = r"
  by (simp_all add: span_classify_def)

lemma span_blocks:
  "blocks_reports (ns_classification (span_classify k f r fin policy)) \<longleftrightarrow>
     bt_get fin (fst k) \<noteq> None \<or> (\<forall>d. r = Some d \<longrightarrow> d - f > int (settlement_window_days policy))"
  by (auto simp: span_classify_def split: option.splits)

text \<open>
  (C11) The perimeter reports the spells of negative cash and nothing else. Its spans are
  exactly the spells, over the effective journal in replay order, in which the running cash
  balance of an account in a currency is below zero. A span is left unresolved exactly where
  the cash balance of the whole journal is negative; an account is marked as financed exactly
  when an effective margin interest fee is charged to it; and its period reports are blocked
  exactly when it has a spell and it is financed, or the spell does not end within the
  settlement window.
\<close>

theorem perimeter_spans_are_spells:
  assumes "assess events policy = Ok A"
  shows "\<exists>es. resolve events = Ok es \<and>
    set (pa_spans A) = {span_classify (a, c) f r (pa_financing A) policy |a c f r. (f, r) \<in> set (replayed_spells es a c)} \<and>
    (\<forall>a c. (\<exists>s \<in> set (pa_spans A). ns_account s = a \<and> ns_currency s = c \<and> ns_resolved s = None) \<longleftrightarrow>
       effect_on (\<lambda>x. x = a) c (journal_legs es) < 0) \<and>
    (\<forall>a. financing_present A a \<longleftrightarrow> (\<exists>e \<in> set es. is_margin_interest e \<and> e_account e = a)) \<and>
    (\<forall>a. blocks_period_reports A a \<longleftrightarrow> (\<exists>c f r. (f, r) \<in> set (replayed_spells es a c) \<and>
       (financing_present A a \<or> (\<forall>d. r = Some d \<longrightarrow> d - f > int (settlement_window_days policy)))))"
proof -
  obtain es where es: "resolve events = Ok es" "list_all (\<lambda>e. effective_date (e_dates e) \<noteq> None) es"
    "pa_financing A = financing_of (map with_date es)"
    "\<And>s. s \<in> set (pa_spans A) \<longleftrightarrow> (\<exists>a c f r. (f, r) \<in> set (replayed_spells es a c) \<and>
        s = span_classify (a, c) f r (pa_financing A) policy)" using assess_Ok [OF assms] by auto
  have "(\<exists>s \<in> set (pa_spans A). ns_account s = a \<and> ns_currency s = c \<and> ns_resolved s = None) \<longleftrightarrow>
       effect_on (\<lambda>x. x = a) c (journal_legs es) < 0" for a c
  proof -
    have "(\<exists>s \<in> set (pa_spans A). ns_account s = a \<and> ns_currency s = c \<and> ns_resolved s = None) \<longleftrightarrow>
        (\<exists>f. (f, None) \<in> set (replayed_spells es a c))"
      unfolding es(4) Bex_def by fastforce
    also have "\<dots> \<longleftrightarrow> amounts (postings_to (a, c) (dated_legs (map with_date es))) < 0"
      unfolding replayed_spells_def using spells_open_iff [of 0] by simp
    finally show ?thesis by (simp add: amounts_postings dated_legs_of)
  qed
  moreover have "financing_present A a \<longleftrightarrow> (\<exists>e \<in> set es. is_margin_interest e \<and> e_account e = a)" for a
    unfolding financing_present_def es(3) financing_of_get by (auto simp: with_date_def)
  moreover have "blocks_period_reports A a \<longleftrightarrow> (\<exists>c f r. (f, r) \<in> set (replayed_spells es a c) \<and>
       (financing_present A a \<or> (\<forall>d. r = Some d \<longrightarrow> d - f > int (settlement_window_days policy))))" for a
  proof -
    have "blocks_period_reports A a \<longleftrightarrow>
        (\<exists>s. s \<in> set (pa_spans A) \<and> ns_account s = a \<and> blocks_reports (ns_classification s))"
      by (auto simp: blocks_period_reports_def list_ex_iff)
    also have "\<dots> \<longleftrightarrow> (\<exists>c f r. (f, r) \<in> set (replayed_spells es a c) \<and>
        blocks_reports (ns_classification (span_classify (a, c) f r (pa_financing A) policy)))" (is "?L \<longleftrightarrow> ?R")
    proof
      assume ?L
      then obtain a' c f r where "(f, r) \<in> set (replayed_spells es a' c)" "a' = a"
        "blocks_reports (ns_classification (span_classify (a', c) f r (pa_financing A) policy))"
        unfolding es(4) by fastforce
      then show ?R by blast
    next
      assume ?R
      then obtain c f r where s: "(f, r) \<in> set (replayed_spells es a c)"
        "blocks_reports (ns_classification (span_classify (a, c) f r (pa_financing A) policy))" by blast
      then have "span_classify (a, c) f r (pa_financing A) policy \<in> set (pa_spans A)" unfolding es(4) by blast
      then show ?L using s(2) by (intro exI [of _ "span_classify (a, c) f r (pa_financing A) policy"]) simp
    qed
    finally show ?thesis unfolding span_blocks financing_present_def by simp
  qed
  moreover have "set (pa_spans A) =
      {span_classify (a, c) f r (pa_financing A) policy |a c f r. (f, r) \<in> set (replayed_spells es a c)}"
    unfolding set_eq_iff es(4) mem_Collect_eq by (simp only: conj_commute simp_thms)
  ultimately show ?thesis using es(1) by (intro exI [of _ es] conjI allI) simp_all
qed

text \<open>An account overdrawn by a margin fee on the first day and refilled on the third.\<close>

definition sample_overdraft :: "event list" where
  "sample_overdraft =
     [sample_of (Fee (money_new (- 20) Rub) MarginInterest) [leg_fee (AccountId 1) (money_new (- 20) Rub)],
      (sample_of (CashIn (money_new 700 Rub)) [leg_cash (AccountId 1) (money_new 700 Rub)])
        \<lparr>e_id := EventId 2, e_order := order_new 3 2, e_dates := dates_for_cash 3\<rparr>]"

lemma sample_overdraft_resolve: "resolve sample_overdraft = Ok sample_overdraft"
  by (simp add: sample_overdraft_def resolve_def resolve_with_supersession_def resolution_from_events_def relations_of_def
      resolve_supersession_def resolve_supersession_inner_def insert_id_def apply_relation_def
      supersession_stands_def sample_of_def bt_get_def sort_by_def compare_for_replay_def order_new_def cmp_of_def
      cmp_some_first_def provenance_new_def)

lemmas sample_overdraft_eval = sample_overdraft_def sample_of_def dates_for_cash_def dates_empty_def effective_date_def
  or_else_def leg_fee_def leg_cash_def leg_cash_effect_def money_new_def is_margin_interest_def

theorem perimeter_spans_are_spells_witness:
  "\<exists>A. assess sample_overdraft perimeter_policy_default = Ok A \<and> blocks_period_reports A (AccountId 1) \<and>
     \<not> (\<exists>s \<in> set (pa_spans A). ns_account s = AccountId 1 \<and> ns_currency s = Rub \<and> ns_resolved s = None)"
proof -
  have "\<exists>A. assess sample_overdraft perimeter_policy_default = Ok A"
    unfolding assess_def sample_overdraft_resolve
    by (simp add: assess_effective_def dated_event_def sample_overdraft_eval financing_of_def
        sort_by_def compare_for_replay_def order_new_def cmp_of_def cmp_some_first_def
        assess_event_def assess_leg_def bt_checked_add_def pm_defs to_i64_def i64_defs bt_get_def Let_def)
  then obtain A where A: "assess sample_overdraft perimeter_policy_default = Ok A" ..
  let ?es = sample_overdraft
  have spells: "(1, Some 3) \<in> set (replayed_spells ?es (AccountId 1) Rub)"
    by (simp add: replayed_spells_def dated_legs_def with_date_def sample_overdraft_eval)
  have fee: "\<exists>e \<in> set ?es. is_margin_interest e \<and> e_account e = AccountId 1"
    by (simp add: sample_overdraft_eval)
  have positive: "effect_on (\<lambda>x. x = AccountId 1) Rub (journal_legs ?es) = 680"
    by (simp add: sample_overdraft_eval)
  note p = perimeter_spans_are_spells [OF A, unfolded sample_overdraft_resolve result.inject simp_thms, THEN conjunct2]
  note facts = p [THEN conjunct1] p [THEN conjunct2, THEN conjunct1] p [THEN conjunct2, THEN conjunct2]
  have "blocks_period_reports A (AccountId 1)" unfolding facts(3) [rule_format] facts(2) [rule_format] using spells fee by blast
  moreover have "\<not> (\<exists>s \<in> set (pa_spans A). ns_account s = AccountId 1 \<and> ns_currency s = Rub \<and> ns_resolved s = None)"
    unfolding facts(1) [rule_format] positive by simp
  ultimately show ?thesis using A by blast
qed

end
