(* ===== verification/Instrument.thy ===== *)
theory Instrument
  imports EventModel
begin

text \<open>
  The instrument catalogue, \<open>instrument.rs\<close>: kinds, alias namespaces and lineage reasons with
  their codes, currency roles and the interval in which an alias is valid.
\<close>

datatype instrument_kind =
    Share | DepositaryReceipt | Bond | Etf | MutualFund | Currency | Crypto | RealEstate | PrivateShare | Loan

definition instrument_kind_all :: "instrument_kind list" where
  "instrument_kind_all =
     [Share, DepositaryReceipt, Bond, Etf, MutualFund, Currency, Crypto, RealEstate, PrivateShare, Loan]"

fun instrument_kind_code :: "instrument_kind \<Rightarrow> string" where
  "instrument_kind_code Share = ''share''"
| "instrument_kind_code DepositaryReceipt = ''depositary_receipt''"
| "instrument_kind_code Bond = ''bond''"
| "instrument_kind_code Etf = ''etf''"
| "instrument_kind_code MutualFund = ''mutual_fund''"
| "instrument_kind_code Currency = ''currency''"
| "instrument_kind_code Crypto = ''crypto''"
| "instrument_kind_code RealEstate = ''real_estate''"
| "instrument_kind_code PrivateShare = ''private_share''"
| "instrument_kind_code Loan = ''loan''"

definition instrument_kind_from_code :: "string \<Rightarrow> instrument_kind option" where
  "instrument_kind_from_code c = List.find (\<lambda>k. instrument_kind_code k = c) instrument_kind_all"

datatype alias_namespace = Isin | MoexSecid | Ticker | Figi | BrokerCode

definition alias_namespace_all :: "alias_namespace list" where
  "alias_namespace_all = [Isin, MoexSecid, Ticker, Figi, BrokerCode]"

fun alias_namespace_code :: "alias_namespace \<Rightarrow> string" where
  "alias_namespace_code Isin = ''isin''"
| "alias_namespace_code MoexSecid = ''moex_secid''"
| "alias_namespace_code Ticker = ''ticker''"
| "alias_namespace_code Figi = ''figi''"
| "alias_namespace_code BrokerCode = ''broker_code''"

definition alias_namespace_from_code :: "string \<Rightarrow> alias_namespace option" where
  "alias_namespace_from_code c = List.find (\<lambda>k. alias_namespace_code k = c) alias_namespace_all"

datatype lineage_reason = LReplacement | LConversion | LMerger | LSpinOff

definition lineage_reason_all :: "lineage_reason list" where
  "lineage_reason_all = [LReplacement, LConversion, LMerger, LSpinOff]"

fun lineage_reason_code :: "lineage_reason \<Rightarrow> string" where
  "lineage_reason_code LReplacement = ''replacement''"
| "lineage_reason_code LConversion = ''conversion''"
| "lineage_reason_code LMerger = ''merger''"
| "lineage_reason_code LSpinOff = ''spin_off''"

definition lineage_reason_from_code :: "string \<Rightarrow> lineage_reason option" where
  "lineage_reason_from_code c = List.find (\<lambda>k. lineage_reason_code k = c) lineage_reason_all"

record currency_roles =
  cr_denomination :: currency_code
  cr_settlement :: currency_code
  cr_quote :: currency_code

definition roles_uniform :: "currency_code \<Rightarrow> currency_roles" where
  "roles_uniform c = \<lparr>cr_denomination = c, cr_settlement = c, cr_quote = c\<rparr>"

record alias_interval =
  ai_valid_from :: date
  ai_valid_to :: "date option"

definition interval_covers :: "alias_interval \<Rightarrow> date \<Rightarrow> bool" where
  "interval_covers i on \<longleftrightarrow>
     ai_valid_from i \<le> on \<and> (case ai_valid_to i of None \<Rightarrow> True | Some end_date \<Rightarrow> on < end_date)"

record lineage =
  ln_parent :: instrument_id
  ln_reason :: lineage_reason

section \<open>Codes\<close>

text \<open>
  The contract of a vocabulary: its list of values is complete and no two values share a
  code. A client that searches the list for a code then inverts the code function.
\<close>

locale vocabulary =
  fixes all :: "'v list" and code :: "'v \<Rightarrow> string"
  assumes complete: "v \<in> set all" and code_inj: "code v = code w \<Longrightarrow> v = w"
begin

lemma find_code: "List.find (\<lambda>v. code v = c) all = Some v \<longleftrightarrow> code v = c"
proof
  assume c: "code v = c"
  obtain w where "List.find (\<lambda>v. code v = c) all = Some w"
    using complete [of v] c by (cases "List.find (\<lambda>v. code v = c) all") (auto simp: find_None_iff)
  moreover have "code w = c" using calculation by (auto simp: find_Some_iff)
  ultimately show "List.find (\<lambda>v. code v = c) all = Some v" using c code_inj by metis
qed (auto simp: find_Some_iff)

end

interpretation kinds: vocabulary instrument_kind_all instrument_kind_code
proof
  show "v \<in> set instrument_kind_all" for v by (cases v) (simp_all add: instrument_kind_all_def)
  show "v = w" if "instrument_kind_code v = instrument_kind_code w" for v w
    using that by (cases v; cases w) simp_all
qed

interpretation namespaces: vocabulary alias_namespace_all alias_namespace_code
proof
  show "v \<in> set alias_namespace_all" for v by (cases v) (simp_all add: alias_namespace_all_def)
  show "v = w" if "alias_namespace_code v = alias_namespace_code w" for v w
    using that by (cases v; cases w) simp_all
qed

interpretation reasons: vocabulary lineage_reason_all lineage_reason_code
proof
  show "v \<in> set lineage_reason_all" for v by (cases v) (simp_all add: lineage_reason_all_def)
  show "v = w" if "lineage_reason_code v = lineage_reason_code w" for v w
    using that by (cases v; cases w) simp_all
qed

text \<open>A code read back gives the value it was written from, and no other code is read.\<close>

lemma catalogue_codes:
  "instrument_kind_from_code c = Some k \<longleftrightarrow> instrument_kind_code k = c"
  "alias_namespace_from_code c = Some n \<longleftrightarrow> alias_namespace_code n = c"
  "lineage_reason_from_code c = Some r \<longleftrightarrow> lineage_reason_code r = c"
  unfolding instrument_kind_from_code_def alias_namespace_from_code_def lineage_reason_from_code_def
  by (rule kinds.find_code namespaces.find_code reasons.find_code)+

text \<open>Adjoining intervals of an alias do not overlap: a day is in one of them only.\<close>

lemma interval_handover:
  "ai_valid_to a = Some d \<Longrightarrow> ai_valid_from b = d \<Longrightarrow> \<not> (interval_covers a on \<and> interval_covers b on)"
  by (auto simp: interval_covers_def)

end
