(* ===== verification/Bond.thy ===== *)
theory Bond
  imports Instrument Income
begin

text \<open>
  Bonds: the schedule of \<open>bond/mod.rs\<close>, offer windows and choices (\<open>bond/offer.rs\<close>), finality of
  principal returns (\<open>bond/finality.rs\<close>), remaining principal (\<open>bond/principal.rs\<close>), the next
  posting (\<open>bond/posting.rs\<close>) and accrued interest (\<open>rules/accrued_interest.rs\<close>).
\<close>

section \<open>The schedule\<close>

record default_flags =
  df_declared :: bool
  df_technical :: bool

record accrual_period =
  ap_period_start :: date
  ap_accrual_end :: date
  ap_payment_date :: date
  ap_record_date :: "date option"
  ap_coupon_per_unit :: "per_unit_amount option"

record principal_return =
  pr_repayment_date :: date
  pr_share_percent :: decimal

datatype offer_right = HolderPut | HolderPutSettled | IssuerCall | OtherRight

record offer_window_terms =
  ow_window :: offer_window_id
  ow_right :: offer_right
  ow_execution_date :: date
  ow_submission_start :: "date option"
  ow_submission_end :: "date option"
  ow_price_percent :: "decimal option"

datatype schedule_completeness = Validated | Incomplete string | CompletenessUnknown

record bond_schedule =
  bs_periods :: "accrual_period list"
  bs_principal_returns :: "principal_return list"
  bs_initial_principal :: "per_unit_amount option"
  bs_offer_windows :: "offer_window_terms list"
  bs_completeness :: schedule_completeness
  bs_default_flags :: "default_flags option"
  bs_currency_roles :: "currency_roles option"

definition dec_hundred :: decimal where
  "dec_hundred = Decimal 100 0"

section \<open>Offer windows and choices\<close>

datatype offer_window_error = AmbiguousWindow date | UnknownRight string

definition right_from_dictionary :: "string \<Rightarrow> (offer_right, offer_window_error) result" where
  "right_from_dictionary meaning =
     (if meaning = ''put_option'' then Ok HolderPut
      else if meaning = ''put_option_settled'' then Ok HolderPutSettled
      else if meaning = ''issuer_call'' then Ok IssuerCall
      else if meaning = ''other'' then Ok OtherRight
      else Err (UnknownRight meaning))"

definition window_step :: "(date, unit) btree \<Rightarrow> offer_window_terms \<Rightarrow> ((date, unit) btree, offer_window_error) result" where
  "window_step dates w =
     (if bt_get dates (ow_execution_date w) \<noteq> None then Err (AmbiguousWindow (ow_execution_date w))
      else Ok (bt_insert (ow_execution_date w) () dates))"

definition validate_unique_windows :: "offer_window_terms list \<Rightarrow> (unit, offer_window_error) result" where
  "validate_unique_windows windows = map_ok (\<lambda>_. ()) (try_fold window_step [] windows)"

datatype offer_choice = HoldToMaturity | ExerciseAtOffer offer_window_id

datatype offer_choice_error =
    UnknownWindow offer_window_id
  | SettlementTermsUnknown offer_window_id
  | RightIsNotHolders offer_window_id
  | RightNotModelled offer_window_id

definition window_choice :: "date \<Rightarrow> offer_window_terms \<Rightarrow> offer_choice option" where
  "window_choice as_of terms = (case ow_right terms of
     HolderPut \<Rightarrow> if ow_price_percent terms \<noteq> None \<and> as_of \<le> ow_execution_date terms
                  then Some (ExerciseAtOffer (ow_window terms)) else None
   | HolderPutSettled \<Rightarrow> None
   | IssuerCall \<Rightarrow> None
   | OtherRight \<Rightarrow> None)"

definition available_choices :: "bond_schedule \<Rightarrow> date \<Rightarrow> offer_choice list" where
  "available_choices schedule as_of = HoldToMaturity # List.map_filter (window_choice as_of) (bs_offer_windows schedule)"

definition validate_choice :: "offer_choice \<Rightarrow> bond_schedule \<Rightarrow> (unit, offer_choice_error) result" where
  "validate_choice choice schedule = (case choice of
     HoldToMaturity \<Rightarrow> Ok ()
   | ExerciseAtOffer window \<Rightarrow>
       and_then (ok_or (List.find (\<lambda>terms. ow_window terms = window) (bs_offer_windows schedule)) (UnknownWindow window)) (\<lambda>terms.
       case ow_right terms of
         HolderPut \<Rightarrow> if ow_price_percent terms = None then Err (SettlementTermsUnknown window) else Ok ()
       | HolderPutSettled \<Rightarrow> Err (RightIsNotHolders window)
       | IssuerCall \<Rightarrow> Err (RightIsNotHolders window)
       | OtherRight \<Rightarrow> Err (RightNotModelled window)))"

section \<open>Principal\<close>

datatype principal_return_finality = Final | Partial | FinalityUnknown

fun finality_loop :: "deps \<Rightarrow> decimal \<Rightarrow> principal_return list
    \<Rightarrow> ((principal_return \<times> principal_return_finality) list, numeric_error) result" where
  "finality_loop X acc [] = Ok []"
| "finality_loop X acc (item # rest) =
     and_then (dec_checked_add X acc (pr_share_percent item)) (\<lambda>acc'.
     and_then (finality_loop X acc' rest) (\<lambda>marked.
     Ok ((item, if d_eq X acc' dec_hundred then Final else Partial) # marked)))"

definition finality_of :: "deps \<Rightarrow> principal_return list
    \<Rightarrow> ((principal_return \<times> principal_return_finality) list, numeric_error) result" where
  "finality_of X returns =
     and_then (dec_sum X (map pr_share_percent returns)) (\<lambda>total_shares.
     if \<not> d_eq X total_shares dec_hundred then Ok (map (\<lambda>r. (r, FinalityUnknown)) returns)
     else finality_loop X dec_zero (sort_key pr_repayment_date returns))"

datatype remaining_principal_error =
    PrincipalUnknown | RemainingNotValidated | ShareNotPositive | PrefixAboveHundred | RemainingNumeric numeric_error

fun repaid_loop :: "deps \<Rightarrow> date \<Rightarrow> decimal \<Rightarrow> principal_return list \<Rightarrow> (decimal, remaining_principal_error) result" where
  "repaid_loop X on repaid [] = Ok repaid"
| "repaid_loop X on repaid (item # rest) =
     (if on < pr_repayment_date item then repaid_loop X on repaid rest
      else if \<not> dec_is_positive X (pr_share_percent item) then Err ShareNotPositive
      else and_then (map_err RemainingNumeric (dec_checked_add X repaid (pr_share_percent item))) (\<lambda>repaid'.
           repaid_loop X on repaid' rest))"

definition remaining_principal :: "deps \<Rightarrow> bond_schedule \<Rightarrow> date \<Rightarrow> (per_unit_amount, remaining_principal_error) result" where
  "remaining_principal X schedule on =
     (if bs_completeness schedule \<noteq> Validated then Err RemainingNotValidated
      else and_then (ok_or (bs_initial_principal schedule) PrincipalUnknown) (\<lambda>initial.
           and_then (repaid_loop X on dec_zero (bs_principal_returns schedule)) (\<lambda>repaid.
           if d_cmp X repaid dec_hundred = Greater then Err PrefixAboveHundred
           else map_err RemainingNumeric
             (and_then (dec_checked_sub X dec_hundred repaid) (\<lambda>remaining_share.
              and_then (dec_checked_mul X (p_value initial) remaining_share) (\<lambda>product.
              and_then (dec_checked_div X product dec_hundred) (\<lambda>value_left.
              Ok \<lparr>p_value = value_left, p_currency = p_currency initial\<rparr>)))))))"

section \<open>Postings and accrued interest\<close>

definition next_posting_date :: "accrual_period list \<Rightarrow> principal_return list \<Rightarrow> date list \<Rightarrow> date \<Rightarrow> date option" where
  "next_posting_date periods returns settled_offers as_of =
     (case filter (\<lambda>d. as_of \<le> d)
        (map ap_payment_date periods @ map pr_repayment_date returns @ settled_offers) of
        [] \<Rightarrow> None
      | d # ds \<Rightarrow> Some (foldl min d ds))"

datatype accrued_interest_error =
    OutsideCoverage | OverlappingCoverage | AccruedCouponUndetermined | AccruedNumeric numeric_error

definition accrued_on :: "deps \<Rightarrow> accrual_period \<Rightarrow> per_unit_amount \<Rightarrow> date \<Rightarrow> (per_unit_amount, accrued_interest_error) result" where
  "accrued_on X period coupon as_of =
     (let elapsed = as_of - ap_period_start period; whole = ap_accrual_end period - ap_period_start period in
      if whole \<le> 0 then Err OutsideCoverage
      else map_err AccruedNumeric
        (and_then (dec_checked_div X (d_from_i64 X elapsed) (d_from_i64 X whole)) (\<lambda>fraction.
         and_then (dec_checked_mul X (p_value coupon) fraction) (\<lambda>accrued.
         and_then (dec_checked_round_to_scale X accrued (minor_units (p_currency coupon))) (\<lambda>rounded.
         Ok \<lparr>p_value = rounded, p_currency = p_currency coupon\<rparr>)))))"

definition accrued_per_unit :: "deps \<Rightarrow> accrual_period list \<Rightarrow> date \<Rightarrow> (per_unit_amount, accrued_interest_error) result" where
  "accrued_per_unit X periods as_of =
     (case filter (\<lambda>p. ap_period_start p \<le> as_of \<and> as_of < ap_accrual_end p) periods of
        [] \<Rightarrow> Err OutsideCoverage
      | period # others \<Rightarrow>
          if others \<noteq> [] then Err OverlappingCoverage
          else and_then (ok_or (ap_coupon_per_unit period) AccruedCouponUndetermined) (\<lambda>coupon.
               accrued_on X period coupon as_of))"

section \<open>Choices\<close>

lemma windows_unique: "validate_unique_windows ws = Ok () \<longleftrightarrow> distinct (map ow_execution_date ws)"
proof -
  have "is_ok (try_fold window_step m ws) \<longleftrightarrow>
      distinct (map ow_execution_date ws) \<and> (\<forall>w \<in> set ws. bt_get m (ow_execution_date w) = None)" for m
  proof (induction ws arbitrary: m)
    case (Cons w ws)
    show ?case
    proof (cases "bt_get m (ow_execution_date w)")
      case None
      then have step: "window_step m w = Ok (bt_insert (ow_execution_date w) () m)" by (simp add: window_step_def)
      have "is_ok (try_fold window_step m (w # ws)) \<longleftrightarrow> distinct (map ow_execution_date ws) \<and>
          (\<forall>v \<in> set ws. ow_execution_date v \<noteq> ow_execution_date w \<and> bt_get m (ow_execution_date v) = None)"
        by (simp add: step Cons.IH) metis
      also have "\<dots> \<longleftrightarrow> distinct (map ow_execution_date ws) \<and> ow_execution_date w \<notin> ow_execution_date ` set ws \<and>
          (\<forall>v \<in> set ws. bt_get m (ow_execution_date v) = None)"
        unfolding image_iff by metis
      finally show ?thesis using None by auto
    next
      case (Some u)
      then show ?thesis by (simp add: window_step_def)
    qed
  qed simp
  then show ?thesis by (auto simp: validate_unique_windows_def is_ok_iff)
qed

text \<open>Every choice offered to the holder passes the validation, where window ids are unique.\<close>

lemma available_choice_valid:
  assumes "choice \<in> set (available_choices schedule as_of)" "distinct (map ow_window (bs_offer_windows schedule))"
  shows "validate_choice choice schedule = Ok ()"
proof (cases choice)
  case HoldToMaturity
  then show ?thesis by (simp add: validate_choice_def)
next
  case (ExerciseAtOffer window)
  then obtain terms where t: "terms \<in> set (bs_offer_windows schedule)" "ow_window terms = window"
    "ow_right terms = HolderPut" "ow_price_percent terms \<noteq> None"
    using assms(1)
    by (auto simp: available_choices_def window_choice_def List.map_filter_def split: offer_right.splits if_splits)
  have "List.find (\<lambda>terms. ow_window terms = window) (bs_offer_windows schedule) = Some terms"
  proof -
    obtain t' where t': "List.find (\<lambda>terms. ow_window terms = window) (bs_offer_windows schedule) = Some t'"
      using t by (cases "List.find (\<lambda>terms. ow_window terms = window) (bs_offer_windows schedule)") (auto simp: find_None_iff)
    then have "t' \<in> set (bs_offer_windows schedule)" "ow_window t' = window" by (auto simp: find_Some_iff)
    then show ?thesis using t t' assms(2) by (metis distinct_map inj_onD)
  qed
  then show ?thesis using t ExerciseAtOffer by (simp add: validate_choice_def)
qed

lemma foldl_min: "foldl min d ds = Min (insert d (set ds))" for d :: "'a::linorder"
proof (induction ds arbitrary: d)
  case (Cons e ds)
  then show ?case by (cases "set ds = {}") (simp_all add: min.assoc min.left_commute)
qed simp

text \<open>The next posting is the earliest payment on or after the day asked for.\<close>

lemma next_posting_is_earliest:
  "next_posting_date periods returns settled as_of = Some d \<longleftrightarrow>
     d \<in> set (map ap_payment_date periods @ map pr_repayment_date returns @ settled) \<and> as_of \<le> d \<and>
     (\<forall>e \<in> set (map ap_payment_date periods @ map pr_repayment_date returns @ settled). as_of \<le> e \<longrightarrow> d \<le> e)"
proof -
  define ds where "ds = map ap_payment_date periods @ map pr_repayment_date returns @ settled"
  have "(case filter (\<lambda>d. as_of \<le> d) ds of [] \<Rightarrow> None | d # ds \<Rightarrow> Some (foldl min d ds)) = Some d \<longleftrightarrow>
      d \<in> set ds \<and> as_of \<le> d \<and> (\<forall>e \<in> set ds. as_of \<le> e \<longrightarrow> d \<le> e)"
  proof (cases "filter (\<lambda>d. as_of \<le> d) ds")
    case Nil
    then show ?thesis by (auto simp: filter_empty_conv)
  next
    case (Cons x xs)
    have set: "{e \<in> set ds. as_of \<le> e} = insert x (set xs)" using Cons by (metis list.simps(15) set_filter)
    have "foldl min x xs = d \<longleftrightarrow> d \<in> insert x (set xs) \<and> (\<forall>e \<in> insert x (set xs). d \<le> e)"
      unfolding foldl_min by (rule Min_eq_iff) simp_all
    then show ?thesis using Cons unfolding set [symmetric] by auto
  qed
  then show ?thesis unfolding next_posting_date_def ds_def [symmetric] .
qed

section \<open>Exact running sums\<close>

text \<open>
  Where every partial sum is a number the decimal type holds, the checked additions of a loop
  add up the represented numbers.
\<close>

definition share_sum :: "decimal list \<Rightarrow> rat" where
  "share_sum ds = sum_list (map dec_val ds)"

lemma share_sum_simps [simp]:
  "share_sum [] = 0" "share_sum (d # ds) = dec_val d + share_sum ds"
  "share_sum (ds @ es) = share_sum ds + share_sum es"
  by (simp_all add: share_sum_def)

definition summable :: "nat \<Rightarrow> decimal list \<Rightarrow> bool" where
  "summable s ds \<longleftrightarrow> s \<le> 28 \<and> (\<forall>d \<in> set ds. multiple s (dec_val d) \<and> 0 < dec_val d) \<and> share_sum ds * 10 ^ s < 2 ^ 96"

lemma share_sum_nonneg: "\<forall>d \<in> set ds. 0 < dec_val d \<Longrightarrow> 0 \<le> share_sum ds"
  by (induction ds) auto

lemma share_sum_mset: "mset ds = mset es \<Longrightarrow> share_sum ds = share_sum es"
  unfolding share_sum_def by (metis mset_map sum_mset_sum_list)

lemma summable_mset: "mset ds = mset es \<Longrightarrow> summable s ds \<Longrightarrow> summable s es"
  unfolding summable_def by (metis share_sum_mset set_mset_mset)

lemma summable_add:
  assumes "sum_laws X s" "summable s (ds @ d # es)" "dec_val acc = share_sum ds" "dec_checked_add X acc d = Ok acc'"
  shows "dec_val acc' = share_sum (ds @ [d])"
proof -
  have m: "multiple s (share_sum xs)" if "set xs \<subseteq> set (ds @ d # es)" for xs
    using that assms(2) by (induction xs) (auto simp: summable_def intro: multiple_add)
  have small: "\<bar>share_sum xs\<bar> * 10 ^ s < 2 ^ 96" if "set xs \<subseteq> set (ds @ d # es)" "share_sum xs \<le> share_sum (ds @ d # es)" for xs
  proof -
    have "0 \<le> share_sum xs" using that(1) assms(2) by (intro share_sum_nonneg) (auto simp: summable_def)
    then have "\<bar>share_sum xs\<bar> * 10 ^ s \<le> share_sum (ds @ d # es) * 10 ^ s" using that(2) by simp
    moreover have "share_sum (ds @ d # es) * 10 ^ s < 2 ^ 96" using assms(2) unfolding summable_def by blast
    ultimately show ?thesis by (rule le_less_trans)
  qed
  have pos: "0 \<le> share_sum ds" "0 < dec_val d" "0 \<le> share_sum es"
    using assms(2) by (auto simp: summable_def intro: share_sum_nonneg)
  have s: "s \<le> 28" using assms(2) by (simp add: summable_def)
  have held: "holds s (share_sum xs)" if "set xs \<subseteq> set (ds @ d # es)" "share_sum xs \<le> share_sum (ds @ d # es)" for xs
    unfolding holds_iff using s m [OF that(1)] small [OF that] by blast
  have "holds s (share_sum ds)" "holds s (share_sum [d])" "holds s (share_sum (ds @ [d]))"
    using held [of ds] held [of "[d]"] held [of "ds @ [d]"] pos by (simp_all add: subset_insertI2)
  then show ?thesis
    using sum_lawsD(1) [OF assms(1), of acc d acc'] assms(3,4) by (simp add: dec_checked_add_def)
qed

lemma summable_fold:
  assumes "sum_laws X s" "summable s (ds @ es)" "dec_val acc = share_sum ds"
    "try_fold (dec_checked_add X) acc es = Ok acc'"
  shows "dec_val acc' = share_sum (ds @ es)"
  using assms(2-)
proof (induction es arbitrary: ds acc)
  case (Cons e es)
  then obtain a where a: "dec_checked_add X acc e = Ok a" "try_fold (dec_checked_add X) a es = Ok acc'" by auto
  have "dec_val a = share_sum (ds @ [e])" using summable_add [OF assms(1) Cons.prems(1,2) a(1)] .
  then show ?case using Cons.IH [of "ds @ [e]" a] Cons.prems(1) a(2) by simp
qed simp

lemma summable_dec_sum: "sum_laws X s \<Longrightarrow> summable s ds \<Longrightarrow> dec_sum X ds = Ok t \<Longrightarrow> dec_val t = share_sum ds"
  using summable_fold [of X s "[]" ds dec_zero t] by (simp add: dec_sum_def dec_zero_def dec_val_def)

section \<open>Finality\<close>

lemma finality_loop_marks:
  assumes "sum_laws X s" "order_laws X" "summable s (map pr_share_percent (before @ rest))"
    "share_sum (map pr_share_percent (before @ rest)) = 100" "rest \<noteq> []"
    "dec_val acc = share_sum (map pr_share_percent before)" "finality_loop X acc rest = Ok marked"
  shows "marked = map (\<lambda>r. (r, Partial)) (butlast rest) @ [(last rest, Final)]"
  using assms(3-)
proof (induction rest arbitrary: before acc marked)
  case (Cons item rest)
  from Cons.prems(5) obtain a ms where a: "dec_checked_add X acc (pr_share_percent item) = Ok a"
    "finality_loop X a rest = Ok ms" "marked = (item, if d_eq X a dec_hundred then Final else Partial) # ms" by auto
  have val: "dec_val a = share_sum (map pr_share_percent (before @ [item]))"
    using summable_add [OF assms(1) _ Cons.prems(4) a(1)] Cons.prems(1) by simp
  have final: "d_eq X a dec_hundred \<longleftrightarrow> dec_val a = 100"
    using order_lawsD(1) [OF assms(2)] by (auto simp: cmp_of_def dec_hundred_def dec_val_def)
  show ?case
  proof (cases "rest = []")
    case True
    then show ?thesis using a final val Cons.prems(2) by simp
  next
    case False
    then obtain r rs where r: "rest = r # rs" by (cases rest) auto
    have "0 < share_sum (map pr_share_percent rest)"
      using share_sum_nonneg [of "map pr_share_percent rs"] Cons.prems(1) by (auto simp: r summable_def)
    then have "dec_val a \<noteq> 100" using val Cons.prems(2) by auto
    moreover have "ms = map (\<lambda>r. (r, Partial)) (butlast rest) @ [(last rest, Final)]"
      using Cons.IH [of "before @ [item]" a ms] Cons.prems(1,2) False val a(2) by simp
    ultimately show ?thesis using a(3) final False by simp
  qed
qed simp

text \<open>
  Where the shares are positive and add up to the whole, exactly the last return in date order
  is final; where they do not add up, nothing is said of any of them.
\<close>

lemma finality_of_schedule:
  assumes "sum_laws X s" "order_laws X" "summable s (map pr_share_percent returns)" "finality_of X returns = Ok marked"
  defines "ordered \<equiv> sort_key pr_repayment_date returns"
  shows "marked = (if share_sum (map pr_share_percent returns) = 100
     then map (\<lambda>r. (r, Partial)) (butlast ordered) @ [(last ordered, Final)]
     else map (\<lambda>r. (r, FinalityUnknown)) returns)"
proof -
  obtain t where t: "dec_sum X (map pr_share_percent returns) = Ok t"
    using assms(4) by (auto simp: finality_of_def)
  have whole: "d_eq X t dec_hundred \<longleftrightarrow> share_sum (map pr_share_percent returns) = 100"
    using order_lawsD(1) [OF assms(2)] summable_dec_sum [OF assms(1,3) t]
    by (auto simp: cmp_of_def dec_hundred_def dec_val_def)
  show ?thesis
  proof (cases "share_sum (map pr_share_percent returns) = 100")
    case True
    have m: "mset (map pr_share_percent ordered) = mset (map pr_share_percent returns)" by (simp add: ordered_def)
    have "returns \<noteq> []" using True by auto
    then have "ordered \<noteq> []" unfolding ordered_def by (metis mset_sort mset_zero_iff)
    moreover have "finality_loop X dec_zero ordered = Ok marked"
      using assms(4) t whole True by (simp add: finality_of_def ordered_def)
    ultimately show ?thesis
      using finality_loop_marks [OF assms(1,2), of "[]" ordered dec_zero marked] True
        summable_mset [OF m [symmetric] assms(3)] share_sum_mset [OF m]
      by (simp add: dec_zero_def dec_val_def)
  next
    case False
    then show ?thesis using assms(4) t whole by (simp add: finality_of_def)
  qed
qed

end
