(* ===== verification/Cashflow.thy ===== *)
theory Cashflow
  imports Bond "HOL-Library.Option_ord"
begin

text \<open>
  Scheduled payments of a bond, \<open>rules/cashflow.rs\<close>: the payments a trusted schedule says were
  due by a day, and the plan of payments still to come for a holder's choice. The lemmas say
  which payments of the schedule a plan lists, with every refusal a branch of the model.
\<close>

section \<open>Data\<close>

datatype cashflow_error =
    CouponUndetermined date
  | CashflowPrincipalUnknown
  | CashflowScheduleIncomplete string
  | CashflowCompletenessUnknown
  | SharesDoNotSumToWhole decimal
  | CashflowDefaultDeclared
  | IssuerTechnicalDefault
  | CashflowTermsUnknown
  | CashflowNumeric numeric_error
  | CurrencyFormulaUnknown "currency_roles option"
  | OfferWindowNotExercisable offer_window_id

datatype schedule_trust_error =
    ScheduleIncomplete string | ScheduleCompletenessUnknown | IssuerDefaultDeclared | IssueTermsUnknown

fun cashflow_of_trust :: "schedule_trust_error \<Rightarrow> cashflow_error" where
  "cashflow_of_trust (ScheduleIncomplete reason) = CashflowScheduleIncomplete reason"
| "cashflow_of_trust ScheduleCompletenessUnknown = CashflowCompletenessUnknown"
| "cashflow_of_trust IssuerDefaultDeclared = CashflowDefaultDeclared"
| "cashflow_of_trust IssueTermsUnknown = CashflowTermsUnknown"

record cashflow_input =
  ci_schedule :: bond_schedule
  ci_quantity :: quantity
  ci_choice :: offer_choice
  ci_as_of :: date
  ci_report_currency :: currency_code

record expected_posting =
  xp_date :: date
  xp_amount :: calc_money
  xp_kind :: posting_kind

record scheduled_posting =
  sp_date :: date
  sp_kind :: posting_kind
  sp_entitlement :: "date option"

record cashflow_plan =
  cp_postings :: "expected_posting list"
  cp_terminal_date :: date
  cp_past :: "scheduled_posting list"

text \<open>The derived order: by date, then kind in declaration order, then entitlement with none first.\<close>

fun kind_rank :: "posting_kind \<Rightarrow> nat" where
  "kind_rank PCoupon = 0"
| "kind_rank PPrincipalReturn = 1"
| "kind_rank POfferSettlement = 2"

definition posting_key :: "scheduled_posting \<Rightarrow> date \<times> nat \<times> date option" where
  "posting_key p = (sp_date p, kind_rank (sp_kind p), sp_entitlement p)"

section \<open>Operations\<close>

definition amount_for_per_unit :: "deps \<Rightarrow> per_unit_amount \<Rightarrow> quantity \<Rightarrow> decimal \<Rightarrow> (calc_money, cashflow_error) result" where
  "amount_for_per_unit X per_unit q factor = map_err CashflowNumeric
     (and_then (dec_checked_mul X (p_value per_unit) q) (\<lambda>product.
      and_then (dec_checked_mul X product factor) (\<lambda>amount.
      Ok \<lparr>c_value = amount, c_currency = p_currency per_unit\<rparr>)))"

definition due_coupons :: "(accrual_period \<Rightarrow> date option) \<Rightarrow> date \<Rightarrow> accrual_period list \<Rightarrow> scheduled_posting list" where
  "due_coupons entitlement as_of periods =
     map (\<lambda>p. \<lparr>sp_date = ap_payment_date p, sp_kind = PCoupon, sp_entitlement = entitlement p\<rparr>)
       (filter (\<lambda>p. ap_payment_date p \<le> as_of) periods)"

definition due_returns :: "date \<Rightarrow> principal_return list \<Rightarrow> scheduled_posting list" where
  "due_returns as_of returns =
     map (\<lambda>r. \<lparr>sp_date = pr_repayment_date r, sp_kind = PPrincipalReturn, sp_entitlement = None\<rparr>)
       (filter (\<lambda>r. pr_repayment_date r \<le> as_of) returns)"

definition trust_schedule :: "bond_schedule \<Rightarrow> (unit, schedule_trust_error) result" where
  "trust_schedule schedule = (case bs_completeness schedule of
     Incomplete reason \<Rightarrow> Err (ScheduleIncomplete reason)
   | CompletenessUnknown \<Rightarrow> Err ScheduleCompletenessUnknown
   | Validated \<Rightarrow> (case bs_default_flags schedule of
       None \<Rightarrow> Err IssueTermsUnknown
     | Some flags \<Rightarrow> if df_declared flags then Err IssuerDefaultDeclared else Ok ()))"

definition historical_schedule_postings :: "bond_schedule \<Rightarrow> date \<Rightarrow> (scheduled_posting list, schedule_trust_error) result" where
  "historical_schedule_postings schedule as_of =
     and_then (trust_schedule schedule) (\<lambda>_.
     Ok (sort_key (\<lambda>p. (sp_date p, kind_rank (sp_kind p)))
       (due_coupons ap_record_date as_of (bs_periods schedule) @ due_returns as_of (bs_principal_returns schedule))))"

definition issuer_guard :: "bond_schedule \<Rightarrow> (unit, cashflow_error) result" where
  "issuer_guard schedule = (case bs_completeness schedule of
     Incomplete reason \<Rightarrow> Err (CashflowScheduleIncomplete reason)
   | CompletenessUnknown \<Rightarrow> Err CashflowCompletenessUnknown
   | Validated \<Rightarrow> (case bs_default_flags schedule of
       None \<Rightarrow> Err CashflowTermsUnknown
     | Some flags \<Rightarrow>
         if df_declared flags then Err CashflowDefaultDeclared
         else if df_technical flags then Err IssuerTechnicalDefault else Ok ()))"

definition formula_guard :: "cashflow_input \<Rightarrow> (per_unit_amount, cashflow_error) result" where
  "formula_guard input =
     (let schedule = ci_schedule input; roles = bs_currency_roles schedule; report = ci_report_currency input in
      case roles of
        None \<Rightarrow> Err (CurrencyFormulaUnknown roles)
      | Some r \<Rightarrow>
          if cr_denomination r \<noteq> cr_settlement r \<or> cr_settlement r \<noteq> cr_quote r \<or> cr_quote r \<noteq> report
          then Err (CurrencyFormulaUnknown roles)
          else and_then (ok_or (bs_initial_principal schedule) CashflowPrincipalUnknown) (\<lambda>original.
               if p_currency original \<noteq> report \<or>
                  list_ex (\<lambda>p. case ap_coupon_per_unit p of None \<Rightarrow> False | Some c \<Rightarrow> p_currency c \<noteq> report)
                    (bs_periods schedule)
               then Err (CurrencyFormulaUnknown roles) else Ok original))"

definition shares_guard :: "deps \<Rightarrow> bond_schedule \<Rightarrow> (unit, cashflow_error) result" where
  "shares_guard X schedule =
     and_then (map_err CashflowNumeric (dec_sum X (map pr_share_percent (bs_principal_returns schedule)))) (\<lambda>total_shares.
     if \<not> d_eq X total_shares dec_hundred then Err (SharesDoNotSumToWhole total_shares) else Ok ())"

definition chosen_offer :: "cashflow_input \<Rightarrow> (offer_window_terms option, cashflow_error) result" where
  "chosen_offer input = (case ci_choice input of
     HoldToMaturity \<Rightarrow> Ok None
   | ExerciseAtOffer window \<Rightarrow>
       (case List.find (\<lambda>terms. ow_window terms = window) (bs_offer_windows (ci_schedule input)) of
          None \<Rightarrow> Err (OfferWindowNotExercisable window)
        | Some terms \<Rightarrow> (case ow_right terms of
            HolderPut \<Rightarrow> if ow_price_percent terms = None then Err (OfferWindowNotExercisable window) else Ok (Some terms)
          | HolderPutSettled \<Rightarrow> Err (OfferWindowNotExercisable window)
          | IssuerCall \<Rightarrow> Err (OfferWindowNotExercisable window)
          | OtherRight \<Rightarrow> Err (OfferWindowNotExercisable window))))"

definition terminal_date :: "cashflow_input \<Rightarrow> offer_window_terms option \<Rightarrow> date" where
  "terminal_date input offer = (case offer of
     Some terms \<Rightarrow> ow_execution_date terms
   | None \<Rightarrow> (case map pr_repayment_date (bs_principal_returns (ci_schedule input)) of
       [] \<Rightarrow> ci_as_of input
     | d # ds \<Rightarrow> foldl max d ds))"

definition coupons_known :: "cashflow_input \<Rightarrow> date \<Rightarrow> (unit, cashflow_error) result" where
  "coupons_known input terminal =
     (case List.find (\<lambda>p. ci_as_of input < ap_payment_date p \<and> ap_payment_date p \<le> terminal \<and> ap_coupon_per_unit p = None)
        (bs_periods (ci_schedule input)) of
        Some p \<Rightarrow> Err (CouponUndetermined (ap_period_start p))
      | None \<Rightarrow> Ok ())"

definition coupon_postings :: "deps \<Rightarrow> cashflow_input \<Rightarrow> date option \<Rightarrow> (expected_posting list, cashflow_error) result" where
  "coupon_postings X input cutoff =
     try_map (\<lambda>p. case ap_coupon_per_unit p of
         None \<Rightarrow> Err (CouponUndetermined (ap_period_start p))
       | Some coupon \<Rightarrow> and_then (amount_for_per_unit X coupon (ci_quantity input) dec_one) (\<lambda>amount.
           Ok \<lparr>xp_date = ap_payment_date p, xp_amount = amount, xp_kind = PCoupon\<rparr>))
       (filter (\<lambda>p. ci_as_of input < ap_payment_date p \<and>
            (case cutoff of None \<Rightarrow> True | Some d \<Rightarrow> ap_payment_date p \<le> d)) (bs_periods (ci_schedule input)))"

definition return_postings :: "deps \<Rightarrow> cashflow_input \<Rightarrow> per_unit_amount \<Rightarrow> date option
    \<Rightarrow> (expected_posting list, cashflow_error) result" where
  "return_postings X input original cutoff =
     try_map (\<lambda>r. and_then (map_err CashflowNumeric (dec_checked_div X (pr_share_percent r) dec_hundred)) (\<lambda>factor.
         and_then (amount_for_per_unit X original (ci_quantity input) factor) (\<lambda>amount.
         Ok \<lparr>xp_date = pr_repayment_date r, xp_amount = amount, xp_kind = PPrincipalReturn\<rparr>)))
       (filter (\<lambda>r. ci_as_of input < pr_repayment_date r \<and>
            (case cutoff of None \<Rightarrow> True | Some d \<Rightarrow> pr_repayment_date r < d)) (bs_principal_returns (ci_schedule input)))"

definition offer_postings :: "deps \<Rightarrow> cashflow_input \<Rightarrow> per_unit_amount \<Rightarrow> offer_window_terms option
    \<Rightarrow> (expected_posting list \<times> scheduled_posting list, cashflow_error) result" where
  "offer_postings X input original offer = (case offer of
     None \<Rightarrow> Ok ([], [])
   | Some terms \<Rightarrow>
       and_then (ok_or (ow_price_percent terms) (OfferWindowNotExercisable (ow_window terms))) (\<lambda>price_percent.
       and_then (map_err CashflowNumeric (dec_checked_div X price_percent dec_hundred)) (\<lambda>factor.
       and_then (amount_for_per_unit X original (ci_quantity input) factor) (\<lambda>settlement.
       Ok (if ow_execution_date terms \<le> ci_as_of input
           then ([], [\<lparr>sp_date = ow_execution_date terms, sp_kind = POfferSettlement, sp_entitlement = None\<rparr>])
           else ([\<lparr>xp_date = ow_execution_date terms, xp_amount = settlement, xp_kind = POfferSettlement\<rparr>], []))))))"

definition future_postings_v1 :: "deps \<Rightarrow> cashflow_input \<Rightarrow> (cashflow_plan, cashflow_error) result" where
  "future_postings_v1 X input =
     and_then (issuer_guard (ci_schedule input)) (\<lambda>_.
     and_then (formula_guard input) (\<lambda>original.
     and_then (shares_guard X (ci_schedule input)) (\<lambda>_.
     and_then (chosen_offer input) (\<lambda>offer.
     let cutoff = map_option ow_execution_date offer; terminal = terminal_date input offer in
     and_then (coupons_known input terminal) (\<lambda>_.
     and_then (coupon_postings X input cutoff) (\<lambda>coupons.
     and_then (return_postings X input original cutoff) (\<lambda>returns.
     and_then (offer_postings X input original offer) (\<lambda>(settled, settled_past).
     Ok \<lparr>cp_postings = sort_key xp_date (coupons @ returns @ settled), cp_terminal_date = terminal,
         cp_past = sort_key posting_key
           (due_coupons (\<lambda>_. None) (ci_as_of input) (bs_periods (ci_schedule input)) @
            due_returns (ci_as_of input) (bs_principal_returns (ci_schedule input)) @ settled_past)\<rparr>))))))))"

definition future_postings_v2 :: "deps \<Rightarrow> cashflow_input \<Rightarrow> (cashflow_plan, cashflow_error) result" where
  "future_postings_v2 X input =
     and_then (future_postings_v1 X input) (\<lambda>plan.
     let offer_settlements = filter (\<lambda>p. sp_kind p = POfferSettlement) (cp_past plan) in
     and_then (map_err cashflow_of_trust (historical_schedule_postings (ci_schedule input) (ci_as_of input))) (\<lambda>past.
     Ok (plan\<lparr>cp_past := sort_key (\<lambda>p. (sp_date p, kind_rank (sp_kind p))) (past @ offer_settlements)\<rparr>)))"

section \<open>What a plan lists\<close>

text \<open>The payments of a schedule, without amounts.\<close>

definition scheduled :: "bond_schedule \<Rightarrow> (date \<times> posting_kind) list" where
  "scheduled schedule =
     map (\<lambda>p. (ap_payment_date p, PCoupon)) (bs_periods schedule) @
     map (\<lambda>r. (pr_repayment_date r, PPrincipalReturn)) (bs_principal_returns schedule)"

lemma coupon_postings_Ok:
  assumes "coupon_postings X input cutoff = Ok xs"
  shows "map (\<lambda>x. (xp_date x, xp_kind x)) xs = map (\<lambda>p. (ap_payment_date p, PCoupon))
    (filter (\<lambda>p. ci_as_of input < ap_payment_date p \<and> (case cutoff of None \<Rightarrow> True | Some d \<Rightarrow> ap_payment_date p \<le> d))
      (bs_periods (ci_schedule input)))"
proof -
  have "list_all2 (\<lambda>p x. (xp_date x, xp_kind x) = (ap_payment_date p, PCoupon))
    (filter (\<lambda>p. ci_as_of input < ap_payment_date p \<and> (case cutoff of None \<Rightarrow> True | Some d \<Rightarrow> ap_payment_date p \<le> d))
      (bs_periods (ci_schedule input))) xs"
    using assms unfolding coupon_postings_def try_map_Ok_iff
    by (rule list_all2_mono) (auto split: option.splits)
  then show ?thesis by (auto simp: list_all2_conv_all_nth intro!: nth_equalityI)
qed

lemma return_postings_Ok:
  assumes "return_postings X input original cutoff = Ok xs"
  shows "map (\<lambda>x. (xp_date x, xp_kind x)) xs = map (\<lambda>r. (pr_repayment_date r, PPrincipalReturn))
    (filter (\<lambda>r. ci_as_of input < pr_repayment_date r \<and> (case cutoff of None \<Rightarrow> True | Some d \<Rightarrow> pr_repayment_date r < d))
      (bs_principal_returns (ci_schedule input)))"
proof -
  have "list_all2 (\<lambda>r x. (xp_date x, xp_kind x) = (pr_repayment_date r, PPrincipalReturn))
    (filter (\<lambda>r. ci_as_of input < pr_repayment_date r \<and> (case cutoff of None \<Rightarrow> True | Some d \<Rightarrow> pr_repayment_date r < d))
      (bs_principal_returns (ci_schedule input))) xs"
    using assms unfolding return_postings_def try_map_Ok_iff
    by (rule list_all2_mono) auto
  then show ?thesis by (auto simp: list_all2_conv_all_nth intro!: nth_equalityI)
qed

definition due_kind :: "scheduled_posting \<Rightarrow> date \<times> posting_kind" where
  "due_kind p = (sp_date p, sp_kind p)"

definition expected_kind :: "expected_posting \<Rightarrow> date \<times> posting_kind" where
  "expected_kind x = (xp_date x, xp_kind x)"

text \<open>What the exercise of the chosen offer adds to the schedule, and what it cuts off.\<close>

definition settlement_of :: "cashflow_input \<Rightarrow> (date \<times> posting_kind) list" where
  "settlement_of input = (case ci_choice input of
     HoldToMaturity \<Rightarrow> []
   | ExerciseAtOffer window \<Rightarrow>
       (case List.find (\<lambda>terms. ow_window terms = window) (bs_offer_windows (ci_schedule input)) of
          None \<Rightarrow> []
        | Some terms \<Rightarrow> [(ow_execution_date terms, POfferSettlement)]))"

definition survives :: "cashflow_input \<Rightarrow> date \<times> posting_kind \<Rightarrow> bool" where
  "survives input e = (case settlement_of input of
     [] \<Rightarrow> True
   | (d, _) # _ \<Rightarrow> if snd e = PCoupon then fst e \<le> d else fst e < d)"

lemma chosen_offer_settlement:
  "chosen_offer input = Ok offer \<Longrightarrow>
     settlement_of input = (case offer of None \<Rightarrow> [] | Some terms \<Rightarrow> [(ow_execution_date terms, POfferSettlement)])"
proof (cases "ci_choice input")
  case (ExerciseAtOffer window)
  let ?found = "List.find (\<lambda>terms. ow_window terms = window) (bs_offer_windows (ci_schedule input))"
  assume ok: "chosen_offer input = Ok offer"
  then obtain terms where terms: "?found = Some terms"
    using ExerciseAtOffer by (cases ?found) (auto simp: chosen_offer_def)
  then have "offer = Some terms"
    using ok ExerciseAtOffer by (cases "ow_right terms") (simp_all add: chosen_offer_def split: if_splits)
  then show ?thesis using terms ExerciseAtOffer by (simp add: settlement_of_def)
qed (auto simp: chosen_offer_def settlement_of_def)

lemma due_kinds:
  "map due_kind (due_coupons f as_of ps) = filter (\<lambda>e. fst e \<le> as_of) (map (\<lambda>p. (ap_payment_date p, PCoupon)) ps)"
  "map due_kind (due_returns as_of rs) = filter (\<lambda>e. fst e \<le> as_of) (map (\<lambda>r. (pr_repayment_date r, PPrincipalReturn)) rs)"
  by (simp_all add: due_coupons_def due_returns_def due_kind_def filter_map comp_def)

lemma expected_kinds:
  assumes "chosen_offer input = Ok offer" "coupon_postings X input (map_option ow_execution_date offer) = Ok cs"
    "return_postings X input original (map_option ow_execution_date offer) = Ok rs"
  shows "map expected_kind (cs @ rs) = filter (\<lambda>e. ci_as_of input < fst e \<and> survives input e) (scheduled (ci_schedule input))"
  using coupon_postings_Ok [OF assms(2)] return_postings_Ok [OF assms(3)] chosen_offer_settlement [OF assms(1)]
  by (cases offer) (simp_all add: expected_kind_def [abs_def] scheduled_def filter_map comp_def survives_def)

lemma settlement_kinds:
  assumes "chosen_offer input = Ok offer" "offer_postings X input original offer = Ok (xs, ps)"
  shows "map expected_kind xs = filter (\<lambda>e. ci_as_of input < fst e) (settlement_of input)"
    and "map due_kind ps = filter (\<lambda>e. fst e \<le> ci_as_of input) (settlement_of input)"
    and "\<forall>p \<in> set ps. sp_kind p = POfferSettlement"
  using assms(2) chosen_offer_settlement [OF assms(1)]
  by (auto simp: offer_postings_def expected_kind_def due_kind_def split: option.splits if_splits)

lemma due_not_settlements:
  "filter (\<lambda>p. sp_kind p = POfferSettlement) (due_coupons f as_of ps) = []"
  "filter (\<lambda>p. sp_kind p = POfferSettlement) (due_returns as_of rs) = []"
  by (auto simp: due_coupons_def due_returns_def filter_empty_conv)

lemma mset_map_sort_key: "mset (map f (sort_key k xs)) = mset (map f xs)"
  by simp

lemma filter_mset_sort_key: "mset (filter P (sort_key k xs)) = mset (filter P xs)"
  by (simp add: mset_filter)

text \<open>
  (C34) A cash-flow plan lists the payments of the schedule. The payments still to come are
  exactly the coupons and principal returns dated after the day of the report that the
  chosen offer does not cut off (coupons up to its execution day, returns before it), and its
  settlement when that is still to come; the past payments are exactly those dated on or
  before the day, and the settlement when it is past. Each occurs as often as in the schedule,
  and both lists are in date order.
\<close>

theorem plan_lists_the_schedule:
  assumes "future_postings_v2 X input = Ok plan"
  defines "as_of \<equiv> ci_as_of input"
  shows "mset (map expected_kind (cp_postings plan)) =
      {# e \<in># mset (scheduled (ci_schedule input)). as_of < fst e \<and> survives input e #} +
      {# e \<in># mset (settlement_of input). as_of < fst e #} \<and>
    mset (map due_kind (cp_past plan)) =
      {# e \<in># mset (scheduled (ci_schedule input) @ settlement_of input). fst e \<le> as_of #} \<and>
    sorted (map xp_date (cp_postings plan)) \<and> sorted (map sp_date (cp_past plan))"
proof -
  obtain v1 past where v1: "future_postings_v1 X input = Ok v1"
    and past: "historical_schedule_postings (ci_schedule input) as_of = Ok past"
    and plan: "plan = v1\<lparr>cp_past := sort_key (\<lambda>p. (sp_date p, kind_rank (sp_kind p)))
        (past @ filter (\<lambda>p. sp_kind p = POfferSettlement) (cp_past v1))\<rparr>"
    using assms(1) by (auto simp: future_postings_v2_def as_of_def Let_def)
  obtain original offer cs rs xs ps where
      offer: "chosen_offer input = Ok offer"
    and cs: "coupon_postings X input (map_option ow_execution_date offer) = Ok cs"
    and rs: "return_postings X input original (map_option ow_execution_date offer) = Ok rs"
    and xs: "offer_postings X input original offer = Ok (xs, ps)"
    and postings: "cp_postings v1 = sort_key xp_date (cs @ rs @ xs)"
    and v1_past: "cp_past v1 = sort_key posting_key
           (due_coupons (\<lambda>_. None) as_of (bs_periods (ci_schedule input)) @
            due_returns as_of (bs_principal_returns (ci_schedule input)) @ ps)"
    using v1 by (auto simp: future_postings_v1_def as_of_def Let_def)
  have "mset (map expected_kind (cp_postings plan)) = mset (map expected_kind (cs @ rs)) + mset (map expected_kind xs)"
    by (simp add: plan postings)
  also have "\<dots> = {# e \<in># mset (scheduled (ci_schedule input)). as_of < fst e \<and> survives input e #} +
      {# e \<in># mset (settlement_of input). as_of < fst e #}"
    unfolding expected_kinds [OF offer cs rs] settlement_kinds(1) [OF offer xs] by (simp add: mset_filter as_of_def)
  finally have future: "mset (map expected_kind (cp_postings plan)) = \<dots>" .
  have "mset (filter (\<lambda>p. sp_kind p = POfferSettlement) (cp_past v1)) = mset ps"
    unfolding v1_past filter_mset_sort_key using settlement_kinds(3) [OF offer xs]
    by (simp add: due_not_settlements)
  moreover have "mset past = mset (due_coupons ap_record_date as_of (bs_periods (ci_schedule input)) @
      due_returns as_of (bs_principal_returns (ci_schedule input)))"
    using past by (auto simp: historical_schedule_postings_def)
  ultimately have "mset (map due_kind (cp_past plan)) =
      mset (map due_kind (due_coupons ap_record_date as_of (bs_periods (ci_schedule input)) @
        due_returns as_of (bs_principal_returns (ci_schedule input)))) + mset (map due_kind ps)"
    by (simp add: plan)
  also have "\<dots> = {# e \<in># mset (scheduled (ci_schedule input) @ settlement_of input). fst e \<le> as_of #}"
    using settlement_kinds(2) [OF offer xs] by (simp add: due_kinds scheduled_def mset_filter as_of_def)
  finally have "mset (map due_kind (cp_past plan)) = \<dots>" .
  moreover have "sorted (map xp_date (cp_postings plan))" by (simp add: plan postings)
  moreover have "sorted (map sp_date (cp_past plan))"
  proof -
    have "sorted (map (\<lambda>p. (sp_date p, kind_rank (sp_kind p))) (cp_past plan))" by (simp add: plan)
    then show ?thesis unfolding sorted_map by (rule sorted_wrt_mono_rel [rotated]) auto
  qed
  ultimately show ?thesis using future by blast
qed

definition sample_schedule :: bond_schedule where
  "sample_schedule =
     \<lparr>bs_periods = [\<lparr>ap_period_start = 1, ap_accrual_end = 10, ap_payment_date = 10, ap_record_date = Some 9,
          ap_coupon_per_unit = Some \<lparr>p_value = Decimal 5 0, p_currency = Rub\<rparr>\<rparr>,
        \<lparr>ap_period_start = 10, ap_accrual_end = 20, ap_payment_date = 20, ap_record_date = None,
          ap_coupon_per_unit = Some \<lparr>p_value = Decimal 5 0, p_currency = Rub\<rparr>\<rparr>],
      bs_principal_returns = [\<lparr>pr_repayment_date = 20, pr_share_percent = Decimal 100 0\<rparr>],
      bs_initial_principal = Some \<lparr>p_value = Decimal 1000 0, p_currency = Rub\<rparr>,
      bs_offer_windows = [], bs_completeness = Validated,
      bs_default_flags = Some \<lparr>df_declared = False, df_technical = False\<rparr>,
      bs_currency_roles = Some (roles_uniform Rub)\<rparr>"

definition sample_input :: cashflow_input where
  "sample_input = \<lparr>ci_schedule = sample_schedule, ci_quantity = Decimal 3 0, ci_choice = HoldToMaturity,
     ci_as_of = 10, ci_report_currency = Rub\<rparr>"

theorem plan_lists_the_schedule_witness:
  "\<exists>plan. future_postings_v2 ref_deps sample_input = Ok plan \<and>
     mset (map expected_kind (cp_postings plan)) = {# (20, PCoupon), (20, PPrincipalReturn) #} \<and>
     mset (map due_kind (cp_past plan)) = {# (10, PCoupon) #}"
proof -
  have "\<exists>plan. future_postings_v2 ref_deps sample_input = Ok plan"
    by (simp add: future_postings_v2_def future_postings_v1_def sample_input_def sample_schedule_def issuer_guard_def
        formula_guard_def roles_uniform_def shares_guard_def dec_sum_def dec_checked_add_def ref_deps_def ref_add_def ref_dec_def
        ref_align_def ref_cmp_def cmp_of_def dec_zero_def dec_hundred_def chosen_offer_def terminal_date_def coupons_known_def
        coupon_postings_def amount_for_per_unit_def dec_checked_mul_def dec_one_def ref_mul_def return_postings_def
        dec_checked_div_def ref_div_def quot_to_zero_def offer_postings_def historical_schedule_postings_def
        trust_schedule_def)
  then obtain plan where plan: "future_postings_v2 ref_deps sample_input = Ok plan" ..
  from plan_lists_the_schedule [OF plan] plan show ?thesis
    by (simp add: scheduled_def settlement_of_def survives_def sample_input_def sample_schedule_def)
qed

end
