(* ===== verification/PostingMatch.thy ===== *)
theory PostingMatch
  imports Cashflow Ownership
begin

text \<open>
  Matching the payments a schedule expects with the payments received,
  \<open>rules/posting_match.rs\<close>. Both versions of the rule walk the expected payments in date order
  and give each the earliest unused receipt of its kind in its window. The greedy walk is
  shown to be optimal: no other assignment of receipts explains more payments.
\<close>

section \<open>The rule\<close>

datatype unverifiable_reason =
    AcquisitionDateUnknown | UnverifiableOwnership | EntitlementDateUnknown | IncomeKindUnknown
  | UnverifiablePaymentDate | HistoryStartsAfterSchedule | ScheduleNotTrusted

fun unverifiable_reason_code :: "unverifiable_reason \<Rightarrow> string" where
  "unverifiable_reason_code AcquisitionDateUnknown = ''acquisition_date_unknown''"
| "unverifiable_reason_code UnverifiableOwnership = ''ownership_unknown''"
| "unverifiable_reason_code EntitlementDateUnknown = ''entitlement_date_unknown''"
| "unverifiable_reason_code IncomeKindUnknown = ''income_kind_unknown''"
| "unverifiable_reason_code UnverifiablePaymentDate = ''payment_date_unknown''"
| "unverifiable_reason_code HistoryStartsAfterSchedule = ''history_starts_after_schedule''"
| "unverifiable_reason_code ScheduleNotTrusted = ''schedule_not_trusted''"

datatype posting_verdict = NotReceived | Unverifiable unverifiable_reason | Silent

record posting_match =
  pm_window_days :: nat

definition posting_match_v2 :: posting_match where
  "posting_match_v2 = \<lparr>pm_window_days = 21\<rparr>"

definition posting_match_v1 :: posting_match where
  "posting_match_v1 = \<lparr>pm_window_days = 21\<rparr>"

definition posting_deadline :: "deps \<Rightarrow> posting_match \<Rightarrow> scheduled_posting \<Rightarrow> date" where
  "posting_deadline X rule p = t_saturating_add_days X (sp_date p) (int (pm_window_days rule))"

definition is_due :: "deps \<Rightarrow> posting_match \<Rightarrow> scheduled_posting \<Rightarrow> date \<Rightarrow> bool" where
  "is_due X rule posting as_of \<longleftrightarrow> posting_deadline X rule posting \<le> as_of"

definition fact_matches :: "scheduled_posting \<Rightarrow> received_posting \<Rightarrow> date \<Rightarrow> bool" where
  "fact_matches expected receipt deadline \<longleftrightarrow>
     rp_kind receipt = sp_kind expected \<and> sp_date expected \<le> rp_date receipt \<and> rp_date receipt \<le> deadline"

definition first_unused :: "deps \<Rightarrow> posting_match \<Rightarrow> received_posting list \<Rightarrow> bool list \<Rightarrow> scheduled_posting \<Rightarrow> nat option" where
  "first_unused X rule available used p =
     List.find (\<lambda>i. \<not> used ! i \<and> fact_matches p (available ! i) (posting_deadline X rule p)) [0..<length available]"

definition sorted_facts :: "received_posting list \<Rightarrow> received_posting list" where
  "sorted_facts facts = sort_key (\<lambda>f. (rp_date f, rp_event f)) facts"

definition judge :: "scheduled_posting \<Rightarrow> ownership \<Rightarrow> bool \<Rightarrow> posting_verdict" where
  "judge posting own fact_found =
     (if sp_entitlement posting = None then Unverifiable EntitlementDateUnknown
      else if own = OwnershipUnknown then Unverifiable UnverifiableOwnership
      else if own = NotOwned \<or> fact_found then Silent
      else NotReceived)"

definition match_step :: "deps \<Rightarrow> posting_match \<Rightarrow> received_posting list \<Rightarrow> bool list \<times> bool list
    \<Rightarrow> nat \<times> scheduled_posting \<times> ownership \<Rightarrow> bool list \<times> bool list" where
  "match_step X rule available s entry = (case s of (used, fact_found) \<Rightarrow> case entry of (index, posting, _) \<Rightarrow>
     (case first_unused X rule available used posting of
        Some i \<Rightarrow> (used[i := True], fact_found[index := True])
      | None \<Rightarrow> (used, fact_found)))"

definition judge_all :: "deps \<Rightarrow> posting_match \<Rightarrow> (scheduled_posting \<times> ownership) list \<Rightarrow> received_posting list
    \<Rightarrow> posting_verdict list" where
  "judge_all X rule postings facts =
     (let ordered = sort_key (\<lambda>(_, posting, _). posting_key posting) (enumerate 0 postings);
          available = sorted_facts facts;
          fact_found = snd (foldl (match_step X rule available)
            (replicate (length available) False, replicate (length postings) False) ordered) in
      map (\<lambda>(index, posting, own). judge posting own (fact_found ! index)) (enumerate 0 postings))"

definition unreceived_step :: "deps \<Rightarrow> posting_match \<Rightarrow> received_posting list \<Rightarrow> date
    \<Rightarrow> bool list \<times> scheduled_posting list \<Rightarrow> scheduled_posting \<Rightarrow> bool list \<times> scheduled_posting list" where
  "unreceived_step X rule available as_of s expected = (case s of (used, missing) \<Rightarrow>
     if \<not> is_due X rule expected as_of then (used, missing)
     else (case first_unused X rule available used expected of
        Some i \<Rightarrow> (used[i := True], missing)
      | None \<Rightarrow> (used, missing @ [expected])))"

definition unreceived :: "deps \<Rightarrow> posting_match \<Rightarrow> scheduled_posting list \<Rightarrow> received_posting list \<Rightarrow> date
    \<Rightarrow> scheduled_posting list" where
  "unreceived X rule scheduled_list facts as_of =
     (let available = sorted_facts facts in
      snd (foldl (unreceived_step X rule available as_of) (replicate (length available) False, [])
        (sort_key posting_key scheduled_list)))"

section \<open>Greedy matching\<close>

text \<open>
  A matching is a multiset of pairs that uses every payment and every receipt at most as often
  as it occurs.
\<close>

definition matching :: "('p \<Rightarrow> 'f \<Rightarrow> bool) \<Rightarrow> 'p multiset \<Rightarrow> 'f multiset \<Rightarrow> ('p \<times> 'f) multiset \<Rightarrow> bool" where
  "matching C ps fs M \<longleftrightarrow> (\<forall>(p, f) \<in># M. C p f) \<and> image_mset fst M \<subseteq># ps \<and> image_mset snd M \<subseteq># fs"

fun greedy :: "('p \<Rightarrow> 'f \<Rightarrow> bool) \<Rightarrow> 'p list \<Rightarrow> 'f list \<Rightarrow> bool list" where
  "greedy C [] fs = []"
| "greedy C (p # ps) fs = (case List.find (C p) fs of
     None \<Rightarrow> False # greedy C ps fs
   | Some f \<Rightarrow> True # greedy C ps (remove1 f fs))"

definition found_of :: "'p list \<Rightarrow> bool list \<Rightarrow> 'p list" where
  "found_of ps bs = map fst (filter snd (zip ps bs))"

lemma subset_without: "A \<subseteq># add_mset x B \<Longrightarrow> x \<notin># A \<Longrightarrow> A \<subseteq># B"
  by (metis count_add_mset count_eq_zero_iff le0 subseteq_mset_def)

lemma greedy_length [simp]: "length (greedy C ps fs) = length ps"
  by (induction C ps fs rule: greedy.induct) (auto split: option.split)

text \<open>What the greedy walk finds is a matching.\<close>

lemma greedy_sound: "\<exists>M. matching C (mset ps) (mset fs) M \<and> image_mset fst M = mset (found_of ps (greedy C ps fs))"
proof (induction ps arbitrary: fs)
  case Nil
  show ?case by (rule exI [of _ "{#}"]) (simp add: matching_def found_of_def)
next
  case (Cons p ps)
  show ?case
  proof (cases "List.find (C p) fs")
    case None
    obtain M where "matching C (mset ps) (mset fs) M" "image_mset fst M = mset (found_of ps (greedy C ps fs))"
      using Cons.IH by blast
    then show ?thesis using None
      by (intro exI [of _ M]) (auto simp: matching_def found_of_def intro: subset_mset.trans)
  next
    case (Some f)
    then have f: "f \<in> set fs" "C p f" by (auto simp: find_Some_iff)
    obtain M where M: "matching C (mset ps) (mset (remove1 f fs)) M"
      "image_mset fst M = mset (found_of ps (greedy C ps (remove1 f fs)))"
      using Cons.IH by blast
    have "add_mset f (image_mset snd M) \<subseteq># mset fs"
      using M(1) f(1) by (simp add: matching_def insert_subset_eq_iff)
    then show ?thesis using Some f M
      by (intro exI [of _ "add_mset (p, f) M"]) (auto simp: matching_def found_of_def)
  qed
qed

text \<open>
  The exchange condition: if the earlier payment can take an early and a late receipt, then a
  later payment that can take the early one can take the late one. Under it the greedy walk
  over sorted payments and receipts finds as many as any matching.
\<close>

locale greedy_rule =
  fixes C :: "'p \<Rightarrow> 'f \<Rightarrow> bool" and before :: "'p \<Rightarrow> 'p \<Rightarrow> bool" and earlier :: "'f \<Rightarrow> 'f \<Rightarrow> bool"
  assumes exchange: "before p q \<Longrightarrow> earlier f g \<Longrightarrow> C p f \<Longrightarrow> C p g \<Longrightarrow> C q f \<Longrightarrow> C q g"
    and earlier_refl: "earlier f f"
begin

lemma find_earliest:
  assumes "sorted_wrt earlier fs" "List.find (C p) fs = Some f" "g \<in> set fs" "C p g"
  shows "earlier f g"
  using assms
proof (induction fs)
  case (Cons h fs)
  then show ?case by (cases "C p h") (auto simp: earlier_refl)
qed simp

text \<open>Giving up the first receipt costs a matching of the remaining payments at most one pair.\<close>

lemma give_up_first:
  assumes M: "matching C (add_mset p ps) (add_mset f fs) M" and cpf: "C p f"
    and early: "\<forall>g \<in># fs. C p g \<longrightarrow> earlier f g" and later: "\<forall>q \<in># ps. before p q"
  shows "\<exists>N. matching C ps fs N \<and> size M \<le> Suc (size N)"
proof -
  have ok: "C q g" if "(q, g) \<in># M" for q g using M that by (auto simp: matching_def)
  have fst_sub: "image_mset fst M \<subseteq># add_mset p ps" and snd_sub: "image_mset snd M \<subseteq># add_mset f fs"
    using M by (auto simp: matching_def)
  show ?thesis
  proof (cases "image_mset fst M \<subseteq># ps")
    case fst_free: True
    show ?thesis
    proof (cases "image_mset snd M \<subseteq># fs")
      case True
      then show ?thesis using fst_free ok by (intro exI [of _ M]) (auto simp: matching_def)
    next
      case False
      then have "f \<in># image_mset snd M" using snd_sub by (metis subset_without)
      then obtain q where q: "(q, f) \<in># M" by auto
      define N where "N = M - {#(q, f)#}"
      have M': "M = add_mset (q, f) N" using q by (simp add: N_def)
      have "image_mset fst N \<subseteq># ps" using fst_free by (simp add: M' insert_subset_eq_iff) (meson diff_subset_eq_self subset_mset.trans)
      moreover have "image_mset snd N \<subseteq># fs" using snd_sub by (simp add: M')
      ultimately show ?thesis using ok by (intro exI [of _ N]) (auto simp: matching_def M')
    qed
  next
    case False
    then have "p \<in># image_mset fst M" using fst_sub by (metis subset_without)
    then obtain g where g: "(p, g) \<in># M" by auto
    define N where "N = M - {#(p, g)#}"
    have M': "M = add_mset (p, g) N" using g by (simp add: N_def)
    have ps: "image_mset fst N \<subseteq># ps" using fst_sub by (simp add: M')
    show ?thesis
    proof (cases "image_mset snd N \<subseteq># fs")
      case True
      then show ?thesis using ps ok by (intro exI [of _ N]) (auto simp: matching_def M')
    next
      case False
      have sub: "add_mset g (image_mset snd N) \<subseteq># add_mset f fs" using snd_sub by (simp add: M')
      then have "image_mset snd N \<subseteq># add_mset f fs" by (metis add_mset_remove_trivial diff_subset_eq_self subset_mset.trans)
      then have "f \<in># image_mset snd N" using False by (metis subset_without)
      then obtain q where q: "(q, f) \<in># N" by auto
      define K where "K = N - {#(q, f)#}"
      have N': "N = add_mset (q, f) K" using q by (simp add: K_def)
      have fs: "add_mset g (image_mset snd K) \<subseteq># fs" using sub by (simp add: N' add_mset_commute)
      then have "g \<in># fs" by (metis insert_subset_eq_iff)
      moreover have "q \<in># ps" using ps by (simp add: N' insert_subset_eq_iff)
      moreover have "C p g" "C q f" using ok by (auto simp: M' N')
      ultimately have "C q g" using exchange [of p q f g] early later cpf by blast
      then have "matching C ps fs (add_mset (q, g) K)"
        using ps fs ok by (auto simp: matching_def M' N')
      then show ?thesis by (intro exI [of _ "add_mset (q, g) K"]) (simp add: M' N')
    qed
  qed
qed

theorem greedy_optimal:
  assumes "sorted_wrt before ps" "sorted_wrt earlier fs" "matching C (mset ps) (mset fs) M"
  shows "size M \<le> length (found_of ps (greedy C ps fs))"
  using assms
proof (induction ps arbitrary: fs M)
  case Nil
  then show ?case by (auto simp: matching_def)
next
  case (Cons p ps)
  show ?case
  proof (cases "List.find (C p) fs")
    case None
    have "p \<notin># image_mset fst M"
    proof
      assume "p \<in># image_mset fst M"
      then obtain g where g: "(p, g) \<in># M" by auto
      then have "g \<in># image_mset snd M" by force
      then have "g \<in> set fs" using Cons.prems(3) unfolding matching_def by (metis mset_subset_eqD set_mset_mset)
      moreover have "C p g" using g Cons.prems(3) by (auto simp: matching_def)
      ultimately show False using None by (auto simp: find_None_iff)
    qed
    then have "matching C (mset ps) (mset fs) M"
      using Cons.prems(3) unfolding matching_def by (metis mset.simps(2) subset_without)
    then show ?thesis using Cons.IH [of fs M] Cons.prems None by (simp add: found_of_def)
  next
    case (Some f)
    then have f: "f \<in> set fs" "C p f" by (auto simp: find_Some_iff)
    have fs: "mset fs = add_mset f (mset (remove1 f fs))" using f(1) by simp
    have "\<forall>g \<in># mset (remove1 f fs). C p g \<longrightarrow> earlier f g"
      using find_earliest [OF Cons.prems(2) Some] by (auto dest: in_diffD)
    moreover have "matching C (add_mset p (mset ps)) (add_mset f (mset (remove1 f fs))) M"
      unfolding fs [symmetric] using Cons.prems(3) by simp
    moreover have "\<forall>q \<in># mset ps. before p q" using Cons.prems(1) by simp
    ultimately obtain N where N: "matching C (mset ps) (mset (remove1 f fs)) N" "size M \<le> Suc (size N)"
      using give_up_first f(2) by blast
    have "sorted_wrt earlier (remove1 f fs)"
      using Cons.prems(2) by (induction fs) (auto dest: notin_set_remove1 intro: ccontr)
    then show ?thesis using Cons.IH [OF _ _ N(1)] Cons.prems(1) N(2) Some by (simp add: found_of_def)
  qed
qed

end

section \<open>The loops are the greedy walk\<close>

definition in_window :: "deps \<Rightarrow> posting_match \<Rightarrow> scheduled_posting \<Rightarrow> received_posting \<Rightarrow> bool" where
  "in_window X rule p f \<longleftrightarrow> fact_matches p f (posting_deadline X rule p)"

interpretation window: greedy_rule "in_window X rule"
    "\<lambda>p q. sp_date p \<le> sp_date q \<and> posting_deadline X rule p \<le> posting_deadline X rule q"
    "\<lambda>f g. rp_date f \<le> rp_date g" for X rule
  by unfold_locales (auto simp: in_window_def fact_matches_def)

definition unused :: "received_posting list \<Rightarrow> bool list \<Rightarrow> nat list \<Rightarrow> received_posting list" where
  "unused available used is = map ((!) available) (filter (\<lambda>i. \<not> used ! i) is)"

lemma unused_None:
  "List.find (\<lambda>i. \<not> used ! i \<and> C (available ! i)) is = None \<Longrightarrow> List.find C (unused available used is) = None"
  by (auto simp: find_None_iff unused_def)

lemma unused_Some:
  assumes "List.find (\<lambda>i. \<not> used ! i \<and> C (available ! i)) is = Some i" "distinct is" "\<forall>i \<in> set is. i < length used"
  shows "List.find C (unused available used is) = Some (available ! i) \<and>
    unused available (used[i := True]) is = remove1 (available ! i) (unused available used is)"
  using assms
proof (induction "is")
  case (Cons j js)
  show ?case
  proof (cases "\<not> used ! j \<and> C (available ! j)")
    case True
    then have i: "i = j" using Cons.prems(1) by simp
    have "used[j := True] ! k = used ! k" if "k \<in> set js" for k
      using that Cons.prems(2) by (cases "k = j") auto
    then have "filter (\<lambda>k. \<not> used[j := True] ! k) js = filter (\<lambda>k. \<not> used ! k) js"
      by (intro filter_cong) auto
    then show ?thesis using True Cons.prems(3) by (simp add: unused_def i)
  next
    case False
    then have f: "List.find (\<lambda>i. \<not> used ! i \<and> C (available ! i)) js = Some i" using Cons.prems(1) by (simp split: if_splits)
    then have "i \<in> set js" "C (available ! i)" by (auto simp: find_Some_iff)
    then have "i \<noteq> j" "\<not> used ! j \<longrightarrow> available ! i \<noteq> available ! j" using Cons.prems(2) False by auto
    then show ?thesis using Cons.IH [OF f] Cons.prems(2,3) False by (auto simp: unused_def nth_list_update)
  qed
qed simp

lemma first_unused_greedy:
  assumes "length used = length available"
  shows "greedy (in_window X rule) (p # ps) (unused available used [0..<length available]) =
     (case first_unused X rule available used p of
        None \<Rightarrow> False # greedy (in_window X rule) ps (unused available used [0..<length available])
      | Some i \<Rightarrow> True # greedy (in_window X rule) ps (unused available (used[i := True]) [0..<length available]))"
proof (cases "first_unused X rule available used p")
  case None
  then show ?thesis
    using unused_None [of used "in_window X rule p" available] by (simp add: first_unused_def in_window_def)
next
  case (Some i)
  then show ?thesis
    using unused_Some [of used "in_window X rule p" available "[0..<length available]" i] assms
    by (simp add: first_unused_def in_window_def)
qed

lemma unused_all: "unused available (replicate (length available) False) [0..<length available] = available"
  by (simp add: unused_def map_nth cong: filter_cong)

lemma unreceived_loop:
  assumes "length used = length available"
  shows "snd (foldl (unreceived_step X rule available as_of) (used, missing) plan) =
    missing @ (let due = filter (\<lambda>p. is_due X rule p as_of) plan in
      found_of due (map Not (greedy (in_window X rule) due (unused available used [0..<length available]))))"
  using assms
proof (induction plan arbitrary: used missing)
  case (Cons p plan)
  show ?case
  proof (cases "is_due X rule p as_of")
    case False
    then show ?thesis using Cons by (simp add: unreceived_step_def)
  next
    case True
    then show ?thesis
      using Cons.IH [of "used[i := True]" missing for i] Cons.IH [of used "missing @ [p]"] Cons.prems
        first_unused_greedy [OF Cons.prems, of X rule p "filter (\<lambda>p. is_due X rule p as_of) plan"]
      by (cases "first_unused X rule available used p")
         (simp_all add: unreceived_step_def found_of_def Let_def del: greedy.simps)
  qed
qed (simp add: found_of_def)

fun set_found :: "bool list \<Rightarrow> (nat \<times> bool) list \<Rightarrow> bool list" where
  "set_found found [] = found"
| "set_found found ((i, b) # ibs) = set_found (if b then found[i := True] else found) ibs"

lemma set_found_length [simp]: "length (set_found found ibs) = length found"
  by (induction found ibs rule: set_found.induct) auto

lemma set_found_other: "i \<notin> fst ` set ibs \<Longrightarrow> set_found found ibs ! i = found ! i"
  by (induction found ibs rule: set_found.induct) auto

lemma set_found_reads:
  assumes "distinct is" "length bs = length is" "\<forall>i \<in> set is. i < length found \<and> \<not> found ! i"
  shows "map ((!) (set_found found (zip is bs))) is = bs"
  using assms
proof (induction "is" arbitrary: bs found)
  case (Cons i js)
  then obtain b cs where bs: "bs = b # cs" by (cases bs) auto
  let ?found = "if b then found[i := True] else found"
  have "k < length ?found \<and> \<not> ?found ! k" if "k \<in> set js" for k
    using that Cons.prems(1,3) by (cases "k = i") auto
  then have "map ((!) (set_found ?found (zip js cs))) js = cs"
    using Cons.IH [of cs ?found] Cons.prems(1,2) bs by simp
  moreover have "set_found ?found (zip js cs) ! i = ?found ! i"
    using Cons.prems(1) by (intro set_found_other) (auto dest: set_zip_leftD)
  ultimately show ?case using Cons.prems(3) by (simp add: bs)
qed simp

lemma match_loop:
  assumes "length used = length available"
  shows "snd (foldl (match_step X rule available) (used, found) entries) =
    set_found found (zip (map fst entries)
      (greedy (in_window X rule) (map (\<lambda>e. fst (snd e)) entries) (unused available used [0..<length available])))"
  using assms
proof (induction entries arbitrary: used found)
  case (Cons e entries)
  obtain i p own where e: "e = (i, p, own)" by (cases e)
  have step: "match_step X rule available (used, found) e = (case first_unused X rule available used p of
      Some j \<Rightarrow> (used[j := True], found[i := True]) | None \<Rightarrow> (used, found))" by (simp add: e match_step_def)
  show ?case
    using Cons.IH [of used found] Cons.IH [of "used[j := True]" "found[i := True]" for j] Cons.prems
      first_unused_greedy [OF Cons.prems, of X rule p "map (\<lambda>e. fst (snd e)) entries"]
    by (cases "first_unused X rule available used p") (simp_all add: step [unfolded e] e del: greedy.simps)
qed simp

section \<open>Optimality of both versions\<close>

lemma deadline_mono:
  "calendar_laws X \<Longrightarrow> sp_date p \<le> sp_date q \<Longrightarrow> posting_deadline X rule p \<le> posting_deadline X rule q"
  by (auto simp: calendar_laws_def posting_deadline_def)

lemma sorted_postings:
  assumes "calendar_laws X" "sorted (map posting_key ps)"
  shows "sorted_wrt (\<lambda>p q. sp_date p \<le> sp_date q \<and> posting_deadline X rule p \<le> posting_deadline X rule q) ps"
proof -
  have "sp_date p \<le> sp_date q" if "posting_key p \<le> posting_key q" for p q
    using that by (auto simp: posting_key_def)
  with assms show ?thesis
    unfolding sorted_map by (elim sorted_wrt_mono_rel [rotated]) (auto intro: deadline_mono)
qed

lemma sorted_facts_sorted: "sorted_wrt (\<lambda>f g. rp_date f \<le> rp_date g) (sorted_facts facts)"
proof -
  have "sorted (map (\<lambda>f. (rp_date f, rp_event f)) (sorted_facts facts))" by (simp add: sorted_facts_def)
  then show ?thesis unfolding sorted_map by (rule sorted_wrt_mono_rel [rotated]) auto
qed

text \<open>The greedy walk over sorted payments: a matching of the found ones, and none is larger.\<close>

lemma greedy_window:
  assumes "calendar_laws X" "sorted (map posting_key ps)"
  shows "\<exists>M. matching (in_window X rule) (mset ps) (mset facts) M \<and>
    image_mset fst M = mset (found_of ps (greedy (in_window X rule) ps (sorted_facts facts))) \<and>
    (\<forall>N. matching (in_window X rule) (mset ps) (mset facts) N \<longrightarrow> size N \<le> size M)"
proof -
  have facts: "mset (sorted_facts facts) = mset facts" by (simp add: sorted_facts_def)
  obtain M where M: "matching (in_window X rule) (mset ps) (mset facts) M"
    "image_mset fst M = mset (found_of ps (greedy (in_window X rule) ps (sorted_facts facts)))"
    using greedy_sound [of "in_window X rule" ps "sorted_facts facts"] facts by auto
  have "size M = length (found_of ps (greedy (in_window X rule) ps (sorted_facts facts)))"
    using M(2) by (metis size_image_mset size_mset)
  then show ?thesis
    using M window.greedy_optimal [OF sorted_postings [OF assms] sorted_facts_sorted] facts by metis
qed

lemma found_complement: "length bs = length ps \<Longrightarrow> mset ps = mset (found_of ps bs) + mset (found_of ps (map Not bs))"
  by (induction ps bs rule: list_induct2') (auto simp: found_of_def)

definition due_postings :: "deps \<Rightarrow> posting_match \<Rightarrow> date \<Rightarrow> scheduled_posting list \<Rightarrow> scheduled_posting list" where
  "due_postings X rule as_of ps = filter (\<lambda>p. is_due X rule p as_of) ps"

text \<open>Version 1 reports the due payments that a largest matching leaves over.\<close>

lemma unreceived_is_optimal:
  assumes "calendar_laws X"
  shows "\<exists>M. matching (in_window X rule) (mset (due_postings X rule as_of ps)) (mset facts) M \<and>
    mset (unreceived X rule ps facts as_of) = mset (due_postings X rule as_of ps) - image_mset fst M \<and>
    (\<forall>N. matching (in_window X rule) (mset (due_postings X rule as_of ps)) (mset facts) N \<longrightarrow> size N \<le> size M)"
proof -
  let ?due = "due_postings X rule as_of (sort_key posting_key ps)"
  have mset: "mset ?due = mset (due_postings X rule as_of ps)" by (simp add: due_postings_def)
  have "sorted (map posting_key ?due)" by (simp add: due_postings_def sorted_filter)
  then obtain M where M: "matching (in_window X rule) (mset ?due) (mset facts) M"
    "image_mset fst M = mset (found_of ?due (greedy (in_window X rule) ?due (sorted_facts facts)))"
    "\<forall>N. matching (in_window X rule) (mset ?due) (mset facts) N \<longrightarrow> size N \<le> size M"
    using greedy_window [OF assms(1)] by metis
  have "unreceived X rule ps facts as_of = found_of ?due (map Not (greedy (in_window X rule) ?due (sorted_facts facts)))"
    using unreceived_loop [of "replicate (length (sorted_facts facts)) False" "sorted_facts facts" X rule as_of "[]"
        "sort_key posting_key ps"] unused_all [of "sorted_facts facts"]
    by (simp add: unreceived_def Let_def due_postings_def)
  then have "mset ?due = image_mset fst M + mset (unreceived X rule ps facts as_of)"
    using found_complement [of "greedy (in_window X rule) ?due (sorted_facts facts)" ?due] M(2) by simp
  then show ?thesis using M(1,3) mset by (intro exI [of _ M]) simp
qed

lemma found_of_reads: "found_of xs (map P xs) = filter P xs"
  by (induction xs) (auto simp: found_of_def)

lemma found_of_map: "found_of (map h xs) bs = map h (found_of xs bs)"
  by (induction xs bs rule: list_induct2') (auto simp: found_of_def)

text \<open>What version 2 marks as found is, payment by payment, what the greedy walk found.\<close>

lemma judge_all_found:
  fixes postings :: "(scheduled_posting \<times> ownership) list" and X rule facts
  defines "ordered \<equiv> sort_key (\<lambda>(_, posting, _). posting_key posting) (enumerate 0 postings)"
  defines "flags \<equiv> greedy (in_window X rule) (map (\<lambda>e. fst (snd e)) ordered) (sorted_facts facts)"
  shows "\<exists>found. length found = length postings \<and>
    judge_all X rule postings facts = map2 (\<lambda>(p, own) b. judge p own b) postings found \<and>
    mset (found_of (map fst postings) found) = mset (found_of (map (\<lambda>e. fst (snd e)) ordered) flags)"
proof -
  define found where "found = set_found (replicate (length postings) False) (zip (map fst ordered) flags)"
  have len: "length found = length postings" by (simp add: found_def)
  have mset: "mset ordered = mset (enumerate 0 postings)" by (simp add: ordered_def)
  then have idx_mset: "mset (map fst ordered) = mset [0..<length postings]"
    by (metis map_fst_enumerate mset_map add_0)
  have "distinct (map fst ordered)" using idx_mset by (metis distinct_upt mset_eq_imp_distinct_iff)
  moreover have "set (map fst ordered) = {0..<length postings}" using idx_mset by (metis set_mset_mset set_upt)
  ultimately have reads: "map ((!) found) (map fst ordered) = flags"
    unfolding found_def by (intro set_found_reads) (auto simp: flags_def)
  have all: "judge_all X rule postings facts = map (\<lambda>(i, p, own). judge p own (found ! i)) (enumerate 0 postings)"
    using match_loop [of "replicate (length (sorted_facts facts)) False" "sorted_facts facts" X rule
        "replicate (length postings) False" ordered]
    unfolding judge_all_def Let_def unused_all ordered_def [symmetric] flags_def [symmetric] found_def by simp
  then have "judge_all X rule postings facts = map2 (\<lambda>(p, own) b. judge p own b) postings found"
    using len by (auto intro!: nth_equalityI simp: nth_enumerate_eq case_prod_beta)
  moreover have "mset (found_of (map fst postings) found) = mset (found_of (map (\<lambda>e. fst (snd e)) ordered) flags)"
  proof -
    have "found_of (map fst postings) found = map (\<lambda>e. fst (snd e)) (filter (\<lambda>e. found ! fst e) (enumerate 0 postings))"
    proof -
      have "map (\<lambda>e. found ! fst e) (enumerate 0 postings) = found"
        using len by (auto intro!: nth_equalityI simp: nth_enumerate_eq)
      moreover have "map (\<lambda>e. fst (snd e)) (enumerate 0 postings) = map fst postings"
        by (auto intro!: nth_equalityI simp: nth_enumerate_eq)
      ultimately show ?thesis
        using found_of_map [of "\<lambda>e. fst (snd e)" "enumerate 0 postings" found]
          found_of_reads [of "enumerate 0 postings" "\<lambda>e. found ! fst e"] by simp
    qed
    moreover have "found_of (map (\<lambda>e. fst (snd e)) ordered) flags = map (\<lambda>e. fst (snd e)) (filter (\<lambda>e. found ! fst e) ordered)"
      using reads found_of_map [of "\<lambda>e. fst (snd e)" ordered flags] found_of_reads [of ordered "\<lambda>e. found ! fst e"]
      by (simp add: comp_def)
    ultimately show ?thesis using mset by (simp add: mset_filter)
  qed
  ultimately show ?thesis using len by blast
qed

text \<open>
  (C12) The reconciliation of expected payments with receipts misses nothing it could explain.
  The verdicts are those of a set of payments that have each a receipt of their own, of the
  same kind and dated between the payment day and the end of its window; and no assignment of
  receipts to payments explains more of them, so as few payments as possible are reported as
  not received.
\<close>

theorem posting_match_is_optimal:
  assumes "calendar_laws X"
  shows "\<exists>found M. length found = length postings \<and>
    judge_all X rule postings facts = map2 (\<lambda>(p, own) b. judge p own b) postings found \<and>
    matching (in_window X rule) (mset (map fst postings)) (mset facts) M \<and>
    image_mset fst M = mset (found_of (map fst postings) found) \<and>
    (\<forall>N. matching (in_window X rule) (mset (map fst postings)) (mset facts) N \<longrightarrow> size N \<le> size M)"
proof -
  let ?ordered = "sort_key (\<lambda>(_, posting, _). posting_key posting) (enumerate 0 postings)"
  let ?ps = "map (\<lambda>e. fst (snd e)) ?ordered"
  have "mset ?ps = image_mset (\<lambda>e. fst (snd e)) (mset (enumerate 0 postings))" by simp
  also have "\<dots> = mset (map fst postings)"
    by (metis (no_types, lifting) list.map_comp map_snd_enumerate mset_map comp_apply map_cong)
  finally have mset: "mset ?ps = mset (map fst postings)" .
  have key: "(\<lambda>(_ :: nat, posting, _ :: ownership). posting_key posting) = (\<lambda>e. posting_key (fst (snd e)))"
    by (simp add: fun_eq_iff case_prod_beta)
  have "sorted (map posting_key ?ps)" unfolding key by (simp add: comp_def)
  then show ?thesis using greedy_window [OF assms, of ?ps rule facts] judge_all_found [of postings X rule facts] mset by metis
qed

lemma ref_calendar_laws: "calendar_laws ref_deps"
  by (simp add: calendar_laws_def ref_deps_def)

definition sample_coupon :: "date \<Rightarrow> scheduled_posting" where
  "sample_coupon d = \<lparr>sp_date = d, sp_kind = PCoupon, sp_entitlement = Some d\<rparr>"

definition sample_receipt :: received_posting where
  "sample_receipt = \<lparr>rp_event = EventId 1, rp_date = 6, rp_amount = money_new 500 Rub, rp_kind = PCoupon\<rparr>"

text \<open>Two coupons in reach of one receipt: the earlier one is explained, the later one reported.\<close>

theorem posting_match_is_optimal_witness:
  "judge_all ref_deps posting_match_v2 [(sample_coupon 1, Owned), (sample_coupon 5, Owned)] [sample_receipt] =
     [Silent, NotReceived] \<and>
   (\<exists>M. matching (in_window ref_deps posting_match_v2) {# sample_coupon 1, sample_coupon 5 #} {# sample_receipt #} M)"
proof -
  have "judge_all ref_deps posting_match_v2 [(sample_coupon 1, Owned), (sample_coupon 5, Owned)] [sample_receipt] =
      [Silent, NotReceived]"
    by (simp add: judge_all_def Let_def posting_key_def sample_coupon_def sample_receipt_def sorted_facts_def match_step_def
        first_unused_def fact_matches_def posting_deadline_def posting_match_v2_def ref_deps_def judge_def enumerate_eq_zip
        upt_rec)
  then show ?thesis
    using posting_match_is_optimal [OF ref_calendar_laws, of "[(sample_coupon 1, Owned), (sample_coupon 5, Owned)]"
        posting_match_v2 "[sample_receipt]"] by auto
qed

end
