(* ===== verification/Offers.thy ===== *)
theory Offers
  imports Bond
begin

text \<open>
  The offer book, \<open>projection/offers.rs\<close>: what was submitted to an offer, how much of it was
  cancelled and settled. The book is shown to admit exactly the actions that its history
  allows, and to answer the outstanding quantity that the history leaves, so that the debug
  assertion of \<open>SubmissionState::outstanding\<close> cannot fire.
\<close>

instantiation offer_submission_id :: linorder
begin

fun submission_uuid :: "offer_submission_id \<Rightarrow> uuid" where
  "submission_uuid (OfferSubmissionId u) = u"

definition less_eq_offer_submission_id :: "offer_submission_id \<Rightarrow> offer_submission_id \<Rightarrow> bool" where
  "less_eq_offer_submission_id a b \<longleftrightarrow> submission_uuid a \<le> submission_uuid b"

definition less_offer_submission_id :: "offer_submission_id \<Rightarrow> offer_submission_id \<Rightarrow> bool" where
  "less_offer_submission_id a b \<longleftrightarrow> submission_uuid a < submission_uuid b"

instance
proof
  fix x y :: offer_submission_id
  show "x = y" if "x \<le> y" "y \<le> x"
    using that by (cases x; cases y) (simp add: less_eq_offer_submission_id_def)
qed (auto simp: less_eq_offer_submission_id_def less_offer_submission_id_def)

end

section \<open>The book\<close>

datatype offer_error =
    OverSettled offer_submission_id quantity quantity
  | UnknownSubmission offer_submission_id
  | DuplicateSubmission offer_submission_id
  | OfferNonPositiveQuantity offer_submission_id
  | OfferNumeric numeric_error

record submission_state =
  sub_window :: offer_window_id
  sub_instrument :: instrument_id
  sub_submitted :: quantity
  sub_cancelled :: quantity
  sub_settled :: quantity

type_synonym offer_book = "(offer_submission_id, submission_state) btree"

text \<open>\<open>debug\<close> says whether the build checks debug assertions.\<close>

definition submission_outstanding :: "bool \<Rightarrow> deps \<Rightarrow> submission_state \<Rightarrow> (quantity, unit) result" where
  "submission_outstanding debug X st =
     (let left = and_then (dec_checked_add X (sub_cancelled st) (sub_settled st)) (\<lambda>claimed.
                 dec_checked_sub X (sub_submitted st) claimed) in
      case left of
        Ok l \<Rightarrow> if debug \<and> dec_is_negative X l then Panic else Ok l
      | _ \<Rightarrow> if debug then Panic else Ok quantity_zero)"

definition check_claim :: "deps \<Rightarrow> offer_submission_id \<Rightarrow> submission_state \<Rightarrow> quantity \<Rightarrow> quantity \<Rightarrow> (unit, offer_error) result" where
  "check_claim X submission st cancelled settled =
     and_then (map_err OfferNumeric (dec_checked_add X cancelled settled)) (\<lambda>claimed.
     if d_cmp X claimed (sub_submitted st) = Greater then Err (OverSettled submission (sub_submitted st) claimed)
     else Ok ())"

definition state_mut :: "offer_book \<Rightarrow> offer_submission_id \<Rightarrow> (submission_state, offer_error) result" where
  "state_mut book submission = ok_or (bt_get book submission) (UnknownSubmission submission)"

definition offer_apply :: "deps \<Rightarrow> offer_book \<Rightarrow> offer_exercise_action \<Rightarrow> (offer_book, offer_error) result" where
  "offer_apply X book action =
     (let submission = offer_submission action in
      if \<not> dec_is_positive X (offer_quantity action) then Err (OfferNonPositiveQuantity submission)
      else case action of
        Submitted _ window instrument quantity \<Rightarrow>
          if bt_get book submission \<noteq> None then Err (DuplicateSubmission submission)
          else Ok (bt_insert submission \<lparr>sub_window = window, sub_instrument = instrument, sub_submitted = quantity,
                 sub_cancelled = quantity_zero, sub_settled = quantity_zero\<rparr> book)
      | Cancelled _ quantity \<Rightarrow>
          and_then (state_mut book submission) (\<lambda>st.
          and_then (map_err OfferNumeric (dec_checked_add X (sub_cancelled st) quantity)) (\<lambda>cancelled.
          and_then (check_claim X submission st cancelled (sub_settled st)) (\<lambda>_.
          Ok (bt_insert submission (st\<lparr>sub_cancelled := cancelled\<rparr>) book))))
      | Settled _ _ _ quantity _ _ _ \<Rightarrow>
          and_then (state_mut book submission) (\<lambda>st.
          and_then (map_err OfferNumeric (dec_checked_add X (sub_settled st) quantity)) (\<lambda>settled.
          and_then (check_claim X submission st (sub_cancelled st) settled) (\<lambda>_.
          Ok (bt_insert submission (st\<lparr>sub_settled := settled\<rparr>) book)))))"

definition book_outstanding :: "bool \<Rightarrow> deps \<Rightarrow> offer_book \<Rightarrow> offer_submission_id \<Rightarrow> (quantity, unit) result" where
  "book_outstanding debug X book submission = (case bt_get book submission of
     None \<Rightarrow> Ok quantity_zero
   | Some st \<Rightarrow> submission_outstanding debug X st)"

definition book_submission :: "offer_book \<Rightarrow> offer_submission_id \<Rightarrow> submission_state option" where
  "book_submission book submission = bt_get book submission"

definition unresolved_submissions :: "offer_book \<Rightarrow> bond_schedule \<Rightarrow> offer_submission_id list" where
  "unresolved_submissions book schedule = List.map_filter (\<lambda>(submission, st).
     if list_ex (\<lambda>w. ow_window w = sub_window st) (bs_offer_windows schedule) then None else Some submission) book"

section \<open>What the history leaves\<close>

fun signed_quantity :: "offer_exercise_action \<Rightarrow> rat" where
  "signed_quantity (Submitted _ _ _ q) = dec_val q"
| "signed_quantity (Cancelled _ q) = - dec_val q"
| "signed_quantity (Settled _ _ _ q _ _ _) = - dec_val q"

definition left_of :: "offer_submission_id \<Rightarrow> offer_exercise_action list \<Rightarrow> rat" where
  "left_of s as = sum_list (map signed_quantity (filter (\<lambda>a. offer_submission a = s) as))"

lemma left_of_simps [simp]:
  "left_of s [] = 0"
  "left_of s (as @ [a]) = left_of s as + (if offer_submission a = s then signed_quantity a else 0)"
  by (simp_all add: left_of_def)

lemma left_of_absent: "s \<notin> offer_submission ` set as \<Longrightarrow> left_of s as = 0"
  by (induction as rule: rev_induct) auto

text \<open>The actions a history allows: a positive quantity, and no more than is left of the submission.\<close>

definition allowed :: "offer_exercise_action list \<Rightarrow> offer_exercise_action \<Rightarrow> bool" where
  "allowed as a \<longleftrightarrow> 0 < dec_val (offer_quantity a) \<and>
     (case a of
        Submitted s _ _ _ \<Rightarrow> s \<notin> offer_submission ` set as
      | _ \<Rightarrow> offer_submission a \<in> offer_submission ` set as \<and> dec_val (offer_quantity a) \<le> left_of (offer_submission a) as)"

text \<open>Quantities whose sums of a few the decimal type holds exactly, at \<open>s\<close> decimal places.\<close>

definition moderate :: "nat \<Rightarrow> quantity \<Rightarrow> bool" where
  "moderate s q \<longleftrightarrow> s \<le> 28 \<and> multiple s (dec_val q) \<and> dec_val q * 10 ^ s < 2 ^ 94"

definition tracked :: "nat \<Rightarrow> submission_state \<Rightarrow> bool" where
  "tracked s st \<longleftrightarrow> moderate s (sub_submitted st) \<and>
     multiple s (dec_val (sub_cancelled st)) \<and> multiple s (dec_val (sub_settled st)) \<and>
     0 \<le> dec_val (sub_cancelled st) \<and> 0 \<le> dec_val (sub_settled st) \<and>
     dec_val (sub_cancelled st) + dec_val (sub_settled st) \<le> dec_val (sub_submitted st)"

definition outstanding_val :: "submission_state \<Rightarrow> rat" where
  "outstanding_val st = dec_val (sub_submitted st) - dec_val (sub_cancelled st) - dec_val (sub_settled st)"

definition book_ok :: "nat \<Rightarrow> offer_exercise_action list \<Rightarrow> offer_book \<Rightarrow> bool" where
  "book_ok s as book \<longleftrightarrow> bt_invar book \<and>
     (\<forall>i. case bt_get book i of
        None \<Rightarrow> i \<notin> offer_submission ` set as
      | Some st \<Rightarrow> i \<in> offer_submission ` set as \<and> tracked s st \<and> outstanding_val st = left_of i as)"

text \<open>The decimal operations on such quantities, as arithmetic.\<close>

definition exact_sums :: "deps \<Rightarrow> nat \<Rightarrow> bool" where
  "exact_sums X s \<longleftrightarrow> order_laws X \<and> sum_laws X s \<and> sum_total X s"

lemma small_holds:
  assumes "s \<le> 28" "multiple s r" "0 \<le> r" "r \<le> t" "t * 10 ^ s < 2 ^ 96"
  shows "holds s r"
proof -
  have "r * 10 ^ s \<le> t * 10 ^ s" using assms(4) by (simp add: mult_right_mono)
  then have "r * 10 ^ s < 2 ^ 96" using assms(5) by (rule le_less_trans)
  then show ?thesis using assms(1-3) by (simp add: holds_iff)
qed

lemma exact_add:
  assumes "exact_sums X s" "s \<le> 28" "multiple s (dec_val a)" "multiple s (dec_val b)" "0 \<le> dec_val a" "0 \<le> dec_val b"
    "(dec_val a + dec_val b) * 10 ^ s < 2 ^ 96"
  shows "\<exists>c. dec_checked_add X a b = Ok c \<and> dec_val c = dec_val a + dec_val b"
proof -
  have h: "holds s (dec_val a)" "holds s (dec_val b)" "holds s (dec_val a + dec_val b)"
    using assms(5,6) by (intro small_holds [OF assms(2) _ _ _ assms(7)] multiple_add assms; simp)+
  then obtain c where c: "d_checked_add X a b = Some c"
    using assms(1) unfolding exact_sums_def sum_total_def by blast
  then have "dec_val c = dec_val a + dec_val b" using sum_lawsD(1) [OF _ h] assms(1) by (auto simp: exact_sums_def)
  then show ?thesis using c by (simp add: dec_checked_add_def)
qed

lemma exact_sub:
  assumes "exact_sums X s" "s \<le> 28" "multiple s (dec_val a)" "multiple s (dec_val b)" "0 \<le> dec_val b" "dec_val b \<le> dec_val a"
    "dec_val a * 10 ^ s < 2 ^ 96"
  shows "\<exists>c. dec_checked_sub X a b = Ok c \<and> dec_val c = dec_val a - dec_val b"
proof -
  have h: "holds s (dec_val a)" "holds s (dec_val b)" "holds s (dec_val a - dec_val b)"
    using assms(5,6) by (intro small_holds [OF assms(2) _ _ _ assms(7)] multiple_diff assms; simp)+
  then obtain c where c: "d_checked_sub X a b = Some c"
    using assms(1) unfolding exact_sums_def sum_total_def by blast
  then have "dec_val c = dec_val a - dec_val b" using sum_lawsD(2) [OF _ h(1,2)] h(3) assms(1) by (auto simp: exact_sums_def)
  then show ?thesis using c by (simp add: dec_checked_sub_def)
qed

lemma positive_val: "exact_sums X s \<Longrightarrow> dec_is_positive X q \<longleftrightarrow> 0 < dec_val q"
  using order_lawsD [of X] by (cases "dec_val q = 0") (auto simp: exact_sums_def dec_is_positive_def)

section \<open>The book follows the history\<close>

text \<open>
  A further claim of \<open>q\<close> on a tracked submission, whichever of the two sides it is added to,
  passes the check exactly when \<open>q\<close> is no more than is outstanding.
\<close>

lemma claim_step:
  assumes X: "exact_sums X s" and st: "tracked s st" and q: "moderate s q" "0 < dec_val q"
    and sides: "{a, b} = {sub_cancelled st, sub_settled st}"
      "dec_val a + dec_val b = dec_val (sub_cancelled st) + dec_val (sub_settled st)"
  shows "\<exists>a'. dec_checked_add X a q = Ok a' \<and> dec_val a' = dec_val a + dec_val q \<and> multiple s (dec_val a') \<and>
     (\<exists>c. dec_checked_add X a' b = Ok c \<and> (d_cmp X c (sub_submitted st) = Greater \<longleftrightarrow> outstanding_val st < dec_val q)) \<and>
     (\<exists>c. dec_checked_add X b a' = Ok c \<and> (d_cmp X c (sub_submitted st) = Greater \<longleftrightarrow> outstanding_val st < dec_val q))"
proof -
  have ab: "multiple s (dec_val a)" "multiple s (dec_val b)" "0 \<le> dec_val a" "0 \<le> dec_val b"
    using st sides(1) by (auto simp: tracked_def doubleton_eq_iff)
  have s: "s \<le> 28" using q(1) by (simp add: moderate_def)
  have room: "(dec_val a + dec_val b + dec_val q) * 10 ^ s < 2 ^ 96"
  proof -
    have "dec_val a + dec_val b \<le> dec_val (sub_submitted st)" using st sides(2) by (simp add: tracked_def)
    then have "(dec_val a + dec_val b) * 10 ^ s \<le> dec_val (sub_submitted st) * 10 ^ s" by (simp add: mult_right_mono)
    moreover have "dec_val (sub_submitted st) * 10 ^ s < 2 ^ 94" "dec_val q * 10 ^ s < 2 ^ 94"
      using st q(1) by (simp_all add: tracked_def moderate_def)
    ultimately show ?thesis by (simp add: distrib_right)
  qed
  have "(dec_val a + dec_val q) * 10 ^ s \<le> (dec_val a + dec_val b + dec_val q) * 10 ^ s"
    using ab(4) by (simp add: mult_right_mono)
  then have "(dec_val a + dec_val q) * 10 ^ s < 2 ^ 96" using room by (rule le_less_trans)
  then obtain a' where a': "dec_checked_add X a q = Ok a'" "dec_val a' = dec_val a + dec_val q"
    using exact_add [OF X s ab(1) _ ab(3), of q] q by (auto simp: moderate_def)
  have m: "multiple s (dec_val a')" using a'(2) ab(1) q(1) by (auto simp: moderate_def intro: multiple_add)
  have pos: "0 \<le> dec_val a'" using a'(2) ab(3) q(2) by simp
  obtain c where c: "dec_checked_add X a' b = Ok c" "dec_val c = dec_val a' + dec_val b"
    using exact_add [OF X s m ab(2) pos ab(4)] room a'(2) by (auto simp: algebra_simps)
  obtain d where d: "dec_checked_add X b a' = Ok d" "dec_val d = dec_val b + dec_val a'"
    using exact_add [OF X s ab(2) m ab(4) pos] room a'(2) by (auto simp: algebra_simps)
  have "d_cmp X x (sub_submitted st) = Greater \<longleftrightarrow> outstanding_val st < dec_val q" if "dec_val x = dec_val a' + dec_val b" for x
    using order_lawsD(1) [of X x "sub_submitted st"] X that a'(2) sides(2)
    by (auto simp: exact_sums_def cmp_of_def outstanding_val_def algebra_simps)
  then show ?thesis using a' m c d by (auto simp: add.commute)
qed

lemma book_okD:
  assumes "book_ok s as book"
  shows "bt_invar book"
    and "bt_get book i = None \<Longrightarrow> i \<notin> offer_submission ` set as"
    and "bt_get book i = Some st \<Longrightarrow> i \<in> offer_submission ` set as \<and> tracked s st \<and> outstanding_val st = left_of i as"
  using assms unfolding book_ok_def by (force dest: spec [of _ i])+

lemma book_ok_insert:
  assumes "book_ok s as book" "tracked s st" "outstanding_val st = left_of (offer_submission a) (as @ [a])"
  shows "book_ok s (as @ [a]) (bt_insert (offer_submission a) st book)"
proof -
  have "case bt_get (bt_insert (offer_submission a) st book) i of
        None \<Rightarrow> i \<notin> offer_submission ` set (as @ [a])
      | Some st \<Rightarrow> i \<in> offer_submission ` set (as @ [a]) \<and> tracked s st \<and> outstanding_val st = left_of i (as @ [a])" for i
    using book_okD(2,3) [OF assms(1), of i] assms(2,3)
    by (cases "i = offer_submission a"; cases "bt_get book i") auto
  then show ?thesis using book_okD(1) [OF assms(1)] by (simp add: book_ok_def)
qed

text \<open>
  A claim on one side of a submission, written once for cancellation and settlement: \<open>side\<close>
  reads the side, \<open>upd\<close> replaces it and \<open>chk\<close> is the check of the new value.
\<close>

lemma claim_action:
  assumes X: "exact_sums X s" and book: "book_ok s as book" and q: "moderate s q" "0 < dec_val q"
    and a: "signed_quantity a = - dec_val q" "allowed as a \<longleftrightarrow> offer_submission a \<in> offer_submission ` set as \<and> dec_val q \<le> left_of (offer_submission a) as"
    and app: "offer_apply X book a =
      and_then (state_mut book (offer_submission a)) (\<lambda>st.
      and_then (map_err OfferNumeric (dec_checked_add X (side st) q)) (\<lambda>c.
      and_then (chk st c) (\<lambda>_. Ok (bt_insert (offer_submission a) (upd c st) book))))"
    and claim: "\<And>st. tracked s st \<Longrightarrow> \<exists>c. dec_checked_add X (side st) q = Ok c \<and>
      dec_val c = dec_val (side st) + dec_val q \<and> multiple s (dec_val c) \<and>
      (if dec_val q \<le> outstanding_val st then chk st c = Ok () else \<exists>e. chk st c = Err e)"
    and upd: "\<And>st c. outstanding_val (upd c st) = outstanding_val st - (dec_val c - dec_val (side st))"
      "\<And>st c. tracked s st \<Longrightarrow> multiple s (dec_val c) \<Longrightarrow> dec_val (side st) \<le> dec_val c \<Longrightarrow>
         dec_val c - dec_val (side st) \<le> outstanding_val st \<Longrightarrow> tracked s (upd c st)"
  shows "if allowed as a then \<exists>book'. offer_apply X book a = Ok book' \<and> book_ok s (as @ [a]) book'
    else \<exists>e. offer_apply X book a = Err e"
proof (cases "bt_get book (offer_submission a)")
  case None
  then show ?thesis using book_okD(2) [OF book None] a(2) app by (simp add: state_mut_def)
next
  case (Some st)
  note ok = book_okD(3) [OF book Some]
  obtain c where c: "dec_checked_add X (side st) q = Ok c" "dec_val c = dec_val (side st) + dec_val q" "multiple s (dec_val c)"
    "if dec_val q \<le> outstanding_val st then chk st c = Ok () else \<exists>e. chk st c = Err e"
    using claim ok by blast
  show ?thesis
  proof (cases "dec_val q \<le> outstanding_val st")
    case True
    have "tracked s (upd c st)" using upd(2) [of st c] ok c(2,3) q(2) True by simp
    moreover have "outstanding_val (upd c st) = left_of (offer_submission a) (as @ [a])"
      using ok c(2) upd(1) [of c st] a(1) by simp
    ultimately have "book_ok s (as @ [a]) (bt_insert (offer_submission a) (upd c st) book)" by (rule book_ok_insert [OF book])
    then show ?thesis using True c ok a(2) app Some by (simp add: state_mut_def)
  next
    case False
    then show ?thesis using c ok a(2) app Some by (auto simp: state_mut_def)
  qed
qed

lemma offer_apply_allowed:
  assumes X: "exact_sums X s" and book: "book_ok s as book" and q: "moderate s (offer_quantity a)"
  shows "if allowed as a then \<exists>book'. offer_apply X book a = Ok book' \<and> book_ok s (as @ [a]) book'
    else \<exists>e. offer_apply X book a = Err e"
proof (cases "0 < dec_val (offer_quantity a)")
  case False
  then show ?thesis using positive_val [OF X] by (simp add: allowed_def offer_apply_def Let_def)
next
  case pos: True
  note positive = positive_val [OF X, of "offer_quantity a"]
  show ?thesis
  proof (cases a)
    case (Submitted i window instrument quantity)
    have val0: "dec_val quantity_zero = 0" by (simp add: quantity_zero_def dec_zero_def dec_val_def)
    define st where "st = \<lparr>sub_window = window, sub_instrument = instrument, sub_submitted = quantity,
        sub_cancelled = quantity_zero, sub_settled = quantity_zero\<rparr>"
    show ?thesis
    proof (cases "bt_get book i")
      case None
      then have "i \<notin> offer_submission ` set as" by (rule book_okD(2) [OF book])
      moreover have "tracked s st" using q pos by (simp add: tracked_def st_def val0 Submitted)
      moreover have "outstanding_val st = left_of i (as @ [a])"
        using calculation(1) by (simp add: outstanding_val_def st_def val0 Submitted left_of_absent)
      ultimately show ?thesis
        using book_ok_insert [OF book, of st a] None pos positive
        by (auto simp: allowed_def offer_apply_def Let_def Submitted st_def)
    next
      case (Some st')
      then show ?thesis
        using book_okD(3) [OF book Some] pos positive by (auto simp: allowed_def offer_apply_def Let_def Submitted)
    qed
  next
    case (Cancelled i quantity)
    have claim: "\<exists>c. dec_checked_add X (sub_cancelled st) quantity = Ok c \<and>
        dec_val c = dec_val (sub_cancelled st) + dec_val quantity \<and> multiple s (dec_val c) \<and>
        (if dec_val quantity \<le> outstanding_val st then check_claim X i st c (sub_settled st) = Ok ()
         else \<exists>e. check_claim X i st c (sub_settled st) = Err e)" if "tracked s st" for st
      using claim_step [OF X that, of quantity "sub_cancelled st" "sub_settled st"] q pos
      by (auto simp: Cancelled check_claim_def not_less)
    show ?thesis
      by (rule claim_action [OF X book, of quantity a sub_cancelled "\<lambda>st c. check_claim X i st c (sub_settled st)"
            "\<lambda>c st. st\<lparr>sub_cancelled := c\<rparr>"])
         (use q pos positive claim in \<open>auto simp: Cancelled allowed_def offer_apply_def Let_def tracked_def outstanding_val_def\<close>)
  next
    case (Settled i instrument custody quantity gross fee accrued)
    have claim: "\<exists>c. dec_checked_add X (sub_settled st) quantity = Ok c \<and>
        dec_val c = dec_val (sub_settled st) + dec_val quantity \<and> multiple s (dec_val c) \<and>
        (if dec_val quantity \<le> outstanding_val st then check_claim X i st (sub_cancelled st) c = Ok ()
         else \<exists>e. check_claim X i st (sub_cancelled st) c = Err e)" if "tracked s st" for st
      using claim_step [OF X that, of quantity "sub_settled st" "sub_cancelled st"] q pos
      by (auto simp: Settled check_claim_def not_less insert_commute add.commute)
    show ?thesis
      by (rule claim_action [OF X book, of quantity a sub_settled "\<lambda>st c. check_claim X i st (sub_cancelled st) c"
            "\<lambda>c st. st\<lparr>sub_settled := c\<rparr>"])
         (use q pos positive claim in \<open>auto simp: Settled allowed_def offer_apply_def Let_def tracked_def outstanding_val_def\<close>)
  qed
qed

lemma book_follows:
  assumes "exact_sums X s" "\<forall>a \<in> set as. moderate s (offer_quantity a)" "try_fold (offer_apply X) [] as = Ok book"
  shows "book_ok s as book"
  using assms(2,3)
proof (induction as arbitrary: book rule: rev_induct)
  case Nil
  then show ?case by (simp add: book_ok_def)
next
  case (snoc a as)
  then obtain b where b: "try_fold (offer_apply X) [] as = Ok b" "offer_apply X b a = Ok book" by (auto simp: try_fold_snoc_Ok)
  then have "book_ok s as b" using snoc by simp
  then show ?case using offer_apply_allowed [OF assms(1), of as b a] snoc.prems(1) b(2) by (auto split: if_splits)
qed

lemma outstanding_exact:
  assumes "exact_sums X s" "tracked s st"
  shows "\<exists>q. submission_outstanding debug X st = Ok q \<and> dec_val q = outstanding_val st \<and> 0 \<le> outstanding_val st"
proof -
  have s: "s \<le> 28" and sub: "multiple s (dec_val (sub_submitted st))" and "dec_val (sub_submitted st) * 10 ^ s < 2 ^ 94"
    using assms(2) by (auto simp: tracked_def moderate_def)
  then have room: "dec_val (sub_submitted st) * 10 ^ s < 2 ^ 96" by simp
  have le: "dec_val (sub_cancelled st) + dec_val (sub_settled st) \<le> dec_val (sub_submitted st)"
    using assms(2) by (simp add: tracked_def)
  then have "(dec_val (sub_cancelled st) + dec_val (sub_settled st)) * 10 ^ s \<le> dec_val (sub_submitted st) * 10 ^ s"
    by (simp add: mult_right_mono)
  then have "(dec_val (sub_cancelled st) + dec_val (sub_settled st)) * 10 ^ s < 2 ^ 96" using room by (rule le_less_trans)
  then obtain c where c: "dec_checked_add X (sub_cancelled st) (sub_settled st) = Ok c"
    "dec_val c = dec_val (sub_cancelled st) + dec_val (sub_settled st)"
    using exact_add [OF assms(1) s, of "sub_cancelled st" "sub_settled st"] assms(2) by (auto simp: tracked_def)
  obtain l where l: "dec_checked_sub X (sub_submitted st) c = Ok l" "dec_val l = dec_val (sub_submitted st) - dec_val c"
    using exact_sub [OF assms(1) s sub, of c] room c(2) le assms(2) by (auto simp: tracked_def intro: multiple_add)
  have "\<not> dec_is_negative X l"
    using order_lawsD(2,3) [of X l] assms(1) l(2) c(2) le by (cases "dec_val l = 0") (auto simp: dec_is_negative_def exact_sums_def)
  then show ?thesis using c l le by (auto simp: submission_outstanding_def outstanding_val_def)
qed

text \<open>
  (C13) The offer book follows its history. After the actions it accepted, it accepts a further
  action exactly when its quantity is positive and, for a submission, the submission is new,
  or, for a cancellation or a settlement, no more is claimed than the submission has left
  after all earlier cancellations and settlements. The outstanding quantity it answers is
  exactly what is left, never negative, and its debug assertion holds in every build. The
  quantities have \<open>s\<close> decimal places and the decimal library adds them exactly.
\<close>

theorem offer_book_follows_history:
  assumes "exact_sums X s" "try_fold (offer_apply X) [] as = Ok book"
    "\<forall>a \<in> set (as @ [a]). moderate s (offer_quantity a)"
  shows "(is_ok (offer_apply X book a) \<longleftrightarrow> allowed as a) \<and>
    (\<exists>q. book_outstanding debug X book i = Ok q \<and> dec_val q = left_of i as \<and> 0 \<le> left_of i as)"
proof
  have ok: "book_ok s as book" using book_follows assms by simp
  then show "is_ok (offer_apply X book a) \<longleftrightarrow> allowed as a"
    using offer_apply_allowed [OF assms(1) ok, of a] assms(3) by (auto split: if_splits)
  show "\<exists>q. book_outstanding debug X book i = Ok q \<and> dec_val q = left_of i as \<and> 0 \<le> left_of i as"
  proof (cases "bt_get book i")
    case None
    then show ?thesis using book_okD(2) [OF ok None]
      by (simp add: book_outstanding_def left_of_absent quantity_zero_def dec_zero_def dec_val_def)
  next
    case (Some st)
    then show ?thesis using book_okD(3) [OF ok Some] outstanding_exact [OF assms(1), of st debug]
      by (auto simp: book_outstanding_def)
  qed
qed

text \<open>Decimals of any size, as an instance of the laws.\<close>

definition wide_deps :: deps where
  "wide_deps = ref_deps
     \<lparr>d_checked_add := (\<lambda>a b. let s = max (scale a) (scale b) in Some (Decimal (ref_align a s + ref_align b s) s)),
      d_checked_sub := (\<lambda>a b. let s = max (scale a) (scale b) in Some (Decimal (ref_align a s - ref_align b s) s))\<rparr>"

lemma wide_exact_sums: "exact_sums wide_deps s"
proof -
  have "dec_val (Decimal (ref_align a t + ref_align b t) t) = dec_val a + dec_val b"
    "dec_val (Decimal (ref_align a t - ref_align b t) t) = dec_val a - dec_val b" if "t = max (scale a) (scale b)" for a b t
    using dec_val_align [of a t] dec_val_align [of b t] that
    by (simp_all add: dec_val_def add_divide_distrib diff_divide_distrib)
  then show ?thesis
    using ref_order_laws by (simp add: exact_sums_def order_laws_def sum_laws_def sum_total_def wide_deps_def Let_def)
qed

definition sample_offers :: "offer_exercise_action list" where
  "sample_offers = [Submitted (OfferSubmissionId 1) (OfferWindowId 2) (InstrumentId 3) (Decimal 10 0),
     Cancelled (OfferSubmissionId 1) (Decimal 4 0)]"

theorem offer_book_follows_history_witness:
  "\<exists>book. try_fold (offer_apply wide_deps) [] sample_offers = Ok book \<and>
     is_ok (offer_apply wide_deps book (Cancelled (OfferSubmissionId 1) (Decimal 6 0))) \<and>
     \<not> is_ok (offer_apply wide_deps book (Cancelled (OfferSubmissionId 1) (Decimal 7 0))) \<and>
     (\<exists>q. book_outstanding True wide_deps book (OfferSubmissionId 1) = Ok q \<and> dec_val q = 6)"
proof -
  have "\<exists>book. try_fold (offer_apply wide_deps) [] sample_offers = Ok book"
    by (simp add: sample_offers_def offer_apply_def Let_def dec_is_positive_def wide_deps_def ref_deps_def state_mut_def
        bt_get_def dec_checked_add_def ref_align_def check_claim_def ref_cmp_def cmp_of_def quantity_zero_def dec_zero_def)
  then obtain book where book: "try_fold (offer_apply wide_deps) [] sample_offers = Ok book" ..
  have small: "\<forall>a \<in> set (sample_offers @ [Cancelled (OfferSubmissionId 1) (Decimal n 0)]). moderate 0 (offer_quantity a)"
    if "n < 100" for n
    using that by (auto simp: sample_offers_def moderate_def multiple_def dec_val_def intro!: exI [of _ n] exI [of _ 10] exI [of _ 4])
  have left: "left_of (OfferSubmissionId 1) sample_offers = 6" by (simp add: left_of_def sample_offers_def dec_val_def)
  have may: "allowed sample_offers (Cancelled (OfferSubmissionId 1) (Decimal 6 0))"
    "\<not> allowed sample_offers (Cancelled (OfferSubmissionId 1) (Decimal 7 0))"
    using left by (simp_all add: allowed_def dec_val_def) (simp add: sample_offers_def)
  note use = offer_book_follows_history [OF wide_exact_sums book small, of _ True "OfferSubmissionId 1"]
  show ?thesis using book use [of 6] use [of 7] may left by auto
qed

end
