(* ===== verification/Allocation.thy ===== *)
theory Allocation
  imports Bond Ledger
begin

text \<open>
  Allocation rules. \<open>rules/trade_allocation.rs\<close> divides an amount over fills by the largest
  remainders and checks an order against the money its broker reported;
  \<open>rules/allocation.rs\<close> finds the share of the principal that a repayment returned. The
  division is shown to give away exactly the amount, each part next to its quota.
\<close>

section \<open>Dividing an amount\<close>

record order_money_mismatch =
  om_reported :: posted_minor
  om_expected :: posted_minor

definition calc_abs :: "deps \<Rightarrow> calc_money \<Rightarrow> calc_money" where
  "calc_abs X c = \<lparr>c_value = d_abs X (c_value c), c_currency = c_currency c\<rparr>"

definition check_order_completeness :: "deps \<Rightarrow> calc_money list \<Rightarrow> calc_money option \<Rightarrow> posted_minor \<Rightarrow> currency_code
    \<Rightarrow> (order_money_mismatch option, money_error) result" where
  "check_order_completeness X grosses accrued_interest reported_payment currency =
     and_then (try_fold (\<lambda>total_gross gross. calc_checked_add X total_gross (calc_abs X gross))
       \<lparr>c_value = dec_zero, c_currency = currency\<rparr> grosses) (\<lambda>gross_total.
     let accrued = (case accrued_interest of Some v \<Rightarrow> calc_abs X v | None \<Rightarrow> \<lparr>c_value = dec_zero, c_currency = currency\<rparr>) in
     and_then (calc_checked_add X gross_total accrued) (\<lambda>sum_due.
     and_then (rounded_minor X sum_due) (\<lambda>expected.
     Ok (if expected = reported_payment then None
         else Some \<lparr>om_reported = reported_payment, om_expected = expected\<rparr>))))"

datatype allocation_error =
    NegativeTotal | ZeroQuantity | FloorOverflow | TotalOverflow | RemainderOverflow | AllocationOverflow
  | AllocationNumeric numeric_error

definition allocation_part :: "deps \<Rightarrow> decimal \<Rightarrow> quantity \<Rightarrow> quantity \<Rightarrow> (int \<times> decimal, allocation_error) result" where
  "allocation_part X total_exact q weight =
     and_then (map_err AllocationNumeric (dec_checked_mul X total_exact weight)) (\<lambda>product.
     and_then (map_err AllocationNumeric (dec_checked_div X product q)) (\<lambda>quota.
     let whole = d_trunc X quota in
     and_then (ok_or (to_i64 (mantissa whole)) FloorOverflow) (\<lambda>base.
     and_then (map_err (\<lambda>_. RemainderOverflow) (dec_checked_sub X quota whole)) (\<lambda>remainder.
     Ok (base, remainder)))))"

definition remainder_order :: "deps \<Rightarrow> (int \<times> decimal) list \<Rightarrow> nat list" where
  "remainder_order X parts =
     sort_by (\<lambda>left right. then_with (d_cmp X (snd (parts ! right)) (snd (parts ! left))) (cmp_of left right))
       [0..<length parts]"

definition bump :: "int list \<Rightarrow> nat \<Rightarrow> (int list, allocation_error) result" where
  "bump result_parts index =
     and_then (ok_or (to_i64 (result_parts ! index + 1)) AllocationOverflow) (\<lambda>v. Ok (result_parts[index := v]))"

definition allocate_minor :: "deps \<Rightarrow> posted_minor \<Rightarrow> quantity list \<Rightarrow> (posted_minor list, allocation_error) result" where
  "allocate_minor X amount weights =
     (if amount < 0 then Err NegativeTotal
      else and_then (map_err AllocationNumeric (sum_quantities X weights)) (\<lambda>q.
        if d_is_zero X q then Err ZeroQuantity
        else and_then (try_map (allocation_part X (d_from_i64 X amount) q) weights) (\<lambda>parts.
             and_then (try_fold (\<lambda>sum_parts part. ok_or (to_i64 (sum_parts + fst part)) TotalOverflow) 0 parts) (\<lambda>allocated.
             and_then (ok_or (to_i128 (amount - allocated)) RemainderOverflow) (\<lambda>remaining.
             try_fold bump (map fst parts) (take (nat remaining) (remainder_order X parts)))))))"

section \<open>The share a repayment returned\<close>

definition repayment_sums_step :: "deps \<Rightarrow> date \<Rightarrow> decimal \<times> decimal \<Rightarrow> principal_return \<Rightarrow> (decimal \<times> decimal, allocation_gap) result" where
  "repayment_sums_step X on acc item = (case acc of (on_date, repaid_before) \<Rightarrow>
     if \<not> dec_is_positive X (pr_share_percent item) then Err InvalidPrefix
     else if pr_repayment_date item = on
     then and_then (map_err (\<lambda>_. InvalidPrefix) (dec_checked_add X on_date (pr_share_percent item))) (\<lambda>t. Ok (t, repaid_before))
     else if pr_repayment_date item < on
     then and_then (map_err (\<lambda>_. InvalidPrefix) (dec_checked_add X repaid_before (pr_share_percent item))) (\<lambda>t. Ok (on_date, t))
     else Ok acc)"

definition planned_amount :: "deps \<Rightarrow> per_unit_amount \<Rightarrow> decimal \<Rightarrow> (decimal, numeric_error) result" where
  "planned_amount X initial share =
     and_then (dec_checked_mul X (p_value initial) share) (\<lambda>product.
     and_then (dec_checked_div X product dec_hundred) (\<lambda>planned.
     dec_checked_round_to_scale X planned (minor_units (p_currency initial))))"

definition returned_share_on :: "deps \<Rightarrow> per_unit_amount \<Rightarrow> date \<Rightarrow> per_unit_amount \<Rightarrow> principal_return list
    \<Rightarrow> (returned_share, allocation_gap) result" where
  "returned_share_on X returned_per_unit on initial returns =
     and_then (try_fold (repayment_sums_step X on) (dec_zero, dec_zero) returns) (\<lambda>(on_date, repaid_before).
     if d_is_zero X on_date then Err NoRepaymentOnDate
     else and_then (map_err (\<lambda>_. InvalidPrefix) (dec_checked_sub X dec_hundred repaid_before)) (\<lambda>remaining_before.
          if \<not> dec_is_positive X remaining_before then Err InvalidPrefix
          else and_then (map_err (\<lambda>_. AmountMismatchGap) (planned_amount X initial on_date)) (\<lambda>planned.
               and_then (map_err (\<lambda>_. AmountMismatchGap) (dec_checked_round_to_scale X (p_value returned_per_unit)
                  (minor_units (p_currency returned_per_unit)))) (\<lambda>returned.
               if \<not> d_eq X planned returned then Err AmountMismatchGap
               else and_then (map_err (\<lambda>_. InvalidPrefix) (dec_checked_div X on_date remaining_before)) (\<lambda>share_value.
                    map_err (\<lambda>_. InvalidPrefix) (returned_share_new X share_value))))))"

text \<open>The fingerprint of the inputs: hexadecimal SHA-256 of their texts, sixty-four digits.\<close>

definition hex_digit :: "nat \<Rightarrow> char" where
  "hex_digit n = ''0123456789abcdef'' ! n"

definition hex_of :: "byte list \<Rightarrow> string" where
  "hex_of bs = concat (map (\<lambda>b. [hex_digit (unat b div 16), hex_digit (unat b mod 16)]) bs)"

definition is_hex :: "char \<Rightarrow> bool" where
  "is_hex c \<longleftrightarrow> c \<in> set ''0123456789abcdefABCDEF''"

definition inputs_hash_new :: "string \<Rightarrow> string option" where
  "inputs_hash_new v = (if length v \<noteq> 64 \<or> \<not> list_all is_hex v then None else Some v)"

definition compare_returns :: "deps \<Rightarrow> principal_return \<Rightarrow> principal_return \<Rightarrow> ordering" where
  "compare_returns X a b = then_with (cmp_of (pr_repayment_date a) (pr_repayment_date b))
     (d_cmp X (pr_share_percent a) (pr_share_percent b))"

definition allocation_inputs_hash :: "deps \<Rightarrow> hashing \<Rightarrow> per_unit_amount \<Rightarrow> principal_return list \<Rightarrow> date \<Rightarrow> string \<Rightarrow> string option" where
  "allocation_inputs_hash X H initial returns on snapshot_id = inputs_hash_new (hex_of (h_sha256 H (
     ascii_bytes ''iaam/allocation-inputs/v1'' @ ascii_bytes (d_to_string X (p_value initial)) @
     ascii_bytes (currency_code_str (p_currency initial)) @
     concat (map (\<lambda>r. ascii_bytes (t_date_to_string X (pr_repayment_date r)) @ ascii_bytes (d_to_string X (pr_share_percent r)))
       (sort_by (compare_returns X) returns)) @
     ascii_bytes (t_date_to_string X on) @ ascii_bytes snapshot_id)))"

definition resolve_basis_allocation :: "deps \<Rightarrow> hashing \<Rightarrow> per_unit_amount \<Rightarrow> date \<Rightarrow> bond_schedule option \<Rightarrow> string \<Rightarrow> instant
    \<Rightarrow> (basis_allocation, unit) result" where
  "resolve_basis_allocation X H returned_per_unit on schedule snapshot_id knowledge_as_of =
     (case schedule of
        None \<Rightarrow> Ok (UnknownAllocation ScheduleMissing)
      | Some sched \<Rightarrow>
          if bs_completeness sched \<noteq> Validated then Ok (UnknownAllocation ScheduleNotValidated)
          else (case bs_initial_principal sched of
            None \<Rightarrow> Ok (UnknownAllocation ScheduleMissing)
          | Some initial \<Rightarrow>
              if p_currency initial \<noteq> p_currency returned_per_unit then Ok (UnknownAllocation CurrencyMismatchGap)
              else (case returned_share_on X returned_per_unit on initial (bs_principal_returns sched) of
                Panic \<Rightarrow> Panic
              | Err gap \<Rightarrow> Ok (UnknownAllocation gap)
              | Ok share \<Rightarrow>
                  and_then (expect (allocation_inputs_hash X H initial (bs_principal_returns sched) on snapshot_id)) (\<lambda>hash.
                  Ok (KnownAllocation share \<lparr>ae_inputs_hash = hash, ae_knowledge_as_of = knowledge_as_of,
                    ae_algorithm_version = 1\<rparr>)))))"

section \<open>The fingerprint\<close>

lemma hex_digit_hex: "n < 16 \<Longrightarrow> is_hex (hex_digit n)"
proof -
  have "\<forall>n \<in> {0..<16}. is_hex (hex_digit n)" by (simp add: hex_digit_def is_hex_def atLeastLessThan_upt upt_rec)
  then show "n < 16 \<Longrightarrow> is_hex (hex_digit n)" by simp
qed

lemma hex_of_hex: "length (hex_of bs) = 2 * length bs \<and> list_all is_hex (hex_of bs)"
proof (induction bs)
  case (Cons b bs)
  have "unat b < 2 ^ LENGTH(8)" by (rule unsigned_less)
  then have "unat b < 256" by simp
  then show ?case using Cons by (simp add: hex_of_def hex_digit_hex)
qed (simp add: hex_of_def)

text \<open>A digest of thirty-two bytes always makes a fingerprint: the \<open>expect\<close> does not fire.\<close>

lemma inputs_hash_made:
  assumes "\<And>m. length (h_sha256 H m) = 32"
  shows "allocation_inputs_hash X H initial returns on snapshot_id \<noteq> None"
  using hex_of_hex assms by (simp add: allocation_inputs_hash_def inputs_hash_new_def)

lemma returned_share_valid:
  assumes "order_laws X" "returned_share_on X returned on initial returns = Ok share"
  shows "0 < dec_val share \<and> dec_val share \<le> 1"
proof -
  have "returned_share_new X share = Ok share"
    using assms(2) by (auto simp: returned_share_on_def returned_share_new_def split: if_splits prod.splits)
  moreover have "dec_val dec_one = 1" by (simp add: dec_one_def dec_val_def)
  ultimately show ?thesis
    using order_lawsD(1,2,3) [OF assms(1)]
    by (cases "dec_val share = 0") (auto simp: returned_share_new_def dec_is_positive_def cmp_of_def split: if_splits)
qed

section \<open>The largest remainders\<close>

definition trunc_laws :: "deps \<Rightarrow> bool" where
  "trunc_laws X \<longleftrightarrow> (\<forall>d. 0 \<le> dec_val d \<longrightarrow> d_trunc X d = Decimal \<lfloor>dec_val d\<rfloor> 0)"

text \<open>
  How precise the library's products and quotients have to be: a computed quota is not
  negative and misses the exact one by less than one part in the number of weights.
\<close>

definition near_quotas :: "deps \<Rightarrow> posted_minor \<Rightarrow> quantity list \<Rightarrow> bool" where
  "near_quotas X amount weights \<longleftrightarrow>
     (\<forall>q. sum_quantities X weights = Ok q \<longrightarrow> dec_val q = share_sum weights \<and>
       (\<forall>w \<in> set weights. \<forall>product quota. dec_checked_mul X (d_from_i64 X amount) w = Ok product \<longrightarrow>
          dec_checked_div X product q = Ok quota \<longrightarrow>
          0 \<le> dec_val quota \<and>
          \<bar>dec_val quota - of_int amount * dec_val w / dec_val q\<bar> * of_nat (length weights) < 1))"

lemma sum_list_increment: "i < length xs \<Longrightarrow> sum_list (xs[i := xs ! i + 1]) = sum_list xs + (1 :: int)"
  by (induction xs arbitrary: i) (auto split: nat.split)

lemma bump_Ok: "bump xs i = Ok ys \<Longrightarrow> i < length xs \<Longrightarrow>
    length ys = length xs \<and> sum_list ys = sum_list xs + 1 \<and> (\<forall>j. ys ! j = (if j = i then xs ! j + 1 else xs ! j))"
  by (auto simp: bump_def sum_list_increment nth_list_update to_i64_def split: if_splits)

lemma bumps_Ok:
  assumes "try_fold bump xs is = Ok ys" "distinct is" "set is \<subseteq> {0..<length xs}"
  shows "length ys = length xs \<and> sum_list ys = sum_list xs + int (length is) \<and>
    (\<forall>j. ys ! j = (if j \<in> set is then xs ! j + 1 else xs ! j))"
  using assms
proof (induction "is" arbitrary: xs)
  case (Cons i js)
  then obtain zs where zs: "bump xs i = Ok zs" "try_fold bump zs js = Ok ys" by auto
  have step: "length zs = length xs" "sum_list zs = sum_list xs + 1" "zs ! j = (if j = i then xs ! j + 1 else xs ! j)" for j
    using bump_Ok [OF zs(1)] Cons.prems(3) by auto
  have "length ys = length zs" "sum_list ys = sum_list zs + int (length js)"
    "ys ! j = (if j \<in> set js then zs ! j + 1 else zs ! j)" for j
    using Cons.IH [OF zs(2)] Cons.prems(2,3) step(1) by auto
  then show ?case using step Cons.prems(2) by auto
qed simp

lemma remainder_order_perm: "mset (remainder_order X parts) = mset [0..<length parts]"
  by (simp add: remainder_order_def)

lemma fold_total: "try_fold (\<lambda>t part. ok_or (to_i64 (t + fst part)) e) s parts = Ok t \<Longrightarrow> t = s + sum_list (map fst parts)"
proof (induction parts arbitrary: s)
  case (Cons p parts)
  then have "t = s + fst p + sum_list (map fst parts)" by (intro Cons.IH) auto
  then show ?case by simp
qed simp

lemma allocate_minor_Ok:
  assumes "allocate_minor X amount weights = Ok result"
  shows "\<exists>q parts. sum_quantities X weights = Ok q \<and> \<not> d_is_zero X q \<and> 0 \<le> amount \<and>
    list_all2 (\<lambda>w part. allocation_part X (d_from_i64 X amount) q w = Ok part) weights parts \<and>
    length result = length parts \<and>
    sum_list result = sum_list (map fst parts) + int (min (nat (amount - sum_list (map fst parts))) (length parts)) \<and>
    (\<forall>i < length parts. result ! i = fst (parts ! i) \<or> result ! i = fst (parts ! i) + 1)"
proof -
  obtain q parts allocated where q: "sum_quantities X weights = Ok q" "\<not> d_is_zero X q" "0 \<le> amount"
    and parts: "try_map (allocation_part X (d_from_i64 X amount) q) weights = Ok parts"
    and all: "try_fold (\<lambda>t part. ok_or (to_i64 (t + fst part)) TotalOverflow) 0 parts = Ok allocated"
    and bumps: "try_fold bump (map fst parts) (take (nat (amount - allocated)) (remainder_order X parts)) = Ok result"
    using assms by (auto simp: allocate_minor_def split: if_splits)
  have allocated: "allocated = sum_list (map fst parts)" using fold_total [OF all] by simp
  have "distinct (remainder_order X parts)" "set (remainder_order X parts) = {0..<length parts}"
    "length (remainder_order X parts) = length parts"
    using remainder_order_perm [of X parts]
    by (metis distinct_upt mset_eq_imp_distinct_iff, metis set_mset_mset set_upt, metis length_upt mset_eq_length diff_zero)
  then have "length result = length parts \<and>
      sum_list result = sum_list (map fst parts) + int (min (nat (amount - allocated)) (length parts)) \<and>
      (\<forall>j. result ! j = (if j \<in> set (take (nat (amount - allocated)) (remainder_order X parts))
         then map fst parts ! j + 1 else map fst parts ! j))"
    using bumps_Ok [OF bumps] set_take_subset [of "nat (amount - allocated)" "remainder_order X parts"]
    by (simp add: min.commute)
  then show ?thesis using q parts unfolding try_map_Ok_iff allocated by (intro exI [of _ q] exI [of _ parts]) auto
qed

lemma allocation_part_quota:
  assumes "trunc_laws X" "near_quotas X amount weights" "sum_quantities X weights = Ok q" "w \<in> set weights"
    "allocation_part X (d_from_i64 X amount) q w = Ok part"
  shows "\<exists>r. \<bar>r - of_int amount * dec_val w / dec_val q\<bar> * of_nat (length weights) < 1 \<and> fst part = \<lfloor>r :: rat\<rfloor>"
proof -
  obtain product quota where p: "dec_checked_mul X (d_from_i64 X amount) w = Ok product" "dec_checked_div X product q = Ok quota"
    "fst part = mantissa (d_trunc X quota)"
    using assms(5) by (auto simp: allocation_part_def Let_def)
  have "0 \<le> dec_val quota" "\<bar>dec_val quota - of_int amount * dec_val w / dec_val q\<bar> * of_nat (length weights) < 1"
    using assms(2-4) p unfolding near_quotas_def by blast+
  then show ?thesis using assms(1) p(3) by (intro exI [of _ "dec_val quota"]) (simp add: trunc_laws_def)
qed

text \<open>Rounding down numbers that are close to shares of a whole leaves at most one unit for each.\<close>

lemma floors_of_shares:
  fixes rs qs :: "rat list" and amount :: int
  assumes len: "length rs = length qs" and whole: "sum_list qs = of_int amount"
    and near: "\<forall>i < length qs. \<bar>rs ! i - qs ! i\<bar> * of_nat (length qs) < 1"
  shows "0 \<le> amount - sum_list (map floor rs) \<and> amount - sum_list (map floor rs) \<le> int (length qs)"
proof (cases "qs = []")
  case True
  then show ?thesis using whole len by simp
next
  case False
  let ?n = "of_nat (length qs) :: rat"
  have n: "0 < ?n" using False by simp
  have d: "\<bar>rs ! i - qs ! i\<bar> < 1 / ?n" if "i < length qs" for i
    using near that n by (simp add: pos_less_divide_eq)
  have up: "of_int \<lfloor>rs ! i\<rfloor> < qs ! i + 1 / ?n" and down: "qs ! i < of_int \<lfloor>rs ! i\<rfloor> + 1 + 1 / ?n" if "i < length qs" for i
    using d [OF that] of_int_floor_le [of "rs ! i"] floor_correct [of "rs ! i"] by linarith+
  have sums: "sum_list (map floor rs) = (\<Sum>i<length qs. \<lfloor>rs ! i\<rfloor>)" "sum_list qs = (\<Sum>i<length qs. qs ! i)"
    using len by (simp_all add: sum_list_sum_nth atLeast0LessThan)
  have ne: "{..<length qs} \<noteq> {}" using False by auto
  have "(of_int (sum_list (map floor rs)) :: rat) = (\<Sum>i<length qs. of_int \<lfloor>rs ! i\<rfloor>)" by (simp add: sums)
  also have "\<dots> < (\<Sum>i<length qs. qs ! i + 1 / ?n)" using ne up by (intro sum_strict_mono) auto
  also have "\<dots> = of_int amount + 1" using n whole sums(2) by (simp add: sum.distrib)
  finally have below: "sum_list (map floor rs) < amount + 1" by linarith
  have "(of_int amount :: rat) = (\<Sum>i<length qs. qs ! i)" using whole sums(2) by simp
  also have "\<dots> < (\<Sum>i<length qs. of_int \<lfloor>rs ! i\<rfloor> + 1 + 1 / ?n)" using ne down by (intro sum_strict_mono) auto
  also have "\<dots> = of_int (sum_list (map floor rs)) + ?n + 1" using n by (simp add: sum.distrib sums(1))
  finally have "amount < sum_list (map floor rs) + int (length qs) + 1" by linarith
  then show ?thesis using below by linarith
qed

text \<open>
  (C33) Dividing an amount over fills gives away exactly the amount: the parts add up to it with
  no unit lost or made up, there is one for every fill, and each is within two units of the
  exact quota of its fill. The decimal library may round the quotas it computes, as long as
  none is negative and each misses the exact one by less than one part in the number of fills.
\<close>

theorem allocation_gives_away_the_amount:
  assumes "allocate_minor X amount weights = Ok result" "order_laws X" "trunc_laws X" "near_quotas X amount weights"
  shows "sum_list result = amount \<and> length result = length weights \<and>
    (\<forall>i < length weights. \<bar>of_int (result ! i) - of_int amount * dec_val (weights ! i) / share_sum weights\<bar> < 2)"
proof -
  obtain q parts where q: "sum_quantities X weights = Ok q" "\<not> d_is_zero X q" "0 \<le> amount"
    and parts: "list_all2 (\<lambda>w part. allocation_part X (d_from_i64 X amount) q w = Ok part) weights parts"
    and len: "length result = length parts"
    and result_sum: "sum_list result = sum_list (map fst parts) + int (min (nat (amount - sum_list (map fst parts))) (length parts))"
    and each: "\<forall>i < length parts. result ! i = fst (parts ! i) \<or> result ! i = fst (parts ! i) + 1"
    using allocate_minor_Ok [OF assms(1)] by blast
  have qv: "dec_val q = share_sum weights" using assms(4) q(1) by (simp add: near_quotas_def)
  have q0: "dec_val q \<noteq> 0" using q(2) order_lawsD(2) [OF assms(2)] by simp
  have n: "length parts = length weights" using parts by (simp add: list_all2_lengthD)
  let ?quota = "\<lambda>i. of_int amount * dec_val (weights ! i) / dec_val q"
  have "\<exists>r. \<bar>r - ?quota i\<bar> * of_nat (length weights) < 1 \<and> fst (parts ! i) = \<lfloor>r\<rfloor>" if "i < length weights" for i
    using allocation_part_quota [OF assms(3,4) q(1)] that parts by (simp add: list_all2_conv_all_nth)
  then obtain r where r: "\<bar>r i - ?quota i\<bar> * of_nat (length weights) < 1" "fst (parts ! i) = \<lfloor>r i\<rfloor>"
    if "i < length weights" for i by metis
  define rs where "rs = map r [0..<length weights]"
  define qs where "qs = map ?quota [0..<length weights]"
  have floors: "map fst parts = map floor rs"
    using r(2) n by (auto simp: rs_def intro!: nth_equalityI)
  have "sum_list qs = (\<Sum>i<length weights. ?quota i)"
    by (simp add: qs_def sum_list_sum_nth atLeast0LessThan)
  also have "\<dots> = of_int amount * share_sum weights / dec_val q"
    by (simp add: share_sum_def sum_list_sum_nth atLeast0LessThan sum_distrib_left sum_divide_distrib)
  finally have whole: "sum_list qs = of_int amount" using qv q0 by simp
  have "0 \<le> amount - sum_list (map floor rs) \<and> amount - sum_list (map floor rs) \<le> int (length qs)"
    by (rule floors_of_shares) (use whole r(1) in \<open>auto simp: rs_def qs_def\<close>)
  then have "sum_list result = amount" using result_sum n by (simp add: floors qs_def min_def nat_le_iff)
  moreover have "\<bar>of_int (result ! i) - of_int amount * dec_val (weights ! i) / share_sum weights\<bar> < 2" if i: "i < length weights" for i
  proof -
    have "1 \<le> (of_nat (length weights) :: rat)" using i by simp
    then have "\<bar>r i - ?quota i\<bar> * 1 \<le> \<bar>r i - ?quota i\<bar> * of_nat (length weights)" by (intro mult_left_mono) auto
    then have "\<bar>r i - ?quota i\<bar> < 1" using r(1) [OF i] by simp
    moreover have "result ! i = \<lfloor>r i\<rfloor> \<or> result ! i = \<lfloor>r i\<rfloor> + 1" using each [rule_format, of i] i n r(2) [OF i] by simp
    ultimately show ?thesis unfolding qv [symmetric] using floor_correct [of "r i"] by linarith
  qed
  ultimately show ?thesis using len n by simp
qed

lemma ref_trunc_laws: "trunc_laws ref_deps"
proof -
  have "quot_to_zero (mantissa d) (10 ^ scale d) = \<lfloor>dec_val d\<rfloor>" if "0 \<le> dec_val d" for d
  proof -
    have "0 \<le> mantissa d" using that dec_val_neg_iff [of d] by linarith
    moreover have "\<lfloor>dec_val d\<rfloor> = mantissa d div 10 ^ scale d"
      using floor_divide_of_int_eq [of "mantissa d" "10 ^ scale d", where ?'a = rat] by (simp add: dec_val_def)
    ultimately show ?thesis by (cases "mantissa d = 0") (simp_all add: quot_to_zero_def)
  qed
  then show ?thesis by (simp add: trunc_laws_def ref_deps_def ref_trunc_def)
qed

lemmas ref_arith = ref_deps_def ref_add_def ref_sub_def ref_mul_def ref_div_def ref_dec_def ref_align_def ref_trunc_def ref_cmp_def
  quot_to_zero_def dec_checked_add_def dec_checked_sub_def dec_checked_mul_def dec_checked_div_def
  quantity_zero_def dec_zero_def

lemma sample_weights_sum:
  "sum_quantities ref_deps [Decimal 1 0, Decimal 1 0, Decimal 1 0] = Ok (Decimal 3 0)"
  by (simp add: sum_quantities_def ref_arith)

lemma sample_part:
  "allocation_part ref_deps (Decimal 100 0) (Decimal 3 0) (Decimal 1 0) = Ok (33, Decimal 333333 6)"
  by (simp add: allocation_part_def ref_arith to_i64_def i64_defs)

theorem allocation_gives_away_the_amount_witness:
  "\<exists>result. allocate_minor ref_deps 100 [Decimal 1 0, Decimal 1 0, Decimal 1 0] = Ok result \<and>
     sum_list result = 100 \<and> length result = 3"
proof -
  let ?ws = "[Decimal 1 0, Decimal 1 0, Decimal 1 0]"
  let ?part = "(33 :: int, Decimal 333333 6)"
  have amount: "d_from_i64 ref_deps n = Decimal n 0" for n by (simp add: ref_deps_def)
  have order: "remainder_order ref_deps [?part, ?part, ?part] = [0, 1, 2]"
    by (simp add: remainder_order_def sort_by_def ref_arith cmp_of_def upt_rec)
  have nonzero: "\<not> d_is_zero ref_deps (Decimal 3 0)" by (simp add: ref_deps_def)
  have "allocate_minor ref_deps 100 ?ws = Ok [34, 33, 33]"
    by (simp add: allocate_minor_def sample_weights_sum amount sample_part nonzero order to_i64_def i64_defs to_i128_def
        i128_defs bump_def)
  then obtain result where ok: "allocate_minor ref_deps 100 ?ws = Ok result" ..
  have "dec_checked_mul ref_deps (Decimal 100 0) (Decimal 1 0) = Ok (Decimal 100 0)"
    "dec_checked_div ref_deps (Decimal 100 0) (Decimal 3 0) = Ok (Decimal 33333333 6)" by (simp_all add: ref_arith)
  then have near: "near_quotas ref_deps 100 ?ws"
    by (simp add: near_quotas_def sample_weights_sum amount dec_val_def)
  show ?thesis using ok allocation_gives_away_the_amount [OF ok ref_order_laws ref_trunc_laws near] by auto
qed

end
