(* ===== verification/Anchor.thy ===== *)
theory Anchor
  imports Balances
begin

text \<open>
  Opening anchors, \<open>reconciliation/anchor.rs\<close>: whether a balance of the journal starts from a
  stated opening balance or from nothing. The index is built in one pass over the effective
  events; its answers are shown to be those of the whole list of dated events.
\<close>

section \<open>The index\<close>

datatype opening_anchor = Asserted | Unasserted

fun opening_anchor_code :: "opening_anchor \<Rightarrow> string" where
  "opening_anchor_code Asserted = ''asserted''"
| "opening_anchor_code Unasserted = ''unasserted''"

datatype opening_incorporation = Incorporated | Unincorporated

record opening_anchors =
  oa_first_cash :: "(account_id \<times> currency_code, date) btree"
  oa_first_security :: "(account_id \<times> instrument_id, date) btree"
  oa_reconstructed_cash :: "(account_id \<times> currency_code, date) btree"
  oa_reconstructed_position :: "(account_id \<times> instrument_id, date) btree"
  oa_cash_openings :: "(account_id \<times> currency_code \<times> date) list"
  oa_position_openings :: "(account_id \<times> instrument_id \<times> date) list"

definition anchors_default :: opening_anchors where
  "anchors_default = \<lparr>oa_first_cash = [], oa_first_security = [], oa_reconstructed_cash = [],
     oa_reconstructed_position = [], oa_cash_openings = [], oa_position_openings = []\<rparr>"

definition earliest :: "('k::linorder, date) btree \<Rightarrow> 'k \<Rightarrow> date \<Rightarrow> ('k, date) btree" where
  "earliest into key d = bt_upsert key d (\<lambda>known. if d < known then d else known) into"

definition is_reconstructed :: "event \<Rightarrow> bool" where
  "is_reconstructed e \<longleftrightarrow> (case e_kind e of OpeningCash _ \<Rightarrow> True | OpeningPosition _ _ _ _ \<Rightarrow> True | _ \<Rightarrow> False)"

definition record_cash_leg :: "bool \<Rightarrow> date \<Rightarrow> opening_anchors \<Rightarrow> leg \<Rightarrow> opening_anchors" where
  "record_cash_leg reconstructed d index l = (case leg_cash_effect l of
     None \<Rightarrow> index
   | Some money \<Rightarrow>
       let key = (l_account l, m_currency money) in
       index\<lparr>oa_first_cash := earliest (oa_first_cash index) key d,
             oa_reconstructed_cash := (if reconstructed then earliest (oa_reconstructed_cash index) key d
                                       else oa_reconstructed_cash index)\<rparr>)"

definition record_security_leg :: "bool \<Rightarrow> date \<Rightarrow> opening_anchors \<Rightarrow> leg \<Rightarrow> opening_anchors" where
  "record_security_leg reconstructed d index l = (case (l_kind l, l_instrument l) of
     (LSecurityQuantity, Some instrument) \<Rightarrow>
       let key = (l_account l, instrument) in
       index\<lparr>oa_first_security := earliest (oa_first_security index) key d,
             oa_reconstructed_position := (if reconstructed then earliest (oa_reconstructed_position index) key d
                                           else oa_reconstructed_position index)\<rparr>
   | _ \<Rightarrow> index)"

definition record_movements :: "opening_anchors \<Rightarrow> event \<Rightarrow> date \<Rightarrow> opening_anchors" where
  "record_movements index e d =
     foldl (\<lambda>index l. record_security_leg (is_reconstructed e) d (record_cash_leg (is_reconstructed e) d index l) l) index (e_legs e)"

definition record_assertion :: "opening_anchors \<Rightarrow> event \<Rightarrow> opening_anchors" where
  "record_assertion index e = (case e_kind e of
     ControlAssertion period (CashBalance currency _ Opening) \<Rightarrow>
       index\<lparr>oa_cash_openings := oa_cash_openings index @ [(e_account e, currency, ap_from period)]\<rparr>
   | ControlAssertion period (PositionQuantity instrument _ Opening) \<Rightarrow>
       index\<lparr>oa_position_openings := oa_position_openings index @ [(e_account e, instrument, ap_from period)]\<rparr>
   | _ \<Rightarrow> index)"

definition anchors_step :: "opening_anchors \<Rightarrow> event \<Rightarrow> opening_anchors" where
  "anchors_step index e = (case effective_date (e_dates e) of
     None \<Rightarrow> index
   | Some d \<Rightarrow> record_assertion (record_movements index e d) e)"

definition anchors_of :: "event list \<Rightarrow> opening_anchors" where
  "anchors_of events = foldl anchors_step anchors_default events"

definition anchored :: "date list \<Rightarrow> date option \<Rightarrow> date \<Rightarrow> opening_anchor" where
  "anchored asserted_from reconstructed_at first_movement =
     (if list_ex (\<lambda>f. f \<le> first_movement) asserted_from \<or>
         (case reconstructed_at of None \<Rightarrow> False | Some d \<Rightarrow> d \<le> first_movement)
      then Asserted else Unasserted)"

definition incorporation :: "date option \<Rightarrow> date \<Rightarrow> opening_incorporation" where
  "incorporation reconstructed_at first_movement =
     (if (case reconstructed_at of None \<Rightarrow> False | Some d \<Rightarrow> d \<le> first_movement) then Incorporated else Unincorporated)"

definition anchors_cash :: "opening_anchors \<Rightarrow> account_id \<Rightarrow> currency_code \<Rightarrow> opening_anchor" where
  "anchors_cash index account currency = (case bt_get (oa_first_cash index) (account, currency) of
     None \<Rightarrow> Unasserted
   | Some first \<Rightarrow> anchored (map (\<lambda>(_, _, f). f) (filter (\<lambda>(owner, code, _). owner = account \<and> code = currency) (oa_cash_openings index)))
       (bt_get (oa_reconstructed_cash index) (account, currency)) first)"

definition cash_incorporation :: "opening_anchors \<Rightarrow> account_id \<Rightarrow> currency_code \<Rightarrow> opening_incorporation" where
  "cash_incorporation index account currency = (case bt_get (oa_first_cash index) (account, currency) of
     None \<Rightarrow> Unincorporated
   | Some first \<Rightarrow> incorporation (bt_get (oa_reconstructed_cash index) (account, currency)) first)"

definition anchors_position :: "opening_anchors \<Rightarrow> account_id \<Rightarrow> instrument_id \<Rightarrow> opening_anchor" where
  "anchors_position index account instrument = (case bt_get (oa_first_security index) (account, instrument) of
     None \<Rightarrow> Unasserted
   | Some first \<Rightarrow> anchored (map (\<lambda>(_, _, f). f) (filter (\<lambda>(owner, held, _). owner = account \<and> held = instrument) (oa_position_openings index)))
       (bt_get (oa_reconstructed_position index) (account, instrument)) first)"

definition position_incorporation :: "opening_anchors \<Rightarrow> account_id \<Rightarrow> instrument_id \<Rightarrow> opening_incorporation" where
  "position_incorporation index account instrument = (case bt_get (oa_first_security index) (account, instrument) of
     None \<Rightarrow> Unincorporated
   | Some first \<Rightarrow> incorporation (bt_get (oa_reconstructed_position index) (account, instrument)) first)"

section \<open>Earliest dates\<close>

text \<open>What a map holds after the dates of some keys were noted in it.\<close>

definition noted :: "('k::linorder, date) btree \<Rightarrow> ('k \<times> date) list \<Rightarrow> bool" where
  "noted m kds \<longleftrightarrow> (\<forall>k. bt_get m k =
     (if k \<in> fst ` set kds then Some (Min {d. (k, d) \<in> set kds}) else None))"

lemma finite_dates [simp]: "finite {d. (k, d) \<in> set kds}"
  by (rule finite_subset [of _ "snd ` set kds"]) force+

lemma noted_Nil [simp]: "noted [] []"
  by (simp add: noted_def)

lemma noted_snoc:
  assumes "noted m kds"
  shows "noted (earliest m k d) (kds @ [(k, d)])"
proof -
  have dates: "{x. (j, x) \<in> set (kds @ [(k, d)])} = (if j = k then insert d {x. (j, x) \<in> set kds} else {x. (j, x) \<in> set kds})" for j
    by auto
  have earlier: "min x y = (if x < y then x else y)" for x y :: date
    by (simp add: min_def)
  have "bt_get (earliest m k d) j =
      (if j \<in> fst ` set (kds @ [(k, d)]) then Some (Min {x. (j, x) \<in> set (kds @ [(k, d)])}) else None)" for j
  proof (cases "j = k")
    case False
    then show ?thesis unfolding dates using assms by (simp add: noted_def earliest_def)
  next
    case True
    show ?thesis
    proof (cases "k \<in> fst ` set kds")
      case known: True
      then have "{x. (k, x) \<in> set kds} \<noteq> {}" by auto
      then have "Min (insert d {x. (k, x) \<in> set kds}) = (if d < Min {x. (k, x) \<in> set kds} then d else Min {x. (k, x) \<in> set kds})"
        by (subst Min_insert) (simp_all only: finite_dates earlier not_False_eq_True simp_thms)
      then show ?thesis unfolding dates using assms known True by (simp only: noted_def earliest_def bt_upsert_get) simp
    next
      case False
      then have "{x. (k, x) \<in> set kds} = {}" by force
      then show ?thesis unfolding dates using assms False True by (simp add: noted_def earliest_def)
    qed
  qed
  then show ?thesis by (simp add: noted_def)
qed

section \<open>What the events say\<close>

text \<open>The dated movements of the cash and of the securities, and the stated openings.\<close>

definition dated_events :: "event list \<Rightarrow> (date \<times> event) list" where
  "dated_events es = List.map_filter (\<lambda>e. map_option (\<lambda>d. (d, e)) (effective_date (e_dates e))) es"

lemma dated_events_simps [simp]:
  "dated_events [] = []"
  "dated_events (es @ [e]) = dated_events es @ (case effective_date (e_dates e) of None \<Rightarrow> [] | Some d \<Rightarrow> [(d, e)])"
  by (simp_all add: dated_events_def List.map_filter_def split: option.splits)

definition leg_cash_key :: "leg \<Rightarrow> (account_id \<times> currency_code) option" where
  "leg_cash_key l = map_option (\<lambda>m. (l_account l, m_currency m)) (leg_cash_effect l)"

definition leg_security_key :: "leg \<Rightarrow> (account_id \<times> instrument_id) option" where
  "leg_security_key l = (if l_kind l = LSecurityQuantity then map_option (Pair (l_account l)) (l_instrument l) else None)"

definition movements :: "(leg \<Rightarrow> 'k option) \<Rightarrow> (date \<times> event) list \<Rightarrow> ('k \<times> date) list" where
  "movements key des = concat (map (\<lambda>(d, e). map (\<lambda>k. (k, d)) (List.map_filter key (e_legs e))) des)"

lemma movements_simps [simp]:
  "movements key [] = []"
  "movements key (des @ [(d, e)]) = movements key des @ map (\<lambda>k. (k, d)) (List.map_filter key (e_legs e))"
  by (simp_all add: movements_def)

definition reconstructions :: "(date \<times> event) list \<Rightarrow> (date \<times> event) list" where
  "reconstructions des = filter (\<lambda>(_, e). is_reconstructed e) des"

definition stated_opening :: "event \<Rightarrow> (account_id \<times> currency_code \<times> date) option" where
  "stated_opening e = (case e_kind e of
     ControlAssertion period (CashBalance currency _ Opening) \<Rightarrow> Some (e_account e, currency, ap_from period)
   | _ \<Rightarrow> None)"

definition stated_position :: "event \<Rightarrow> (account_id \<times> instrument_id \<times> date) option" where
  "stated_position e = (case e_kind e of
     ControlAssertion period (PositionQuantity instrument _ Opening) \<Rightarrow> Some (e_account e, instrument, ap_from period)
   | _ \<Rightarrow> None)"

definition indexed :: "(date \<times> event) list \<Rightarrow> opening_anchors \<Rightarrow> bool" where
  "indexed des index \<longleftrightarrow>
     noted (oa_first_cash index) (movements leg_cash_key des) \<and>
     noted (oa_first_security index) (movements leg_security_key des) \<and>
     noted (oa_reconstructed_cash index) (movements leg_cash_key (reconstructions des)) \<and>
     noted (oa_reconstructed_position index) (movements leg_security_key (reconstructions des)) \<and>
     oa_cash_openings index = List.map_filter (stated_opening \<circ> snd) des \<and>
     oa_position_openings index = List.map_filter (stated_position \<circ> snd) des"

lemma record_cash_leg_key:
  "record_cash_leg r d index l = (case leg_cash_key l of None \<Rightarrow> index
   | Some k \<Rightarrow> index\<lparr>oa_first_cash := earliest (oa_first_cash index) k d,
       oa_reconstructed_cash := (if r then earliest (oa_reconstructed_cash index) k d else oa_reconstructed_cash index)\<rparr>)"
  by (simp add: record_cash_leg_def leg_cash_key_def Let_def split: option.split)

lemma record_security_leg_key:
  "record_security_leg r d index l = (case leg_security_key l of None \<Rightarrow> index
   | Some k \<Rightarrow> index\<lparr>oa_first_security := earliest (oa_first_security index) k d,
       oa_reconstructed_position := (if r then earliest (oa_reconstructed_position index) k d else oa_reconstructed_position index)\<rparr>)"
  by (cases "l_kind l"; cases "l_instrument l") (simp_all add: record_security_leg_def leg_security_key_def Let_def)

lemma record_legs:
  assumes "noted (oa_first_cash index) c" "noted (oa_first_security index) s"
    "noted (oa_reconstructed_cash index) rc" "noted (oa_reconstructed_position index) rs"
    "index' = foldl (\<lambda>index l. record_security_leg r d (record_cash_leg r d index l) l) index ls"
  shows "noted (oa_first_cash index') (c @ map (\<lambda>k. (k, d)) (List.map_filter leg_cash_key ls)) \<and>
    noted (oa_first_security index') (s @ map (\<lambda>k. (k, d)) (List.map_filter leg_security_key ls)) \<and>
    noted (oa_reconstructed_cash index') (rc @ (if r then map (\<lambda>k. (k, d)) (List.map_filter leg_cash_key ls) else [])) \<and>
    noted (oa_reconstructed_position index') (rs @ (if r then map (\<lambda>k. (k, d)) (List.map_filter leg_security_key ls) else [])) \<and>
    oa_cash_openings index' = oa_cash_openings index \<and> oa_position_openings index' = oa_position_openings index"
  using assms(1-4) unfolding assms(5)
proof (induction ls arbitrary: index c s rc rs)
  case (Cons l ls)
  define one where "one = record_security_leg r d (record_cash_leg r d index l) l"
  let ?c = "case leg_cash_key l of None \<Rightarrow> [] | Some k \<Rightarrow> [(k, d)]"
  let ?s = "case leg_security_key l of None \<Rightarrow> [] | Some k \<Rightarrow> [(k, d)]"
  have "noted (oa_first_cash one) (c @ ?c)" "noted (oa_first_security one) (s @ ?s)"
    "noted (oa_reconstructed_cash one) (rc @ (if r then ?c else []))"
    "noted (oa_reconstructed_position one) (rs @ (if r then ?s else []))"
    "oa_cash_openings one = oa_cash_openings index" "oa_position_openings one = oa_position_openings index"
    using Cons.prems
    by (simp_all add: one_def record_security_leg_key record_cash_leg_key noted_snoc split: option.split)
  from Cons.IH [OF this(1-4)] this(5,6) show ?case
    by (auto simp: one_def List.map_filter_def split: option.splits)
qed (simp add: List.map_filter_def)

lemma anchors_indexed: "indexed (dated_events es) (anchors_of es)"
proof (induction es rule: rev_induct)
  case Nil
  show ?case by (simp add: indexed_def anchors_of_def anchors_default_def reconstructions_def List.map_filter_def)
next
  case (snoc e es)
  show ?case
  proof (cases "effective_date (e_dates e)")
    case None
    then show ?thesis using snoc by (simp add: anchors_of_def anchors_step_def)
  next
    case (Some d)
    let ?one = "record_movements (anchors_of es) e d"
    have step: "anchors_of (es @ [e]) = record_assertion ?one e" using Some by (simp add: anchors_of_def anchors_step_def)
    have maps: "oa_first_cash (record_assertion i e) = oa_first_cash i" "oa_first_security (record_assertion i e) = oa_first_security i"
      "oa_reconstructed_cash (record_assertion i e) = oa_reconstructed_cash i"
      "oa_reconstructed_position (record_assertion i e) = oa_reconstructed_position i" for i
      by (simp_all add: record_assertion_def split: event_kind.split control_claim.split balance_point.split)
    have lists: "oa_cash_openings (record_assertion i e) = oa_cash_openings i @ (case stated_opening e of None \<Rightarrow> [] | Some x \<Rightarrow> [x])"
      "oa_position_openings (record_assertion i e) = oa_position_openings i @ (case stated_position e of None \<Rightarrow> [] | Some x \<Rightarrow> [x])" for i
      by (simp_all add: record_assertion_def stated_opening_def stated_position_def split: event_kind.split control_claim.split balance_point.split)
    have recon: "reconstructions (dated_events (es @ [e])) =
        reconstructions (dated_events es) @ (if is_reconstructed e then [(d, e)] else [])"
      by (simp add: reconstructions_def Some)
    have stated: "List.map_filter (f \<circ> snd) (dated_events (es @ [e])) =
        List.map_filter (f \<circ> snd) (dated_events es) @ (case f e of None \<Rightarrow> [] | Some x \<Rightarrow> [x])" for f :: "event \<Rightarrow> 'x option"
      by (simp add: Some List.map_filter_def split: option.split)
    from snoc have before: "noted (oa_first_cash (anchors_of es)) (movements leg_cash_key (dated_events es))"
      "noted (oa_first_security (anchors_of es)) (movements leg_security_key (dated_events es))"
      "noted (oa_reconstructed_cash (anchors_of es)) (movements leg_cash_key (reconstructions (dated_events es)))"
      "noted (oa_reconstructed_position (anchors_of es)) (movements leg_security_key (reconstructions (dated_events es)))"
      "oa_cash_openings (anchors_of es) = List.map_filter (stated_opening \<circ> snd) (dated_events es)"
      "oa_position_openings (anchors_of es) = List.map_filter (stated_position \<circ> snd) (dated_events es)"
      by (simp_all only: indexed_def)
    note legs = record_legs [OF before(1-4), of ?one "is_reconstructed e" d "e_legs e", OF record_movements_def]
    show ?thesis
      unfolding indexed_def step maps lists recon stated
      using legs before(5,6) by (cases "is_reconstructed e") (simp_all add: Some)
  qed
qed

section \<open>What the index answers\<close>

lemma noted_get:
  assumes "noted m kds"
  shows "bt_get m k = Some d \<longleftrightarrow> (k, d) \<in> set kds \<and> (\<forall>d'. (k, d') \<in> set kds \<longrightarrow> d \<le> d')"
    and "bt_get m k = None \<longleftrightarrow> (\<forall>d'. (k, d') \<notin> set kds)"
proof -
  have "Min {x. (k, x) \<in> set kds} = d \<longleftrightarrow> (k, d) \<in> set kds \<and> (\<forall>d'. (k, d') \<in> set kds \<longrightarrow> d \<le> d')"
    if "k \<in> fst ` set kds"
    using that by (subst Min_eq_iff) auto
  then show "bt_get m k = Some d \<longleftrightarrow> (k, d) \<in> set kds \<and> (\<forall>d'. (k, d') \<in> set kds \<longrightarrow> d \<le> d')"
    using assms by (force simp: noted_def)
  show "bt_get m k = None \<longleftrightarrow> (\<forall>d'. (k, d') \<notin> set kds)"
    using assms by (force simp: noted_def)
qed

lemma anchored_noted:
  assumes "noted firsts moved" "noted recons rebuilt"
  shows "(case bt_get firsts k of None \<Rightarrow> Unasserted | Some first \<Rightarrow> anchored froms (bt_get recons k) first) = Asserted \<longleftrightarrow>
    (\<exists>d. (k, d) \<in> set moved) \<and>
    (\<exists>f. (f \<in> set froms \<or> (k, f) \<in> set rebuilt) \<and> (\<forall>d. (k, d) \<in> set moved \<longrightarrow> f \<le> d))"
proof (cases "bt_get firsts k")
  case None
  then have "\<forall>d. (k, d) \<notin> set moved" using noted_get(2) [OF assms(1)] by blast
  then show ?thesis using None by simp
next
  case (Some first)
  then have first: "(k, first) \<in> set moved" "\<And>d. (k, d) \<in> set moved \<Longrightarrow> first \<le> d"
    using noted_get(1) [OF assms(1)] by auto
  have "(\<forall>d. (k, d) \<in> set moved \<longrightarrow> f \<le> d) \<longleftrightarrow> f \<le> first" for f
    using first order_trans by blast
  moreover have "(case bt_get recons k of None \<Rightarrow> False | Some d \<Rightarrow> d \<le> first) \<longleftrightarrow> (\<exists>f. (k, f) \<in> set rebuilt \<and> f \<le> first)"
  proof (cases "bt_get recons k")
    case None
    then have "\<forall>d. (k, d) \<notin> set rebuilt" using noted_get(2) [OF assms(2)] by blast
    then show ?thesis using None by simp
  next
    case (Some d)
    then have "(k, d) \<in> set rebuilt" "\<forall>x. (k, x) \<in> set rebuilt \<longrightarrow> d \<le> x"
      using noted_get(1) [OF assms(2)] by blast+
    then show ?thesis using Some by (auto intro: order_trans)
  qed
  ultimately show ?thesis using Some first(1)
    by (auto simp: anchored_def list_ex_iff)
qed

text \<open>The dates at which a key moves, was rebuilt by an opening event, or was stated.\<close>

definition cash_moves :: "event list \<Rightarrow> account_id \<Rightarrow> currency_code \<Rightarrow> date \<Rightarrow> bool" where
  "cash_moves es a c d \<longleftrightarrow> (\<exists>e \<in> set es. effective_date (e_dates e) = Some d \<and>
     (\<exists>l \<in> set (e_legs e). leg_cash_key l = Some (a, c)))"

definition cash_opened :: "event list \<Rightarrow> account_id \<Rightarrow> currency_code \<Rightarrow> date \<Rightarrow> bool" where
  "cash_opened es a c f \<longleftrightarrow>
     (\<exists>e \<in> set es. effective_date (e_dates e) \<noteq> None \<and> stated_opening e = Some (a, c, f)) \<or>
     cash_moves (filter is_reconstructed es) a c f"

lemma in_dated: "(d, e) \<in> set (dated_events es) \<longleftrightarrow> e \<in> set es \<and> effective_date (e_dates e) = Some d"
  by (induction es rule: rev_induct) (auto split: option.split)

lemma in_movements:
  "((a, c), d) \<in> set (movements leg_cash_key (dated_events es)) \<longleftrightarrow> cash_moves es a c d"
  by (force simp: movements_def cash_moves_def in_dated List.map_filter_def)

lemma reconstructions_dated: "reconstructions (dated_events es) = dated_events (filter is_reconstructed es)"
  by (induction es rule: rev_induct) (auto simp: reconstructions_def split: option.split)

lemma openings_of:
  "f \<in> set (map (\<lambda>(_, _, f). f) (filter (\<lambda>(owner, code, _). owner = a \<and> code = c)
       (List.map_filter (stated_opening \<circ> snd) (dated_events es)))) \<longleftrightarrow>
   (\<exists>e \<in> set es. effective_date (e_dates e) \<noteq> None \<and> stated_opening e = Some (a, c, f))"
  (is "f \<in> set ?froms \<longleftrightarrow> ?stated")
proof -
  have "f \<in> set ?froms \<longleftrightarrow> (a, c, f) \<in> set (List.map_filter (stated_opening \<circ> snd) (dated_events es))"
    by force
  also have "\<dots> \<longleftrightarrow> (\<exists>d e. (d, e) \<in> set (dated_events es) \<and> stated_opening e = Some (a, c, f))"
    by (force simp: List.map_filter_def)
  finally show ?thesis by (auto simp: in_dated)
qed

text \<open>The opening of a cash balance is asserted exactly when the balance has moved and an
  opening of it, stated by a control assertion or rebuilt by an opening event, starts no later
  than any of its movements: the order of the events plays no part.\<close>

lemma cash_anchor_is_the_earliest_opening:
  "anchors_cash (anchors_of es) a c = Asserted \<longleftrightarrow>
     (\<exists>d. cash_moves es a c d) \<and>
     (\<exists>f. cash_opened es a c f \<and> \<not> (\<exists>d. cash_moves es a c d \<and> d < f))"
proof -
  let ?i = "anchors_of es"
  note ix = anchors_indexed [of es, unfolded indexed_def]
  have froms: "oa_cash_openings ?i = List.map_filter (stated_opening \<circ> snd) (dated_events es)"
    using ix by blast
  have first: "noted (oa_first_cash ?i) (movements leg_cash_key (dated_events es))"
    using ix by blast
  have recon: "noted (oa_reconstructed_cash ?i) (movements leg_cash_key (dated_events (filter is_reconstructed es)))"
    using ix unfolding reconstructions_dated by blast
  show ?thesis
    unfolding anchors_cash_def anchored_noted [OF first recon] froms openings_of in_movements cash_opened_def
    by (auto simp: not_less)
qed

end
