(* ===== verification/Observed.thy ===== *)
theory Observed
  imports Anchor Correction
begin

text \<open>
  What the journal says about an account in a period, \<open>reconciliation/observed.rs\<close>: one pass
  over the effective events that folds balances before, up to and at the boundary of the
  period, accumulates the turnover and the fee, income and tax totals inside it, and folds a
  balance for every earlier moment at which the source stated one. The lemmas take the pass
  apart: each quantity is an independent fold of the events its dates select, hence a sum of
  postings.
\<close>

section \<open>Data\<close>

record turnover =
  to_debit :: posted_minor
  to_credit :: posted_minor

definition turnover_default :: turnover where
  "turnover_default = \<lparr>to_debit = 0, to_credit = 0\<rparr>"

text \<open>The count of a span is a \<open>u64\<close>: a slice of events is shorter than its range.\<close>

record fold_span =
  fs_events :: nat
  fs_first :: "date option"
  fs_last :: "date option"

definition fold_span_default :: fold_span where
  "fold_span_default = \<lparr>fs_events = 0, fs_first = None, fs_last = None\<rparr>"

definition span_include :: "date \<Rightarrow> fold_span \<Rightarrow> fold_span" where
  "span_include d s = \<lparr>
     fs_events = fs_events s + 1,
     fs_first = Some (case fs_first s of None \<Rightarrow> d | Some known \<Rightarrow> min known d),
     fs_last = Some (case fs_last s of None \<Rightarrow> d | Some known \<Rightarrow> max known d)\<rparr>"

definition span_merge :: "fold_span \<Rightarrow> fold_span \<Rightarrow> fold_span" where
  "span_merge s t = \<lparr>
     fs_events = min (2 ^ 64 - 1) (fs_events s + fs_events t),
     fs_first = (case (fs_first s, fs_first t) of
        (Some left, Some right) \<Rightarrow> Some (min left right) | (v, None) \<Rightarrow> v | (None, v) \<Rightarrow> v),
     fs_last = (case (fs_last s, fs_last t) of
        (Some left, Some right) \<Rightarrow> Some (max left right) | (v, None) \<Rightarrow> v | (None, v) \<Rightarrow> v)\<rparr>"

datatype balance_moment = BalanceMoment (bm_date: date) (bm_inclusive: bool)

instantiation balance_moment :: linorder
begin

definition less_eq_balance_moment :: "balance_moment \<Rightarrow> balance_moment \<Rightarrow> bool" where
  "less_eq_balance_moment a b \<longleftrightarrow> (bm_date a, bm_inclusive a) \<le> (bm_date b, bm_inclusive b)"

definition less_balance_moment :: "balance_moment \<Rightarrow> balance_moment \<Rightarrow> bool" where
  "less_balance_moment a b \<longleftrightarrow> (bm_date a, bm_inclusive a) < (bm_date b, bm_inclusive b)"

instance
  by standard (auto simp: less_eq_balance_moment_def less_balance_moment_def balance_moment.expand)

end

instantiation balance_point :: linorder
begin

definition less_eq_balance_point :: "balance_point \<Rightarrow> balance_point \<Rightarrow> bool" where
  "less_eq_balance_point a b \<longleftrightarrow> a = Opening \<or> b = Closing"

definition less_balance_point :: "balance_point \<Rightarrow> balance_point \<Rightarrow> bool" where
  "less_balance_point a b \<longleftrightarrow> a = Opening \<and> b = Closing"

instance
proof
  fix x y z :: balance_point
  show "x < y \<longleftrightarrow> x \<le> y \<and> \<not> y \<le> x"
    by (cases x; cases y) (simp_all add: less_eq_balance_point_def less_balance_point_def)
  show "x \<le> x" by (cases x) (simp_all add: less_eq_balance_point_def)
  show "x \<le> y \<Longrightarrow> y \<le> z \<Longrightarrow> x \<le> z" by (cases y) (auto simp: less_eq_balance_point_def)
  show "x \<le> y \<Longrightarrow> y \<le> x \<Longrightarrow> x = y" by (auto simp: less_eq_balance_point_def)
  show "x \<le> y \<or> y \<le> x" by (cases x; cases y) (simp_all add: less_eq_balance_point_def)
qed

end

definition moment_of :: "assertion_period \<Rightarrow> balance_point \<Rightarrow> balance_moment" where
  "moment_of period point = (case point of
     Opening \<Rightarrow> BalanceMoment (ap_from period) False
   | Closing \<Rightarrow> BalanceMoment (ap_to period) True)"

definition moment_covers :: "balance_moment \<Rightarrow> date \<Rightarrow> bool" where
  "moment_covers m d = (if bm_inclusive m then d \<le> bm_date m else d < bm_date m)"

record baseline =
  bl_at :: balance_moment
  bl_claimed :: posted_minor
  bl_observed :: posted_minor

record chosen_baseline =
  ch_at :: balance_moment
  ch_claimed :: "posted_minor option"

record stated_balance =
  sb_at :: balance_moment
  sb_currency :: currency_code
  sb_claimed :: posted_minor

datatype observe_error =
    EventWithoutDate event_id
  | ObserveOverflow string
  | ObserveBalance balance_error
  | ObserveCorrection correction_error
  | ObserveNumeric numeric_error

record observed_totals =
  ot_cash_opening :: "(currency_code, posted_minor) btree"
  ot_cash_closing :: "(currency_code, posted_minor) btree"
  ot_positions_opening :: "(instrument_id, quantity) btree"
  ot_positions_closing :: "(instrument_id, quantity) btree"
  ot_turnover :: "(currency_code, turnover) btree"
  ot_fees :: "(currency_code, posted_minor) btree"
  ot_income :: "(currency_code, posted_minor) btree"
  ot_tax_withheld :: "(currency_code, posted_minor) btree"
  ot_tax_facts_recorded :: bool
  ot_cash_anchor :: "(currency_code, opening_anchor) btree"
  ot_position_anchor :: "(instrument_id, opening_anchor) btree"
  ot_before :: fold_span
  ot_within :: fold_span
  ot_cash_baseline :: "(balance_point \<times> currency_code, baseline) btree"
  ot_cash_excluded :: "(currency_code, posted_minor) btree"
  ot_position_excluded :: "(instrument_id, quantity) btree"

definition observed_default :: observed_totals where
  "observed_default = \<lparr>ot_cash_opening = [], ot_cash_closing = [], ot_positions_opening = [], ot_positions_closing = [],
     ot_turnover = [], ot_fees = [], ot_income = [], ot_tax_withheld = [], ot_tax_facts_recorded = False,
     ot_cash_anchor = [], ot_position_anchor = [], ot_before = fold_span_default, ot_within = fold_span_default,
     ot_cash_baseline = [], ot_cash_excluded = [], ot_position_excluded = []\<rparr>"

definition observed_cash_at :: "observed_totals \<Rightarrow> balance_point \<Rightarrow> currency_code \<Rightarrow> posted_minor option" where
  "observed_cash_at t point currency = (case point of
     Opening \<Rightarrow> bt_get (ot_cash_opening t) currency | Closing \<Rightarrow> bt_get (ot_cash_closing t) currency)"

definition observed_position_at :: "observed_totals \<Rightarrow> balance_point \<Rightarrow> instrument_id \<Rightarrow> quantity option" where
  "observed_position_at t point instrument = (case point of
     Opening \<Rightarrow> bt_get (ot_positions_opening t) instrument | Closing \<Rightarrow> bt_get (ot_positions_closing t) instrument)"

definition events_seen :: "observed_totals \<Rightarrow> nat" where
  "events_seen t = fs_events (ot_before t) + fs_events (ot_within t)"

section \<open>Accumulating inside the period\<close>

definition add_magnitude :: "(currency_code, posted_minor) btree \<Rightarrow> currency_code \<Rightarrow> int \<Rightarrow> string
    \<Rightarrow> ((currency_code, posted_minor) btree, observe_error) result" where
  "add_magnitude into currency raw field =
     and_then (ok_or (to_i64 \<bar>raw\<bar>) (ObserveOverflow field)) (\<lambda>magnitude.
     ok_or (bt_checked_add currency magnitude into) (ObserveOverflow field))"

definition add_turnover :: "turnover \<Rightarrow> int \<Rightarrow> (turnover, observe_error) result" where
  "add_turnover t raw =
     (if 0 \<le> raw then
        and_then (ok_or (pm_checked_add (to_debit t) raw) (ObserveOverflow ''debit'')) (\<lambda>debit.
        Ok (t\<lparr>to_debit := debit\<rparr>))
      else
        and_then (ok_or (to_i64 (- raw)) (ObserveOverflow ''credit'')) (\<lambda>magnitude.
        and_then (ok_or (pm_checked_add (to_credit t) magnitude) (ObserveOverflow ''credit'')) (\<lambda>credit.
        Ok (t\<lparr>to_credit := credit\<rparr>))))"

definition accumulate_leg :: "bool \<Rightarrow> account_id \<Rightarrow> observed_totals \<Rightarrow> leg \<Rightarrow> (observed_totals, observe_error) result" where
  "accumulate_leg is_income account t l =
     (if l_account l \<noteq> account then Ok t
      else case leg_cash_effect l of
        None \<Rightarrow> Ok t
      | Some money \<Rightarrow>
          let currency = m_currency money; raw = m_amount money;
              known = (case bt_get (ot_turnover t) currency of None \<Rightarrow> turnover_default | Some v \<Rightarrow> v) in
          and_then (add_turnover known raw) (\<lambda>turned.
          let t = t\<lparr>ot_turnover := bt_insert currency turned (ot_turnover t)\<rparr> in
          case l_kind l of
            LFee \<Rightarrow> and_then (add_magnitude (ot_fees t) currency raw ''fees'') (\<lambda>m. Ok (t\<lparr>ot_fees := m\<rparr>))
          | LTax \<Rightarrow>
              let t = t\<lparr>ot_tax_facts_recorded := True\<rparr> in
              and_then (add_magnitude (ot_tax_withheld t) currency raw ''tax_withheld'') (\<lambda>m. Ok (t\<lparr>ot_tax_withheld := m\<rparr>))
          | LCash \<Rightarrow>
              if is_income
              then and_then (add_magnitude (ot_income t) currency raw ''income'') (\<lambda>m. Ok (t\<lparr>ot_income := m\<rparr>))
              else Ok t
          | LSecurityQuantity \<Rightarrow> Ok t
          | LPrincipal \<Rightarrow> Ok t))"

definition is_income_event :: "event \<Rightarrow> bool" where
  "is_income_event e \<longleftrightarrow> (case e_kind e of Income _ _ _ \<Rightarrow> True | _ \<Rightarrow> False)"

definition accumulate :: "observed_totals \<Rightarrow> event \<Rightarrow> account_id \<Rightarrow> (observed_totals, observe_error) result" where
  "accumulate t e account = try_fold (accumulate_leg (is_income_event e) account) t (e_legs e)"

section \<open>Baselines\<close>

definition stated_cash_balances :: "event list \<Rightarrow> account_id \<Rightarrow> stated_balance list" where
  "stated_cash_balances events account = List.map_filter (\<lambda>e.
     if e_account e \<noteq> account then None
     else case e_kind e of
       ControlAssertion period (CashBalance currency amount point) \<Rightarrow>
         Some \<lparr>sb_at = moment_of period point, sb_currency = currency, sb_claimed = amount\<rparr>
     | _ \<Rightarrow> None) events"

definition latest_step :: "balance_point \<Rightarrow> (balance_point \<times> currency_code, balance_moment) btree \<Rightarrow> stated_balance
    \<Rightarrow> (balance_point \<times> currency_code, balance_moment) btree" where
  "latest_step point latest candidate =
     bt_upsert (point, sb_currency candidate) (sb_at candidate)
       (\<lambda>known. if known < sb_at candidate then sb_at candidate else known) latest"

definition latest_moments :: "stated_balance list \<Rightarrow> assertion_period \<Rightarrow> (balance_point \<times> currency_code, balance_moment) btree" where
  "latest_moments stated period = foldl (\<lambda>latest point.
     foldl (latest_step point) latest (filter (\<lambda>candidate. sb_at candidate < moment_of period point) stated)) [] [Opening, Closing]"

definition agree_step :: "posted_minor option \<times> bool \<Rightarrow> stated_balance \<Rightarrow> posted_minor option \<times> bool" where
  "agree_step s candidate = (case fst s of
     Some claimed \<Rightarrow> if claimed \<noteq> sb_claimed candidate then (fst s, True) else s
   | None \<Rightarrow> (Some (sb_claimed candidate), snd s))"

definition agreed_claim :: "stated_balance list \<Rightarrow> currency_code \<Rightarrow> balance_moment \<Rightarrow> posted_minor option" where
  "agreed_claim stated currency moment =
     (let (agreed, contradicted) = foldl agree_step (None, False)
            (filter (\<lambda>candidate. sb_currency candidate = currency \<and> sb_at candidate = moment) stated)
      in if contradicted then None else agreed)"

definition choose_baselines :: "stated_balance list \<Rightarrow> assertion_period \<Rightarrow> (balance_point \<times> currency_code, chosen_baseline) btree" where
  "choose_baselines stated period = map (\<lambda>((point, currency), moment).
     ((point, currency), \<lparr>ch_at = moment, ch_claimed = agreed_claim stated currency moment\<rparr>)) (latest_moments stated period)"

definition distinct_moments :: "(balance_point \<times> currency_code, chosen_baseline) btree \<Rightarrow> balance_moment list" where
  "distinct_moments selected =
     remdups_adj (sort (map (\<lambda>(_, c). ch_at c) (filter (\<lambda>(_, c). ch_claimed c \<noteq> None) selected)))"

section \<open>Snapshots\<close>

definition snapshot_cash :: "balances \<Rightarrow> account_id \<Rightarrow> (currency_code, posted_minor) btree \<Rightarrow> (currency_code, posted_minor) btree" where
  "snapshot_cash b account into = foldl (\<lambda>into (owner, money).
     if owner = account then bt_insert (m_currency money) (m_amount money) into else into) into (iter_cash b)"

definition snapshot_positions :: "balances \<Rightarrow> account_id \<Rightarrow> (instrument_id, quantity) btree \<Rightarrow> (instrument_id, quantity) btree" where
  "snapshot_positions b account into = foldl (\<lambda>into (key, quantity).
     if pk_account key \<noteq> account then into else bt_insert (pk_instrument key) quantity into) into (bal_positions b)"

definition record_baselines :: "(balance_point \<times> currency_code, chosen_baseline) btree \<Rightarrow> (balance_moment \<times> balances) list
    \<Rightarrow> account_id \<Rightarrow> observed_totals \<Rightarrow> observed_totals" where
  "record_baselines selected folds account t = foldl (\<lambda>t ((point, currency), c).
     case ch_claimed c of
       None \<Rightarrow> t
     | Some claimed \<Rightarrow>
         case find (\<lambda>(moment, _). moment = ch_at c) folds of
           None \<Rightarrow> t
         | Some (_, b) \<Rightarrow>
             t\<lparr>ot_cash_baseline := bt_insert (point, currency)
                 \<lparr>bl_at = ch_at c, bl_claimed = claimed,
                  bl_observed = (case bt_get (snapshot_cash b account []) currency of None \<Rightarrow> 0 | Some v \<Rightarrow> v)\<rparr>
                 (ot_cash_baseline t)\<rparr>) t selected"

definition record_anchors :: "opening_anchors \<Rightarrow> account_id \<Rightarrow> observed_totals \<Rightarrow> observed_totals" where
  "record_anchors anchors account t =
     t\<lparr>ot_cash_anchor := foldl (\<lambda>m currency. bt_insert currency (anchors_cash anchors account currency) m)
          (ot_cash_anchor t) (map fst (ot_cash_opening t) @ map fst (ot_cash_closing t)),
       ot_position_anchor := foldl (\<lambda>m instrument. bt_insert instrument (anchors_position anchors account instrument) m)
          (ot_position_anchor t) (map fst (ot_positions_opening t) @ map fst (ot_positions_closing t))\<rparr>"

section \<open>The pass\<close>

record observation =
  ob_opening :: balances
  ob_closing :: balances
  ob_boundary :: balances
  ob_folds :: "(balance_moment \<times> balances) list"
  ob_totals :: observed_totals

definition observe_apply :: "deps \<Rightarrow> balances \<Rightarrow> event \<Rightarrow> (balances, observe_error) result" where
  "observe_apply X b e = map_err ObserveBalance (balances_apply X b e)"

definition apply_folds :: "deps \<Rightarrow> event \<Rightarrow> date \<Rightarrow> (balance_moment \<times> balances) list
    \<Rightarrow> ((balance_moment \<times> balances) list, observe_error) result" where
  "apply_folds X e d folds = try_map (\<lambda>(moment, b).
     if moment_covers moment d then map_ok (Pair moment) (observe_apply X b e) else Ok (moment, b)) folds"

definition observe_step :: "deps \<Rightarrow> account_id \<Rightarrow> assertion_period \<Rightarrow> observation \<Rightarrow> event \<Rightarrow> (observation, observe_error) result" where
  "observe_step X account period s e =
     and_then (ok_or (effective_date (e_dates e)) (EventWithoutDate (e_id e))) (\<lambda>d.
     and_then (apply_folds X e d (ob_folds s)) (\<lambda>folds.
     let s = s\<lparr>ob_folds := folds\<rparr>;
         touches_us = list_ex (\<lambda>l. l_account l = account) (e_legs e) in
     if d < ap_from period then
       and_then (observe_apply X (ob_opening s) e) (\<lambda>opening.
       and_then (observe_apply X (ob_closing s) e) (\<lambda>closing.
       let s = s\<lparr>ob_opening := opening, ob_closing := closing\<rparr> in
       Ok (if touches_us
           then s\<lparr>ob_totals := (ob_totals s)\<lparr>ot_before := span_include d (ot_before (ob_totals s))\<rparr>\<rparr>
           else s)))
     else if period_contains period d then
       and_then (observe_apply X (ob_closing s) e) (\<lambda>closing.
       let s = s\<lparr>ob_closing := closing\<rparr> in
       and_then (if d = ap_from period
                 then map_ok (\<lambda>boundary. s\<lparr>ob_boundary := boundary\<rparr>) (observe_apply X (ob_boundary s) e)
                 else Ok s) (\<lambda>s.
       if touches_us then
         and_then (accumulate ((ob_totals s)\<lparr>ot_within := span_include d (ot_within (ob_totals s))\<rparr>) e account) (\<lambda>totals.
         Ok (s\<lparr>ob_totals := totals\<rparr>))
       else Ok s))
     else Ok s))"

definition observe_start :: "balance_moment list \<Rightarrow> observation" where
  "observe_start moments = \<lparr>ob_opening = balances_new, ob_closing = balances_new, ob_boundary = balances_new,
     ob_folds = map (\<lambda>moment. (moment, balances_new)) moments, ob_totals = observed_default\<rparr>"

definition observe_finish :: "event list \<Rightarrow> account_id \<Rightarrow> (balance_point \<times> currency_code, chosen_baseline) btree
    \<Rightarrow> observation \<Rightarrow> observed_totals" where
  "observe_finish events account selected s =
     (let t = (ob_totals s)\<lparr>
            ot_cash_opening := snapshot_cash (ob_opening s) account (ot_cash_opening (ob_totals s)),
            ot_cash_closing := snapshot_cash (ob_closing s) account (ot_cash_closing (ob_totals s)),
            ot_positions_opening := snapshot_positions (ob_opening s) account (ot_positions_opening (ob_totals s)),
            ot_positions_closing := snapshot_positions (ob_closing s) account (ot_positions_closing (ob_totals s)),
            ot_cash_excluded := snapshot_cash (ob_boundary s) account (ot_cash_excluded (ob_totals s)),
            ot_position_excluded := snapshot_positions (ob_boundary s) account (ot_position_excluded (ob_totals s))\<rparr>
      in record_baselines selected (ob_folds s) account (record_anchors (anchors_of events) account t))"

definition observe :: "deps \<Rightarrow> event list \<Rightarrow> account_id \<Rightarrow> assertion_period \<Rightarrow> (observed_totals, observe_error) result" where
  "observe X events account period =
     (let selected = choose_baselines (stated_cash_balances events account) period in
      map_ok (observe_finish events account selected)
        (try_fold (observe_step X account period) (observe_start (distinct_moments selected)) events))"

section \<open>The pass, taken apart\<close>

text \<open>A component of the state that some elements of a fold update and the others keep.\<close>

lemma projected_fold:
  assumes "try_fold f s xs = Ok t"
    and "\<And>u x v. f u x = Ok v \<Longrightarrow> if P x then g (part u) x = Ok (part v) else part v = part u"
  shows "try_fold g (part s) (filter P xs) = Ok (part t)"
  using assms(1)
proof (induction xs arbitrary: s)
  case (Cons x xs)
  from Cons.prems obtain u where u: "f s x = Ok u" "try_fold f u xs = Ok t" by auto
  show ?case using assms(2) [OF u(1)] Cons.IH [OF u(2)] by (cases "P x") auto
qed simp

definition dated :: "(date \<Rightarrow> bool) \<Rightarrow> event \<Rightarrow> bool" where
  "dated P e \<longleftrightarrow> (case effective_date (e_dates e) of None \<Rightarrow> False | Some d \<Rightarrow> P d)"

abbreviation before_period :: "assertion_period \<Rightarrow> date \<Rightarrow> bool" where
  "before_period p d \<equiv> d < ap_from p"

lemma observe_apply_Ok [simp]: "observe_apply X b e = Ok b' \<longleftrightarrow> balances_apply X b e = Ok b'"
  by (simp add: observe_apply_def)

definition upto_period :: "assertion_period \<Rightarrow> date \<Rightarrow> bool" where
  "upto_period p d \<longleftrightarrow> before_period p d \<or> period_contains p d"

text \<open>The step as equations on the parts of the state, by the place of the event's date.\<close>

definition touches :: "account_id \<Rightarrow> event \<Rightarrow> bool" where
  "touches a e \<longleftrightarrow> list_ex (\<lambda>l. l_account l = a) (e_legs e)"

lemma observe_step_before:
  assumes "observe_step X a p s e = Ok s'" "effective_date (e_dates e) = Some d" "d < ap_from p"
  shows "balances_apply X (ob_opening s) e = Ok (ob_opening s') \<and> balances_apply X (ob_closing s) e = Ok (ob_closing s') \<and>
    ob_boundary s' = ob_boundary s \<and> apply_folds X e d (ob_folds s) = Ok (ob_folds s') \<and>
    ob_totals s' = (if touches a e then (ob_totals s)\<lparr>ot_before := span_include d (ot_before (ob_totals s))\<rparr> else ob_totals s)"
proof -
  from assms obtain folds opn cls where f: "apply_folds X e d (ob_folds s) = Ok folds"
      "balances_apply X (ob_opening s) e = Ok opn" "balances_apply X (ob_closing s) e = Ok cls"
    and s': "s' = (let s = s\<lparr>ob_folds := folds, ob_opening := opn, ob_closing := cls\<rparr> in
      if touches a e then s\<lparr>ob_totals := (ob_totals s)\<lparr>ot_before := span_include d (ot_before (ob_totals s))\<rparr>\<rparr> else s)"
    by (auto simp: observe_step_def touches_def Let_def)
  show ?thesis using f by (cases "touches a e") (simp_all add: s' Let_def)
qed

lemma observe_step_within:
  assumes "observe_step X a p s e = Ok s'" "effective_date (e_dates e) = Some d" "period_contains p d"
  shows "ob_opening s' = ob_opening s \<and> balances_apply X (ob_closing s) e = Ok (ob_closing s') \<and>
    (if d = ap_from p then balances_apply X (ob_boundary s) e = Ok (ob_boundary s') else ob_boundary s' = ob_boundary s) \<and>
    apply_folds X e d (ob_folds s) = Ok (ob_folds s') \<and>
    (if touches a e then accumulate ((ob_totals s)\<lparr>ot_within := span_include d (ot_within (ob_totals s))\<rparr>) e a = Ok (ob_totals s')
     else ob_totals s' = ob_totals s)"
proof -
  have d: "\<not> d < ap_from p" using assms(3) by (simp add: period_contains_def)
  from assms(1,2) d assms(3) obtain folds closing s1 where f: "apply_folds X e d (ob_folds s) = Ok folds"
      "balances_apply X (ob_closing s) e = Ok closing"
    and s1: "(if d = ap_from p then map_ok (\<lambda>b. s\<lparr>ob_folds := folds, ob_closing := closing, ob_boundary := b\<rparr>) (observe_apply X (ob_boundary s) e)
        else Ok (s\<lparr>ob_folds := folds, ob_closing := closing\<rparr>)) = Ok s1"
    and s': "(if touches a e then and_then (accumulate ((ob_totals s1)\<lparr>ot_within := span_include d (ot_within (ob_totals s1))\<rparr>) e a)
        (\<lambda>totals. Ok (s1\<lparr>ob_totals := totals\<rparr>)) else Ok s1) = Ok s'"
    by (simp add: observe_step_def touches_def [symmetric] Let_def cong: if_cong) blast
  have s1': "ob_opening s1 = ob_opening s \<and> ob_closing s1 = closing \<and> ob_folds s1 = folds \<and> ob_totals s1 = ob_totals s \<and>
      (if d = ap_from p then balances_apply X (ob_boundary s) e = Ok (ob_boundary s1) else ob_boundary s1 = ob_boundary s)"
    using s1 by (cases "d = ap_from p") auto
  show ?thesis using f s1' s' by (cases "touches a e") auto
qed

lemma observe_step_after:
  assumes "observe_step X a p s e = Ok s'" "effective_date (e_dates e) = Some d" "\<not> upto_period p d"
  shows "ob_opening s' = ob_opening s \<and> ob_closing s' = ob_closing s \<and> ob_boundary s' = ob_boundary s \<and>
    ob_totals s' = ob_totals s \<and> apply_folds X e d (ob_folds s) = Ok (ob_folds s')"
  using assms by (auto simp: observe_step_def upto_period_def)

lemma observe_step_dated: "observe_step X a p s e = Ok s' \<Longrightarrow> effective_date (e_dates e) \<noteq> None"
  by (auto simp: observe_step_def)

lemma observe_step_parts:
  assumes "observe_step X a p s e = Ok s'"
  shows "if dated (before_period p) e then balances_apply X (ob_opening s) e = Ok (ob_opening s') else ob_opening s' = ob_opening s"
    and "if dated (upto_period p) e then balances_apply X (ob_closing s) e = Ok (ob_closing s') else ob_closing s' = ob_closing s"
    and "if dated (\<lambda>d. period_contains p d \<and> d = ap_from p) e then balances_apply X (ob_boundary s) e = Ok (ob_boundary s') else ob_boundary s' = ob_boundary s"
    and "\<exists>d. effective_date (e_dates e) = Some d \<and> apply_folds X e d (ob_folds s) = Ok (ob_folds s')"
proof -
  obtain d where d: "effective_date (e_dates e) = Some d" using observe_step_dated [OF assms] by blast
  note step = observe_step_before [OF assms d] observe_step_within [OF assms d] observe_step_after [OF assms d]
  consider "d < ap_from p" | "\<not> d < ap_from p" "period_contains p d" | "\<not> d < ap_from p" "\<not> period_contains p d" "\<not> upto_period p d"
    by (auto simp: upto_period_def)
  note cases = this
  show "if dated (before_period p) e then balances_apply X (ob_opening s) e = Ok (ob_opening s') else ob_opening s' = ob_opening s"
    by (cases rule: cases) (simp_all add: dated_def d step)
  show "if dated (upto_period p) e then balances_apply X (ob_closing s) e = Ok (ob_closing s') else ob_closing s' = ob_closing s"
    by (cases rule: cases) (simp_all add: dated_def d step upto_period_def)
  show "if dated (\<lambda>d. period_contains p d \<and> d = ap_from p) e then balances_apply X (ob_boundary s) e = Ok (ob_boundary s') else ob_boundary s' = ob_boundary s"
    using step by (cases rule: cases) (auto simp add: dated_def d period_contains_def)
  show "\<exists>d. effective_date (e_dates e) = Some d \<and> apply_folds X e d (ob_folds s) = Ok (ob_folds s')"
    by (cases rule: cases) (simp_all add: d step)
qed

section \<open>The totals of the period\<close>

text \<open>The cash postings of an account that the legs of some kind make.\<close>

definition selected_postings :: "account_id \<Rightarrow> (leg \<Rightarrow> bool) \<Rightarrow> leg list \<Rightarrow> (currency_code \<times> int) list" where
  "selected_postings a sel ls = List.map_filter (\<lambda>l.
     if l_account l = a \<and> sel l then map_option (\<lambda>m. (m_currency m, m_amount m)) (leg_cash_effect l) else None) ls"

definition account_postings :: "account_id \<Rightarrow> (event \<Rightarrow> leg \<Rightarrow> bool) \<Rightarrow> event list \<Rightarrow> (currency_code \<times> int) list" where
  "account_postings a sel es = concat (map (\<lambda>e. selected_postings a (sel e) (e_legs e)) es)"

lemma selected_postings_simps [simp]:
  "selected_postings a sel [] = []"
  "selected_postings a sel (l # ls) =
     (if l_account l = a \<and> sel l then (case leg_cash_effect l of None \<Rightarrow> [] | Some m \<Rightarrow> [(m_currency m, m_amount m)]) else [])
     @ selected_postings a sel ls"
  by (auto simp: selected_postings_def List.map_filter_simps split: option.splits)

lemma account_postings_simps [simp]:
  "account_postings a sel [] = []"
  "account_postings a sel (es @ [e]) = account_postings a sel es @ selected_postings a (sel e) (e_legs e)"
  by (simp_all add: account_postings_def)

lemma selected_untouched: "\<not> touches a e \<Longrightarrow> selected_postings a sel (e_legs e) = []"
  by (auto simp: selected_postings_def List.map_filter_def touches_def list_ex_iff filter_empty_conv)

definition turnover_of :: "(currency_code \<times> int) list \<Rightarrow> currency_code \<Rightarrow> turnover" where
  "turnover_of ps c = \<lparr>to_debit = posted_total (map (apsnd (max 0)) ps) c,
     to_credit = posted_total (map (apsnd (\<lambda>v. max 0 (- v))) ps) c\<rparr>"

definition turned :: "(currency_code, turnover) btree \<Rightarrow> (currency_code \<times> int) list \<Rightarrow> bool" where
  "turned m ps \<longleftrightarrow> (\<forall>c. bt_get m c = (if c \<in> fst ` set ps then Some (turnover_of ps c) else None))"

definition magnitudes :: "(currency_code \<times> int) list \<Rightarrow> (currency_code \<times> int) list" where
  "magnitudes ps = map (apsnd abs) ps"

lemma add_turnover_Ok:
  "add_turnover t raw = Ok t' \<Longrightarrow> t' = \<lparr>to_debit = to_debit t + max 0 raw, to_credit = to_credit t + max 0 (- raw)\<rparr>"
  by (auto simp: add_turnover_def pm_defs split: if_splits)

lemma turnover_of_absent: "c \<notin> fst ` set ps \<Longrightarrow> turnover_of ps c = turnover_default"
  by (simp add: turnover_of_def turnover_default_def posted_total_absent image_image)

lemma turned_snoc:
  assumes "turned m ps" "add_turnover (case bt_get m c of None \<Rightarrow> turnover_default | Some v \<Rightarrow> v) raw = Ok t"
  shows "turned (bt_insert c t m) (ps @ [(c, raw)])"
proof -
  have "(case bt_get m c of None \<Rightarrow> turnover_default | Some v \<Rightarrow> v) = turnover_of ps c"
    using assms(1) turnover_of_absent by (simp add: turned_def)
  with add_turnover_Ok [OF assms(2)]
  have "t = \<lparr>to_debit = to_debit (turnover_of ps c) + max 0 raw, to_credit = to_credit (turnover_of ps c) + max 0 (- raw)\<rparr>" by simp
  then have "t = turnover_of (ps @ [(c, raw)]) c" by (simp add: turnover_of_def)
  moreover have "turnover_of (ps @ [(c, raw)]) c' = turnover_of ps c'" if "c' \<noteq> c" for c'
    using that by (simp add: turnover_of_def)
  ultimately show ?thesis using assms(1) by (simp add: turned_def bt_get_insert)
qed

lemma add_magnitude_accumulates:
  assumes "add_magnitude m c raw f = Ok m'" "accumulated m (magnitudes ps)"
  shows "accumulated m' (magnitudes (ps @ [(c, raw)]))"
  using assms accumulated_snoc [of m "magnitudes ps" c "\<bar>raw\<bar>" m'] by (auto simp: add_magnitude_def magnitudes_def)

definition tally :: "observed_totals \<Rightarrow> (currency_code \<times> int) list \<Rightarrow> (currency_code \<times> int) list
    \<Rightarrow> (currency_code \<times> int) list \<Rightarrow> (currency_code \<times> int) list \<Rightarrow> bool" where
  "tally t ps fees incomes taxes \<longleftrightarrow>
     turned (ot_turnover t) ps \<and> accumulated (ot_fees t) (magnitudes fees) \<and>
     accumulated (ot_income t) (magnitudes incomes) \<and> accumulated (ot_tax_withheld t) (magnitudes taxes) \<and>
     (ot_tax_facts_recorded t \<longleftrightarrow> taxes \<noteq> [])"

lemma accumulate_leg_tally:
  assumes step: "accumulate_leg inc a t l = Ok t'" and t: "tally t ps fs ics ts"
  shows "tally t' (ps @ selected_postings a (\<lambda>_. True) [l]) (fs @ selected_postings a (\<lambda>l. l_kind l = LFee) [l])
    (ics @ selected_postings a (\<lambda>l. inc \<and> l_kind l = LCash) [l]) (ts @ selected_postings a (\<lambda>l. l_kind l = LTax) [l])"
proof (cases "l_account l = a \<and> leg_cash_effect l \<noteq> None")
  case False
  then have "t' = t" using step by (cases "l_account l = a") (simp_all add: accumulate_leg_def)
  then show ?thesis using t False by auto
next
  case True
  then obtain m where m: "l_account l = a" "leg_cash_effect l = Some m" by blast
  let ?known = "case bt_get (ot_turnover t) (m_currency m) of None \<Rightarrow> turnover_default | Some v \<Rightarrow> v"
  from step m obtain u where u: "add_turnover ?known (m_amount m) = Ok u"
    by (auto simp: accumulate_leg_def Let_def)
  have turned: "turned (bt_insert (m_currency m) u (ot_turnover t)) (ps @ [(m_currency m, m_amount m)])"
    using t u by (intro turned_snoc) (simp_all add: tally_def)
  note sums = add_magnitude_accumulates [of _ "m_currency m" "m_amount m"]
  show ?thesis
    using step t m u turned
    by (cases "l_kind l"; cases inc) (auto simp: accumulate_leg_def tally_def Let_def intro: sums)
qed

lemma accumulate_legs_tally:
  "try_fold (accumulate_leg inc a) t ls = Ok t' \<Longrightarrow> tally t ps fs ics ts \<Longrightarrow>
   tally t' (ps @ selected_postings a (\<lambda>_. True) ls) (fs @ selected_postings a (\<lambda>l. l_kind l = LFee) ls)
     (ics @ selected_postings a (\<lambda>l. inc \<and> l_kind l = LCash) ls) (ts @ selected_postings a (\<lambda>l. l_kind l = LTax) ls)"
proof (induction ls arbitrary: t ps fs ics ts)
  case (Cons l ls)
  from Cons.prems(1) obtain u where u: "accumulate_leg inc a t l = Ok u" "try_fold (accumulate_leg inc a) u ls = Ok t'" by auto
  from Cons.IH [OF u(2) accumulate_leg_tally [OF u(1) Cons.prems(2)]] show ?case by simp
qed simp

lemma tally_spans [simp]:
  "tally (t\<lparr>ot_before := b\<rparr>) ps fs ics ts = tally t ps fs ics ts"
  "tally (t\<lparr>ot_within := w\<rparr>) ps fs ics ts = tally t ps fs ics ts"
  by (simp_all add: tally_def)

definition income_leg :: "event \<Rightarrow> leg \<Rightarrow> bool" where
  "income_leg e l \<longleftrightarrow> is_income_event e \<and> l_kind l = LCash"

definition tallied :: "account_id \<Rightarrow> event list \<Rightarrow> observed_totals \<Rightarrow> bool" where
  "tallied a es t \<longleftrightarrow> tally t (account_postings a (\<lambda>_ _. True) es) (account_postings a (\<lambda>_ l. l_kind l = LFee) es)
     (account_postings a income_leg es) (account_postings a (\<lambda>_ l. l_kind l = LTax) es)"

lemma observe_step_tallied:
  assumes step: "observe_step X a p s e = Ok s'" and t: "tallied a es (ob_totals s)"
  shows "tallied a (es @ filter (dated (period_contains p)) [e]) (ob_totals s')"
proof -
  obtain d where d: "effective_date (e_dates e) = Some d" using observe_step_dated [OF step] by blast
  show ?thesis
  proof (cases "period_contains p d")
    case False
    have "ob_totals s' = (if touches a e \<and> d < ap_from p then (ob_totals s)\<lparr>ot_before := span_include d (ot_before (ob_totals s))\<rparr> else ob_totals s)"
      using observe_step_before [OF step d] observe_step_after [OF step d] False
      by (cases "d < ap_from p") (simp_all add: upto_period_def)
    then show ?thesis using t False by (simp add: dated_def d tallied_def)
  next
    case True
    note w = observe_step_within [OF step d True]
    show ?thesis
    proof (cases "touches a e")
      case False
      then show ?thesis using w t True by (simp add: dated_def d tallied_def selected_untouched)
    next
      case touched: True
      with w have "try_fold (accumulate_leg (is_income_event e) a)
          ((ob_totals s)\<lparr>ot_within := span_include d (ot_within (ob_totals s))\<rparr>) (e_legs e) = Ok (ob_totals s')"
        by (simp add: accumulate_def)
      moreover have "income_leg e = (\<lambda>l. is_income_event e \<and> l_kind l = LCash)" by (simp add: fun_eq_iff income_leg_def)
      ultimately show ?thesis using accumulate_legs_tally t True
        by (simp add: dated_def d tallied_def)
    qed
  qed
qed

lemma tallied_start: "tallied a [] observed_default"
  by (simp add: tallied_def tally_def turned_def observed_default_def magnitudes_def)

lemma observe_fold_tallied:
  "try_fold (observe_step X a p) (observe_start ms) es = Ok s \<Longrightarrow>
     tallied a (filter (dated (period_contains p)) es) (ob_totals s)"
proof (induction es arbitrary: s rule: rev_induct)
  case Nil
  then show ?case by (auto simp: observe_start_def tallied_start)
next
  case (snoc e es)
  from snoc.prems obtain u where u: "try_fold (observe_step X a p) (observe_start ms) es = Ok u"
    "observe_step X a p u e = Ok s" by (auto simp: try_fold_snoc_Ok)
  show ?case using observe_step_tallied [OF u(2) snoc.IH [OF u(1)]] by simp
qed

text \<open>The maps that are filled after the pass stay empty during it.\<close>

definition unsnapped :: "observed_totals \<Rightarrow> bool" where
  "unsnapped t \<longleftrightarrow> ot_cash_opening t = [] \<and> ot_cash_closing t = [] \<and> ot_positions_opening t = [] \<and> ot_positions_closing t = [] \<and>
     ot_cash_excluded t = [] \<and> ot_position_excluded t = [] \<and> ot_cash_baseline t = [] \<and> ot_cash_anchor t = [] \<and> ot_position_anchor t = []"

lemma unsnapped_spans [simp]:
  "unsnapped (t\<lparr>ot_before := b\<rparr>) = unsnapped t" "unsnapped (t\<lparr>ot_within := w\<rparr>) = unsnapped t"
  by (simp_all add: unsnapped_def)

lemma accumulate_leg_unsnapped: "accumulate_leg inc a t l = Ok t' \<Longrightarrow> unsnapped t \<Longrightarrow> unsnapped t'"
  by (cases "l_account l = a"; cases "leg_cash_effect l"; cases "l_kind l"; cases inc)
     (auto simp: accumulate_leg_def unsnapped_def Let_def)

lemma observe_step_unsnapped:
  assumes step: "observe_step X a p s e = Ok s'" and t: "unsnapped (ob_totals s)"
  shows "unsnapped (ob_totals s')"
proof -
  obtain d where d: "effective_date (e_dates e) = Some d" using observe_step_dated [OF step] by blast
  show ?thesis
  proof (cases "period_contains p d")
    case False
    then show ?thesis
      using observe_step_before [OF step d] observe_step_after [OF step d] t
      by (cases "d < ap_from p") (simp_all add: upto_period_def)
  next
    case True
    note w = observe_step_within [OF step d True]
    show ?thesis
    proof (cases "touches a e")
      case touched: True
      with w have "try_fold (accumulate_leg (is_income_event e) a)
          ((ob_totals s)\<lparr>ot_within := span_include d (ot_within (ob_totals s))\<rparr>) (e_legs e) = Ok (ob_totals s')"
        by (simp add: accumulate_def)
      then show ?thesis by (rule try_fold_invariant) (use t in \<open>auto intro: accumulate_leg_unsnapped\<close>)
    qed (use w t in simp)
  qed
qed

lemma observe_fold_unsnapped:
  assumes "try_fold (observe_step X a p) (observe_start ms) es = Ok s"
  shows "unsnapped (ob_totals s)"
  using assms
proof (rule try_fold_invariant [where P = "\<lambda>s. unsnapped (ob_totals s)"])
  show "unsnapped (ob_totals (observe_start ms))" by (simp add: observe_start_def observed_default_def unsnapped_def)
qed (rule observe_step_unsnapped)

section \<open>Snapshots of the folds\<close>

lemma snapshot_cash_get:
  assumes "bt_invar (bal_cash b)"
  shows "bt_get (snapshot_cash b a []) c = bt_get (bal_cash b) (a, c)"
proof -
  let ?f = "\<lambda>into (owner, money). if owner = a then bt_insert (m_currency money) (m_amount money) into else into"
  have "bt_get (foldl ?f into (map (\<lambda>((a, c), amount). (a, money_new amount c)) kvs)) c =
      (case map_of kvs (a, c) of None \<Rightarrow> bt_get into c | Some v \<Rightarrow> Some v)"
    if "distinct (map fst kvs)" for kvs into
    using that
  proof (induction kvs arbitrary: into)
    case (Cons kv kvs)
    obtain b' c' v where kv: "kv = ((b', c'), v)" by (metis prod.exhaust)
    have "map_of kvs (b', c') = None" using Cons.prems by (simp add: kv map_of_eq_None_iff)
    then show ?case using Cons by (auto simp: kv money_new_def bt_get_insert split: option.split)
  qed simp
  from this [OF bt_invar_distinct [OF assms]] show ?thesis
    by (simp add: snapshot_cash_def iter_cash_def bt_get_def split: option.split)
qed

lemma snapshot_positions_get:
  assumes "bt_invar (bal_positions b)"
  shows "bt_get (snapshot_positions b a []) i = bt_get (bal_positions b) (PositionKey a i)"
proof -
  let ?f = "\<lambda>into (key, quantity). if pk_account key \<noteq> a then into else bt_insert (pk_instrument key) quantity into"
  have "bt_get (foldl ?f into kvs) i =
      (case map_of kvs (PositionKey a i) of None \<Rightarrow> bt_get into i | Some v \<Rightarrow> Some v)"
    if "distinct (map fst kvs)" for kvs :: "(position_key \<times> quantity) list" and into
    using that
  proof (induction kvs arbitrary: into)
    case (Cons kv kvs)
    obtain b' i' v where kv: "kv = (PositionKey b' i', v)" by (metis prod.exhaust position_key.exhaust)
    have "map_of kvs (PositionKey b' i') = None" using Cons.prems by (simp add: kv map_of_eq_None_iff)
    then show ?case using Cons by (auto simp: kv bt_get_insert split: option.split)
  qed simp
  from this [OF bt_invar_distinct [OF assms]] show ?thesis
    by (simp add: snapshot_positions_def bt_get_def split: option.split)
qed

lemma record_anchors_keeps [simp]:
  "ot_cash_opening (record_anchors x a t) = ot_cash_opening t" "ot_cash_closing (record_anchors x a t) = ot_cash_closing t"
  "ot_positions_opening (record_anchors x a t) = ot_positions_opening t" "ot_positions_closing (record_anchors x a t) = ot_positions_closing t"
  "ot_turnover (record_anchors x a t) = ot_turnover t" "ot_fees (record_anchors x a t) = ot_fees t"
  "ot_income (record_anchors x a t) = ot_income t" "ot_tax_withheld (record_anchors x a t) = ot_tax_withheld t"
  "ot_tax_facts_recorded (record_anchors x a t) = ot_tax_facts_recorded t"
  "ot_cash_excluded (record_anchors x a t) = ot_cash_excluded t" "ot_position_excluded (record_anchors x a t) = ot_position_excluded t"
  "ot_before (record_anchors x a t) = ot_before t" "ot_within (record_anchors x a t) = ot_within t"
  "ot_cash_baseline (record_anchors x a t) = ot_cash_baseline t"
  by (simp_all add: record_anchors_def)

text \<open>Recording the baselines writes one map, an entry for every choice with an agreed claim.\<close>

definition baseline_of :: "(balance_moment \<times> balances) list \<Rightarrow> account_id \<Rightarrow> currency_code \<Rightarrow> chosen_baseline \<Rightarrow> baseline option" where
  "baseline_of folds a currency c = (case ch_claimed c of
     None \<Rightarrow> None
   | Some claimed \<Rightarrow> map_option (\<lambda>(_, b). \<lparr>bl_at = ch_at c, bl_claimed = claimed,
       bl_observed = (case bt_get (snapshot_cash b a []) currency of None \<Rightarrow> 0 | Some v \<Rightarrow> v)\<rparr>)
       (find (\<lambda>(moment, _). moment = ch_at c) folds))"

lemma record_baselines_writes:
  "record_baselines sel folds a t = t\<lparr>ot_cash_baseline := foldl (\<lambda>m (k, c).
     case baseline_of folds a (snd k) c of None \<Rightarrow> m | Some b \<Rightarrow> bt_insert k b m) (ot_cash_baseline t) sel\<rparr>"
proof (induction sel arbitrary: t)
  case (Cons x sel)
  obtain point currency c where x: "x = ((point, currency), c)" by (metis prod.exhaust)
  have cons: "record_baselines (x # sel) folds a t = record_baselines sel folds a
      (case baseline_of folds a currency c of None \<Rightarrow> t
       | Some b \<Rightarrow> t\<lparr>ot_cash_baseline := bt_insert (point, currency) b (ot_cash_baseline t)\<rparr>)"
    by (simp add: record_baselines_def baseline_of_def x split: option.split prod.split)
  show ?case unfolding cons Cons by (simp add: x split: option.split)
qed (simp add: record_baselines_def)

lemma recorded_get:
  assumes "distinct (map fst sel)"
  shows "bt_get (foldl (\<lambda>m (k, c). case f k c of None \<Rightarrow> m | Some b \<Rightarrow> bt_insert k b m) m sel) k =
    (case Option.bind (map_of sel k) (f k) of None \<Rightarrow> bt_get m k | Some b \<Rightarrow> Some b)"
  using assms
proof (induction sel arbitrary: m)
  case (Cons x sel)
  obtain j c where x: "x = (j, c)" by (cases x)
  have "map_of sel j = None" using Cons.prems by (simp add: x map_of_eq_None_iff)
  then show ?case using Cons by (auto simp: x bt_get_insert split: option.split)
qed simp

section \<open>Observed values\<close>

text \<open>The components of a successful observation.\<close>

lemma observe_Ok:
  assumes "observe X es a p = Ok t"
  defines "sel \<equiv> choose_baselines (stated_cash_balances es a) p"
  obtains s where "try_fold (observe_step X a p) (observe_start (distinct_moments sel)) es = Ok s"
    and "t = observe_finish es a sel s"
  using assms(1) unfolding observe_def sel_def [symmetric] by (auto simp: Let_def)

lemma observe_balances:
  assumes "try_fold (observe_step X a p) (observe_start ms) es = Ok s"
  shows "try_fold (balances_apply X) balances_new (filter (dated (before_period p)) es) = Ok (ob_opening s)"
    and "try_fold (balances_apply X) balances_new (filter (dated (upto_period p)) es) = Ok (ob_closing s)"
    and "try_fold (balances_apply X) balances_new (filter (dated (\<lambda>d. period_contains p d \<and> d = ap_from p)) es) = Ok (ob_boundary s)"
  using projected_fold [where part = ob_opening, OF assms observe_step_parts(1)]
    projected_fold [where part = ob_closing, OF assms observe_step_parts(2)]
    projected_fold [where part = ob_boundary, OF assms observe_step_parts(3)]
  by (simp_all add: observe_start_def)

lemma snapshot_of_fold:
  assumes "try_fold (balances_apply X) balances_new es = Ok b"
  shows "(case bt_get (snapshot_cash b a []) c of None \<Rightarrow> 0 | Some v \<Rightarrow> v) = effect_on (\<lambda>x. x = a) c (journal_legs es)"
  using balances_fold_accumulate [OF assms]
  by (simp add: snapshot_cash_get accumulated_def posted_total_effect [symmetric] posted_total_absent)

lemma observe_finish_simps [simp]:
  assumes "ob_totals s = t"
  shows "ot_turnover (observe_finish es a sel s) = ot_turnover t" "ot_fees (observe_finish es a sel s) = ot_fees t"
    "ot_income (observe_finish es a sel s) = ot_income t" "ot_tax_withheld (observe_finish es a sel s) = ot_tax_withheld t"
    "ot_tax_facts_recorded (observe_finish es a sel s) = ot_tax_facts_recorded t"
    "ot_before (observe_finish es a sel s) = ot_before t" "ot_within (observe_finish es a sel s) = ot_within t"
    "ot_cash_opening (observe_finish es a sel s) = snapshot_cash (ob_opening s) a (ot_cash_opening t)"
    "ot_cash_closing (observe_finish es a sel s) = snapshot_cash (ob_closing s) a (ot_cash_closing t)"
    "ot_cash_excluded (observe_finish es a sel s) = snapshot_cash (ob_boundary s) a (ot_cash_excluded t)"
  using assms by (simp_all add: observe_finish_def Let_def record_baselines_writes)

lemma account_total: "posted_total (account_postings a (\<lambda>_ _. True) es) c = effect_on (\<lambda>x. x = a) c (journal_legs es)"
proof -
  have "posted_total (selected_postings a (\<lambda>_. True) ls) c = effect_on (\<lambda>x. x = a) c ls" for ls
    by (induction ls) (auto split: option.split)
  then show ?thesis by (induction es rule: rev_induct) simp_all
qed

lemma turnover_net: "to_debit (turnover_of ps c) - to_credit (turnover_of ps c) = posted_total ps c"
  by (induction ps) (auto simp: turnover_of_def)

lemma effect_upto:
  "effect_on A c (journal_legs (filter (dated (upto_period p)) es)) =
     effect_on A c (journal_legs (filter (dated (before_period p)) es)) +
     effect_on A c (journal_legs (filter (dated (period_contains p)) es))"
  by (induction es) (auto simp: dated_def upto_period_def period_contains_def split: option.split)

definition observed_turnover :: "observed_totals \<Rightarrow> currency_code \<Rightarrow> turnover" where
  "observed_turnover t c = (case bt_get (ot_turnover t) c of None \<Rightarrow> turnover_default | Some v \<Rightarrow> v)"

lemma observe_cash:
  assumes "observe X es a p = Ok t"
  shows "(case observed_cash_at t Opening c of None \<Rightarrow> 0 | Some v \<Rightarrow> v) =
      effect_on (\<lambda>x. x = a) c (journal_legs (filter (dated (before_period p)) es))"
    and "(case observed_cash_at t Closing c of None \<Rightarrow> 0 | Some v \<Rightarrow> v) =
      effect_on (\<lambda>x. x = a) c (journal_legs (filter (dated (upto_period p)) es))"
    and "observed_turnover t c = turnover_of (account_postings a (\<lambda>_ _. True) (filter (dated (period_contains p)) es)) c"
    and "tallied a (filter (dated (period_contains p)) es) t"
proof -
  obtain s where s: "try_fold (observe_step X a p)
      (observe_start (distinct_moments (choose_baselines (stated_cash_balances es a) p))) es = Ok s"
    and t: "t = observe_finish es a (choose_baselines (stated_cash_balances es a) p) s"
    using observe_Ok [OF assms] by blast
  have start: "ot_cash_opening (ob_totals s) = [] \<and> ot_cash_closing (ob_totals s) = []"
    using observe_fold_unsnapped [OF s] by (simp add: unsnapped_def)
  note tallied = observe_fold_tallied [OF s]
  show "(case observed_cash_at t Opening c of None \<Rightarrow> 0 | Some v \<Rightarrow> v) =
      effect_on (\<lambda>x. x = a) c (journal_legs (filter (dated (before_period p)) es))"
    using snapshot_of_fold [OF observe_balances(1) [OF s], of a c] start by (simp add: t observed_cash_at_def)
  show "(case observed_cash_at t Closing c of None \<Rightarrow> 0 | Some v \<Rightarrow> v) =
      effect_on (\<lambda>x. x = a) c (journal_legs (filter (dated (upto_period p)) es))"
    using snapshot_of_fold [OF observe_balances(2) [OF s], of a c] start by (simp add: t observed_cash_at_def)
  show tal: "tallied a (filter (dated (period_contains p)) es) t"
    using tallied by (simp add: tallied_def tally_def t)
  show "observed_turnover t c = turnover_of (account_postings a (\<lambda>_ _. True) (filter (dated (period_contains p)) es)) c"
    using tal turnover_of_absent by (simp add: tallied_def tally_def turned_def observed_turnover_def)
qed

section \<open>Baselines of the observation\<close>

lemma observe_folds:
  "try_fold (observe_step X a p) (observe_start ms) es = Ok s \<Longrightarrow>
     list_all2 (\<lambda>m f. fst f = m \<and> try_fold (balances_apply X) balances_new (filter (dated (moment_covers m)) es) = Ok (snd f)) ms (ob_folds s)"
proof (induction es arbitrary: s rule: rev_induct)
  case Nil
  then show ?case by (auto simp: observe_start_def list_all2_conv_all_nth)
next
  case (snoc e es)
  from snoc.prems obtain u where u: "try_fold (observe_step X a p) (observe_start ms) es = Ok u"
    "observe_step X a p u e = Ok s" by (auto simp: try_fold_snoc_Ok)
  from observe_step_parts(4) [OF u(2)] obtain d where d: "effective_date (e_dates e) = Some d"
    and step: "list_all2 (\<lambda>(m, b) f. (if moment_covers m d then map_ok (Pair m) (observe_apply X b e) else Ok (m, b)) = Ok f) (ob_folds u) (ob_folds s)"
    by (auto simp: apply_folds_def try_map_Ok_iff case_prod_unfold)
  show ?case
    by (rule list_all2_trans [OF _ snoc.IH [OF u(1)] step])
       (auto simp: dated_def d try_fold_append split: if_splits)
qed

definition tops :: "('k::linorder, 'v::linorder) btree \<Rightarrow> ('k \<Rightarrow> 'v set) \<Rightarrow> bool" where
  "tops m S \<longleftrightarrow> (\<forall>k. case bt_get m k of None \<Rightarrow> S k = {} | Some v \<Rightarrow> v \<in> S k \<and> (\<forall>w \<in> S k. w \<le> v))"

lemma latest_step_tops:
  assumes "tops m S"
  shows "tops (latest_step point m x) (S((point, sb_currency x) := insert (sb_at x) (S (point, sb_currency x))))"
  unfolding tops_def
proof
  fix k
  show "case bt_get (latest_step point m x) k of
      None \<Rightarrow> (S((point, sb_currency x) := insert (sb_at x) (S (point, sb_currency x)))) k = {}
    | Some v \<Rightarrow> v \<in> (S((point, sb_currency x) := insert (sb_at x) (S (point, sb_currency x)))) k \<and>
        (\<forall>w \<in> (S((point, sb_currency x) := insert (sb_at x) (S (point, sb_currency x)))) k. w \<le> v)"
    using assms [unfolded tops_def, rule_format, of k]
    by (cases "bt_get m k") (auto simp: latest_step_def)
qed

lemma latest_fold_tops:
  "tops m S \<Longrightarrow> tops (foldl (latest_step point) m xs)
     (\<lambda>k. S k \<union> {v. fst k = point \<and> (\<exists>x \<in> set xs. sb_currency x = snd k \<and> v = sb_at x)})"
proof (induction xs arbitrary: m S)
  case (Cons x xs)
  let ?S = "S((point, sb_currency x) := insert (sb_at x) (S (point, sb_currency x)))"
  have "(\<lambda>k. ?S k \<union> {v. fst k = point \<and> (\<exists>y \<in> set xs. sb_currency y = snd k \<and> v = sb_at y)}) =
      (\<lambda>k. S k \<union> {v. fst k = point \<and> (\<exists>y \<in> set (x # xs). sb_currency y = snd k \<and> v = sb_at y)})"
    by (rule ext) auto
  with Cons.IH [OF latest_step_tops [OF Cons.prems, of point x]] show ?case by simp
qed simp

lemma latest_moments_tops:
  "tops (latest_moments stated p) (\<lambda>k. {sb_at x | x. x \<in> set stated \<and> sb_currency x = snd k \<and> sb_at x < moment_of p (fst k)})"
proof -
  have "tops [] (\<lambda>_. {})" by (simp add: tops_def)
  from latest_fold_tops [OF latest_fold_tops [OF this]]
  have "tops (latest_moments stated p) (\<lambda>k. ({} \<union> {v. fst k = Opening \<and> (\<exists>x \<in> set (filter (\<lambda>x. sb_at x < moment_of p Opening) stated). sb_currency x = snd k \<and> v = sb_at x)}) \<union>
      {v. fst k = Closing \<and> (\<exists>x \<in> set (filter (\<lambda>x. sb_at x < moment_of p Closing) stated). sb_currency x = snd k \<and> v = sb_at x)})"
    (is "tops _ ?S") unfolding latest_moments_def foldl.simps .
  moreover have "?S = (\<lambda>k. {sb_at x | x. x \<in> set stated \<and> sb_currency x = snd k \<and> sb_at x < moment_of p (fst k)})"
  proof
    fix k :: "balance_point \<times> currency_code"
    show "?S k = {sb_at x | x. x \<in> set stated \<and> sb_currency x = snd k \<and> sb_at x < moment_of p (fst k)}"
      by (cases "fst k") auto
  qed
  ultimately show ?thesis by simp
qed

lemma agree_fold: "foldl agree_step (Some v, b) xs = (Some v, b \<or> (\<exists>x \<in> set xs. sb_claimed x \<noteq> v))"
  by (induction xs arbitrary: b) (auto simp: agree_step_def)

lemma agreed_claim_Some:
  "agreed_claim stated c m = Some v \<longleftrightarrow>
     (\<exists>x \<in> set stated. sb_currency x = c \<and> sb_at x = m) \<and>
     (\<forall>x \<in> set stated. sb_currency x = c \<and> sb_at x = m \<longrightarrow> sb_claimed x = v)"
proof -
  define xs where "xs = filter (\<lambda>x. sb_currency x = c \<and> sb_at x = m) stated"
  have "agreed_claim stated c m = Some v \<longleftrightarrow> xs \<noteq> [] \<and> (\<forall>x \<in> set xs. sb_claimed x = v)"
  proof (cases xs)
    case (Cons y ys)
    then show ?thesis unfolding agreed_claim_def xs_def [symmetric]
      by (simp add: agree_step_def [of "(None, False)"] agree_fold) auto
  qed (simp add: agreed_claim_def xs_def [symmetric])
  then show ?thesis by (auto simp: xs_def filter_empty_conv)
qed

lemma choose_baselines_get:
  "map_of (choose_baselines stated p) k =
     map_option (\<lambda>m. \<lparr>ch_at = m, ch_claimed = agreed_claim stated (snd k) m\<rparr>) (bt_get (latest_moments stated p) k)"
proof -
  have "map_of (map (\<lambda>((point, c), m). ((point, c), g c m)) kvs) k = map_option (g (snd k)) (map_of kvs k)" for g kvs
    by (induction kvs) auto
  then show ?thesis unfolding choose_baselines_def bt_get_def .
qed

lemma latest_moments_invar: "bt_invar (latest_moments stated p)"
proof -
  have "bt_invar m \<Longrightarrow> bt_invar (foldl (latest_step point) m xs)" for point m xs
    by (induction xs arbitrary: m) (auto simp: latest_step_def)
  then show ?thesis by (simp add: latest_moments_def)
qed

lemma choose_baselines_distinct: "distinct (map fst (choose_baselines stated p))"
proof -
  have "map fst (choose_baselines stated p) = map fst (latest_moments stated p)"
    by (simp add: choose_baselines_def case_prod_unfold)
  then show ?thesis using bt_invar_distinct [OF latest_moments_invar] by simp
qed

lemma observe_baseline:
  assumes "observe X es a p = Ok t" "bt_get (ot_cash_baseline t) (point, c) = Some b"
  shows "bt_get (latest_moments (stated_cash_balances es a) p) (point, c) = Some (bl_at b)"
    and "agreed_claim (stated_cash_balances es a) c (bl_at b) = Some (bl_claimed b)"
    and "bl_observed b = effect_on (\<lambda>x. x = a) c (journal_legs (filter (dated (moment_covers (bl_at b))) es))"
proof -
  define sel where "sel = choose_baselines (stated_cash_balances es a) p"
  obtain s where s: "try_fold (observe_step X a p) (observe_start (distinct_moments sel)) es = Ok s"
    and t: "t = observe_finish es a sel s"
    using observe_Ok [OF assms(1)] unfolding sel_def by blast
  have "ot_cash_baseline (ob_totals s) = []" using observe_fold_unsnapped [OF s] by (simp add: unsnapped_def)
  with assms(2) have "bt_get (foldl (\<lambda>m (k, ch). case baseline_of (ob_folds s) a (snd k) ch of None \<Rightarrow> m | Some b \<Rightarrow> bt_insert k b m) [] sel) (point, c) = Some b"
    by (simp add: t observe_finish_def record_baselines_writes Let_def)
  then have "Option.bind (map_of sel (point, c)) (baseline_of (ob_folds s) a c) = Some b"
    using recorded_get [of sel "\<lambda>k. baseline_of (ob_folds s) a (snd k)" "[]" "(point, c)"] choose_baselines_distinct
    by (simp add: sel_def split: option.splits)
  then obtain ch where ch: "map_of sel (point, c) = Some ch" "baseline_of (ob_folds s) a c ch = Some b"
    by (auto simp: bind_eq_Some_conv)
  from ch(2) obtain f where f: "find (\<lambda>(m, _). m = ch_at ch) (ob_folds s) = Some f" and claimed: "ch_claimed ch = Some (bl_claimed b)"
    and bl: "bl_at b = ch_at ch" "bl_observed b = (case bt_get (snapshot_cash (snd f) a []) c of None \<Rightarrow> 0 | Some v \<Rightarrow> v)"
    by (auto simp: baseline_of_def case_prod_unfold split: option.splits)
  from ch(1) show "bt_get (latest_moments (stated_cash_balances es a) p) (point, c) = Some (bl_at b)"
    by (auto simp: sel_def choose_baselines_get bl(1))
  from ch(1) claimed show "agreed_claim (stated_cash_balances es a) c (bl_at b) = Some (bl_claimed b)"
    by (auto simp: sel_def choose_baselines_get bl(1))
  from f have f': "f \<in> set (ob_folds s)" "fst f = bl_at b"
    by (auto simp: find_Some_iff bl(1) in_set_conv_nth)
  then have "try_fold (balances_apply X) balances_new (filter (dated (moment_covers (bl_at b))) es) = Ok (snd f)"
    using observe_folds [OF s] by (auto simp: list_all2_conv_all_nth in_set_conv_nth)
  from snapshot_of_fold [OF this] show "bl_observed b = effect_on (\<lambda>x. x = a) c (journal_legs (filter (dated (moment_covers (bl_at b))) es))"
    by (simp add: bl(2))
qed

section \<open>A sample journal\<close>

text \<open>Two payments and the closing balance of January as the source stated it.\<close>

definition sample_cash_on :: "date \<Rightarrow> int \<Rightarrow> event" where
  "sample_cash_on d v = (sample_of (CashIn (money_new v Rub)) [leg_cash (AccountId 1) (money_new v Rub)])\<lparr>e_dates := dates_for_cash d\<rparr>"

definition sample_stated_on :: "date \<Rightarrow> int \<Rightarrow> event" where
  "sample_stated_on d v = (sample_of (ControlAssertion \<lparr>ap_from = 1, ap_to = d\<rparr> (CashBalance Rub v Closing)) [])\<lparr>e_dates := dates_for_cash d\<rparr>"

definition sample_journal :: "event list" where
  "sample_journal = [sample_cash_on 10 700, sample_stated_on 12 900, sample_cash_on 20 5]"

definition sample_period :: assertion_period where
  "sample_period = \<lparr>ap_from = 15, ap_to = 30\<rparr>"

lemma sample_observed:
  "case observe ref_deps sample_journal (AccountId 1) sample_period of
     Ok t \<Rightarrow> bt_get (ot_cash_baseline t) (Closing, Rub) = Some \<lparr>bl_at = BalanceMoment 12 True, bl_claimed = 900, bl_observed = 700\<rparr> \<and>
       bt_get (ot_cash_anchor t) Rub = Some Unasserted \<and> observed_cash_at t Closing Rub = Some 705 \<and> events_seen t = 2
   | _ \<Rightarrow> False"
  by code_simp

lemma sample_observed_Ok:
  "\<exists>t. observe ref_deps sample_journal (AccountId 1) sample_period = Ok t \<and>
     bt_get (ot_cash_baseline t) (Closing, Rub) = Some \<lparr>bl_at = BalanceMoment 12 True, bl_claimed = 900, bl_observed = 700\<rparr> \<and>
     bt_get (ot_cash_anchor t) Rub = Some Unasserted \<and> observed_cash_at t Closing Rub = Some 705 \<and> events_seen t = 2"
  using sample_observed by (cases "observe ref_deps sample_journal (AccountId 1) sample_period") auto

section \<open>Properties\<close>

text \<open>
  The books of an account close: the cash the journal shows at the end of a period minus
  the cash it shows before the period is the observed debit turnover minus the credit turnover,
  and both balances are the sums of the postings their dates select.
\<close>

lemma observed_books_close:
  assumes "observe X es a p = Ok t"
  shows "(case observed_cash_at t Closing c of None \<Rightarrow> 0 | Some v \<Rightarrow> v) - (case observed_cash_at t Opening c of None \<Rightarrow> 0 | Some v \<Rightarrow> v)
      = to_debit (observed_turnover t c) - to_credit (observed_turnover t c) \<and>
    (case observed_cash_at t Opening c of None \<Rightarrow> 0 | Some v \<Rightarrow> v) =
      effect_on (\<lambda>x. x = a) c (journal_legs (filter (dated (before_period p)) es)) \<and>
    (case observed_cash_at t Closing c of None \<Rightarrow> 0 | Some v \<Rightarrow> v) =
      effect_on (\<lambda>x. x = a) c (journal_legs (filter (dated (upto_period p)) es))"
  unfolding observe_cash [OF assms] turnover_net account_total effect_upto by simp_all

text \<open>
  A baseline of an observation is the latest moment before the point at which the source
  stated the balance, all its statements at that moment agree on the claimed amount, and the
  observed amount is the sum of the postings of the events that moment covers.
\<close>

lemma baseline_is_latest_agreed_statement:
  assumes "observe X es a p = Ok t" "bt_get (ot_cash_baseline t) (point, c) = Some b"
  shows "bl_at b < moment_of p point \<and>
    (\<exists>x \<in> set (stated_cash_balances es a). sb_currency x = c \<and> sb_at x = bl_at b) \<and>
    (\<forall>x \<in> set (stated_cash_balances es a). sb_currency x = c \<and> sb_at x < moment_of p point \<longrightarrow>
       sb_at x \<le> bl_at b \<and> (sb_at x = bl_at b \<longrightarrow> sb_claimed x = bl_claimed b)) \<and>
    bl_observed b = effect_on (\<lambda>x. x = a) c (journal_legs (filter (dated (moment_covers (bl_at b))) es))"
proof -
  note b = observe_baseline [OF assms]
  from latest_moments_tops [of "stated_cash_balances es a" p, unfolded tops_def, rule_format, of "(point, c)"] b(1)
  have "bl_at b < moment_of p point"
    "\<forall>x \<in> set (stated_cash_balances es a). sb_currency x = c \<and> sb_at x < moment_of p point \<longrightarrow> sb_at x \<le> bl_at b"
    by auto
  then show ?thesis using b(2,3) by (simp add: agreed_claim_Some)
qed

end
