(* ===== verification/ClaimCheck.thy ===== *)
theory ClaimCheck
  imports Observed Perimeter
begin

text \<open>
  Comparing a claim of the source with the journal, \<open>reconciliation/check.rs\<close>. A balance whose
  opening nobody stated is not comparable as a level; where an earlier stated balance serves
  as a baseline, the change since it is compared instead. The comparison is characterised on
  the observation the journal gives, so an outcome says something about sums of postings.
\<close>

section \<open>Outcomes\<close>

datatype claim_value = ClaimMoney posted_minor currency_code | ClaimQuantity quantity

datatype discrepancy_reason = OpeningExcludedByDayBoundary

fun discrepancy_reason_code :: "discrepancy_reason \<Rightarrow> string" where
  "discrepancy_reason_code OpeningExcludedByDayBoundary = ''opening_excluded_by_day_boundary''"

record discrepancy =
  dc_field :: string
  dc_claimed :: claim_value
  dc_observed :: claim_value
  dc_delta :: claim_value
  dc_reason :: "discrepancy_reason option"

datatype not_comparable = NoJournalCoverage | TaxFactsNotRecorded | OpeningNotAsserted

fun not_comparable_code :: "not_comparable \<Rightarrow> string" where
  "not_comparable_code NoJournalCoverage = ''no_journal_coverage''"
| "not_comparable_code TaxFactsNotRecorded = ''tax_facts_not_recorded''"
| "not_comparable_code OpeningNotAsserted = ''opening_not_asserted''"

datatype compared = Level | ChangeSince date

fun compared_code :: "compared \<Rightarrow> string" where
  "compared_code Level = ''level''"
| "compared_code (ChangeSince _) = ''change_since_stated_balance''"

fun compared_since :: "compared \<Rightarrow> date option" where
  "compared_since Level = None"
| "compared_since (ChangeSince d) = Some d"

datatype observed_start = StartAsserted | StartUnasserted | NoRecordedMovement | NotABalance

fun observed_start_code :: "observed_start \<Rightarrow> string" where
  "observed_start_code StartAsserted = ''asserted''"
| "observed_start_code StartUnasserted = ''unasserted''"
| "observed_start_code NoRecordedMovement = ''no_recorded_movement''"
| "observed_start_code NotABalance = ''not_a_balance''"

record observation_basis =
  bs_folded :: fold_span
  bs_start :: observed_start
  bs_compared :: compared

datatype claim_outcome =
    Matched
  | Discrepant discrepancy
  | NotComparable not_comparable
  | Excepted reconciliation_exception

fun outcome_confirms :: "claim_outcome \<Rightarrow> bool" where
  "outcome_confirms Matched = True"
| "outcome_confirms (Discrepant _) = False"
| "outcome_confirms (NotComparable _) = False"
| "outcome_confirms (Excepted _) = False"

fun claim_outcome_code :: "claim_outcome \<Rightarrow> string" where
  "claim_outcome_code Matched = ''matched''"
| "claim_outcome_code (Discrepant _) = ''discrepant''"
| "claim_outcome_code (NotComparable _) = ''not_comparable''"
| "claim_outcome_code (Excepted _) = ''excepted''"

section \<open>What a claim is compared with\<close>

definition folded_to :: "balance_point \<Rightarrow> observed_totals \<Rightarrow> fold_span" where
  "folded_to point t = (case point of
     Opening \<Rightarrow> ot_before t | Closing \<Rightarrow> span_merge (ot_before t) (ot_within t))"

definition cash_baseline_for :: "observed_totals \<Rightarrow> balance_point \<Rightarrow> currency_code \<Rightarrow> baseline option" where
  "cash_baseline_for t point currency =
     (if observed_cash_at t point currency = None \<or> bt_get (ot_cash_anchor t) currency \<noteq> Some Unasserted
      then None else bt_get (ot_cash_baseline t) (point, currency))"

definition cash_compared :: "observed_totals \<Rightarrow> balance_point \<Rightarrow> currency_code \<Rightarrow> compared" where
  "cash_compared t point currency = (case cash_baseline_for t point currency of
     None \<Rightarrow> Level | Some b \<Rightarrow> ChangeSince (bm_date (bl_at b)))"

fun start_of :: "opening_anchor option \<Rightarrow> observed_start" where
  "start_of (Some Asserted) = StartAsserted"
| "start_of (Some Unasserted) = StartUnasserted"
| "start_of None = NoRecordedMovement"

fun observation_basis_of :: "control_claim \<Rightarrow> observed_totals \<Rightarrow> observation_basis" where
  "observation_basis_of (CashBalance currency _ point) t = \<lparr>
     bs_folded = folded_to point t,
     bs_start = start_of (bt_get (ot_cash_anchor t) currency),
     bs_compared = cash_compared t point currency\<rparr>"
| "observation_basis_of (PositionQuantity instrument _ point) t = \<lparr>
     bs_folded = folded_to point t,
     bs_start = start_of (bt_get (ot_position_anchor t) instrument),
     bs_compared = Level\<rparr>"
| "observation_basis_of (CashTurnover _ _ _) t = \<lparr>bs_folded = ot_within t, bs_start = NotABalance, bs_compared = Level\<rparr>"
| "observation_basis_of (FeesTotal _ _) t = \<lparr>bs_folded = ot_within t, bs_start = NotABalance, bs_compared = Level\<rparr>"
| "observation_basis_of (IncomeTotal _ _) t = \<lparr>bs_folded = ot_within t, bs_start = NotABalance, bs_compared = Level\<rparr>"
| "observation_basis_of (TaxWithheldTotal _ _) t = \<lparr>bs_folded = ot_within t, bs_start = NotABalance, bs_compared = Level\<rparr>"

section \<open>Comparison\<close>

text \<open>\<open>i64::saturating_sub\<close>.\<close>

definition saturating_sub :: "int \<Rightarrow> int \<Rightarrow> int" where
  "saturating_sub a b = max i64_min (min i64_max (a - b))"

definition compare_money :: "string \<Rightarrow> currency_code \<Rightarrow> posted_minor \<Rightarrow> posted_minor \<Rightarrow> claim_outcome" where
  "compare_money field currency claimed observed =
     (if claimed = observed then Matched
      else Discrepant \<lparr>dc_field = field, dc_claimed = ClaimMoney claimed currency, dc_observed = ClaimMoney observed currency,
        dc_delta = ClaimMoney (saturating_sub claimed observed) currency, dc_reason = None\<rparr>)"

definition compare_change :: "currency_code \<Rightarrow> posted_minor \<Rightarrow> posted_minor \<Rightarrow> baseline \<Rightarrow> claim_outcome" where
  "compare_change currency claimed observed b =
     compare_money ''change_since_stated_balance'' currency
       (saturating_sub claimed (bl_claimed b)) (saturating_sub observed (bl_observed b))"

definition compare_quantity :: "deps \<Rightarrow> quantity \<Rightarrow> quantity \<Rightarrow> claim_outcome" where
  "compare_quantity X claimed observed =
     (if d_eq X claimed observed then Matched
      else Discrepant \<lparr>dc_field = ''quantity'', dc_claimed = ClaimQuantity claimed, dc_observed = ClaimQuantity observed,
        dc_delta = ClaimQuantity (case dec_checked_sub X claimed observed of Ok q \<Rightarrow> q | _ \<Rightarrow> quantity_zero), dc_reason = None\<rparr>)"

fun claim_value_eq :: "deps \<Rightarrow> claim_value \<Rightarrow> claim_value \<Rightarrow> bool" where
  "claim_value_eq X (ClaimMoney a c) (ClaimMoney a' c') = (a = a' \<and> c = c')"
| "claim_value_eq X (ClaimQuantity q) (ClaimQuantity q') = d_eq X q q'"
| "claim_value_eq X _ _ = False"

definition name_cash_boundary_reason :: "deps \<Rightarrow> claim_outcome \<Rightarrow> balance_point \<Rightarrow> currency_code \<Rightarrow> observed_totals \<Rightarrow> claim_outcome" where
  "name_cash_boundary_reason X outcome point currency t = (case outcome of
     Discrepant d \<Rightarrow>
       Discrepant (if point = Opening \<and>
           (case bt_get (ot_cash_excluded t) currency of None \<Rightarrow> False
            | Some excluded \<Rightarrow> claim_value_eq X (dc_delta d) (ClaimMoney excluded currency))
         then d\<lparr>dc_reason := Some OpeningExcludedByDayBoundary\<rparr> else d)
   | _ \<Rightarrow> outcome)"

definition name_position_boundary_reason :: "deps \<Rightarrow> claim_outcome \<Rightarrow> balance_point \<Rightarrow> instrument_id \<Rightarrow> observed_totals \<Rightarrow> claim_outcome" where
  "name_position_boundary_reason X outcome point instrument t = (case outcome of
     Discrepant d \<Rightarrow>
       Discrepant (if point = Opening \<and>
           (case bt_get (ot_position_excluded t) instrument of None \<Rightarrow> False
            | Some excluded \<Rightarrow> claim_value_eq X (dc_delta d) (ClaimQuantity excluded))
         then d\<lparr>dc_reason := Some OpeningExcludedByDayBoundary\<rparr> else d)
   | _ \<Rightarrow> outcome)"

definition observed_or_zero :: "(currency_code, posted_minor) btree \<Rightarrow> currency_code \<Rightarrow> posted_minor" where
  "observed_or_zero m currency = (case bt_get m currency of None \<Rightarrow> 0 | Some v \<Rightarrow> v)"

fun compare_claim :: "deps \<Rightarrow> control_claim \<Rightarrow> observed_totals \<Rightarrow> claim_outcome" where
  "compare_claim X (CashBalance currency amount point) t = (case observed_cash_at t point currency of
     Some seen \<Rightarrow>
       if bt_get (ot_cash_anchor t) currency = Some Unasserted
       then (case cash_baseline_for t point currency of
               None \<Rightarrow> NotComparable OpeningNotAsserted
             | Some b \<Rightarrow> compare_change currency amount seen b)
       else name_cash_boundary_reason X (compare_money ''amount'' currency amount seen) point currency t
   | None \<Rightarrow> name_cash_boundary_reason X (compare_money ''amount'' currency amount 0) point currency t)"
| "compare_claim X (PositionQuantity instrument quantity point) t = (case observed_position_at t point instrument of
     Some seen \<Rightarrow>
       if bt_get (ot_position_anchor t) instrument = Some Unasserted then NotComparable OpeningNotAsserted
       else name_position_boundary_reason X (compare_quantity X quantity seen) point instrument t
   | None \<Rightarrow> name_position_boundary_reason X (compare_quantity X quantity quantity_zero) point instrument t)"
| "compare_claim X (CashTurnover currency debit credit) t =
     (let seen = (case bt_get (ot_turnover t) currency of None \<Rightarrow> turnover_default | Some v \<Rightarrow> v) in
      case compare_money ''debit'' currency debit (to_debit seen) of
        Matched \<Rightarrow> compare_money ''credit'' currency credit (to_credit seen)
      | other \<Rightarrow> other)"
| "compare_claim X (FeesTotal currency amount) t = compare_money ''amount'' currency amount (observed_or_zero (ot_fees t) currency)"
| "compare_claim X (IncomeTotal currency amount) t = compare_money ''amount'' currency amount (observed_or_zero (ot_income t) currency)"
| "compare_claim X (TaxWithheldTotal currency amount) t =
     (if ot_tax_facts_recorded t
      then compare_money ''amount'' currency amount (observed_or_zero (ot_tax_withheld t) currency)
      else NotComparable TaxFactsNotRecorded)"

definition check_control_claim :: "deps \<Rightarrow> control_claim \<Rightarrow> observed_totals \<Rightarrow> claim_outcome" where
  "check_control_claim X claim t =
     (if events_seen t = 0 then NotComparable NoJournalCoverage else compare_claim X claim t)"

section \<open>The observation a claim meets\<close>

lemma inserted_keys:
  "bt_get (foldl (\<lambda>m k. bt_insert k (f k) m) m ks) k = (if k \<in> set ks then Some (f k) else bt_get m k)"
  by (induction ks arbitrary: m) (auto simp: bt_get_insert)

lemma observe_cash_anchor:
  assumes "observe X es a p = Ok t" "observed_cash_at t point c \<noteq> None"
  shows "bt_get (ot_cash_anchor t) c = Some (anchors_cash (anchors_of es) a c)"
proof -
  define sel where "sel = choose_baselines (stated_cash_balances es a) p"
  obtain s where t: "t = observe_finish es a sel s"
    using observe_Ok [OF assms(1)] unfolding sel_def by blast
  have keys: "c \<in> set (map fst (ot_cash_opening t) @ map fst (ot_cash_closing t))"
  proof (rule ccontr)
    assume "c \<notin> set (map fst (ot_cash_opening t) @ map fst (ot_cash_closing t))"
    then have "bt_get (ot_cash_opening t) c = None \<and> bt_get (ot_cash_closing t) c = None"
      by (simp add: bt_get_def map_of_eq_None_iff)
    then show False using assms(2) by (cases point) (simp_all add: observed_cash_at_def)
  qed
  then show ?thesis
    by (simp add: t observe_finish_def Let_def record_baselines_writes record_anchors_def inserted_keys) fast
qed

lemma moment_covers_mono: "m < m' \<Longrightarrow> moment_covers m d \<Longrightarrow> moment_covers m' d"
  by (auto simp: moment_covers_def less_balance_moment_def split: if_splits)

definition journal_cash :: "event list \<Rightarrow> account_id \<Rightarrow> currency_code \<Rightarrow> (date \<Rightarrow> bool) \<Rightarrow> int" where
  "journal_cash es a c P = effect_on (\<lambda>x. x = a) c (journal_legs (filter (dated P) es))"

lemma journal_cash_minus:
  assumes "\<And>d. P d \<Longrightarrow> Q d"
  shows "journal_cash es a c Q - journal_cash es a c P = journal_cash es a c (\<lambda>d. Q d \<and> \<not> P d)"
  using assms by (induction es) (auto simp: journal_cash_def dated_def split: option.split)

lemma observed_cash_total:
  assumes "observe X es a p = Ok t" "period_is_well_formed p"
  shows "(case observed_cash_at t point c of None \<Rightarrow> 0 | Some v \<Rightarrow> v) = journal_cash es a c (moment_covers (moment_of p point))"
proof -
  have "upto_period p = (\<lambda>d. d \<le> ap_to p)"
    using assms(2) by (auto simp: upto_period_def period_contains_def period_is_well_formed_def fun_eq_iff)
  then show ?thesis using observe_cash(1,2) [OF assms(1), of c]
    by (cases point) (simp_all add: journal_cash_def moment_covers_def [abs_def] moment_of_def)
qed

lemma compare_money_confirms [simp]: "outcome_confirms (compare_money f c x y) \<longleftrightarrow> x = y"
  by (simp add: compare_money_def)

lemma named_confirms [simp]:
  "outcome_confirms (name_cash_boundary_reason X r point c t) = outcome_confirms r"
  "outcome_confirms (name_position_boundary_reason X r point i t) = outcome_confirms r"
  by (cases r; simp add: name_cash_boundary_reason_def name_position_boundary_reason_def)+

section \<open>Properties\<close>

text \<open>
  Two differences that are clipped to the range of the amounts agree exactly when they are equal, or
  when both are at or beyond the same end of the range.
\<close>

definition same_change :: "int \<Rightarrow> int \<Rightarrow> bool" where
  "same_change x y \<longleftrightarrow> x = y \<or> (2 ^ 63 - 1 \<le> x \<and> 2 ^ 63 - 1 \<le> y) \<or> (x \<le> - (2 ^ 63) \<and> y \<le> - (2 ^ 63))"

lemma saturating_sub_eq: "saturating_sub a b = saturating_sub c d \<longleftrightarrow> same_change (a - b) (c - d)"
  by (auto simp: saturating_sub_def same_change_def i64_defs max_def min_def)

text \<open>
  (C25) For an account with an event in a well-formed period, a claimed cash balance is confirmed as
  follows. If the balance starts from a stated opening (or never moved), it is confirmed exactly when
  the claimed amount is the sum of all postings up to the claimed moment. Otherwise it needs an
  earlier stated balance it can be measured from, and is confirmed exactly when the claimed change
  since then equals the sum of the postings in between, or both are at or beyond the same end of the
  range of \<open>i64\<close>: there the two clipped differences agree although the changes may differ, so
  a gap wider than the type is not always a discrepancy.
\<close>

theorem cash_claim_confirms_postings:
  assumes "observe X es a p = Ok t" "period_is_well_formed p" "events_seen t \<noteq> 0"
  shows "outcome_confirms (check_control_claim X (CashBalance c amount point) t) \<longleftrightarrow>
    (if observed_cash_at t point c \<noteq> None \<and> anchors_cash (anchors_of es) a c = Unasserted
     then \<exists>b. bt_get (ot_cash_baseline t) (point, c) = Some b \<and>
            same_change (amount - bl_claimed b)
              (journal_cash es a c (\<lambda>d. moment_covers (moment_of p point) d \<and> \<not> moment_covers (bl_at b) d))
     else amount = journal_cash es a c (moment_covers (moment_of p point)))"
proof (cases "observed_cash_at t point c")
  case None
  with observed_cash_total [OF assms(1,2), of point c] have zero: "journal_cash es a c (moment_covers (moment_of p point)) = 0" by simp
  show ?thesis using assms(3) None by (simp add: check_control_claim_def zero)
next
  case (Some seen)
  with observed_cash_total [OF assms(1,2), of point c] have seen: "seen = journal_cash es a c (moment_covers (moment_of p point))" by simp
  have anchor: "bt_get (ot_cash_anchor t) c = Some (anchors_cash (anchors_of es) a c)"
    by (rule observe_cash_anchor [OF assms(1), of point]) (use Some in simp)
  show ?thesis
  proof (cases "anchors_cash (anchors_of es) a c")
    case Asserted
    then show ?thesis using assms(3) Some anchor by (simp add: check_control_claim_def seen)
  next
    case Unasserted
    have "seen - bl_observed b = journal_cash es a c (\<lambda>d. moment_covers (moment_of p point) d \<and> \<not> moment_covers (bl_at b) d)"
      if b: "bt_get (ot_cash_baseline t) (point, c) = Some b" for b
    proof -
      note ob = observe_baseline [OF assms(1) b]
      from latest_moments_tops [of "stated_cash_balances es a" p, unfolded tops_def, rule_format, of "(point, c)"] ob(1)
      have "bl_at b < moment_of p point" by auto
      then show ?thesis
        using journal_cash_minus [of "moment_covers (bl_at b)" "moment_covers (moment_of p point)" es a c]
        by (simp add: ob(3) seen journal_cash_def [symmetric] moment_covers_mono)
    qed
    then show ?thesis using assms(3) Some anchor Unasserted
      by (auto simp: check_control_claim_def cash_baseline_for_def compare_change_def saturating_sub_eq split: option.split)
  qed
qed

text \<open>
  Changes that both exceed the range are confirmed against each other, however much they differ.
\<close>

lemma wide_changes_confirm:
  assumes "2 ^ 63 - 1 \<le> claimed - bl_claimed b" "2 ^ 63 - 1 \<le> observed - bl_observed b"
  shows "outcome_confirms (compare_change c claimed observed b)"
  using assms saturating_sub_eq [of claimed "bl_claimed b" observed "bl_observed b"]
  by (simp add: compare_change_def same_change_def)

theorem cash_claim_confirms_postings_witness:
  "\<exists>t b. observe ref_deps sample_journal (AccountId 1) sample_period = Ok t \<and>
     outcome_confirms (check_control_claim ref_deps (CashBalance Rub 905 Closing) t)"
proof -
  obtain t where t: "observe ref_deps sample_journal (AccountId 1) sample_period = Ok t"
    "bt_get (ot_cash_baseline t) (Closing, Rub) = Some \<lparr>bl_at = BalanceMoment 12 True, bl_claimed = 900, bl_observed = 700\<rparr>"
    "bt_get (ot_cash_anchor t) Rub = Some Unasserted" "observed_cash_at t Closing Rub = Some 705" "events_seen t = 2"
    using sample_observed_Ok by blast
  have wf: "period_is_well_formed sample_period" by (simp add: period_is_well_formed_def sample_period_def)
  have un: "anchors_cash (anchors_of sample_journal) (AccountId 1) Rub = Unasserted"
    using observe_cash_anchor [OF t(1), of Closing Rub] t(3,4) by simp
  have change: "journal_cash sample_journal (AccountId 1) Rub
      (\<lambda>d. moment_covers (moment_of sample_period Closing) d \<and> \<not> moment_covers (BalanceMoment 12 True) d) = 5"
    by code_simp
  have "events_seen t \<noteq> 0" by (simp add: t(5))
  from cash_claim_confirms_postings [OF t(1) wf this, of Rub 905 Closing] show ?thesis
    using t un change by (simp add: same_change_def)
qed

text \<open>
  The claimed totals of a period are confirmed exactly when they are the sums of the
  account's postings inside it: the debit and credit turnover, the magnitudes of the fee legs,
  of the cash legs of income events, and of the tax legs, where a tax total is comparable only
  if the period has a tax leg at all.
\<close>

lemma total_claims_confirm_postings:
  assumes "observe X es a p = Ok t" "events_seen t \<noteq> 0"
  defines "inside \<equiv> filter (dated (period_contains p)) es"
  shows "(outcome_confirms (check_control_claim X (CashTurnover c debit credit) t) \<longleftrightarrow>
      turnover_of (account_postings a (\<lambda>_ _. True) inside) c = \<lparr>to_debit = debit, to_credit = credit\<rparr>) \<and>
    (outcome_confirms (check_control_claim X (FeesTotal c amount) t) \<longleftrightarrow>
      amount = posted_total (magnitudes (account_postings a (\<lambda>_ l. l_kind l = LFee) inside)) c) \<and>
    (outcome_confirms (check_control_claim X (IncomeTotal c amount) t) \<longleftrightarrow>
      amount = posted_total (magnitudes (account_postings a income_leg inside)) c) \<and>
    (outcome_confirms (check_control_claim X (TaxWithheldTotal c amount) t) \<longleftrightarrow>
      account_postings a (\<lambda>_ l. l_kind l = LTax) inside \<noteq> [] \<and>
      amount = posted_total (magnitudes (account_postings a (\<lambda>_ l. l_kind l = LTax) inside)) c)"
proof -
  have tal: "tallied a inside t" using observe_cash(4) [OF assms(1)] by (simp add: inside_def)
  then have sums: "observed_or_zero (ot_fees t) c = posted_total (magnitudes (account_postings a (\<lambda>_ l. l_kind l = LFee) inside)) c"
    "observed_or_zero (ot_income t) c = posted_total (magnitudes (account_postings a income_leg inside)) c"
    "observed_or_zero (ot_tax_withheld t) c = posted_total (magnitudes (account_postings a (\<lambda>_ l. l_kind l = LTax) inside)) c"
    "ot_tax_facts_recorded t \<longleftrightarrow> account_postings a (\<lambda>_ l. l_kind l = LTax) inside \<noteq> []"
    by (simp_all add: tallied_def tally_def observed_or_zero_def accumulated_get0)
  have turn: "(case bt_get (ot_turnover t) c of None \<Rightarrow> turnover_default | Some v \<Rightarrow> v) = turnover_of (account_postings a (\<lambda>_ _. True) inside) c"
    using observe_cash(3) [OF assms(1), of c] by (simp add: inside_def observed_turnover_def)
  have "outcome_confirms (case compare_money f c x y of Matched \<Rightarrow> r | other \<Rightarrow> other) \<longleftrightarrow> x = y \<and> outcome_confirms r" for f x y r
    by (simp add: compare_money_def)
  then show ?thesis using assms(2)
    by (auto simp: check_control_claim_def turn sums Let_def)
qed

end
