(* ===== verification/Reconcile.thy ===== *)
theory Reconcile
  imports ClaimCheck
begin

text \<open>
  The reconciliation ledger, \<open>reconciliation/mod.rs\<close> and \<open>reconciliation/evidence.rs\<close>: the
  control assertions of the journal are grouped by account, period and channel, checked
  against the observation, turned into evidence on five grounds the journal itself can supply,
  and merged into one status per account and period. The lemmas say what a status of a built
  ledger means in terms of its outcomes and its evidence.
\<close>

section \<open>Levels and statuses\<close>

fun dimension_code :: "dimension \<Rightarrow> string" where
  "dimension_code DCash = ''cash''"
| "dimension_code DPositions = ''positions''"
| "dimension_code DTaxBasis = ''tax_basis''"
| "dimension_code DIncome = ''income''"

definition dimension_all :: "dimension list" where
  "dimension_all = [DCash, DPositions, DTaxBasis, DIncome]"

datatype confidence_level = LevelProvisional | LevelInternal | LevelIndependent

fun confidence_level_code :: "confidence_level \<Rightarrow> string" where
  "confidence_level_code LevelProvisional = ''provisional''"
| "confidence_level_code LevelInternal = ''accepted_internal''"
| "confidence_level_code LevelIndependent = ''accepted_independent''"

datatype dimension_status = StatusDiscrepant | StatusProvisional | StatusInternal | StatusIndependent

fun dimension_status_code :: "dimension_status \<Rightarrow> string" where
  "dimension_status_code StatusProvisional = ''provisional''"
| "dimension_status_code StatusInternal = ''accepted_internal''"
| "dimension_status_code StatusIndependent = ''accepted_independent''"
| "dimension_status_code StatusDiscrepant = ''discrepant''"

fun from_level :: "confidence_level \<Rightarrow> dimension_status" where
  "from_level LevelProvisional = StatusProvisional"
| "from_level LevelInternal = StatusInternal"
| "from_level LevelIndependent = StatusIndependent"

text \<open>The derived orders are those of the declarations.\<close>

fun dimension_rank :: "dimension \<Rightarrow> nat" where
  "dimension_rank DCash = 0" | "dimension_rank DPositions = 1" | "dimension_rank DTaxBasis = 2" | "dimension_rank DIncome = 3"

fun status_rank :: "dimension_status \<Rightarrow> nat" where
  "status_rank StatusDiscrepant = 0" | "status_rank StatusProvisional = 1" | "status_rank StatusInternal = 2"
| "status_rank StatusIndependent = 3"

lemma dimension_rank_inj: "dimension_rank x = dimension_rank y \<Longrightarrow> x = y"
  by (cases x; cases y) simp_all

lemma status_rank_inj: "status_rank x = status_rank y \<Longrightarrow> x = y"
  by (cases x; cases y) simp_all

instantiation dimension :: linorder
begin

definition less_eq_dimension :: "dimension \<Rightarrow> dimension \<Rightarrow> bool" where
  "less_eq_dimension a b \<longleftrightarrow> dimension_rank a \<le> dimension_rank b"

definition less_dimension :: "dimension \<Rightarrow> dimension \<Rightarrow> bool" where
  "less_dimension a b \<longleftrightarrow> dimension_rank a < dimension_rank b"

instance
  by standard (auto simp: less_eq_dimension_def less_dimension_def dest: dimension_rank_inj)

end

instantiation dimension_status :: linorder
begin

definition less_eq_dimension_status :: "dimension_status \<Rightarrow> dimension_status \<Rightarrow> bool" where
  "less_eq_dimension_status a b \<longleftrightarrow> status_rank a \<le> status_rank b"

definition less_dimension_status :: "dimension_status \<Rightarrow> dimension_status \<Rightarrow> bool" where
  "less_dimension_status a b \<longleftrightarrow> status_rank a < status_rank b"

instance
  by standard (auto simp: less_eq_dimension_status_def less_dimension_status_def dest: status_rank_inj)

end

section \<open>Evidence\<close>

record source_channel =
  sc_source :: source_id
  sc_parser_version :: parser_version
  sc_document :: "raw_hash option"

definition is_independent_of :: "source_channel \<Rightarrow> source_channel \<Rightarrow> bool" where
  "is_independent_of a b \<longleftrightarrow> sc_parser_version a \<noteq> sc_parser_version b \<and> sc_document a \<noteq> sc_document b"

datatype ground =
    OpeningMatchesPriorClosing
  | ContinuityBetweenStatements
  | BrokerApiAgreesWithStatement
  | DepositaryReportConfirms
  | SeparateSectionsAgree
  | PayoutConfirmsSchedule
  | CorporateActionMatchesIssueTerms
  | TaxAgentCertificate
  | OwnerStatedBalance

fun ground_ceiling :: "ground \<Rightarrow> confidence_level" where
  "ground_ceiling OpeningMatchesPriorClosing = LevelInternal"
| "ground_ceiling ContinuityBetweenStatements = LevelInternal"
| "ground_ceiling SeparateSectionsAgree = LevelInternal"
| "ground_ceiling OwnerStatedBalance = LevelInternal"
| "ground_ceiling BrokerApiAgreesWithStatement = LevelIndependent"
| "ground_ceiling DepositaryReportConfirms = LevelIndependent"
| "ground_ceiling PayoutConfirmsSchedule = LevelIndependent"
| "ground_ceiling CorporateActionMatchesIssueTerms = LevelIndependent"
| "ground_ceiling TaxAgentCertificate = LevelIndependent"

fun ground_dimensions :: "ground \<Rightarrow> dimension set" where
  "ground_dimensions OpeningMatchesPriorClosing = {DCash, DPositions}"
| "ground_dimensions ContinuityBetweenStatements = {DCash, DPositions}"
| "ground_dimensions BrokerApiAgreesWithStatement = {DCash, DPositions}"
| "ground_dimensions OwnerStatedBalance = {DCash, DPositions}"
| "ground_dimensions DepositaryReportConfirms = {DPositions}"
| "ground_dimensions CorporateActionMatchesIssueTerms = {DPositions}"
| "ground_dimensions SeparateSectionsAgree = {DCash, DPositions, DIncome, DTaxBasis}"
| "ground_dimensions PayoutConfirmsSchedule = {DIncome}"
| "ground_dimensions TaxAgentCertificate = {DIncome, DTaxBasis}"

fun ground_code :: "ground \<Rightarrow> string" where
  "ground_code OpeningMatchesPriorClosing = ''opening_matches_prior_closing''"
| "ground_code ContinuityBetweenStatements = ''continuity_between_statements''"
| "ground_code BrokerApiAgreesWithStatement = ''broker_api_agrees_with_statement''"
| "ground_code DepositaryReportConfirms = ''depositary_report_confirms''"
| "ground_code SeparateSectionsAgree = ''separate_sections_agree''"
| "ground_code PayoutConfirmsSchedule = ''payout_confirms_schedule''"
| "ground_code CorporateActionMatchesIssueTerms = ''corporate_action_matches_issue_terms''"
| "ground_code TaxAgentCertificate = ''tax_agent_certificate''"
| "ground_code OwnerStatedBalance = ''owner_stated_balance''"

definition ground_all :: "ground list" where
  "ground_all = [OpeningMatchesPriorClosing, ContinuityBetweenStatements, BrokerApiAgreesWithStatement,
     DepositaryReportConfirms, SeparateSectionsAgree, PayoutConfirmsSchedule, CorporateActionMatchesIssueTerms,
     TaxAgentCertificate, OwnerStatedBalance]"

record evidence =
  ev_ground :: ground
  ev_confirming :: source_channel
  ev_confirmed :: source_channel
  ev_dimensions :: "dimension set"

definition from_match :: "ground \<Rightarrow> source_channel \<Rightarrow> source_channel \<Rightarrow> dimension set \<Rightarrow> evidence option" where
  "from_match g confirming confirmed matched =
     (let dims = ground_dimensions g \<inter> matched in
      if dims \<noteq> {} then Some \<lparr>ev_ground = g, ev_confirming = confirming, ev_confirmed = confirmed, ev_dimensions = dims\<rparr>
      else None)"

definition evidence_level :: "evidence \<Rightarrow> confidence_level" where
  "evidence_level e =
     (if ground_ceiling (ev_ground e) = LevelIndependent \<and> \<not> is_independent_of (ev_confirming e) (ev_confirmed e)
      then LevelInternal else ground_ceiling (ev_ground e))"

section \<open>Statements, gaps and statuses\<close>

record statement_group =
  sg_account :: account_id
  sg_period :: assertion_period
  sg_channel :: source_channel
  sg_claims :: "control_claim list"

record taint =
  tn_account :: account_id
  tn_period :: assertion_period
  tn_source :: source_id
  tn_parser_version :: parser_version
  tn_dimensions :: "dimension set"
  tn_refused :: nat
  tn_rows :: "refused_row list"

record claim_check =
  ck_claim :: control_claim
  ck_outcome :: claim_outcome
  ck_basis :: observation_basis

record reconciliation_status =
  st_account :: account_id
  st_period :: assertion_period
  st_dimensions :: "(dimension, dimension_status) btree"
  st_evidence :: "evidence list"
  st_outcomes :: "claim_check list"
  st_taints :: "taint list"

record reconciliation_ledger =
  rl_statuses :: "reconciliation_status list"
  rl_gaps :: "taint list"

definition status_dimension :: "reconciliation_status \<Rightarrow> dimension \<Rightarrow> dimension_status" where
  "status_dimension s d = (case bt_get (st_dimensions s) d of None \<Rightarrow> StatusProvisional | Some v \<Rightarrow> v)"

definition apply_exceptions :: "claim_outcome \<Rightarrow> account_id \<Rightarrow> dimension \<Rightarrow> perimeter_exceptions \<Rightarrow> claim_outcome" where
  "apply_exceptions outcome account d exceptions = (case (outcome, exceptions_covers exceptions account d) of
     (Discrepant _, Some exception) \<Rightarrow> Excepted exception
   | (outcome, _) \<Rightarrow> outcome)"

definition channel_of :: "event \<Rightarrow> source_channel" where
  "channel_of e = \<lparr>sc_source = pv_source (e_provenance e), sc_parser_version = pv_parser_version (e_provenance e),
     sc_document = Some (pv_raw_hash (e_provenance e))\<rparr>"

text \<open>\<open>iter_mut().find\<close>: the first element that satisfies the test is updated.\<close>

fun update_first :: "('a \<Rightarrow> bool) \<Rightarrow> ('a \<Rightarrow> 'a) \<Rightarrow> 'a list \<Rightarrow> 'a list option" where
  "update_first P f [] = None"
| "update_first P f (x # xs) = (if P x then Some (f x # xs) else map_option ((#) x) (update_first P f xs))"

definition collect_group :: "statement_group list \<Rightarrow> event \<Rightarrow> statement_group list" where
  "collect_group groups e = (case e_kind e of
     ControlAssertion period claim \<Rightarrow>
       let channel = channel_of e in
       (case update_first (\<lambda>g. sg_account g = e_account e \<and> sg_period g = period \<and> sg_channel g = channel)
              (\<lambda>g. g\<lparr>sg_claims := sg_claims g @ [claim]\<rparr>) groups of
          Some groups' \<Rightarrow> groups'
        | None \<Rightarrow> groups @ [\<lparr>sg_account = e_account e, sg_period = period, sg_channel = channel, sg_claims = [claim]\<rparr>])
   | _ \<Rightarrow> groups)"

definition collect_groups :: "event list \<Rightarrow> statement_group list" where
  "collect_groups events = foldl collect_group [] events"

definition collect_coverage_gaps :: "event list \<Rightarrow> taint list" where
  "collect_coverage_gaps events = List.map_filter (\<lambda>e. case e_kind e of
     ImportCoverageGap period dims refused rows \<Rightarrow>
       Some \<lparr>tn_account = e_account e, tn_period = period, tn_source = pv_source (e_provenance e),
         tn_parser_version = pv_parser_version (e_provenance e), tn_dimensions = dims, tn_refused = refused, tn_rows = rows\<rparr>
   | _ \<Rightarrow> None) events"

definition correlated_taints :: "statement_group \<Rightarrow> taint list \<Rightarrow> taint list" where
  "correlated_taints g gaps = filter (\<lambda>gap.
     tn_account gap = sg_account g \<and> tn_period gap = sg_period g \<and>
     tn_source gap = sc_source (sg_channel g) \<and> tn_parser_version gap = sc_parser_version (sg_channel g)) gaps"

definition dimensions_from_taints :: "taint list \<Rightarrow> dimension set" where
  "dimensions_from_taints taints = \<Union> (tn_dimensions ` set taints)"

section \<open>Grounds the journal supplies\<close>

text \<open>
  The parallel vectors \<open>groups\<close>, \<open>checked\<close>, \<open>tainted\<close> and \<open>tainted_dimensions\<close>, which the code
  indexes together, are one list of checked groups.
\<close>

record checked_group =
  cg_group :: statement_group
  cg_taints :: "taint list"
  cg_tainted :: "dimension set"
  cg_outcomes :: "claim_check list"

fun is_balance_claim :: "control_claim \<Rightarrow> bool" where
  "is_balance_claim (CashBalance _ _ _) = True"
| "is_balance_claim (PositionQuantity _ _ _) = True"
| "is_balance_claim _ = False"

fun is_flow_claim :: "control_claim \<Rightarrow> bool" where
  "is_flow_claim (CashTurnover _ _ _) = True"
| "is_flow_claim (FeesTotal _ _) = True"
| "is_flow_claim (IncomeTotal _ _) = True"
| "is_flow_claim _ = False"

fun is_opening_claim :: "control_claim \<Rightarrow> bool" where
  "is_opening_claim (CashBalance _ _ Opening) = True"
| "is_opening_claim (PositionQuantity _ _ Opening) = True"
| "is_opening_claim _ = False"

definition ground_five :: "checked_group \<Rightarrow> evidence option" where
  "ground_five g =
     (if cg_outcomes g = [] \<or> \<not> list_all (\<lambda>ck. outcome_confirms (ck_outcome ck)) (cg_outcomes g) then None
      else if \<not> list_ex is_balance_claim (sg_claims (cg_group g)) \<or> \<not> list_ex is_flow_claim (sg_claims (cg_group g)) then None
      else from_match SeparateSectionsAgree (sg_channel (cg_group g)) (sg_channel (cg_group g))
             (set (map claim_dimension (sg_claims (cg_group g))) - cg_tainted g))"

definition ground_one :: "checked_group list \<Rightarrow> checked_group \<Rightarrow> (assertion_period \<times> evidence) option" where
  "ground_one gs g =
     (let opening_matched = set (map (\<lambda>ck. claim_dimension (ck_claim ck))
            (filter (\<lambda>ck. outcome_confirms (ck_outcome ck) \<and> is_opening_claim (ck_claim ck)) (cg_outcomes g))) in
      if opening_matched = {} then None
      else case max_by_key (\<lambda>h. ap_to (sg_period (cg_group h)))
             (filter (\<lambda>h. sg_account (cg_group h) = sg_account (cg_group g) \<and>
                ap_to (sg_period (cg_group h)) < ap_from (sg_period (cg_group g))) gs) of
          None \<Rightarrow> None
        | Some prior \<Rightarrow>
            map_option (Pair (sg_period (cg_group prior)))
              (from_match OpeningMatchesPriorClosing (sg_channel (cg_group g)) (sg_channel (cg_group prior))
                 (opening_matched - cg_tainted g - cg_tainted prior)))"

fun continuous :: "deps \<Rightarrow> control_claim \<Rightarrow> control_claim \<Rightarrow> bool" where
  "continuous X (CashBalance lc l Closing) (CashBalance rc r Opening) = (lc = rc \<and> l = r)"
| "continuous X (PositionQuantity li l Closing) (PositionQuantity ri r Opening) = (li = ri \<and> d_eq X l r)"
| "continuous X _ _ = False"

definition continuity :: "deps \<Rightarrow> checked_group \<Rightarrow> checked_group \<Rightarrow> (account_id \<times> assertion_period \<times> evidence) option" where
  "continuity X earlier later =
     (if sg_account (cg_group earlier) \<noteq> sg_account (cg_group later) \<or>
         ap_from (sg_period (cg_group later)) \<le> ap_to (sg_period (cg_group earlier)) then None
      else
        let dims = set (map claim_dimension (filter (\<lambda>closing.
               list_ex (\<lambda>opening. continuous X closing opening) (sg_claims (cg_group later))) (sg_claims (cg_group earlier)))) in
        map_option (\<lambda>ev. (sg_account (cg_group earlier), sg_period (cg_group earlier), ev))
          (from_match ContinuityBetweenStatements (sg_channel (cg_group later)) (sg_channel (cg_group earlier))
             (dims - cg_tainted earlier - cg_tainted later)))"

definition ground_two :: "deps \<Rightarrow> checked_group list \<Rightarrow> (account_id \<times> assertion_period \<times> evidence) list" where
  "ground_two X gs = concat (map (\<lambda>earlier. List.map_filter (continuity X earlier) gs) gs)"

definition confirmed_dimensions :: "checked_group \<Rightarrow> dimension set" where
  "confirmed_dimensions g =
     (let confirmed = set (map (\<lambda>ck. claim_dimension (ck_claim ck)) (filter (\<lambda>ck. ck_outcome ck = Matched) (cg_outcomes g)));
          broken = set (map (\<lambda>ck. claim_dimension (ck_claim ck))
            (filter (\<lambda>ck. case ck_outcome ck of Discrepant _ \<Rightarrow> True | _ \<Rightarrow> False) (cg_outcomes g)))
      in confirmed - broken - cg_tainted g)"

definition agreement :: "checked_group \<Rightarrow> checked_group \<Rightarrow> (account_id \<times> assertion_period \<times> evidence) option" where
  "agreement left right =
     (if sg_account (cg_group left) \<noteq> sg_account (cg_group right) \<or> sg_period (cg_group left) \<noteq> sg_period (cg_group right) \<or>
         \<not> is_independent_of (sg_channel (cg_group left)) (sg_channel (cg_group right)) then None
      else map_option (\<lambda>ev. (sg_account (cg_group left), sg_period (cg_group left), ev))
        (from_match BrokerApiAgreesWithStatement (sg_channel (cg_group right)) (sg_channel (cg_group left))
           (confirmed_dimensions left \<inter> confirmed_dimensions right)))"

fun ground_three :: "checked_group list \<Rightarrow> (account_id \<times> assertion_period \<times> evidence) list" where
  "ground_three [] = []"
| "ground_three (left # rest) = List.map_filter (agreement left) rest @ ground_three rest"

section \<open>The ledger\<close>

definition raise :: "(dimension, dimension_status) btree \<Rightarrow> dimension set \<Rightarrow> dimension_status \<Rightarrow> (dimension, dimension_status) btree" where
  "raise dims over level = foldl (\<lambda>m d. bt_upsert d StatusProvisional (\<lambda>slot. max slot level) m) dims
     (filter (\<lambda>d. d \<in> over) dimension_all)"

definition is_discrepant :: "claim_check \<Rightarrow> bool" where
  "is_discrepant ck \<longleftrightarrow> (case ck_outcome ck of Discrepant _ \<Rightarrow> True | _ \<Rightarrow> False)"

definition build_status :: "checked_group \<Rightarrow> (account_id \<times> assertion_period \<times> evidence) list \<Rightarrow> reconciliation_status" where
  "build_status g evidence =
     (let own = map (\<lambda>(_, _, item). item)
            (filter (\<lambda>(account, period, _). account = sg_account (cg_group g) \<and> period = sg_period (cg_group g)) evidence);
          raised = foldl (\<lambda>m item. raise m (ev_dimensions item) (from_level (evidence_level item))) [] own;
          dims = foldl (\<lambda>m ck. if is_discrepant ck then bt_insert (claim_dimension (ck_claim ck)) StatusDiscrepant m else m)
            raised (cg_outcomes g)
      in \<lparr>st_account = sg_account (cg_group g), st_period = sg_period (cg_group g), st_dimensions = dims,
          st_evidence = own, st_outcomes = cg_outcomes g, st_taints = cg_taints g\<rparr>)"

definition merge_dimension :: "(dimension, dimension_status) btree \<Rightarrow> dimension \<times> dimension_status \<Rightarrow> (dimension, dimension_status) btree" where
  "merge_dimension m dv = bt_upsert (fst dv) StatusProvisional (\<lambda>slot.
     if snd dv = StatusDiscrepant \<or> slot = StatusDiscrepant then StatusDiscrepant else max slot (snd dv)) m"

definition merge_into :: "reconciliation_status \<Rightarrow> reconciliation_status \<Rightarrow> reconciliation_status" where
  "merge_into status existing = existing\<lparr>
     st_dimensions := foldl merge_dimension (st_dimensions existing) (st_dimensions status),
     st_evidence := st_evidence existing @ st_evidence status,
     st_outcomes := st_outcomes existing @ st_outcomes status,
     st_taints := foldl (\<lambda>ts t. if t \<in> set ts then ts else ts @ [t]) (st_taints existing) (st_taints status)\<rparr>"

definition merge_status :: "reconciliation_status list \<Rightarrow> reconciliation_status \<Rightarrow> reconciliation_status list" where
  "merge_status into status =
     (case update_first (\<lambda>s. st_account s = st_account status \<and> st_period s = st_period status) (merge_into status) into of
        Some into' \<Rightarrow> into' | None \<Rightarrow> into @ [status])"

definition check_group :: "deps \<Rightarrow> event list \<Rightarrow> perimeter_exceptions \<Rightarrow> taint list \<Rightarrow> statement_group
    \<Rightarrow> (checked_group, observe_error) result" where
  "check_group X events exceptions gaps g =
     and_then (observe X events (sg_account g) (sg_period g)) (\<lambda>observed.
     Ok \<lparr>cg_group = g, cg_taints = correlated_taints g gaps, cg_tainted = dimensions_from_taints (correlated_taints g gaps),
         cg_outcomes = map (\<lambda>claim. \<lparr>ck_claim = claim,
           ck_outcome = apply_exceptions (check_control_claim X claim observed) (sg_account g) (claim_dimension claim) exceptions,
           ck_basis = observation_basis_of claim observed\<rparr>) (sg_claims g)\<rparr>)"

definition own_grounds :: "checked_group list \<Rightarrow> checked_group \<Rightarrow> (account_id \<times> assertion_period \<times> evidence) list" where
  "own_grounds gs g =
     (case ground_five g of None \<Rightarrow> [] | Some item \<Rightarrow> [(sg_account (cg_group g), sg_period (cg_group g), item)]) @
     (case ground_one gs g of None \<Rightarrow> [] | Some (period, item) \<Rightarrow> [(sg_account (cg_group g), period, item)])"

definition gather_evidence :: "deps \<Rightarrow> checked_group list \<Rightarrow> (account_id \<times> assertion_period \<times> evidence) list" where
  "gather_evidence X gs = concat (map (own_grounds gs) gs) @ ground_two X gs @ ground_three gs"

definition build_with :: "deps \<Rightarrow> event list \<Rightarrow> perimeter_exceptions \<Rightarrow> (reconciliation_ledger, observe_error) result" where
  "build_with X events exceptions =
     and_then (map_err ObserveCorrection (resolve events)) (\<lambda>effective.
     let gaps = collect_coverage_gaps effective in
     and_then (try_map (check_group X effective exceptions gaps) (collect_groups effective)) (\<lambda>gs.
     let evidence = gather_evidence X gs in
     Ok \<lparr>rl_statuses = foldl (\<lambda>into g. merge_status into (build_status g evidence)) [] gs, rl_gaps = gaps\<rparr>))"

definition build_ledger :: "deps \<Rightarrow> event list \<Rightarrow> (reconciliation_ledger, observe_error) result" where
  "build_ledger X events = build_with X events []"

definition add_external :: "reconciliation_ledger \<Rightarrow> account_id \<times> assertion_period \<times> evidence \<Rightarrow> reconciliation_ledger" where
  "add_external led item = (case item of (account, period, ev) \<Rightarrow>
     let level = from_level (evidence_level ev) in
     led\<lparr>rl_statuses :=
       (case update_first (\<lambda>s. st_account s = account \<and> st_period s = period)
              (\<lambda>s. s\<lparr>st_dimensions := raise (st_dimensions s) (ev_dimensions ev) level, st_evidence := st_evidence s @ [ev]\<rparr>)
              (rl_statuses led) of
          Some statuses \<Rightarrow> statuses
        | None \<Rightarrow> rl_statuses led @ [\<lparr>st_account = account, st_period = period, st_dimensions = raise [] (ev_dimensions ev) level,
            st_evidence = [ev], st_outcomes = [], st_taints = []\<rparr>])\<rparr>)"

definition with_external_evidence :: "reconciliation_ledger \<Rightarrow> (account_id \<times> assertion_period \<times> evidence) list \<Rightarrow> reconciliation_ledger" where
  "with_external_evidence led items = foldl add_external led items"

definition status_for_step :: "account_id \<Rightarrow> date \<Rightarrow> dimension \<Rightarrow> dimension_status option \<Rightarrow> reconciliation_status \<Rightarrow> dimension_status option" where
  "status_for_step account day d r s =
     (if st_account s \<noteq> account \<or> \<not> period_contains (st_period s) day then r
      else let candidate = status_dimension s d in
           Some (case r of None \<Rightarrow> candidate | Some current \<Rightarrow> min current candidate))"

definition status_for :: "reconciliation_ledger \<Rightarrow> account_id \<Rightarrow> date \<Rightarrow> dimension \<Rightarrow> dimension_status" where
  "status_for led account day d =
     (case foldl (status_for_step account day d) None (rl_statuses led) of None \<Rightarrow> StatusProvisional | Some s \<Rightarrow> s)"

section \<open>What raising and merging compute\<close>

lemma dimension_all_set [simp]: "set dimension_all = UNIV"
  using dimension.exhaust by (auto simp: dimension_all_def)

lemma raise_get:
  "bt_get (raise m S level) d =
     (if d \<in> S then Some (max (case bt_get m d of None \<Rightarrow> StatusProvisional | Some v \<Rightarrow> v) level) else bt_get m d)"
proof -
  have "distinct xs \<Longrightarrow> bt_get (foldl (\<lambda>m d. bt_upsert d StatusProvisional (\<lambda>slot. max slot level) m) m xs) d =
      (if d \<in> set xs then Some (max (case bt_get m d of None \<Rightarrow> StatusProvisional | Some v \<Rightarrow> v) level) else bt_get m d)" for xs m
    by (induction xs arbitrary: m) auto
  moreover have "distinct (filter (\<lambda>d. d \<in> S) dimension_all)" by (simp add: dimension_all_def)
  ultimately show ?thesis by (simp add: raise_def)
qed

lemma raise_invar: "bt_invar m \<Longrightarrow> bt_invar (raise m S level)"
proof -
  have "bt_invar m \<Longrightarrow> bt_invar (foldl (\<lambda>m d. bt_upsert d StatusProvisional (\<lambda>slot. max slot level) m) m xs)" for xs m
    by (induction xs arbitrary: m) auto
  then show "bt_invar m \<Longrightarrow> bt_invar (raise m S level)" by (simp add: raise_def)
qed

text \<open>The levels of the evidence on a dimension.\<close>

definition levels :: "evidence list \<Rightarrow> dimension \<Rightarrow> dimension_status set" where
  "levels evs d = {from_level (evidence_level e) | e. e \<in> set evs \<and> d \<in> ev_dimensions e}"

lemma levels_simps [simp]:
  "levels [] d = {}"
  "levels (xs @ ys) d = levels xs d \<union> levels ys d"
  "levels [e] d = (if d \<in> ev_dimensions e then {from_level (evidence_level e)} else {})"
  by (auto simp: levels_def)

lemma from_level_bound [simp]: "StatusProvisional \<le> from_level l" "from_level l \<noteq> StatusDiscrepant"
  by (cases l; simp add: less_eq_dimension_status_def)+

lemma levels_bound: "v \<in> levels evs d \<Longrightarrow> StatusProvisional \<le> v \<and> v \<noteq> StatusDiscrepant"
  by (auto simp: levels_def)

lemma raise_tops: "tops m (levels evs) \<Longrightarrow> tops (raise m (ev_dimensions e) (from_level (evidence_level e))) (levels (evs @ [e]))"
proof -
  assume m: "tops m (levels evs)"
  show ?thesis unfolding tops_def
  proof
    fix d
    show "case bt_get (raise m (ev_dimensions e) (from_level (evidence_level e))) d of
        None \<Rightarrow> levels (evs @ [e]) d = {}
      | Some v \<Rightarrow> v \<in> levels (evs @ [e]) d \<and> (\<forall>w \<in> levels (evs @ [e]) d. w \<le> v)"
      using m [unfolded tops_def, rule_format, of d]
      by (cases "bt_get m d") (auto simp: raise_get max_def)
  qed
qed

lemma raised_tops:
  "tops (foldl (\<lambda>m e. raise m (ev_dimensions e) (from_level (evidence_level e))) [] evs) (levels evs) \<and>
   bt_invar (foldl (\<lambda>m e. raise m (ev_dimensions e) (from_level (evidence_level e))) [] evs)"
proof (induction evs rule: rev_induct)
  case Nil
  show ?case by (simp add: tops_def)
next
  case (snoc e evs)
  then show ?case by (simp add: raise_tops raise_invar del: levels_simps)
qed

definition broken_in :: "claim_check list \<Rightarrow> dimension \<Rightarrow> bool" where
  "broken_in cks d \<longleftrightarrow> (\<exists>ck \<in> set cks. is_discrepant ck \<and> claim_dimension (ck_claim ck) = d)"

lemma broken_in_simps [simp]:
  "broken_in [] d = False" "broken_in (xs @ ys) d = (broken_in xs d \<or> broken_in ys d)"
  "broken_in (ck # cks) d = ((is_discrepant ck \<and> claim_dimension (ck_claim ck) = d) \<or> broken_in cks d)"
  by (auto simp: broken_in_def)

definition status_ok :: "reconciliation_status \<Rightarrow> bool" where
  "status_ok s \<longleftrightarrow> bt_invar (st_dimensions s) \<and>
     (\<forall>d. if broken_in (st_outcomes s) d then bt_get (st_dimensions s) d = Some StatusDiscrepant
          else case bt_get (st_dimensions s) d of
                 None \<Rightarrow> levels (st_evidence s) d = {}
               | Some v \<Rightarrow> v \<in> levels (st_evidence s) d \<and> (\<forall>w \<in> levels (st_evidence s) d. w \<le> v))"

lemma discrepant_fold:
  "bt_get (foldl (\<lambda>m ck. if is_discrepant ck then bt_insert (claim_dimension (ck_claim ck)) StatusDiscrepant m else m) m cks) d =
     (if broken_in cks d then Some StatusDiscrepant else bt_get m d)"
  by (induction cks arbitrary: m) (auto simp: bt_get_insert)

lemma discrepant_fold_invar:
  "bt_invar m \<Longrightarrow> bt_invar (foldl (\<lambda>m ck. if is_discrepant ck then bt_insert (claim_dimension (ck_claim ck)) StatusDiscrepant m else m) m cks)"
  by (induction cks arbitrary: m) (auto simp: bt_invar_insert)

lemma build_status_ok: "status_ok (build_status g evs)"
proof -
  define own where "own = st_evidence (build_status g evs)"
  define m where "m = foldl (\<lambda>m e. raise m (ev_dimensions e) (from_level (evidence_level e))) [] own"
  have parts: "st_dimensions (build_status g evs) = foldl (\<lambda>m ck. if is_discrepant ck
        then bt_insert (claim_dimension (ck_claim ck)) StatusDiscrepant m else m) m (cg_outcomes g)"
    "st_outcomes (build_status g evs) = cg_outcomes g" "st_evidence (build_status g evs) = own"
    by (simp_all add: own_def m_def build_status_def Let_def)
  have "tops m (levels own)" "bt_invar m" using raised_tops [of own] by (simp_all add: m_def)
  then show ?thesis unfolding status_ok_def parts discrepant_fold by (simp add: discrepant_fold_invar tops_def)
qed

lemma merge_dimension_get:
  "bt_get (merge_dimension m (k, v)) d = (if d = k then
     Some (let slot = (case bt_get m k of None \<Rightarrow> StatusProvisional | Some x \<Rightarrow> x) in
       if v = StatusDiscrepant \<or> slot = StatusDiscrepant then StatusDiscrepant else max slot v) else bt_get m d)"
  by (simp add: merge_dimension_def Let_def)

lemma merged_get:
  assumes "distinct (map fst kvs)"
  shows "bt_get (foldl merge_dimension m kvs) d = (case map_of kvs d of
     None \<Rightarrow> bt_get m d
   | Some v \<Rightarrow> Some (let slot = (case bt_get m d of None \<Rightarrow> StatusProvisional | Some x \<Rightarrow> x) in
       if v = StatusDiscrepant \<or> slot = StatusDiscrepant then StatusDiscrepant else max slot v))"
  using assms
proof (induction kvs arbitrary: m)
  case (Cons kv kvs)
  obtain k v where kv: "kv = (k, v)" by (cases kv)
  have fresh: "map_of kvs k = None" using Cons.prems by (simp add: kv map_of_eq_None_iff)
  have IH: "bt_get (foldl merge_dimension (merge_dimension m (k, v)) kvs) d = (case map_of kvs d of
     None \<Rightarrow> bt_get (merge_dimension m (k, v)) d
   | Some v' \<Rightarrow> Some (let slot = (case bt_get (merge_dimension m (k, v)) d of None \<Rightarrow> StatusProvisional | Some x \<Rightarrow> x) in
       if v' = StatusDiscrepant \<or> slot = StatusDiscrepant then StatusDiscrepant else max slot v'))"
    using Cons by (simp add: kv)
  show ?case
    unfolding kv foldl.simps IH merge_dimension_get by (cases "d = k") (simp_all add: fresh)
qed simp

lemma merged_invar: "bt_invar m \<Longrightarrow> bt_invar (foldl merge_dimension m kvs)"
  by (induction kvs arbitrary: m) (auto simp: merge_dimension_def)

lemma merge_into_ok:
  assumes "status_ok new" "status_ok old"
  shows "status_ok (merge_into new old)"
proof -
  have inv: "bt_invar (st_dimensions new)" "bt_invar (st_dimensions old)" using assms by (simp_all add: status_ok_def)
  have get: "bt_get (st_dimensions (merge_into new old)) d = (case bt_get (st_dimensions new) d of
     None \<Rightarrow> bt_get (st_dimensions old) d
   | Some v \<Rightarrow> Some (let slot = (case bt_get (st_dimensions old) d of None \<Rightarrow> StatusProvisional | Some x \<Rightarrow> x) in
       if v = StatusDiscrepant \<or> slot = StatusDiscrepant then StatusDiscrepant else max slot v))" for d
    using merged_get [OF bt_invar_distinct [OF inv(1)]] by (simp add: merge_into_def bt_get_def)
  have "if broken_in (st_outcomes (merge_into new old)) d then bt_get (st_dimensions (merge_into new old)) d = Some StatusDiscrepant
      else case bt_get (st_dimensions (merge_into new old)) d of
        None \<Rightarrow> levels (st_evidence (merge_into new old)) d = {}
      | Some v \<Rightarrow> v \<in> levels (st_evidence (merge_into new old)) d \<and> (\<forall>w \<in> levels (st_evidence (merge_into new old)) d. w \<le> v)" for d
  proof -
    have bounds: "v \<in> levels evs d \<Longrightarrow> StatusProvisional \<le> v \<and> v \<noteq> StatusDiscrepant" for v evs by (rule levels_bound)
    have n: "if broken_in (st_outcomes new) d then bt_get (st_dimensions new) d = Some StatusDiscrepant
        else case bt_get (st_dimensions new) d of None \<Rightarrow> levels (st_evidence new) d = {}
          | Some v \<Rightarrow> v \<in> levels (st_evidence new) d \<and> (\<forall>w \<in> levels (st_evidence new) d. w \<le> v)"
      using assms(1) unfolding status_ok_def by blast
    have o: "if broken_in (st_outcomes old) d then bt_get (st_dimensions old) d = Some StatusDiscrepant
        else case bt_get (st_dimensions old) d of None \<Rightarrow> levels (st_evidence old) d = {}
          | Some v \<Rightarrow> v \<in> levels (st_evidence old) d \<and> (\<forall>w \<in> levels (st_evidence old) d. w \<le> v)"
      using assms(2) unfolding status_ok_def by blast
    have parts: "st_outcomes (merge_into new old) = st_outcomes old @ st_outcomes new"
      "st_evidence (merge_into new old) = st_evidence old @ st_evidence new" by (simp_all add: merge_into_def)
    show ?thesis unfolding parts get using n o
      by (cases "bt_get (st_dimensions new) d"; cases "bt_get (st_dimensions old) d")
         (auto simp: Let_def max_def dest: bounds split: if_splits)
  qed
  moreover have "bt_invar (st_dimensions (merge_into new old))" by (simp add: merge_into_def merged_invar inv(2))
  ultimately show ?thesis unfolding status_ok_def by blast
qed

lemma update_first_Some:
  "update_first P f xs = Some ys \<Longrightarrow> \<exists>x \<in> set xs. P x \<and> set ys \<subseteq> insert (f x) (set xs)"
proof (induction xs arbitrary: ys)
  case (Cons a xs)
  show ?case
  proof (cases "P a")
    case True
    then show ?thesis using Cons.prems by auto
  next
    case False
    with Cons.prems obtain zs where zs: "update_first P f xs = Some zs" "ys = a # zs" by auto
    from Cons.IH [OF zs(1)] obtain x where "x \<in> set xs" "P x" "set zs \<subseteq> insert (f x) (set xs)" by blast
    then show ?thesis by (intro bexI [of _ x]) (auto simp: zs(2))
  qed
qed simp

lemma merge_statuses_invariant:
  assumes "\<And>g. g \<in> set gs \<Longrightarrow> Q (build_status g evs)"
    and "\<And>new old. Q new \<Longrightarrow> Q old \<Longrightarrow> st_account new = st_account old \<Longrightarrow> st_period new = st_period old \<Longrightarrow> Q (merge_into new old)"
  shows "\<forall>s \<in> set (foldl (\<lambda>into g. merge_status into (build_status g evs)) [] gs). Q s"
  using assms(1)
proof (induction gs rule: rev_induct)
  case (snoc g gs)
  define sts where "sts = foldl (\<lambda>into g. merge_status into (build_status g evs)) [] gs"
  have old: "\<forall>s \<in> set sts. Q s" using snoc by (simp add: sts_def)
  have new: "Q (build_status g evs)" using snoc.prems by simp
  let ?P = "\<lambda>s. st_account s = st_account (build_status g evs) \<and> st_period s = st_period (build_status g evs)"
  have "\<forall>s \<in> set (merge_status sts (build_status g evs)). Q s"
  proof (cases "update_first ?P (merge_into (build_status g evs)) sts")
    case None
    then show ?thesis using old new by (simp add: merge_status_def)
  next
    case (Some sts')
    from update_first_Some [OF this] obtain x where x: "x \<in> set sts" "?P x" "set sts' \<subseteq> insert (merge_into (build_status g evs) x) (set sts)" by blast
    have "Q (merge_into (build_status g evs) x)" using assms(2) [OF new] old x(1,2) by simp
    then show ?thesis using old x(3) Some by (auto simp: merge_status_def)
  qed
  then show ?case by (simp add: sts_def)
qed simp

section \<open>Where evidence comes from\<close>

lemma from_match_Some:
  "from_match g a b D = Some e \<longleftrightarrow> ground_dimensions g \<inter> D \<noteq> {} \<and>
     e = \<lparr>ev_ground = g, ev_confirming = a, ev_confirmed = b, ev_dimensions = ground_dimensions g \<inter> D\<rparr>"
  by (auto simp: from_match_def Let_def)

lemma internal_level: "ground_ceiling (ev_ground e) = LevelInternal \<Longrightarrow> evidence_level e = LevelInternal"
  by (simp add: evidence_level_def)

lemma from_match_ground: "from_match g a b D = Some e \<Longrightarrow> ev_ground e = g"
  by (simp add: from_match_Some)

lemma ground_five_ground: "ground_five g = Some e \<Longrightarrow> ev_ground e = SeparateSectionsAgree"
  by (auto simp: ground_five_def dest: from_match_ground split: if_splits)

lemma ground_one_ground: "ground_one gs g = Some (p, e) \<Longrightarrow> ev_ground e = OpeningMatchesPriorClosing"
  by (auto simp: ground_one_def Let_def dest: from_match_ground split: if_splits option.splits)

lemma continuity_ground: "continuity X g h = Some (a, p, e) \<Longrightarrow> ev_ground e = ContinuityBetweenStatements"
  by (auto simp: continuity_def Let_def dest: from_match_ground split: if_splits)

lemma own_grounds_internal:
  assumes "(a, p, e) \<in> set (own_grounds gs g)"
  shows "evidence_level e = LevelInternal"
proof -
  have "ground_five g = Some e \<or> ground_one gs g = Some (p, e)"
    using assms by (auto simp: own_grounds_def split: option.splits)
  then show ?thesis using ground_five_ground [of g e] ground_one_ground [of gs g p e] by (auto intro!: internal_level)
qed

lemma ground_two_internal:
  assumes "(a, p, e) \<in> set (ground_two X gs)"
  shows "evidence_level e = LevelInternal"
proof -
  from assms obtain g h where "continuity X g h = Some (a, p, e)" by (auto simp: ground_two_def List.map_filter_def)
  from continuity_ground [OF this] show ?thesis by (simp add: internal_level)
qed

lemma ground_three_pair:
  "x \<in> set (ground_three gs) \<Longrightarrow> \<exists>left \<in> set gs. \<exists>right \<in> set gs. agreement left right = Some x"
  by (induction gs) (auto simp: List.map_filter_def)

lemma independent_evidence:
  assumes "(a, p, e) \<in> set (gather_evidence X gs)" "evidence_level e = LevelIndependent"
  shows "\<exists>left \<in> set gs. \<exists>right \<in> set gs. agreement left right = Some (a, p, e)"
proof -
  have "(a, p, e) \<notin> set (concat (map (own_grounds gs) gs))" using assms(2) own_grounds_internal by fastforce
  moreover have "(a, p, e) \<notin> set (ground_two X gs)" using assms(2) ground_two_internal by fastforce
  ultimately have "(a, p, e) \<in> set (ground_three gs)" using assms(1) by (simp add: gather_evidence_def)
  then show ?thesis by (rule ground_three_pair)
qed

text \<open>The evidence of a status was gathered for its account and period.\<close>

definition evidence_from :: "(account_id \<times> assertion_period \<times> evidence) list \<Rightarrow> reconciliation_status \<Rightarrow> bool" where
  "evidence_from evs s \<longleftrightarrow> (\<forall>e \<in> set (st_evidence s). (st_account s, st_period s, e) \<in> set evs)"

lemma build_status_evidence: "evidence_from evs (build_status g evs)"
  by (auto simp: evidence_from_def build_status_def Let_def)

lemma merge_into_evidence:
  "evidence_from evs new \<Longrightarrow> evidence_from evs old \<Longrightarrow> st_account new = st_account old \<Longrightarrow> st_period new = st_period old \<Longrightarrow>
   evidence_from evs (merge_into new old)"
  by (auto simp: evidence_from_def merge_into_def)

lemma build_with_Ok:
  assumes "build_with X es exc = Ok led"
  shows "\<exists>effective gs. resolve es = Ok effective \<and>
    try_map (check_group X effective exc (collect_coverage_gaps effective)) (collect_groups effective) = Ok gs \<and>
    rl_statuses led = foldl (\<lambda>into g. merge_status into (build_status g (gather_evidence X gs))) [] gs"
  using assms by (auto simp: build_with_def Let_def)

lemma built_status_ok: "build_with X es exc = Ok led \<Longrightarrow> s \<in> set (rl_statuses led) \<Longrightarrow> status_ok s"
  using build_with_Ok merge_statuses_invariant [where Q = status_ok, OF build_status_ok merge_into_ok] by metis

lemma status_ok_dimension:
  assumes "status_ok s"
  shows "status_dimension s d =
    (if broken_in (st_outcomes s) d then StatusDiscrepant
     else if levels (st_evidence s) d = {} then StatusProvisional else Max (levels (st_evidence s) d))"
proof -
  have fin: "finite (levels (st_evidence s) d)"
    by (rule finite_subset [of _ "(from_level \<circ> evidence_level) ` set (st_evidence s)"]) (auto simp: levels_def)
  have sp: "if broken_in (st_outcomes s) d then bt_get (st_dimensions s) d = Some StatusDiscrepant
     else case bt_get (st_dimensions s) d of None \<Rightarrow> levels (st_evidence s) d = {}
       | Some v \<Rightarrow> v \<in> levels (st_evidence s) d \<and> (\<forall>w \<in> levels (st_evidence s) d. w \<le> v)"
    using assms unfolding status_ok_def by blast
  show ?thesis
  proof (cases "broken_in (st_outcomes s) d")
    case True
    then show ?thesis using sp by (simp add: status_dimension_def)
  next
    case False
    show ?thesis
    proof (cases "bt_get (st_dimensions s) d")
      case None
      then show ?thesis using sp False by (simp add: status_dimension_def)
    next
      case (Some v)
      then have "v \<in> levels (st_evidence s) d" "\<And>w. w \<in> levels (st_evidence s) d \<Longrightarrow> w \<le> v" using sp False by simp_all
      then have "Max (levels (st_evidence s) d) = v" "levels (st_evidence s) d \<noteq> {}" using fin by (auto intro: Max_eqI)
      then show ?thesis using False Some by (simp add: status_dimension_def)
    qed
  qed
qed

lemma status_ok_level:
  assumes "status_ok s" "status_dimension s d \<noteq> StatusDiscrepant" "status_dimension s d \<noteq> StatusProvisional"
  shows "status_dimension s d \<in> levels (st_evidence s) d"
proof -
  have "finite (levels (st_evidence s) d)"
    by (rule finite_subset [of _ "(from_level \<circ> evidence_level) ` set (st_evidence s)"]) (auto simp: levels_def)
  then show ?thesis using assms(2,3) unfolding status_ok_dimension [OF assms(1)] by (auto split: if_splits)
qed

lemma checked_group_of:
  assumes "try_map (check_group X effective exc gaps) groups = Ok gs" "h \<in> set gs" "d \<in> confirmed_dimensions h"
  shows "cg_group h \<in> set groups \<and> (\<exists>t. observe X effective (sg_account (cg_group h)) (sg_period (cg_group h)) = Ok t \<and>
    (\<exists>claim \<in> set (sg_claims (cg_group h)). claim_dimension claim = d \<and> check_control_claim X claim t = Matched)) \<and>
    d \<notin> dimensions_from_taints (correlated_taints (cg_group h) gaps)"
proof -
  obtain i where i: "i < length gs" "h = gs ! i" using assms(2) by (auto simp: in_set_conv_nth)
  have all: "list_all2 (\<lambda>g h. check_group X effective exc gaps g = Ok h) groups gs" using assms(1) by (simp add: try_map_Ok_iff)
  then have step: "check_group X effective exc gaps (groups ! i) = Ok h" and len: "i < length groups"
    using i by (auto simp: list_all2_conv_all_nth)
  from step obtain t where t: "observe X effective (sg_account (groups ! i)) (sg_period (groups ! i)) = Ok t"
    and h: "h = \<lparr>cg_group = groups ! i, cg_taints = correlated_taints (groups ! i) gaps,
         cg_tainted = dimensions_from_taints (correlated_taints (groups ! i) gaps),
         cg_outcomes = map (\<lambda>claim. \<lparr>ck_claim = claim,
           ck_outcome = apply_exceptions (check_control_claim X claim t) (sg_account (groups ! i)) (claim_dimension claim) exc,
           ck_basis = observation_basis_of claim t\<rparr>) (sg_claims (groups ! i))\<rparr>"
    by (auto simp: check_group_def)
  have matched: "apply_exceptions r a dm ex = Matched \<Longrightarrow> r = Matched" for r a dm ex
    by (auto simp: apply_exceptions_def split: claim_outcome.splits option.splits)
  from assms(3) have "d \<notin> cg_tainted h" "\<exists>ck \<in> set (cg_outcomes h). ck_outcome ck = Matched \<and> claim_dimension (ck_claim ck) = d"
    by (auto simp: confirmed_dimensions_def Let_def)
  then show ?thesis using t len matched by (auto simp: h)
qed

section \<open>Every checked claim reaches a status\<close>

definition same_key :: "reconciliation_status \<Rightarrow> reconciliation_status \<Rightarrow> bool" where
  "same_key s t \<longleftrightarrow> st_account s = st_account t \<and> st_period s = st_period t"

definition absorbs :: "reconciliation_status list \<Rightarrow> reconciliation_status \<Rightarrow> bool" where
  "absorbs sts s \<longleftrightarrow> (\<exists>t \<in> set sts. same_key s t \<and> set (st_outcomes s) \<subseteq> set (st_outcomes t))"

lemma update_first_cases:
  "case update_first P f xs of
     None \<Rightarrow> \<forall>x \<in> set xs. \<not> P x
   | Some ys \<Rightarrow> \<exists>as x bs. xs = as @ x # bs \<and> P x \<and> ys = as @ f x # bs"
proof (induction xs)
  case (Cons a xs)
  show ?case
  proof (cases "P a")
    case True
    then show ?thesis by (auto intro: exI [of _ "[]"])
  next
    case False
    then show ?thesis using Cons by (auto split: option.splits) (metis append_Cons)
  qed
qed simp

lemma merge_status_absorbs:
  assumes "absorbs sts s \<or> s = new"
  shows "absorbs (merge_status sts new) s"
proof (cases "update_first (\<lambda>s. st_account s = st_account new \<and> st_period s = st_period new) (merge_into new) sts")
  case None
  then show ?thesis using assms by (auto simp: merge_status_def absorbs_def same_key_def)
next
  case (Some ys)
  from update_first_cases [where P = "\<lambda>s. st_account s = st_account new \<and> st_period s = st_period new" and f = "merge_into new" and xs = sts] Some
  obtain as x bs where x: "sts = as @ x # bs" "st_account x = st_account new" "st_period x = st_period new" "ys = as @ merge_into new x # bs"
    by auto
  have m: "same_key u (merge_into new x) \<longleftrightarrow> same_key u x" "set (st_outcomes (merge_into new x)) = set (st_outcomes x) \<union> set (st_outcomes new)" for u
    by (simp_all add: merge_into_def same_key_def)
  show ?thesis
  proof (cases "s = new")
    case True
    then have "same_key s (merge_into new x)" using x(2,3) by (simp add: same_key_def merge_into_def)
    then show ?thesis using Some True by (auto simp: merge_status_def absorbs_def x(4) m)
  next
    case False
    then obtain t where t: "t \<in> set sts" "same_key s t" "set (st_outcomes s) \<subseteq> set (st_outcomes t)"
      using assms by (auto simp: absorbs_def)
    then consider "t = x" | "t \<in> set as \<union> set bs" using x(1) by auto
    then show ?thesis using t Some by cases (auto simp: merge_status_def absorbs_def x(4) m)
  qed
qed

lemma built_absorbs:
  "g \<in> set gs \<Longrightarrow> absorbs (foldl (\<lambda>into g. merge_status into (build_status g evs)) [] gs) (build_status g evs)"
proof (induction gs rule: rev_induct)
  case (snoc h gs)
  have "absorbs (foldl (\<lambda>into g. merge_status into (build_status g evs)) [] gs) (build_status g evs) \<or>
      build_status g evs = build_status h evs"
    using snoc by auto
  from merge_status_absorbs [OF this] show ?case by simp
qed simp

lemma status_discrepant_least [simp]: "StatusDiscrepant \<le> s"
  by (simp add: less_eq_dimension_status_def)

lemma independent_greatest [simp]: "s \<le> StatusIndependent"
  by (cases s) (simp_all add: less_eq_dimension_status_def)

text \<open>The answer for a date is the least status among those of the account that cover it.\<close>

definition covering :: "reconciliation_ledger \<Rightarrow> account_id \<Rightarrow> date \<Rightarrow> reconciliation_status set" where
  "covering led a day = {s \<in> set (rl_statuses led). st_account s = a \<and> period_contains (st_period s) day}"

lemma status_for_least:
  "if covering led a day = {} then status_for led a day d = StatusProvisional
   else (\<exists>s \<in> covering led a day. status_for led a day d = status_dimension s d) \<and>
        (\<forall>s \<in> covering led a day. status_for led a day d \<le> status_dimension s d)"
proof -
  have "case foldl (status_for_step a day d) None sts of
      None \<Rightarrow> {s \<in> set sts. st_account s = a \<and> period_contains (st_period s) day} = {}
    | Some r \<Rightarrow> (\<exists>s \<in> {s \<in> set sts. st_account s = a \<and> period_contains (st_period s) day}. r = status_dimension s d) \<and>
        (\<forall>s \<in> {s \<in> set sts. st_account s = a \<and> period_contains (st_period s) day}. r \<le> status_dimension s d)" for sts
  proof (induction sts rule: rev_induct)
    case (snoc s sts)
    show ?case
    proof (cases "st_account s = a \<and> period_contains (st_period s) day")
      case False
      then have "{t \<in> set (sts @ [s]). st_account t = a \<and> period_contains (st_period t) day} =
          {t \<in> set sts. st_account t = a \<and> period_contains (st_period t) day}" by auto
      moreover have "status_for_step a day d r s = r" for r using False by (simp add: status_for_step_def)
      ultimately show ?thesis using snoc by (simp only: foldl_append foldl.simps)
    next
      case True
      then have step: "status_for_step a day d r s =
          Some (case r of None \<Rightarrow> status_dimension s d | Some c \<Rightarrow> min c (status_dimension s d))" for r
        by (simp add: status_for_step_def Let_def)
      show ?thesis
      proof (cases "foldl (status_for_step a day d) None sts")
        case None
        then show ?thesis using snoc True by (auto simp: step)
      next
        case (Some r)
        then show ?thesis using snoc True by (auto simp: step min_def)
      qed
    qed
  qed simp
  from this [of "rl_statuses led"] show ?thesis
    by (cases "foldl (status_for_step a day d) None (rl_statuses led)") (auto simp: status_for_def covering_def)
qed

lemma status_for_le: "s \<in> covering led a day \<Longrightarrow> status_for led a day d \<le> status_dimension s d"
  using status_for_least [of led a day d] by (auto split: if_splits)

section \<open>A sample journal\<close>

text \<open>One payment and two statements of the turnover by different parsers from different documents.\<close>

definition sample_turnover :: "128 word \<Rightarrow> string \<Rightarrow> int \<Rightarrow> event" where
  "sample_turnover i v debit = (sample_of (ControlAssertion sample_period (CashTurnover Rub debit 0)) [])\<lparr>
     e_id := EventId i, e_dates := dates_for_cash 30, e_provenance := provenance_new (SourceId 1) v v\<rparr>"

definition sample_statements :: "int \<Rightarrow> int \<Rightarrow> event list" where
  "sample_statements x y = [sample_cash_on 20 5, sample_turnover 2 ''a'' x, sample_turnover 3 ''b'' y]"

lemma sample_agree:
  "case build_with ref_deps (sample_statements 5 5) [] of
     Ok led \<Rightarrow> status_for led (AccountId 1) 20 DCash = StatusIndependent | _ \<Rightarrow> False"
  by code_simp

lemma sample_disagree:
  "case build_with ref_deps (sample_statements 5 6) [] of
     Ok led \<Rightarrow> status_for led (AccountId 1) 20 DCash = StatusDiscrepant | _ \<Rightarrow> False"
  by code_simp

section \<open>Properties\<close>

text \<open>
  (C23) A discrepancy is never hidden: if a statement in the journal makes a claim that the
  observation contradicts, and no exception of the perimeter covers it, then the status of
  the account in that dimension is discrepant on every day of the statement's period,
  whatever other documents say.
\<close>

theorem discrepancy_is_never_hidden:
  assumes "build_with X es exc = Ok led" "resolve es = Ok effective"
    and g: "g \<in> set (collect_groups effective)" "claim \<in> set (sg_claims g)"
    and t: "observe X effective (sg_account g) (sg_period g) = Ok t" "check_control_claim X claim t = Discrepant x"
    and "exceptions_covers exc (sg_account g) (claim_dimension claim) = None" "period_contains (sg_period g) day"
  shows "status_for led (sg_account g) day (claim_dimension claim) = StatusDiscrepant"
proof -
  from build_with_Ok [OF assms(1)] assms(2) obtain gs where
    gs: "try_map (check_group X effective exc (collect_coverage_gaps effective)) (collect_groups effective) = Ok gs"
    and led: "rl_statuses led = foldl (\<lambda>into g. merge_status into (build_status g (gather_evidence X gs))) [] gs" by auto
  obtain i where i: "i < length (collect_groups effective)" "g = collect_groups effective ! i"
    using g(1) by (auto simp: in_set_conv_nth)
  define h where "h = gs ! i"
  have h: "h \<in> set gs" "check_group X effective exc (collect_coverage_gaps effective) g = Ok h"
    using gs i by (simp_all add: try_map_Ok_iff list_all2_conv_all_nth h_def)
  have hg: "cg_group h = g" "broken_in (cg_outcomes h) (claim_dimension claim)"
    using h(2) t g(2) assms(7)
    by (auto simp: check_group_def broken_in_def is_discrepant_def apply_exceptions_def intro!: bexI [of _ claim])
  from built_absorbs [OF h(1), of "gather_evidence X gs"] obtain s where s: "s \<in> set (rl_statuses led)"
    "same_key (build_status h (gather_evidence X gs)) s" "set (cg_outcomes h) \<subseteq> set (st_outcomes s)"
    by (auto simp: absorbs_def led build_status_def Let_def)
  have "broken_in (st_outcomes s) (claim_dimension claim)" using hg(2) s(3) by (auto simp: broken_in_def)
  then have "status_dimension s (claim_dimension claim) = StatusDiscrepant"
    using status_ok_dimension [OF built_status_ok [OF assms(1) s(1)]] by simp
  moreover have "s \<in> covering led (sg_account g) day"
    using s(1,2) assms(8) by (simp add: covering_def same_key_def build_status_def Let_def hg(1))
  ultimately have "status_for led (sg_account g) day (claim_dimension claim) \<le> StatusDiscrepant"
    using status_for_le by metis
  then show ?thesis by (rule order_antisym) simp
qed

theorem discrepancy_is_never_hidden_witness:
  "\<exists>led. build_with ref_deps (sample_statements 5 6) [] = Ok led \<and> status_for led (AccountId 1) 20 DCash = StatusDiscrepant"
proof -
  define effective where "effective = sample_statements 5 6"
  have eff: "resolve (sample_statements 5 6) = Ok effective" unfolding effective_def by code_simp
  define g where "g = \<lparr>sg_account = AccountId 1, sg_period = sample_period,
     sg_channel = channel_of (sample_turnover 3 ''b'' 6), sg_claims = [CashTurnover Rub 6 0]\<rparr>"
  have g: "g \<in> set (collect_groups effective)" unfolding g_def effective_def by code_simp
  have sg: "sg_account g = AccountId 1" "sg_period g = sample_period" "CashTurnover Rub 6 0 \<in> set (sg_claims g)" by (simp_all add: g_def)
  have "case observe ref_deps effective (AccountId 1) sample_period of
      Ok t \<Rightarrow> (case check_control_claim ref_deps (CashTurnover Rub 6 0) t of Discrepant _ \<Rightarrow> True | _ \<Rightarrow> False) | _ \<Rightarrow> False"
    unfolding effective_def by code_simp
  then have "\<exists>t x. observe ref_deps effective (AccountId 1) sample_period = Ok t \<and>
      check_control_claim ref_deps (CashTurnover Rub 6 0) t = Discrepant x"
    by (auto split: result.splits claim_outcome.splits)
  then obtain t x where t: "observe ref_deps effective (AccountId 1) sample_period = Ok t"
    "check_control_claim ref_deps (CashTurnover Rub 6 0) t = Discrepant x" by blast
  obtain led where led: "build_with ref_deps (sample_statements 5 6) [] = Ok led"
    using sample_disagree by (cases "build_with ref_deps (sample_statements 5 6) []") auto
  have day: "period_contains sample_period 20" by (simp add: period_contains_def sample_period_def)
  from discrepancy_is_never_hidden [OF led eff g sg(3), unfolded sg, OF t, of 20] show ?thesis
    using led day by (simp add: exceptions_covers_def)
qed

text \<open>
  (C24) A day's status is accepted as independently confirmed only if two statements about one
  period that contains the day, read by different parser versions from different documents,
  each make a claim in that dimension which matches the journal.
\<close>

theorem independent_needs_two_sources:
  assumes "build_with X es exc = Ok led" "status_for led a day d = StatusIndependent"
  shows "\<exists>effective p t g1 g2. resolve es = Ok effective \<and> period_contains p day \<and> observe X effective a p = Ok t \<and>
    g1 \<in> set (collect_groups effective) \<and> g2 \<in> set (collect_groups effective) \<and>
    list_all (\<lambda>g. sg_account g = a \<and> sg_period g = p \<and>
      (\<exists>claim \<in> set (sg_claims g). claim_dimension claim = d \<and> check_control_claim X claim t = Matched)) [g1, g2] \<and>
    sc_parser_version (sg_channel g1) \<noteq> sc_parser_version (sg_channel g2) \<and>
    sc_document (sg_channel g1) \<noteq> sc_document (sg_channel g2)"
proof -
  from build_with_Ok [OF assms(1)] obtain effective gs where eff: "resolve es = Ok effective"
    and gs: "try_map (check_group X effective exc (collect_coverage_gaps effective)) (collect_groups effective) = Ok gs"
    and led: "rl_statuses led = foldl (\<lambda>into g. merge_status into (build_status g (gather_evidence X gs))) [] gs" by auto
  have "covering led a day \<noteq> {}" using status_for_least [of led a day d] assms(2) by auto
  then have "\<exists>s \<in> covering led a day. status_for led a day d = status_dimension s d"
    using status_for_least [of led a day d] by presburger
  then obtain s where s: "s \<in> covering led a day" "status_dimension s d = StatusIndependent"
    using assms(2) by auto
  then have in_led: "s \<in> set (rl_statuses led)" "st_account s = a" "period_contains (st_period s) day" by (simp_all add: covering_def)
  have ok: "status_ok s" by (rule built_status_ok [OF assms(1) in_led(1)])
  have "StatusIndependent \<in> levels (st_evidence s) d"
    using s(2) status_ok_level [OF ok, of d] by simp
  then obtain e where e: "e \<in> set (st_evidence s)" "from_level (evidence_level e) = StatusIndependent" "d \<in> ev_dimensions e"
    by (auto simp: levels_def)
  have lv: "evidence_level e = LevelIndependent" using e(2) by (cases "evidence_level e") simp_all
  have "\<forall>s \<in> set (rl_statuses led). evidence_from (gather_evidence X gs) s"
    unfolding led by (rule merge_statuses_invariant) (rule build_status_evidence, rule merge_into_evidence)
  then have "evidence_from (gather_evidence X gs) s" using in_led(1) by blast
  with e(1) in_led(2) have "(a, st_period s, e) \<in> set (gather_evidence X gs)" by (auto simp: evidence_from_def)
  from independent_evidence [OF this lv] obtain l r where lr: "l \<in> set gs" "r \<in> set gs" "agreement l r = Some (a, st_period s, e)" by blast
  then have key: "sg_account (cg_group l) = a" "sg_account (cg_group r) = a" "sg_period (cg_group l) = st_period s"
    "sg_period (cg_group r) = st_period s" "is_independent_of (sg_channel (cg_group l)) (sg_channel (cg_group r))"
    and dims: "d \<in> confirmed_dimensions l" "d \<in> confirmed_dimensions r"
    using e(3) by (auto simp: agreement_def from_match_Some split: if_splits)
  from checked_group_of [OF gs lr(1) dims(1)] key obtain t where t: "observe X effective a (st_period s) = Ok t" by auto
  show ?thesis
    by (rule exI [of _ effective], rule exI [of _ "st_period s"], rule exI [of _ t], rule exI [of _ "cg_group l"],
        rule exI [of _ "cg_group r"])
       (use checked_group_of [OF gs lr(1) dims(1)] checked_group_of [OF gs lr(2) dims(2)] key t eff in_led(3) in
        \<open>auto simp: is_independent_of_def\<close>)
qed

theorem independent_needs_two_sources_witness:
  "\<exists>effective p t g1 g2. resolve (sample_statements 5 5) = Ok effective \<and> period_contains p 20 \<and>
     observe ref_deps effective (AccountId 1) p = Ok t \<and>
     g1 \<in> set (collect_groups effective) \<and> g2 \<in> set (collect_groups effective) \<and>
     sc_parser_version (sg_channel g1) \<noteq> sc_parser_version (sg_channel g2)"
proof -
  obtain led where led: "build_with ref_deps (sample_statements 5 5) [] = Ok led" "status_for led (AccountId 1) 20 DCash = StatusIndependent"
    using sample_agree by (cases "build_with ref_deps (sample_statements 5 5) []") auto
  from independent_needs_two_sources [OF led] show ?thesis by blast
qed

text \<open>External evidence changes the one status of its account and period.\<close>

definition status_key :: "reconciliation_status \<Rightarrow> account_id \<times> assertion_period" where
  "status_key s = (st_account s, st_period s)"

lemma update_first_distinct:
  assumes "distinct (map status_key ss)" "s \<in> set ss"
  shows "update_first (\<lambda>x. st_account x = st_account s \<and> st_period x = st_period s) f ss = Some (map (\<lambda>x. if x = s then f x else x) ss)"
  using assms
proof (induction ss)
  case (Cons a ss)
  show ?case
  proof (cases "status_key a = status_key s")
    case True
    then have "a = s" using Cons.prems by (auto simp: image_iff)
    moreover have "s \<notin> set ss" using Cons.prems \<open>a = s\<close> by auto
    ultimately show ?thesis by (auto intro!: map_idI [symmetric])
  next
    case False
    then have "s \<in> set ss" using Cons.prems(2) by auto
    with Cons False show ?thesis by (auto simp: status_key_def)
  qed
qed simp

lemma status_for_min:
  "status_for led account day d =
     (if covering led account day = {} then StatusProvisional else Min ((\<lambda>x. status_dimension x d) ` covering led account day))"
proof (cases "covering led account day = {}")
  case False
  have "finite (covering led account day)" by (simp add: covering_def)
  then show ?thesis
    using False status_for_least [of led account day d] by (auto intro!: Min_eqI [symmetric])
qed (use status_for_least [of led account day d] in simp)

text \<open>A ledger built from the journal holds one status for an account and a period.\<close>

lemma merge_status_keys:
  assumes "distinct (map status_key into)"
  shows "distinct (map status_key (merge_status into status))"
proof -
  have keys: "map status_key ss' = map status_key ss"
    if "update_first q (merge_into status) ss = Some ss'" for q ss ss'
    using that by (induction ss arbitrary: ss') (auto simp: status_key_def merge_into_def split: if_splits option.splits)
  have none: "\<forall>x \<in> set ss. \<not> q x" if "update_first q f ss = None" for q ss and f :: "reconciliation_status \<Rightarrow> reconciliation_status"
    using that by (induction ss) (auto split: if_splits option.splits)
  let ?same = "\<lambda>s. st_account s = st_account status \<and> st_period s = st_period status"
  show ?thesis
  proof (cases "update_first ?same (merge_into status) into")
    case None
    from none [OF None] have "status_key status \<notin> status_key ` set into" by (auto simp: status_key_def)
    with None assms show ?thesis by (simp add: merge_status_def)
  next
    case (Some into')
    from keys [OF Some] assms Some show ?thesis by (simp add: merge_status_def)
  qed
qed

lemma built_ledger_keys:
  assumes "build_with X events exceptions = Ok led"
  shows "distinct (map status_key (rl_statuses led))"
proof -
  have "distinct (map status_key (foldl (\<lambda>into g. merge_status into (build_status g evidence)) into gs))"
    if "distinct (map status_key into)" for evidence gs into
    using that by (induction gs arbitrary: into) (auto intro: merge_status_keys)
  then show ?thesis using assms by (auto simp: build_with_def Let_def)
qed

text \<open>
  (C37) Evidence from outside the journal does override a recorded discrepancy, in any ledger with one
  status for an account and a period (every ledger built from a journal is one). Where
  the status of an account and period is discrepant in a dimension, the answer for a day of the
  period is discrepant. After evidence covering that dimension is added to this status, the answer is
  the least of the level of the evidence and of the other statuses of the account that cover the
  day. The answers for other accounts, for days outside the period and for dimensions the
  evidence does not cover stay as they are. (The merge of statements treats a discrepancy as absorbing; this path does not.)
\<close>

theorem external_evidence_overrides_discrepancy:
  assumes "distinct (map status_key (rl_statuses led))" "s \<in> set (rl_statuses led)"
    and "status_dimension s d = StatusDiscrepant" "d \<in> ev_dimensions e" "period_contains (st_period s) day"
  defines "led' \<equiv> with_external_evidence led [(st_account s, st_period s, e)]"
  shows "status_for led (st_account s) day d = StatusDiscrepant \<and>
    status_for led' (st_account s) day d = Min (insert (from_level (evidence_level e))
      {status_dimension x d | x. x \<in> covering led (st_account s) day \<and> x \<noteq> s}) \<and>
    (\<forall>account day' d'. account \<noteq> st_account s \<or> \<not> period_contains (st_period s) day' \<or> d' \<notin> ev_dimensions e \<longrightarrow>
       status_for led' account day' d' = status_for led account day' d')"
proof -
  define s' where "s' = s\<lparr>st_dimensions := raise (st_dimensions s) (ev_dimensions e) (from_level (evidence_level e)), st_evidence := st_evidence s @ [e]\<rparr>"
  have new: "rl_statuses led' = map (\<lambda>x. if x = s then s' else x) (rl_statuses led)"
    using update_first_distinct [OF assms(1,2)]
    by (simp add: led'_def with_external_evidence_def add_external_def s'_def Let_def cong: if_cong)
  have same: "st_account s' = st_account s" "st_period s' = st_period s" by (simp_all add: s'_def)
  have dims: "status_dimension s' d' = (if d' \<in> ev_dimensions e then max (status_dimension s d') (from_level (evidence_level e)) else status_dimension s d')" for d'
    by (auto simp: s'_def status_dimension_def raise_get split: option.split)
  have cov': "covering led' a day' = (\<lambda>x. if x = s then s' else x) ` covering led a day'" for a day'
    using same by (auto simp: covering_def new)
  have s: "s \<in> covering led (st_account s) day" using assms(2,5) by (simp add: covering_def)
  have fin: "finite (covering led a day')" for a day' by (simp add: covering_def)
  have least: "StatusDiscrepant \<le> v" for v by (cases v; simp add: less_eq_dimension_status_def)
  have "StatusDiscrepant \<in> (\<lambda>x. status_dimension x d) ` covering led (st_account s) day"
    using s assms(3) by (intro image_eqI [of _ _ s]) simp_all
  then have "Min ((\<lambda>x. status_dimension x d) ` covering led (st_account s) day) = StatusDiscrepant"
    using fin least by (intro Min_eqI) auto
  then have "status_for led (st_account s) day d = StatusDiscrepant"
    using s by (auto simp: status_for_min)
  moreover have "status_for led' (st_account s) day d = Min (insert (from_level (evidence_level e))
      {status_dimension x d | x. x \<in> covering led (st_account s) day \<and> x \<noteq> s})"
  proof -
    have "status_dimension s' d = from_level (evidence_level e)" using dims [of d] assms(3,4) least by (simp add: max_def)
    then have "(\<lambda>x. status_dimension x d) ` covering led' (st_account s) day =
        insert (from_level (evidence_level e)) {status_dimension x d | x. x \<in> covering led (st_account s) day \<and> x \<noteq> s}"
      unfolding cov' using s by (auto simp: image_iff)
    moreover have "covering led' (st_account s) day \<noteq> {}" using s by (auto simp: cov')
    ultimately show ?thesis by (simp add: status_for_min)
  qed
  moreover have "status_for led' account day' d' = status_for led account day' d'"
    if "account \<noteq> st_account s \<or> \<not> period_contains (st_period s) day' \<or> d' \<notin> ev_dimensions e" for account day' d'
  proof -
    have "status_dimension (if x = s then s' else x) d' = status_dimension x d'" if x: "x \<in> covering led account day'" for x
      using x \<open>account \<noteq> st_account s \<or> _\<close> dims [of d'] by (auto simp: covering_def)
    then have "(\<lambda>x. status_dimension x d') ` covering led' account day' = (\<lambda>x. status_dimension x d') ` covering led account day'"
      unfolding cov' image_image by (rule image_cong [OF refl])
    moreover have "covering led' account day' = {} \<longleftrightarrow> covering led account day' = {}" by (simp only: cov' image_is_empty)
    ultimately show ?thesis by (simp only: status_for_min)
  qed
  ultimately show ?thesis by blast
qed

theorem external_evidence_overrides_discrepancy_witness:
  "status_for (with_external_evidence
      \<lparr>rl_statuses = [\<lparr>st_account = AccountId 1, st_period = sample_period, st_dimensions = [(DCash, StatusDiscrepant)],
          st_evidence = [], st_outcomes = [], st_taints = []\<rparr>,
          \<lparr>st_account = AccountId 2, st_period = sample_period, st_dimensions = [(DCash, StatusDiscrepant)],
          st_evidence = [], st_outcomes = [], st_taints = []\<rparr>], rl_gaps = []\<rparr>
      [(AccountId 1, sample_period, \<lparr>ev_ground = OwnerStatedBalance, ev_confirming = channel_of (sample_turnover 1 ''a'' 1),
          ev_confirmed = channel_of (sample_turnover 1 ''a'' 1), ev_dimensions = {DCash}\<rparr>)]) (AccountId 1) 20 DCash = StatusInternal"
proof -
  let ?s = "\<lparr>st_account = AccountId 1, st_period = sample_period, st_dimensions = [(DCash, StatusDiscrepant)],
          st_evidence = [], st_outcomes = [], st_taints = []\<rparr>"
  let ?x = "\<lparr>st_account = AccountId 2, st_period = sample_period, st_dimensions = [(DCash, StatusDiscrepant)],
          st_evidence = [], st_outcomes = [], st_taints = []\<rparr>"
  let ?e = "\<lparr>ev_ground = OwnerStatedBalance, ev_confirming = channel_of (sample_turnover 1 ''a'' 1),
          ev_confirmed = channel_of (sample_turnover 1 ''a'' 1), ev_dimensions = {DCash}\<rparr>"
  let ?led = "\<lparr>rl_statuses = [?s, ?x], rl_gaps = []\<rparr>"
  have "distinct (map status_key (rl_statuses ?led))" "?s \<in> set (rl_statuses ?led)" "status_dimension ?s DCash = StatusDiscrepant"
    "DCash \<in> ev_dimensions ?e" "period_contains (st_period ?s) 20"
    by (simp_all add: status_key_def status_dimension_def bt_get_def period_contains_def sample_period_def)
  note all = external_evidence_overrides_discrepancy [OF this, THEN conjunct2, THEN conjunct1]
  have none: "{status_dimension x DCash | x. x \<in> covering ?led (st_account ?s) 20 \<and> x \<noteq> ?s} = {}" by (auto simp: covering_def)
  have "status_for (with_external_evidence ?led [(st_account ?s, st_period ?s, ?e)]) (st_account ?s) 20 DCash = StatusInternal"
    unfolding all none by (simp add: evidence_level_def)
  then show ?thesis by simp
qed

end
