(* ===== verification/Category.thy ===== *)
theory Category
  imports Balances "HOL-Library.Option_ord"
begin

text \<open>
  Owner categories, \<open>category.rs\<close>: versioned rules over the attributes of a row and its date,
  a fixed precedence of the kinds of matcher, and the preview of a proposed rule. The lemmas
  show that an assignment is that of the applicable rule of the greatest priority, hence
  independent of the order of the rules, and where a preview is what the stored rule gives.

  The Unicode lower-casing of \<open>str::to_lowercase\<close> is the argument \<open>lower\<close>: nothing below
  depends on its tables.
\<close>

section \<open>Identifiers\<close>

datatype category_id = CategoryId (category_uuid: uuid)
datatype category_rule_id = CategoryRuleId (category_rule_uuid: uuid)

instantiation category_id :: linorder
begin

definition less_eq_category_id :: "category_id \<Rightarrow> category_id \<Rightarrow> bool" where
  "less_eq_category_id a b \<longleftrightarrow> category_uuid a \<le> category_uuid b"

definition less_category_id :: "category_id \<Rightarrow> category_id \<Rightarrow> bool" where
  "less_category_id a b \<longleftrightarrow> category_uuid a < category_uuid b"

instance
  by standard (auto simp: less_eq_category_id_def less_category_id_def category_id.expand)

end

instantiation category_rule_id :: linorder
begin

definition less_eq_category_rule_id :: "category_rule_id \<Rightarrow> category_rule_id \<Rightarrow> bool" where
  "less_eq_category_rule_id a b \<longleftrightarrow> category_rule_uuid a \<le> category_rule_uuid b"

definition less_category_rule_id :: "category_rule_id \<Rightarrow> category_rule_id \<Rightarrow> bool" where
  "less_category_rule_id a b \<longleftrightarrow> category_rule_uuid a < category_rule_uuid b"

instance
  by standard (auto simp: less_eq_category_rule_id_def less_category_rule_id_def category_rule_id.expand)

end

section \<open>Subjects, matchers and rules\<close>

definition row_key :: "event \<Rightarrow> string option" where
  "row_key e = or_else (pv_source_operation_id (e_provenance e)) (e_idempotency_key e)"

record category_interval =
  ci_from :: "date option"
  ci_to :: "date option"

definition interval_covers :: "category_interval \<Rightarrow> date \<Rightarrow> bool" where
  "interval_covers i on \<longleftrightarrow>
     (case ci_from i of None \<Rightarrow> True | Some f \<Rightarrow> f \<le> on) \<and> (case ci_to i of None \<Rightarrow> True | Some t \<Rightarrow> on \<le> t)"

record category_subject =
  cs_row_key :: "string option"
  cs_source_category :: "string option"
  cs_counterparty :: "string option"
  cs_description :: "string option"
  cs_on :: date

definition subject_of :: "event \<Rightarrow> category_subject" where
  "subject_of e = \<lparr>cs_row_key = row_key e, cs_source_category = pv_source_category (e_provenance e),
     cs_counterparty = pv_description (e_provenance e), cs_description = pv_description (e_provenance e),
     cs_on = eo_date (e_order e)\<rparr>"

datatype category_basis =
    ByRow category_rule_id
  | BySourceCategory category_rule_id
  | ByDescription category_rule_id

datatype description_match_mode = MatchEquals | MatchStartsWith | MatchContains

fun description_match_mode_code :: "description_match_mode \<Rightarrow> string" where
  "description_match_mode_code MatchEquals = ''equals''"
| "description_match_mode_code MatchStartsWith = ''starts_with''"
| "description_match_mode_code MatchContains = ''contains''"

datatype category_matcher =
    MatchRow string
  | MatchSourceCategory string
  | MatchDescriptionContains string
  | MatchDescription string description_match_mode

fun str_starts_with :: "string \<Rightarrow> string \<Rightarrow> bool" where
  "str_starts_with s [] = True"
| "str_starts_with [] (p # ps) = False"
| "str_starts_with (c # s) (p # ps) = (c = p \<and> str_starts_with s ps)"

fun str_contains :: "string \<Rightarrow> string \<Rightarrow> bool" where
  "str_contains [] p = (p = [])"
| "str_contains (c # s) p = (str_starts_with (c # s) p \<or> str_contains s p)"

fun mode_matches :: "description_match_mode \<Rightarrow> string \<Rightarrow> string \<Rightarrow> bool" where
  "mode_matches MatchEquals candidate wanted = (candidate = wanted)"
| "mode_matches MatchStartsWith candidate wanted = str_starts_with candidate wanted"
| "mode_matches MatchContains candidate wanted = str_contains candidate wanted"

definition description_matches :: "(string \<Rightarrow> string) \<Rightarrow> string \<Rightarrow> description_match_mode \<Rightarrow> category_subject \<Rightarrow> bool" where
  "description_matches lower text mode s =
     (if text = [] then False
      else list_ex (\<lambda>candidate. mode_matches mode (lower candidate) (lower text))
        ((case cs_counterparty s of None \<Rightarrow> [] | Some c \<Rightarrow> [c]) @ (case cs_description s of None \<Rightarrow> [] | Some d \<Rightarrow> [d])))"

fun matcher_matches :: "(string \<Rightarrow> string) \<Rightarrow> category_matcher \<Rightarrow> category_subject \<Rightarrow> bool" where
  "matcher_matches lower (MatchRow key) s = (key \<noteq> [] \<and> cs_row_key s = Some key)"
| "matcher_matches lower (MatchSourceCategory v) s = (v \<noteq> [] \<and> cs_source_category s = Some v)"
| "matcher_matches lower (MatchDescriptionContains text) s = description_matches lower text MatchContains s"
| "matcher_matches lower (MatchDescription text mode) s = description_matches lower text mode s"

record category_rule =
  cr_id :: category_rule_id
  cr_version :: nat
  cr_interval :: category_interval
  cr_matcher :: category_matcher
  cr_category :: category_id

record category_rule_proposal =
  cp_id :: category_rule_id
  cp_interval :: category_interval
  cp_matcher :: category_matcher
  cp_category :: category_id

datatype category_assignment = Assigned category_id category_basis | NotDecomposed

section \<open>Assignment\<close>

fun is_row_matcher :: "category_matcher \<Rightarrow> bool" where
  "is_row_matcher (MatchRow _) = True"
| "is_row_matcher _ = False"

fun is_source_matcher :: "category_matcher \<Rightarrow> bool" where
  "is_source_matcher (MatchSourceCategory _) = True"
| "is_source_matcher _ = False"

fun is_description_matcher :: "category_matcher \<Rightarrow> bool" where
  "is_description_matcher (MatchDescriptionContains _) = True"
| "is_description_matcher (MatchDescription _ _) = True"
| "is_description_matcher _ = False"

fun matcher_text :: "category_matcher \<Rightarrow> string" where
  "matcher_text (MatchRow key) = key"
| "matcher_text (MatchSourceCategory v) = v"
| "matcher_text (MatchDescriptionContains text) = text"
| "matcher_text (MatchDescription text _) = text"

definition rule_priority :: "category_rule \<Rightarrow> nat \<times> nat \<times> category_rule_id" where
  "rule_priority r = (length (matcher_text (cr_matcher r)), cr_version r, cr_id r)"

fun basis_for :: "category_matcher \<Rightarrow> category_rule_id \<Rightarrow> category_basis" where
  "basis_for (MatchRow _) i = ByRow i"
| "basis_for (MatchSourceCategory _) i = BySourceCategory i"
| "basis_for (MatchDescriptionContains _) i = ByDescription i"
| "basis_for (MatchDescription _ _) i = ByDescription i"

definition assignment_for_rule :: "category_rule \<Rightarrow> category_assignment" where
  "assignment_for_rule r = Assigned (cr_category r) (basis_for (cr_matcher r) (cr_id r))"

definition proposal_assignment :: "category_rule_proposal \<Rightarrow> category_assignment" where
  "proposal_assignment p = Assigned (cp_category p) (basis_for (cp_matcher p) (cp_id p))"

definition best_rule :: "(string \<Rightarrow> string) \<Rightarrow> category_subject \<Rightarrow> (category_matcher \<Rightarrow> bool) \<Rightarrow> category_rule list \<Rightarrow> category_rule option" where
  "best_rule lower s kind rules = max_by_key rule_priority
     (filter (\<lambda>r. matcher_matches lower (cr_matcher r) s)
       (filter (\<lambda>r. kind (cr_matcher r))
         (filter (\<lambda>r. interval_covers (cr_interval r) (cs_on s)) rules)))"

definition assign :: "(string \<Rightarrow> string) \<Rightarrow> category_subject \<Rightarrow> category_rule list \<Rightarrow> category_assignment" where
  "assign lower s rules = (case best_rule lower s is_row_matcher rules of
     Some r \<Rightarrow> assignment_for_rule r
   | None \<Rightarrow> (case best_rule lower s is_source_matcher rules of
       Some r \<Rightarrow> assignment_for_rule r
     | None \<Rightarrow> (case best_rule lower s is_description_matcher rules of
         Some r \<Rightarrow> assignment_for_rule r
       | None \<Rightarrow> NotDecomposed)))"

fun outranked :: "category_matcher \<Rightarrow> category_assignment \<Rightarrow> bool" where
  "outranked (MatchSourceCategory _) (Assigned _ (ByRow _)) = True"
| "outranked (MatchDescriptionContains _) (Assigned _ (ByRow _)) = True"
| "outranked (MatchDescriptionContains _) (Assigned _ (BySourceCategory _)) = True"
| "outranked (MatchDescription _ _) (Assigned _ (ByRow _)) = True"
| "outranked (MatchDescription _ _) (Assigned _ (BySourceCategory _)) = True"
| "outranked _ _ = False"

definition assign_with_proposed :: "(string \<Rightarrow> string) \<Rightarrow> category_subject \<Rightarrow> category_rule list \<Rightarrow> category_rule_proposal \<Rightarrow> category_assignment" where
  "assign_with_proposed lower s rules p =
     (let current = assign lower s rules in
      if \<not> interval_covers (cp_interval p) (cs_on s) \<or> \<not> matcher_matches lower (cp_matcher p) s then current
      else if outranked (cp_matcher p) current then current
      else proposal_assignment p)"

section \<open>Impact of a proposal\<close>

record category_impact_row =
  ir_month :: date
  ir_from :: "category_id option"
  ir_to :: category_id
  ir_amount :: money

record category_impact_move =
  im_from :: "category_id option"
  im_to :: category_id
  im_amount :: money
  im_rows :: nat

record category_impact_month =
  mo_month :: date
  mo_moved :: "category_impact_move list"

record category_impact =
  cx_rows :: nat
  cx_months :: "category_impact_month list"

datatype category_impact_error = ImpactMoney money_error | CountOverflow

type_synonym impact_key = "date \<times> category_id option \<times> category_id \<times> currency_code"

definition u64_succ :: "nat \<Rightarrow> nat option" where
  "u64_succ n = (if n + 1 < 2 ^ 64 then Some (n + 1) else None)"

type_synonym impact_group = "(impact_key, money \<times> nat) btree"

definition impact_step :: "impact_group \<times> nat \<Rightarrow> category_impact_row \<Rightarrow> (impact_group \<times> nat, category_impact_error) result" where
  "impact_step st row =
     and_then (map_err ImpactMoney (checked_negate (ir_amount row))) (\<lambda>amount.
     let key = (ir_month row, ir_from row, ir_to row, m_currency amount);
         entry = (case bt_get (fst st) key of None \<Rightarrow> (money_zero (m_currency amount), 0) | Some v \<Rightarrow> v) in
     and_then (map_err ImpactMoney (try_add (fst entry) amount)) (\<lambda>sum.
     and_then (ok_or (u64_succ (snd entry)) CountOverflow) (\<lambda>count.
     and_then (ok_or (u64_succ (snd st)) CountOverflow) (\<lambda>rows.
     Ok (bt_insert key (sum, count) (fst st), rows)))))"

definition months_step :: "category_impact_month list \<Rightarrow> impact_key \<times> money \<times> nat \<Rightarrow> category_impact_month list" where
  "months_step months entry = (case entry of ((month, f, to, _), (amount, rows)) \<Rightarrow>
     let move = \<lparr>im_from = f, im_to = to, im_amount = amount, im_rows = rows\<rparr> in
     if months \<noteq> [] \<and> mo_month (last months) = month
     then butlast months @ [(last months)\<lparr>mo_moved := mo_moved (last months) @ [move]\<rparr>]
     else months @ [\<lparr>mo_month = month, mo_moved = [move]\<rparr>])"

definition group_category_impacts :: "category_impact_row list \<Rightarrow> (category_impact, category_impact_error) result" where
  "group_category_impacts rows =
     and_then (try_fold impact_step ([], 0) rows) (\<lambda>(grouped, total_rows).
     Ok \<lparr>cx_rows = total_rows, cx_months = foldl months_step [] grouped\<rparr>)"

section \<open>The rule that assigns\<close>

definition applicable :: "(string \<Rightarrow> string) \<Rightarrow> category_subject \<Rightarrow> category_rule \<Rightarrow> bool" where
  "applicable lower s r \<longleftrightarrow> interval_covers (cr_interval r) (cs_on s) \<and> matcher_matches lower (cr_matcher r) s"

fun matcher_class :: "category_matcher \<Rightarrow> nat" where
  "matcher_class (MatchRow _) = 2"
| "matcher_class (MatchSourceCategory _) = 1"
| "matcher_class (MatchDescriptionContains _) = 0"
| "matcher_class (MatchDescription _ _) = 0"

definition full_priority :: "category_rule \<Rightarrow> nat \<times> nat \<times> nat \<times> category_rule_id" where
  "full_priority r = (matcher_class (cr_matcher r), rule_priority r)"

lemma matcher_kinds:
  "is_row_matcher m \<longleftrightarrow> matcher_class m = 2" "is_source_matcher m \<longleftrightarrow> matcher_class m = 1"
  "is_description_matcher m \<longleftrightarrow> matcher_class m = 0"
  by (cases m; simp)+

lemma matcher_class_le: "matcher_class m \<le> 2"
  by (cases m) simp_all

lemma best_rule_None: "best_rule lower s kind rules = None \<longleftrightarrow> (\<forall>r \<in> set rules. applicable lower s r \<longrightarrow> \<not> kind (cr_matcher r))"
  by (auto simp: best_rule_def applicable_def filter_empty_conv)

lemma best_rule_Some:
  "best_rule lower s kind rules = Some r \<Longrightarrow> r \<in> set rules \<and> applicable lower s r \<and> kind (cr_matcher r) \<and>
     (\<forall>q \<in> set rules. applicable lower s q \<and> kind (cr_matcher q) \<longrightarrow> rule_priority q \<le> rule_priority r)"
  unfolding best_rule_def by (drule max_by_key_Some) (auto simp: applicable_def)

definition highest :: "(string \<Rightarrow> string) \<Rightarrow> category_subject \<Rightarrow> category_rule list \<Rightarrow> category_rule \<Rightarrow> bool" where
  "highest lower s rules r \<longleftrightarrow> r \<in> set rules \<and> applicable lower s r \<and>
     (\<forall>q \<in> set rules. applicable lower s q \<longrightarrow> full_priority q \<le> full_priority r)"

lemma highestI:
  assumes "best_rule lower s (\<lambda>m. matcher_class m = k) rules = Some r"
    and "\<And>q. q \<in> set rules \<Longrightarrow> applicable lower s q \<Longrightarrow> matcher_class (cr_matcher q) \<le> k"
  shows "highest lower s rules r"
proof -
  note b = best_rule_Some [OF assms(1)]
  have "full_priority q \<le> full_priority r" if "q \<in> set rules" "applicable lower s q" for q
    using b assms(2) [OF that] that by (cases "matcher_class (cr_matcher q) = k") (auto simp: full_priority_def)
  then show ?thesis using b by (simp add: highest_def)
qed

lemma assign_cases:
  "(assign lower s rules = NotDecomposed \<and> (\<forall>r \<in> set rules. \<not> applicable lower s r)) \<or>
   (\<exists>r. highest lower s rules r \<and> assign lower s rules = assignment_for_rule r)"
proof -
  have kinds: "is_row_matcher = (\<lambda>m. matcher_class m = 2)" "is_source_matcher = (\<lambda>m. matcher_class m = 1)"
    "is_description_matcher = (\<lambda>m. matcher_class m = 0)" by (simp_all add: fun_eq_iff matcher_kinds)
  have kls: "matcher_class m = 0 \<or> matcher_class m = 1 \<or> matcher_class m = 2" for m by (cases m) simp_all
  let ?row = "best_rule lower s (\<lambda>m. matcher_class m = 2) rules"
  let ?source = "best_rule lower s (\<lambda>m. matcher_class m = 1) rules"
  let ?text = "best_rule lower s (\<lambda>m. matcher_class m = 0) rules"
  consider (row) r where "?row = Some r" | (source) r where "?row = None" "?source = Some r"
    | (desc) r where "?row = None" "?source = None" "?text = Some r" | (none) "?row = None" "?source = None" "?text = None"
    by (cases ?row; cases ?source; cases ?text) auto
  then show ?thesis
  proof cases
    case (row r)
    then have "highest lower s rules r" by (rule highestI) (rule matcher_class_le)
    then show ?thesis using row by (auto simp: assign_def kinds)
  next
    case (source r)
    then have "\<And>q. q \<in> set rules \<Longrightarrow> applicable lower s q \<Longrightarrow> matcher_class (cr_matcher q) \<noteq> 2" by (simp add: best_rule_None)
    then have "\<And>q. q \<in> set rules \<Longrightarrow> applicable lower s q \<Longrightarrow> matcher_class (cr_matcher q) \<le> 1"
      using kls by (metis le_numeral_extra(4) zero_le_one)
    with source(2) have "highest lower s rules r" by (rule highestI)
    then show ?thesis using source by (auto simp: assign_def kinds)
  next
    case (desc r)
    then have "\<And>q. q \<in> set rules \<Longrightarrow> applicable lower s q \<Longrightarrow> matcher_class (cr_matcher q) \<noteq> 2 \<and> matcher_class (cr_matcher q) \<noteq> 1"
      by (simp add: best_rule_None)
    then have "\<And>q. q \<in> set rules \<Longrightarrow> applicable lower s q \<Longrightarrow> matcher_class (cr_matcher q) \<le> 0" using kls by auto
    with desc(3) have "highest lower s rules r" by (rule highestI)
    then show ?thesis using desc by (auto simp: assign_def kinds)
  next
    case none
    then have "\<forall>r \<in> set rules. \<not> applicable lower s r" using kls unfolding best_rule_None by metis
    then show ?thesis using none by (simp add: assign_def kinds)
  qed
qed

section \<open>Grouping keeps the rows\<close>

definition moved_in :: "currency_code \<Rightarrow> money \<Rightarrow> int" where
  "moved_in c m = (if m_currency m = c then m_amount m else 0)"

definition grouped_ok :: "category_impact_row list \<Rightarrow> impact_group \<times> nat \<Rightarrow> bool" where
  "grouped_ok rows st \<longleftrightarrow> bt_invar (fst st) \<and> snd st = length rows \<and>
     (\<Sum>(k, v) \<leftarrow> fst st. int (snd v)) = int (length rows) \<and>
     (\<forall>c. (\<Sum>(k, v) \<leftarrow> fst st. moved_in c (fst v)) = - (\<Sum>r \<leftarrow> rows. moved_in c (ir_amount r)))"

lemma impact_step_ok:
  assumes step: "impact_step st row = Ok st'" and ok: "grouped_ok rows st"
  shows "grouped_ok (rows @ [row]) st'"
proof -
  let ?c = "m_currency (ir_amount row)"
  define key where "key = (ir_month row, ir_from row, ir_to row, ?c)"
  define entry where "entry = (case bt_get (fst st) key of None \<Rightarrow> (money_zero ?c, 0) | Some v \<Rightarrow> v)"
  obtain amount where amount: "checked_negate (ir_amount row) = Ok amount" using step by (auto simp: impact_step_def)
  then have a: "m_amount amount = - m_amount (ir_amount row)" "m_currency amount = ?c" by auto
  have step': "and_then (map_err ImpactMoney (try_add (fst entry) amount)) (\<lambda>sum.
      and_then (ok_or (u64_succ (snd entry)) CountOverflow) (\<lambda>count.
      and_then (ok_or (u64_succ (snd st)) CountOverflow) (\<lambda>rows.
      Ok (bt_insert key (sum, count) (fst st), rows)))) = Ok st'"
    using step unfolding impact_step_def amount map_err.simps and_then.simps Let_def key_def entry_def a(2) .
  then obtain sum where sum': "try_add (fst entry) amount = Ok sum"
    and st': "st' = (bt_insert key (sum, snd entry + 1) (fst st), snd st + 1)"
    by (auto simp: u64_succ_def split: if_splits)
  have sum: "sum = \<lparr>m_amount = m_amount (fst entry) - m_amount (ir_amount row), m_currency = ?c\<rparr>"
      "m_currency (fst entry) = ?c"
    using sum' a by auto
  have inv: "bt_invar (fst st)" using ok by (simp add: grouped_ok_def)
  note ins = bt.sum_entries_insert [OF inv, of _ key "(sum, snd entry + 1)"]
  have count: "(\<Sum>(k, v) \<leftarrow> bt_insert key (sum, snd entry + 1) (fst st). int (snd v)) = int (length rows) + 1"
    using ok unfolding ins [of "\<lambda>_ v. int (snd v)"]
    by (cases "bt_get (fst st) key") (simp_all add: grouped_ok_def entry_def)
  have "(\<Sum>(k, v) \<leftarrow> bt_insert key (sum, snd entry + 1) (fst st). moved_in c (fst v)) =
      - (\<Sum>r \<leftarrow> rows. moved_in c (ir_amount r)) - moved_in c (ir_amount row)" for c
    using ok sum(2) unfolding ins [of "\<lambda>_ v. moved_in c (fst v)"]
    by (cases "bt_get (fst st) key") (simp_all add: grouped_ok_def entry_def moved_in_def money_zero_def sum(1))
  then show ?thesis using ok count by (simp add: grouped_ok_def st' bt_invar_insert)
qed

lemma impact_fold_ok: "try_fold impact_step ([], 0) rows = Ok st \<Longrightarrow> grouped_ok rows st"
proof (induction rows arbitrary: st rule: rev_induct)
  case Nil
  then show ?case by (auto simp: grouped_ok_def)
next
  case (snoc row rows)
  then show ?case by (auto simp: try_fold_snoc_Ok intro: impact_step_ok)
qed

definition move_of :: "impact_key \<times> money \<times> nat \<Rightarrow> category_impact_move" where
  "move_of e = \<lparr>im_from = fst (snd (fst e)), im_to = fst (snd (snd (fst e))), im_amount = fst (snd e), im_rows = snd (snd e)\<rparr>"

lemma months_fold:
  assumes "sorted_wrt (<) (map fst g)"
  shows "concat (map mo_moved (foldl months_step [] g)) = map move_of g \<and>
    sorted_wrt (<) (map mo_month (foldl months_step [] g)) \<and>
    (if g = [] then foldl months_step [] g = [] else foldl months_step [] g \<noteq> [] \<and> mo_month (last (foldl months_step [] g)) = fst (fst (last g)))"
  using assms
proof (induction g rule: rev_induct)
  case (snoc e g)
  define ms where "ms = foldl months_step [] g"
  have IH: "concat (map mo_moved ms) = map move_of g" "sorted_wrt (<) (map mo_month ms)"
    "if g = [] then ms = [] else ms \<noteq> [] \<and> mo_month (last ms) = fst (fst (last g))"
    using snoc by (simp_all add: ms_def sorted_wrt_append)
  obtain month f to cur amount n where e: "e = ((month, f, to, cur), (amount, n))" by (metis prod.exhaust)
  have step: "foldl months_step [] (g @ [e]) = (if ms \<noteq> [] \<and> mo_month (last ms) = month
     then butlast ms @ [(last ms)\<lparr>mo_moved := mo_moved (last ms) @ [move_of e]\<rparr>]
     else ms @ [\<lparr>mo_month = month, mo_moved = [move_of e]\<rparr>])"
    by (simp add: ms_def months_step_def e Let_def move_of_def)
  show ?case
  proof (cases "ms \<noteq> [] \<and> mo_month (last ms) = month")
    case True
    then have split: "ms = butlast ms @ [last ms]" by simp
    have "map mo_month (butlast ms @ [(last ms)\<lparr>mo_moved := mo_moved (last ms) @ [move_of e]\<rparr>]) = map mo_month ms"
      by (subst (3) split) simp
    moreover have "concat (map mo_moved (butlast ms @ [(last ms)\<lparr>mo_moved := mo_moved (last ms) @ [move_of e]\<rparr>])) =
        concat (map mo_moved ms) @ [move_of e]"
      by (subst (3) split) simp
    ultimately show ?thesis unfolding step using True IH by (simp add: e)
  next
    case False
    have "mo_month x < month" if "x \<in> set ms" for x
    proof -
      have ms: "ms \<noteq> []" using that by auto
      then have "g \<noteq> []" using IH(3) by auto
      then have "fst (last g) < fst e" using snoc.prems by (simp add: sorted_wrt_append)
      then have "mo_month (last ms) < month" using False ms IH(3) \<open>g \<noteq> []\<close> by (cases "fst (last g)") (auto simp: e)
      moreover have "mo_month x \<le> mo_month (last ms)"
      proof (cases "x = last ms")
        case False
        then have "x \<in> set (butlast ms)" using that ms by (metis append_butlast_last_id in_set_conv_decomp_last set_ConsD rotate1.simps(2) set_rotate1)
        moreover have "sorted_wrt (<) (map mo_month (butlast ms) @ [mo_month (last ms)])"
          using IH(2) ms by (metis append_butlast_last_id map_append list.simps(8,9))
        ultimately show ?thesis by (auto simp: sorted_wrt_append)
      qed simp
      ultimately show ?thesis by simp
    qed
    then show ?thesis unfolding step using False IH by (auto simp: e sorted_wrt_append)
  qed
qed simp

text \<open>
  Grouping neither loses nor invents anything: the count is the number of rows and the sum of
  the counts of the moves, the moves of a currency add up to minus the amounts of the rows, and
  the months ascend.
\<close>

lemma impacts_account_for_every_row:
  assumes "group_category_impacts rows = Ok cx"
  shows "cx_rows cx = length rows \<and>
    (\<Sum>m \<leftarrow> concat (map mo_moved (cx_months cx)). int (im_rows m)) = int (length rows) \<and>
    (\<Sum>m \<leftarrow> concat (map mo_moved (cx_months cx)). moved_in c (im_amount m)) = - (\<Sum>r \<leftarrow> rows. moved_in c (ir_amount r)) \<and>
    sorted_wrt (<) (map mo_month (cx_months cx))"
proof -
  from assms obtain g where g: "try_fold impact_step ([], 0) rows = Ok (g, cx_rows cx)" "cx_months cx = foldl months_step [] g"
    by (auto simp: group_category_impacts_def)
  note ok = impact_fold_ok [OF g(1), unfolded grouped_ok_def fst_conv snd_conv]
  have sorted: "sorted_wrt (<) (map fst g)" using ok by (simp add: bt_invar_def)
  note ms = months_fold [OF sorted]
  have "(\<Sum>m \<leftarrow> map move_of g. int (im_rows m)) = (\<Sum>(k, v) \<leftarrow> g. int (snd v))"
    "(\<Sum>m \<leftarrow> map move_of g. moved_in c (im_amount m)) = (\<Sum>(k, v) \<leftarrow> g. moved_in c (fst v))"
    by (simp_all add: move_of_def comp_def case_prod_unfold)
  then show ?thesis using ok ms by (simp add: g(2))
qed

section \<open>Previews\<close>

lemma max_by_key_snoc: "\<forall>y \<in> set xs. key y \<le> key x \<Longrightarrow> max_by_key key (xs @ [x]) = Some x"
  by (induction xs) auto

definition stored_rule :: "category_rule_proposal \<Rightarrow> nat \<Rightarrow> category_rule" where
  "stored_rule p v = \<lparr>cr_id = cp_id p, cr_version = v, cr_interval = cp_interval p, cr_matcher = cp_matcher p, cr_category = cp_category p\<rparr>"

lemma best_rule_snoc:
  assumes "\<And>q. q \<in> set rules \<Longrightarrow> applicable lower s q \<Longrightarrow> kind (cr_matcher q) \<Longrightarrow> kind (cr_matcher r) \<Longrightarrow> rule_priority q \<le> rule_priority r"
  shows "best_rule lower s kind (rules @ [r]) = (if applicable lower s r \<and> kind (cr_matcher r) then Some r else best_rule lower s kind rules)"
proof (cases "applicable lower s r \<and> kind (cr_matcher r)")
  case True
  have "max_by_key rule_priority (filter (\<lambda>q. matcher_matches lower (cr_matcher q) s) (filter (\<lambda>q. kind (cr_matcher q))
      (filter (\<lambda>q. interval_covers (cr_interval q) (cs_on s)) rules)) @ [r]) = Some r"
    by (rule max_by_key_snoc) (use assms True in \<open>auto simp: applicable_def\<close>)
  then show ?thesis using True by (simp add: best_rule_def applicable_def)
next
  case False
  then show ?thesis by (auto simp: best_rule_def applicable_def)
qed

text \<open>The preview of a proposal is what storing it gives, when the stored rule wins in its kind.\<close>

lemma preview_is_what_is_stored:
  assumes "\<And>q. q \<in> set rules \<Longrightarrow> applicable lower s q \<Longrightarrow> matcher_class (cr_matcher q) = matcher_class (cp_matcher p) \<Longrightarrow>
    rule_priority q \<le> rule_priority (stored_rule p v)"
  shows "assign lower s (rules @ [stored_rule p v]) = assign_with_proposed lower s rules p"
proof -
  have kinds: "is_row_matcher = (\<lambda>m. matcher_class m = 2)" "is_source_matcher = (\<lambda>m. matcher_class m = 1)"
    "is_description_matcher = (\<lambda>m. matcher_class m = 0)" by (simp_all add: fun_eq_iff matcher_kinds)
  have best: "best_rule lower s (\<lambda>m. matcher_class m = k) (rules @ [stored_rule p v]) =
      (if applicable lower s (stored_rule p v) \<and> matcher_class (cp_matcher p) = k then Some (stored_rule p v)
       else best_rule lower s (\<lambda>m. matcher_class m = k) rules)" for k
    using best_rule_snoc [of rules lower s "\<lambda>m. matcher_class m = k" "stored_rule p v"] assms by (simp add: stored_rule_def)
  have app: "applicable lower s (stored_rule p v) \<longleftrightarrow> interval_covers (cp_interval p) (cs_on s) \<and> matcher_matches lower (cp_matcher p) s"
    by (simp add: applicable_def stored_rule_def)
  have st: "assignment_for_rule (stored_rule p v) = proposal_assignment p"
    by (simp add: assignment_for_rule_def proposal_assignment_def stored_rule_def)
  have cls: "matcher_class (cr_matcher r) = k" if "best_rule lower s (\<lambda>m. matcher_class m = k) rules = Some r" for r k
    using best_rule_Some [OF that] by simp
  have outr: "outranked m (assignment_for_rule r) \<longleftrightarrow> matcher_class m < matcher_class (cr_matcher r)" for m r
    by (cases m; cases "cr_matcher r") (simp_all add: assignment_for_rule_def)
  have none: "\<not> outranked m NotDecomposed" for m by (cases m) simp_all
  let ?row = "best_rule lower s (\<lambda>m. matcher_class m = 2) rules"
  let ?source = "best_rule lower s (\<lambda>m. matcher_class m = 1) rules"
  let ?text = "best_rule lower s (\<lambda>m. matcher_class m = 0) rules"
  note defs = assign_def assign_with_proposed_def kinds best app st outr none Let_def
  consider (row) r where "?row = Some r" | (source) r where "?row = None" "?source = Some r"
    | (desc) r where "?row = None" "?source = None" "?text = Some r" | (none) "?row = None" "?source = None" "?text = None"
    by (cases ?row; cases ?source; cases ?text) auto
  then show ?thesis
  proof cases
    case (row r)
    then show ?thesis using cls [OF row] by (cases "cp_matcher p") (simp_all add: defs)
  next
    case (source r)
    then show ?thesis using cls [OF source(2)] by (cases "cp_matcher p") (simp_all add: defs)
  next
    case (desc r)
    then show ?thesis using cls [OF desc(3)] by (cases "cp_matcher p") (simp_all add: defs)
  next
    case none
    then show ?thesis by (cases "cp_matcher p") (simp_all add: defs)
  qed
qed

section \<open>Properties\<close>

text \<open>
  A row gets the category of the applicable rule of the greatest priority: row rules
  before source categories before descriptions, then the longest text, the newest version and
  the greatest id; it is not decomposed exactly when no rule applies. If no two rules share
  version and id, the order in which the rules are stored plays no part.
\<close>

lemma assignment_is_highest_priority:
  assumes "set stored = set rules" "inj_on (\<lambda>r. (cr_version r, cr_id r)) (set rules)"
  shows "assign lower s stored = assign lower s rules \<and>
    (case assign lower s rules of
       NotDecomposed \<Rightarrow> \<forall>r \<in> set rules. \<not> applicable lower s r
     | Assigned c b \<Rightarrow> \<exists>r. highest lower s rules r \<and> c = cr_category r \<and> b = basis_for (cr_matcher r) (cr_id r))"
proof -
  have same: "highest lower s stored r \<longleftrightarrow> highest lower s rules r" for r by (simp add: highest_def assms(1))
  have unique: "q = r" if "highest lower s rules q" "highest lower s rules r" for q r
  proof -
    have "full_priority q = full_priority r" using that by (auto simp: highest_def intro: order_antisym)
    then show ?thesis using that inj_onD [OF assms(2), of q r] by (simp add: highest_def full_priority_def rule_priority_def)
  qed
  have "assign lower s stored = assign lower s rules"
    using assign_cases [of lower s stored] assign_cases [of lower s rules] unique unfolding same assms(1)
    by (metis highest_def)
  then show ?thesis using assign_cases [of lower s rules]
    by (auto simp: assignment_for_rule_def split: category_assignment.split)
qed

definition sample_subject :: category_subject where
  "sample_subject = \<lparr>cs_row_key = None, cs_source_category = None, cs_counterparty = None,
     cs_description = Some ''Corner Shop'', cs_on = 5\<rparr>"

definition sample_longer_rule :: category_rule where
  "sample_longer_rule = \<lparr>cr_id = CategoryRuleId 1, cr_version = 1, cr_interval = \<lparr>ci_from = None, ci_to = None\<rparr>,
     cr_matcher = MatchDescriptionContains ''corner shop'', cr_category = CategoryId 1\<rparr>"

definition sample_proposal :: category_rule_proposal where
  "sample_proposal = \<lparr>cp_id = CategoryRuleId 2, cp_interval = \<lparr>ci_from = None, ci_to = None\<rparr>,
     cp_matcher = MatchDescriptionContains ''shop'', cp_category = CategoryId 2\<rparr>"

lemma outranked_description:
  "is_description_matcher m \<Longrightarrow> is_description_matcher (cr_matcher q) \<Longrightarrow> \<not> outranked m (assignment_for_rule q)"
  by (cases m; cases "cr_matcher q") (simp_all add: assignment_for_rule_def)

text \<open>
  (C38) The preview of a description rule can announce a change that storing the rule does not make.
  Take any row on which only description rules apply, any of them with a longer text than a proposed
  description rule that applies too: the preview assigns the category of the proposal, but with
  whatever version and at whatever place the proposal is stored, the row is assigned by one of the rules that were there before.
\<close>

theorem preview_ignores_longer_rule:
  assumes "\<forall>q \<in> set rules. applicable lower s q \<longrightarrow> is_description_matcher (cr_matcher q)"
    and "r \<in> set rules" "applicable lower s r"
    and "is_description_matcher (cp_matcher p)" "interval_covers (cp_interval p) (cs_on s)" "matcher_matches lower (cp_matcher p) s"
    and "length (matcher_text (cp_matcher p)) < length (matcher_text (cr_matcher r))"
    and "set stored = insert (stored_rule p v) (set rules)"
  shows "assign_with_proposed lower s rules p = proposal_assignment p \<and>
    (\<exists>q \<in> set rules. applicable lower s q \<and> length (matcher_text (cp_matcher p)) < length (matcher_text (cr_matcher q)) \<and>
       assign lower s stored = assignment_for_rule q)"
proof
  have "\<not> outranked (cp_matcher p) (assign lower s rules)"
    using assign_cases [of lower s rules] assms(1,4) outranked_description
    by (cases "cp_matcher p") (auto simp: highest_def)
  then show "assign_with_proposed lower s rules p = proposal_assignment p"
    using assms(5,6) by (simp add: assign_with_proposed_def)
  have r: "r \<in> set stored" using assms(2,8) by simp
  then obtain q where q: "highest lower s stored q" "assign lower s stored = assignment_for_rule q"
    using assign_cases [of lower s stored] assms(3) by blast
  have "full_priority r \<le> full_priority q" using q(1) r assms(3) by (simp add: highest_def)
  moreover have "matcher_class (cr_matcher r) = 0" using assms(1-3) matcher_kinds(3) by blast
  moreover have "q = stored_rule p v \<or> q \<in> set rules" using q(1) assms(8) by (simp add: highest_def)
  moreover have "matcher_class (cr_matcher q) = 0"
    using \<open>q = stored_rule p v \<or> q \<in> set rules\<close> q(1) assms(1,4) matcher_kinds(3) by (auto simp: highest_def stored_rule_def)
  ultimately have longer: "length (matcher_text (cp_matcher p)) < length (matcher_text (cr_matcher q))" and "q \<noteq> stored_rule p v"
    using assms(7) by (auto simp: full_priority_def rule_priority_def stored_rule_def)
  then show "\<exists>q \<in> set rules. applicable lower s q \<and> length (matcher_text (cp_matcher p)) < length (matcher_text (cr_matcher q)) \<and>
       assign lower s stored = assignment_for_rule q"
    using q \<open>q = stored_rule p v \<or> q \<in> set rules\<close> by (auto simp: highest_def)
qed

theorem preview_ignores_longer_rule_witness:
  "assign_with_proposed (map to_ascii_lowercase) sample_subject [sample_longer_rule] sample_proposal =
     Assigned (CategoryId 2) (ByDescription (CategoryRuleId 2)) \<and>
   assign (map to_ascii_lowercase) sample_subject [stored_rule sample_proposal 9, sample_longer_rule] =
     Assigned (CategoryId 1) (ByDescription (CategoryRuleId 1))"
proof -
  have m: "matcher_matches (map to_ascii_lowercase) (cr_matcher sample_longer_rule) sample_subject"
    "matcher_matches (map to_ascii_lowercase) (cp_matcher sample_proposal) sample_subject" by code_simp+
  then have "applicable (map to_ascii_lowercase) sample_subject sample_longer_rule"
    by (simp add: applicable_def sample_longer_rule_def interval_covers_def)
  with m show ?thesis
    using preview_ignores_longer_rule [of "[sample_longer_rule]" "map to_ascii_lowercase" sample_subject sample_longer_rule sample_proposal
        "[stored_rule sample_proposal 9, sample_longer_rule]" 9]
    by (simp add: sample_longer_rule_def sample_proposal_def interval_covers_def assignment_for_rule_def proposal_assignment_def)
qed

end
