(* ===== verification/MoneyFlow.thy ===== *)
theory MoneyFlow
  imports Category
begin

text \<open>
  Where the money went, \<open>projection/money_flow.rs\<close>: every cash posting of the contour inside a
  window is entered under the heading its event gives it, outflows are divided by category, and
  what no heading takes is the residual. The lemmas show that the headings are complete: the
  residual is the sum of exactly the postings without a heading, the categories and the
  undivided rest add up to the outflow, and the sources add up to the earnings.
\<close>

section \<open>Data\<close>

record date_window =
  dw_from :: date
  dw_to :: date

definition window_covers :: "date_window \<Rightarrow> date \<Rightarrow> bool" where
  "window_covers w on \<longleftrightarrow> dw_from w \<le> on \<and> on \<le> dw_to w"

datatype money_flow_error =
    MovementWithoutDate event_id
  | FlowOverflow string event_id
  | AggregateOverflow string

datatype undecomposed_cause = NoRuleMatched | ExternalTransfer

instantiation undecomposed_cause :: linorder
begin

definition less_eq_undecomposed_cause :: "undecomposed_cause \<Rightarrow> undecomposed_cause \<Rightarrow> bool" where
  "less_eq_undecomposed_cause a b \<longleftrightarrow> a = NoRuleMatched \<or> b = ExternalTransfer"

definition less_undecomposed_cause :: "undecomposed_cause \<Rightarrow> undecomposed_cause \<Rightarrow> bool" where
  "less_undecomposed_cause a b \<longleftrightarrow> a = NoRuleMatched \<and> b = ExternalTransfer"

instance
proof
  fix x y z :: undecomposed_cause
  show "x < y \<longleftrightarrow> x \<le> y \<and> \<not> y \<le> x"
    by (cases x; cases y) (simp_all add: less_eq_undecomposed_cause_def less_undecomposed_cause_def)
  show "x \<le> x" by (cases x) (simp_all add: less_eq_undecomposed_cause_def)
  show "x \<le> y \<Longrightarrow> y \<le> z \<Longrightarrow> x \<le> z" by (cases y) (auto simp: less_eq_undecomposed_cause_def)
  show "x \<le> y \<Longrightarrow> y \<le> x \<Longrightarrow> x = y" by (auto simp: less_eq_undecomposed_cause_def)
  show "x \<le> y \<or> y \<le> x" by (cases x; cases y) (simp_all add: less_eq_undecomposed_cause_def)
qed

end

datatype earning_source =
  EarningSource (es_account: account_id) (es_instrument: "instrument_id option") (es_category: "category_id option")

instantiation earning_source :: linorder
begin

definition less_eq_earning_source :: "earning_source \<Rightarrow> earning_source \<Rightarrow> bool" where
  "less_eq_earning_source a b \<longleftrightarrow> (es_account a, es_instrument a, es_category a) \<le> (es_account b, es_instrument b, es_category b)"

definition less_earning_source :: "earning_source \<Rightarrow> earning_source \<Rightarrow> bool" where
  "less_earning_source a b \<longleftrightarrow> (es_account a, es_instrument a, es_category a) < (es_account b, es_instrument b, es_category b)"

instance
proof
  fix x y z :: earning_source
  show "x < y \<longleftrightarrow> x \<le> y \<and> \<not> y \<le> x"
    unfolding less_eq_earning_source_def less_earning_source_def by (rule less_le_not_le)
  show "x \<le> x" by (simp add: less_eq_earning_source_def)
  show "x \<le> y \<Longrightarrow> y \<le> z \<Longrightarrow> x \<le> z" unfolding less_eq_earning_source_def by (rule order_trans)
  show "x \<le> y \<or> y \<le> x" unfolding less_eq_earning_source_def by (rule linear)
  show "x = y" if "x \<le> y" "y \<le> x"
  proof -
    have "(es_account x, es_instrument x, es_category x) = (es_account y, es_instrument y, es_category y)"
      using that unfolding less_eq_earning_source_def by (rule order_antisym)
    then show ?thesis by (cases x; cases y) simp
  qed
qed

end

type_synonym flow_ledger = "(account_id \<times> currency_code, posted_minor) btree"
type_synonym undecomposed_key = "account_id \<times> currency_code \<times> undecomposed_cause"

record money_flow =
  mf_came_in :: flow_ledger
  mf_went_out :: flow_ledger
  mf_earned_by_capital :: flow_ledger
  mf_moved_into_assets :: flow_ledger
  mf_fees :: flow_ledger
  mf_taxes :: flow_ledger
  mf_internal_transfers :: flow_ledger
  mf_indeterminate :: flow_ledger
  mf_unstated :: flow_ledger
  mf_cash_delta :: flow_ledger
  mf_went_out_by_category :: "(category_id \<times> currency_code, posted_minor) btree"
  mf_earned_by_source :: "(earning_source \<times> currency_code, posted_minor) btree"
  mf_undecomposed_counts :: "(undecomposed_key, nat) btree"
  mf_undecomposed :: "(undecomposed_key, posted_minor) btree"

definition money_flow_new :: money_flow where
  "money_flow_new = \<lparr>mf_came_in = [], mf_went_out = [], mf_earned_by_capital = [], mf_moved_into_assets = [],
     mf_fees = [], mf_taxes = [], mf_internal_transfers = [], mf_indeterminate = [], mf_unstated = [], mf_cash_delta = [],
     mf_went_out_by_category = [], mf_earned_by_source = [], mf_undecomposed_counts = [], mf_undecomposed = []\<rparr>"

text \<open>The category index is a parameter of the projection; \<open>no_categories\<close> assigns none.\<close>

type_synonym category_index = "event \<Rightarrow> category_assignment"

definition no_categories :: category_index where
  "no_categories _ = NotDecomposed"

section \<open>Entering postings\<close>

definition ledger_add :: "flow_ledger \<Rightarrow> account_id \<Rightarrow> money \<Rightarrow> string \<Rightarrow> event_id \<Rightarrow> (flow_ledger, money_flow_error) result" where
  "ledger_add ledger account money quantity event =
     ok_or (bt_checked_add (account, m_currency money) (m_amount money) ledger) (FlowOverflow quantity event)"

definition add_category :: "(category_id \<times> currency_code, posted_minor) btree \<Rightarrow> category_id \<Rightarrow> money \<Rightarrow> event_id
    \<Rightarrow> ((category_id \<times> currency_code, posted_minor) btree, money_flow_error) result" where
  "add_category ledger category money event =
     ok_or (bt_checked_add (category, m_currency money) (m_amount money) ledger) (FlowOverflow ''went_out_by_category'' event)"

definition flow_negated :: "money \<Rightarrow> string \<Rightarrow> event_id \<Rightarrow> (money, money_flow_error) result" where
  "flow_negated money quantity event =
     and_then (ok_or (pm_checked_neg (m_amount money)) (FlowOverflow quantity event)) (\<lambda>amount.
     Ok (money_new amount (m_currency money)))"

type_synonym flow_state = "money_flow \<times> undecomposed_key set"

definition add_not_decomposed :: "flow_state \<Rightarrow> account_id \<Rightarrow> money \<Rightarrow> undecomposed_cause \<Rightarrow> event_id \<Rightarrow> (flow_state, money_flow_error) result" where
  "add_not_decomposed st account money cause event =
     (let mf = fst st; key = (account, m_currency money, cause) in
      and_then (ok_or (bt_checked_add key (m_amount money) (mf_undecomposed mf)) (FlowOverflow ''not_decomposed'' event)) (\<lambda>amounts.
      let mf = mf\<lparr>mf_undecomposed := amounts\<rparr> in
      if key \<in> snd st then Ok (mf, snd st)
      else
        and_then (ok_or (u64_succ (case bt_get (mf_undecomposed_counts mf) key of None \<Rightarrow> 0 | Some n \<Rightarrow> n))
                    (AggregateOverflow ''not_decomposed_count'')) (\<lambda>count.
        Ok (mf\<lparr>mf_undecomposed_counts := bt_insert key count (mf_undecomposed_counts mf)\<rparr>, insert key (snd st)))))"

definition enter_fee :: "event \<Rightarrow> leg \<Rightarrow> money \<Rightarrow> flow_state \<Rightarrow> (flow_state, money_flow_error) result" where
  "enter_fee e l money st =
     and_then (flow_negated money ''fees'' (e_id e)) (\<lambda>amount.
     map_ok (\<lambda>led. ((fst st)\<lparr>mf_fees := led\<rparr>, snd st)) (ledger_add (mf_fees (fst st)) (l_account l) amount ''fees'' (e_id e)))"

definition enter_tax :: "event \<Rightarrow> leg \<Rightarrow> money \<Rightarrow> flow_state \<Rightarrow> (flow_state, money_flow_error) result" where
  "enter_tax e l money st =
     and_then (flow_negated money ''taxes'' (e_id e)) (\<lambda>amount.
     map_ok (\<lambda>led. ((fst st)\<lparr>mf_taxes := led\<rparr>, snd st)) (ledger_add (mf_taxes (fst st)) (l_account l) amount ''taxes'' (e_id e)))"

definition enter_assets :: "event \<Rightarrow> leg \<Rightarrow> money \<Rightarrow> flow_state \<Rightarrow> (flow_state, money_flow_error) result" where
  "enter_assets e l money st =
     and_then (flow_negated money ''moved_into_assets'' (e_id e)) (\<lambda>amount.
     map_ok (\<lambda>led. ((fst st)\<lparr>mf_moved_into_assets := led\<rparr>, snd st))
       (ledger_add (mf_moved_into_assets (fst st)) (l_account l) amount ''moved_into_assets'' (e_id e)))"

definition enter_income :: "category_assignment option \<Rightarrow> event \<Rightarrow> instrument_id option \<Rightarrow> leg \<Rightarrow> money \<Rightarrow> flow_state
    \<Rightarrow> (flow_state, money_flow_error) result" where
  "enter_income assignment e instrument l money st =
     and_then (ledger_add (mf_earned_by_capital (fst st)) (l_account l) money ''earned_by_capital'' (e_id e)) (\<lambda>earned.
     let mf = (fst st)\<lparr>mf_earned_by_capital := earned\<rparr>;
         source = EarningSource (l_account l) instrument
           (case assignment of Some (Assigned category _) \<Rightarrow> Some category | _ \<Rightarrow> None) in
     and_then (ok_or (bt_checked_add (source, m_currency money) (m_amount money) (mf_earned_by_source mf))
                 (FlowOverflow ''earned_by_capital_by_source'' (e_id e))) (\<lambda>sources.
     Ok (mf\<lparr>mf_earned_by_source := sources\<rparr>, snd st)))"

definition enter_came_in :: "event \<Rightarrow> leg \<Rightarrow> money \<Rightarrow> flow_state \<Rightarrow> (flow_state, money_flow_error) result" where
  "enter_came_in e l money st =
     map_ok (\<lambda>led. ((fst st)\<lparr>mf_came_in := led\<rparr>, snd st)) (ledger_add (mf_came_in (fst st)) (l_account l) money ''came_in'' (e_id e))"

definition enter_went_out :: "event \<Rightarrow> leg \<Rightarrow> money \<Rightarrow> flow_state \<Rightarrow> (flow_state, money_flow_error) result" where
  "enter_went_out e l amount st =
     map_ok (\<lambda>led. ((fst st)\<lparr>mf_went_out := led\<rparr>, snd st)) (ledger_add (mf_went_out (fst st)) (l_account l) amount ''went_out'' (e_id e))"

definition enter_spending :: "category_assignment option \<Rightarrow> event \<Rightarrow> leg \<Rightarrow> money \<Rightarrow> flow_state \<Rightarrow> (flow_state, money_flow_error) result" where
  "enter_spending assignment e l money st =
     and_then (flow_negated money ''went_out'' (e_id e)) (\<lambda>amount.
     and_then (enter_went_out e l amount st) (\<lambda>st.
     case assignment of
       Some (Assigned category _) \<Rightarrow>
         map_ok (\<lambda>led. ((fst st)\<lparr>mf_went_out_by_category := led\<rparr>, snd st))
           (add_category (mf_went_out_by_category (fst st)) category amount (e_id e))
     | _ \<Rightarrow> add_not_decomposed st (l_account l) amount NoRuleMatched (e_id e)))"

definition enter_transfer_out :: "event \<Rightarrow> leg \<Rightarrow> money \<Rightarrow> flow_state \<Rightarrow> (flow_state, money_flow_error) result" where
  "enter_transfer_out e l money st =
     and_then (flow_negated money ''went_out'' (e_id e)) (\<lambda>amount.
     and_then (enter_went_out e l amount st) (\<lambda>st.
     add_not_decomposed st (l_account l) amount ExternalTransfer (e_id e)))"

definition enter_internal :: "event \<Rightarrow> leg \<Rightarrow> money \<Rightarrow> flow_state \<Rightarrow> (flow_state, money_flow_error) result" where
  "enter_internal e l money st =
     map_ok (\<lambda>led. ((fst st)\<lparr>mf_internal_transfers := led\<rparr>, snd st))
       (ledger_add (mf_internal_transfers (fst st)) (l_account l) money ''internal_transfers'' (e_id e))"

definition enter_indeterminate :: "event \<Rightarrow> leg \<Rightarrow> money \<Rightarrow> flow_state \<Rightarrow> (flow_state, money_flow_error) result" where
  "enter_indeterminate e l money st =
     map_ok (\<lambda>led. ((fst st)\<lparr>mf_indeterminate := led\<rparr>, snd st))
       (ledger_add (mf_indeterminate (fst st)) (l_account l) money ''indeterminate'' (e_id e))"

text \<open>A cash leg is entered by the kind of its event; the kinds that fall through enter nothing.\<close>

definition enter_cash_leg :: "flow_class \<Rightarrow> category_assignment option \<Rightarrow> event \<Rightarrow> leg \<Rightarrow> money \<Rightarrow> flow_state
    \<Rightarrow> (flow_state, money_flow_error) result" where
  "enter_cash_leg cls assignment e l money st = (case e_kind e of
     Trade _ _ _ _ _ _ _ _ \<Rightarrow> enter_assets e l money st
   | Income instrument _ _ \<Rightarrow> enter_income assignment e instrument l money st
   | CashIn _ \<Rightarrow> enter_came_in e l money st
   | Refund _ \<Rightarrow> enter_spending assignment e l money st
   | CashOut _ \<Rightarrow> enter_spending assignment e l money st
   | OwnAccountMovement _ \<Rightarrow> enter_indeterminate e l money st
   | CashTransfer _ _ _ _ \<Rightarrow>
       (case cls of
          Internal \<Rightarrow> enter_internal e l money st
        | ExternalIn _ _ \<Rightarrow> enter_came_in e l money st
        | ExternalOut _ _ \<Rightarrow> enter_transfer_out e l money st
        | Indeterminate _ _ \<Rightarrow> Ok st
        | Irrelevant \<Rightarrow> Ok st)
   | CorporateAction _ \<Rightarrow> enter_assets e l money st
   | OfferExercise _ \<Rightarrow> enter_assets e l money st
   | _ \<Rightarrow> Ok st)"

definition enter_heading :: "flow_class \<Rightarrow> category_assignment option \<Rightarrow> event \<Rightarrow> leg \<Rightarrow> money \<Rightarrow> flow_state
    \<Rightarrow> (flow_state, money_flow_error) result" where
  "enter_heading cls assignment e l money st = (case l_kind l of
     LFee \<Rightarrow> enter_fee e l money st
   | LTax \<Rightarrow> enter_tax e l money st
   | LCash \<Rightarrow> enter_cash_leg cls assignment e l money st
   | LSecurityQuantity \<Rightarrow> Ok st
   | LPrincipal \<Rightarrow>
       (case e_kind e of
          CorporateAction _ \<Rightarrow> enter_assets e l money st
        | OfferExercise _ \<Rightarrow> enter_assets e l money st
        | _ \<Rightarrow> Ok st))"

definition enter_leg :: "contour_definition \<Rightarrow> flow_class \<Rightarrow> category_assignment option \<Rightarrow> event \<Rightarrow> flow_state \<Rightarrow> leg
    \<Rightarrow> (flow_state, money_flow_error) result" where
  "enter_leg d cls assignment e st l =
     (if \<not> contour_contains d (l_account l) then Ok st
      else case leg_cash_effect l of
        None \<Rightarrow> Ok st
      | Some money \<Rightarrow>
          and_then (ledger_add (mf_cash_delta (fst st)) (l_account l) money ''cash_delta'' (e_id e)) (\<lambda>led.
          enter_heading cls assignment e l money ((fst st)\<lparr>mf_cash_delta := led\<rparr>, snd st)))"

definition has_contour_cash_leg :: "event \<Rightarrow> contour_definition \<Rightarrow> bool" where
  "has_contour_cash_leg e d \<longleftrightarrow> list_ex (\<lambda>l. contour_contains d (l_account l) \<and> leg_cash_effect l \<noteq> None) (e_legs e)"

definition event_belongs :: "event \<Rightarrow> contour_definition \<Rightarrow> date_window \<Rightarrow> flow_class \<Rightarrow> (bool, money_flow_error) result" where
  "event_belongs e d w cls =
     (if cls = Irrelevant then Ok False
      else case effective_date (e_dates e) of
        None \<Rightarrow> if has_contour_cash_leg e d then Err (MovementWithoutDate (e_id e)) else Ok False
      | Some on \<Rightarrow> Ok (window_covers w on))"

definition needs_category :: "event_kind \<Rightarrow> bool" where
  "needs_category k \<longleftrightarrow> (case k of CashOut _ \<Rightarrow> True | Refund _ \<Rightarrow> True | Income _ _ _ \<Rightarrow> True | _ \<Rightarrow> False)"

definition enter_unstated :: "event \<Rightarrow> money_flow \<Rightarrow> (money_flow, money_flow_error) result" where
  "enter_unstated e mf = (case e_kind e of
     UnresolvedOwnAccountMovement amount \<Rightarrow>
       map_ok (\<lambda>led. mf\<lparr>mf_unstated := led\<rparr>) (ledger_add (mf_unstated mf) (e_account e) amount ''unstated'' (e_id e))
   | _ \<Rightarrow> Ok mf)"

definition money_flow_apply :: "contour_definition \<Rightarrow> date_window \<Rightarrow> category_index \<Rightarrow> money_flow \<Rightarrow> event
    \<Rightarrow> (money_flow, money_flow_error) result" where
  "money_flow_apply d w categories mf e =
     (let cls = classify d e in
      and_then (event_belongs e d w cls) (\<lambda>belongs.
      if \<not> belongs then Ok mf
      else
        let assignment = (if needs_category (e_kind e) then Some (categories e) else None) in
        and_then (enter_unstated e mf) (\<lambda>mf.
        map_ok fst (try_fold (enter_leg d cls assignment e) (mf, {}) (e_legs e)))))"

section \<open>Questions\<close>

definition narrow :: "int \<Rightarrow> string \<Rightarrow> (posted_minor, money_flow_error) result" where
  "narrow amount quantity = ok_or (to_i64 amount) (AggregateOverflow quantity)"

definition total_filtered :: "flow_ledger \<Rightarrow> currency_code \<Rightarrow> string \<Rightarrow> (int \<Rightarrow> bool) \<Rightarrow> (money, money_flow_error) result" where
  "total_filtered ledger currency quantity include =
     and_then (narrow (\<Sum>((_, c), amount) \<leftarrow> filter (\<lambda>((_, c), amount). c = currency \<and> include amount) ledger. amount) quantity) (\<lambda>amount.
     Ok (money_new amount currency))"

definition ledger_total :: "flow_ledger \<Rightarrow> currency_code \<Rightarrow> string \<Rightarrow> (money, money_flow_error) result" where
  "ledger_total ledger currency quantity = total_filtered ledger currency quantity (\<lambda>amount. amount \<noteq> 0)"

definition ledger_total_positive :: "flow_ledger \<Rightarrow> currency_code \<Rightarrow> string \<Rightarrow> (money, money_flow_error) result" where
  "ledger_total_positive ledger currency quantity = total_filtered ledger currency quantity (\<lambda>amount. 0 < amount)"

definition flow_came_in :: "money_flow \<Rightarrow> currency_code \<Rightarrow> (money, money_flow_error) result" where
  "flow_came_in mf c = ledger_total (mf_came_in mf) c ''came_in''"

definition flow_went_out :: "money_flow \<Rightarrow> currency_code \<Rightarrow> (money, money_flow_error) result" where
  "flow_went_out mf c = ledger_total (mf_went_out mf) c ''went_out''"

definition flow_earned_by_capital :: "money_flow \<Rightarrow> currency_code \<Rightarrow> (money, money_flow_error) result" where
  "flow_earned_by_capital mf c = ledger_total (mf_earned_by_capital mf) c ''earned_by_capital''"

definition flow_moved_into_assets :: "money_flow \<Rightarrow> currency_code \<Rightarrow> (money, money_flow_error) result" where
  "flow_moved_into_assets mf c = ledger_total (mf_moved_into_assets mf) c ''moved_into_assets''"

definition flow_fees :: "money_flow \<Rightarrow> currency_code \<Rightarrow> (money, money_flow_error) result" where
  "flow_fees mf c = ledger_total (mf_fees mf) c ''fees''"

definition flow_taxes :: "money_flow \<Rightarrow> currency_code \<Rightarrow> (money, money_flow_error) result" where
  "flow_taxes mf c = ledger_total (mf_taxes mf) c ''taxes''"

definition flow_internal_transfers :: "money_flow \<Rightarrow> currency_code \<Rightarrow> (money, money_flow_error) result" where
  "flow_internal_transfers mf c = ledger_total_positive (mf_internal_transfers mf) c ''internal_transfers''"

definition flow_indeterminate :: "money_flow \<Rightarrow> currency_code \<Rightarrow> (money, money_flow_error) result" where
  "flow_indeterminate mf c = ledger_total (mf_indeterminate mf) c ''indeterminate''"

definition flow_unstated :: "money_flow \<Rightarrow> currency_code \<Rightarrow> (money, money_flow_error) result" where
  "flow_unstated mf c = ledger_total (mf_unstated mf) c ''unstated''"

definition flow_cash_delta :: "money_flow \<Rightarrow> currency_code \<Rightarrow> (money, money_flow_error) result" where
  "flow_cash_delta mf c = ledger_total (mf_cash_delta mf) c ''cash_delta''"

text \<open>The rows of a keyed ledger in one currency; the keys of a currency are distinct, so a row is an entry.\<close>

definition keyed_rows :: "('k::linorder \<times> currency_code, posted_minor) btree \<Rightarrow> currency_code \<Rightarrow> string
    \<Rightarrow> (('k \<times> money) list, money_flow_error) result" where
  "keyed_rows ledger currency quantity =
     and_then (try_fold (\<lambda>totals ((key, c), amount).
         if c \<noteq> currency then Ok totals
         else and_then (ok_or (to_i128 ((case bt_get totals key of None \<Rightarrow> 0 | Some v \<Rightarrow> v) + amount)) (AggregateOverflow quantity)) (\<lambda>total.
              Ok (bt_insert key total totals))) [] ledger) (\<lambda>totals.
     try_map (\<lambda>(key, amount). and_then (narrow amount quantity) (\<lambda>v. Ok (key, money_new v currency)))
       (filter (\<lambda>(_, amount). amount \<noteq> 0) totals))"

definition flow_went_out_by_category :: "money_flow \<Rightarrow> currency_code \<Rightarrow> ((category_id \<times> money) list, money_flow_error) result" where
  "flow_went_out_by_category mf c = keyed_rows (mf_went_out_by_category mf) c ''went_out_by_category''"

definition flow_earned_by_source :: "money_flow \<Rightarrow> currency_code \<Rightarrow> ((earning_source \<times> money) list, money_flow_error) result" where
  "flow_earned_by_source mf c = keyed_rows (mf_earned_by_source mf) c ''earned_by_capital_by_source''"

definition u64_add :: "nat \<Rightarrow> nat \<Rightarrow> nat option" where
  "u64_add a b = (if a + b < 2 ^ 64 then Some (a + b) else None)"

definition flow_not_decomposed :: "money_flow \<Rightarrow> currency_code \<Rightarrow> (nat \<times> money, money_flow_error) result" where
  "flow_not_decomposed mf currency =
     and_then (try_fold (\<lambda>total (_, count). ok_or (u64_add total count) (AggregateOverflow ''not_decomposed_count'')) 0
       (filter (\<lambda>((_, c, _), _). c = currency) (mf_undecomposed_counts mf))) (\<lambda>count.
     and_then (narrow (\<Sum>(_, amount) \<leftarrow> filter (\<lambda>((_, c, _), _). c = currency) (mf_undecomposed mf). amount) ''not_decomposed'') (\<lambda>amount.
     Ok (count, money_new amount currency)))"

definition undecomposed_rows :: "money_flow \<Rightarrow> currency_code \<Rightarrow> (account_id \<times> undecomposed_cause \<times> nat \<times> int) list" where
  "undecomposed_rows mf currency = map (\<lambda>((account, c, cause), count).
       (account, cause, count, (case bt_get (mf_undecomposed mf) (account, c, cause) of None \<Rightarrow> 0 | Some v \<Rightarrow> v)))
     (filter (\<lambda>((_, c, _), _). c = currency) (mf_undecomposed_counts mf))"

definition not_decomposed_by_account :: "money_flow \<Rightarrow> currency_code \<Rightarrow> ((account_id \<times> nat \<times> money) list, money_flow_error) result" where
  "not_decomposed_by_account mf currency =
     and_then (try_fold (\<lambda>rows (account, _, count, amount).
         let row = (case bt_get rows account of None \<Rightarrow> (0, 0) | Some r \<Rightarrow> r) in
         and_then (ok_or (u64_add (fst row) count) (AggregateOverflow ''not_decomposed_count'')) (\<lambda>n.
         and_then (ok_or (to_i128 (snd row + amount)) (AggregateOverflow ''not_decomposed'')) (\<lambda>v.
         Ok (bt_insert account (n, v) rows)))) [] (undecomposed_rows mf currency)) (\<lambda>rows.
     try_map (\<lambda>(account, count, amount). and_then (narrow amount ''not_decomposed'') (\<lambda>v.
       Ok (account, count, money_new v currency))) rows)"

definition not_decomposed_by_account_and_cause :: "money_flow \<Rightarrow> currency_code
    \<Rightarrow> ((account_id \<times> undecomposed_cause \<times> nat \<times> money) list, money_flow_error) result" where
  "not_decomposed_by_account_and_cause mf currency =
     try_map (\<lambda>(account, cause, count, amount). and_then (narrow amount ''not_decomposed'') (\<lambda>v.
       Ok (account, cause, count, money_new v currency))) (undecomposed_rows mf currency)"

definition flow_ledgers :: "money_flow \<Rightarrow> flow_ledger list" where
  "flow_ledgers mf = [mf_came_in mf, mf_went_out mf, mf_earned_by_capital mf, mf_moved_into_assets mf, mf_fees mf,
     mf_taxes mf, mf_internal_transfers mf, mf_indeterminate mf, mf_unstated mf, mf_cash_delta mf]"

definition flow_currencies :: "money_flow \<Rightarrow> currency_code list" where
  "flow_currencies mf = remdups_adj (sort (concat (map (map (\<lambda>((_, c), _). c)) (flow_ledgers mf))))"

definition flow_accounts :: "money_flow \<Rightarrow> account_id list" where
  "flow_accounts mf = remdups_adj (sort (concat (map (map (\<lambda>((a, _), _). a)) (flow_ledgers mf))))"

definition ledger_at :: "flow_ledger \<Rightarrow> account_id \<Rightarrow> currency_code \<Rightarrow> int" where
  "ledger_at ledger a c = (case bt_get ledger (a, c) of None \<Rightarrow> 0 | Some v \<Rightarrow> v)"

definition residual_of :: "money_flow \<Rightarrow> account_id \<Rightarrow> currency_code \<Rightarrow> int" where
  "residual_of mf a c =
     ledger_at (mf_cash_delta mf) a c -
     (ledger_at (mf_came_in mf) a c - ledger_at (mf_went_out mf) a c + ledger_at (mf_earned_by_capital mf) a c
      - ledger_at (mf_moved_into_assets mf) a c - ledger_at (mf_fees mf) a c - ledger_at (mf_taxes mf) a c
      + ledger_at (mf_internal_transfers mf) a c + ledger_at (mf_indeterminate mf) a c)"

definition flow_residual :: "money_flow \<Rightarrow> currency_code \<Rightarrow> (money, money_flow_error) result" where
  "flow_residual mf c =
     and_then (narrow (\<Sum>a \<leftarrow> flow_accounts mf. residual_of mf a c) ''residual'') (\<lambda>v. Ok (money_new v c))"

definition residuals_by_account :: "money_flow \<Rightarrow> ((account_id \<times> money) list, money_flow_error) result" where
  "residuals_by_account mf =
     try_map (\<lambda>(a, c). and_then (narrow (residual_of mf a c) ''residuals_by_account'') (\<lambda>v. Ok (a, money_new v c)))
       (filter (\<lambda>(a, c). residual_of mf a c \<noteq> 0) (concat (map (\<lambda>a. map (Pair a) (flow_currencies mf)) (flow_accounts mf))))"

section \<open>Headings\<close>

text \<open>Whether a heading takes a cash posting, and the posting itself.\<close>

definition cash_headed :: "flow_class \<Rightarrow> event_kind \<Rightarrow> bool" where
  "cash_headed cls k \<longleftrightarrow> (case k of
     Trade _ _ _ _ _ _ _ _ \<Rightarrow> True | Income _ _ _ \<Rightarrow> True | CashIn _ \<Rightarrow> True | Refund _ \<Rightarrow> True | CashOut _ \<Rightarrow> True
   | OwnAccountMovement _ \<Rightarrow> True
   | CashTransfer _ _ _ _ \<Rightarrow> (case cls of Indeterminate _ _ \<Rightarrow> False | Irrelevant \<Rightarrow> False | _ \<Rightarrow> True)
   | CorporateAction _ \<Rightarrow> True | OfferExercise _ \<Rightarrow> True | _ \<Rightarrow> False)"

definition principal_headed :: "event_kind \<Rightarrow> bool" where
  "principal_headed k \<longleftrightarrow> (case k of CorporateAction _ \<Rightarrow> True | OfferExercise _ \<Rightarrow> True | _ \<Rightarrow> False)"

definition headed :: "flow_class \<Rightarrow> event \<Rightarrow> leg \<Rightarrow> bool" where
  "headed cls e l \<longleftrightarrow> (case l_kind l of
     LFee \<Rightarrow> True | LTax \<Rightarrow> True | LCash \<Rightarrow> cash_headed cls (e_kind e) | LSecurityQuantity \<Rightarrow> False
   | LPrincipal \<Rightarrow> principal_headed (e_kind e))"

definition posted_at :: "account_id \<Rightarrow> money \<Rightarrow> account_id \<Rightarrow> currency_code \<Rightarrow> int" where
  "posted_at a m b c = (if b = a \<and> c = m_currency m then m_amount m else 0)"

definition leg_posted_at :: "contour_definition \<Rightarrow> leg \<Rightarrow> account_id \<Rightarrow> currency_code \<Rightarrow> int" where
  "leg_posted_at d l b c = (case leg_cash_effect l of None \<Rightarrow> 0
     | Some m \<Rightarrow> if contour_contains d (l_account l) then posted_at (l_account l) m b c else 0)"

lemma ledger_add_at:
  "ledger_add led a m q i = Ok led' \<Longrightarrow> ledger_at led' b c = ledger_at led b c + posted_at a m b c"
  by (auto simp: ledger_add_def bt_checked_add_Some Let_def ledger_at_def posted_at_def bt_get_insert split: option.splits)

lemma flow_negated_at: "flow_negated m q i = Ok n \<Longrightarrow> posted_at a n b c = - posted_at a m b c"
  by (auto simp: flow_negated_def posted_at_def money_new_def pm_defs)

lemma residual_of_category [simp]: "residual_of (mf\<lparr>mf_went_out_by_category := x\<rparr>) b c = residual_of mf b c"
  by (simp add: residual_of_def)

lemma residual_of_undecomposed [simp]: "residual_of (mf\<lparr>mf_undecomposed := x\<rparr>) b c = residual_of mf b c"
  by (simp add: residual_of_def)

lemma residual_of_counts [simp]: "residual_of (mf\<lparr>mf_undecomposed_counts := x\<rparr>) b c = residual_of mf b c"
  by (simp add: residual_of_def)

lemma residual_of_unstated [simp]: "residual_of (mf\<lparr>mf_unstated := x\<rparr>) b c = residual_of mf b c"
  by (simp add: residual_of_def)

lemma add_not_decomposed_cases:
  assumes "add_not_decomposed st a m cause i = Ok st'"
  obtains amounts where "fst st' = (fst st)\<lparr>mf_undecomposed := amounts\<rparr>"
  | amounts counts where "fst st' = (fst st)\<lparr>mf_undecomposed := amounts, mf_undecomposed_counts := counts\<rparr>"
proof -
  define key where "key = (a, m_currency m, cause)"
  obtain amounts where amounts: "ok_or (bt_checked_add key (m_amount m) (mf_undecomposed (fst st))) (FlowOverflow ''not_decomposed'' i) = Ok amounts"
    using assms unfolding add_not_decomposed_def Let_def key_def [symmetric] by auto
  show ?thesis
  proof (cases "key \<in> snd st")
    case True
    then show ?thesis using assms amounts that(1) unfolding add_not_decomposed_def Let_def key_def [symmetric] by auto
  next
    case False
    then show ?thesis using assms amounts that(2) unfolding add_not_decomposed_def Let_def key_def [symmetric]
      by auto
  qed
qed

lemma add_not_decomposed_keeps:
  assumes "add_not_decomposed st a m cause i = Ok st'"
  shows "residual_of (fst st') b c = residual_of (fst st) b c" "mf_cash_delta (fst st') = mf_cash_delta (fst st)"
  using assms by (cases rule: add_not_decomposed_cases; simp)+

text \<open>Entering a posting under a heading lowers the residual by the posting and keeps the cash change.\<close>

definition explains :: "leg \<Rightarrow> money \<Rightarrow> flow_state \<Rightarrow> flow_state \<Rightarrow> bool" where
  "explains l money st st' \<longleftrightarrow> mf_cash_delta (fst st') = mf_cash_delta (fst st) \<and>
     (\<forall>b c. residual_of (fst st') b c = residual_of (fst st) b c - posted_at (l_account l) money b c)"

lemma enter_fee_explains: "enter_fee e l money st = Ok st' \<Longrightarrow> explains l money st st'"
  by (auto simp: enter_fee_def explains_def residual_of_def ledger_add_at flow_negated_at)

lemma enter_tax_explains: "enter_tax e l money st = Ok st' \<Longrightarrow> explains l money st st'"
  by (auto simp: enter_tax_def explains_def residual_of_def ledger_add_at flow_negated_at)

lemma enter_assets_explains: "enter_assets e l money st = Ok st' \<Longrightarrow> explains l money st st'"
  by (auto simp: enter_assets_def explains_def residual_of_def ledger_add_at flow_negated_at)

lemma enter_income_explains: "enter_income asg e i l money st = Ok st' \<Longrightarrow> explains l money st st'"
  by (auto simp: enter_income_def explains_def residual_of_def ledger_add_at Let_def)

lemma enter_came_in_explains: "enter_came_in e l money st = Ok st' \<Longrightarrow> explains l money st st'"
  by (auto simp: enter_came_in_def explains_def residual_of_def ledger_add_at)

lemma enter_internal_explains: "enter_internal e l money st = Ok st' \<Longrightarrow> explains l money st st'"
  by (auto simp: enter_internal_def explains_def residual_of_def ledger_add_at)

lemma enter_indeterminate_explains: "enter_indeterminate e l money st = Ok st' \<Longrightarrow> explains l money st st'"
  by (auto simp: enter_indeterminate_def explains_def residual_of_def ledger_add_at)

lemma enter_went_out_explains:
  "flow_negated money q i = Ok amount \<Longrightarrow> enter_went_out e l amount st = Ok st' \<Longrightarrow> explains l money st st'"
  by (auto simp: enter_went_out_def explains_def residual_of_def ledger_add_at flow_negated_at)

lemma explains_then_undecomposed:
  "explains l money st u \<Longrightarrow> add_not_decomposed u a m cause i = Ok st' \<Longrightarrow> explains l money st st'"
  by (simp add: explains_def add_not_decomposed_keeps)

lemma enter_transfer_out_explains: "enter_transfer_out e l money st = Ok st' \<Longrightarrow> explains l money st st'"
  by (auto simp: enter_transfer_out_def intro: explains_then_undecomposed enter_went_out_explains)

lemma enter_spending_explains:
  assumes "enter_spending asg e l money st = Ok st'"
  shows "explains l money st st'"
proof -
  from assms obtain amount u where u: "flow_negated money ''went_out'' (e_id e) = Ok amount" "enter_went_out e l amount st = Ok u"
    and rest: "(case asg of Some (Assigned category _) \<Rightarrow>
         map_ok (\<lambda>led. ((fst u)\<lparr>mf_went_out_by_category := led\<rparr>, snd u))
           (add_category (mf_went_out_by_category (fst u)) category amount (e_id e))
       | _ \<Rightarrow> add_not_decomposed u (l_account l) amount NoRuleMatched (e_id e)) = Ok st'"
    by (auto simp: enter_spending_def)
  have ex: "explains l money st u" by (rule enter_went_out_explains [OF u])
  consider (cat) category where "fst st' = (fst u)\<lparr>mf_went_out_by_category := category\<rparr>"
    | (none) "add_not_decomposed u (l_account l) amount NoRuleMatched (e_id e) = Ok st'"
    using rest by (auto split: option.splits category_assignment.splits)
  then show ?thesis
  proof cases
    case (cat category)
    then show ?thesis using ex by (simp add: explains_def)
  next
    case none
    then show ?thesis by (rule explains_then_undecomposed [OF ex])
  qed
qed

lemmas enter_explains = enter_fee_explains enter_tax_explains enter_assets_explains enter_income_explains
  enter_came_in_explains enter_internal_explains enter_indeterminate_explains enter_transfer_out_explains
  enter_spending_explains

lemma enter_cash_leg_explains:
  assumes "enter_cash_leg cls asg e l money st = Ok st'"
  shows "if cash_headed cls (e_kind e) then explains l money st st' else st' = st"
proof (cases "e_kind e")
  case (CashTransfer i f t amount)
  then show ?thesis using assms by (cases cls) (simp_all add: enter_cash_leg_def cash_headed_def enter_explains)
qed (use assms in \<open>simp_all add: enter_cash_leg_def cash_headed_def enter_explains\<close>)

lemma enter_heading_explains:
  assumes "enter_heading cls asg e l m u = Ok st'"
  shows "if headed cls e l then explains l m u st' else st' = u"
proof (cases "l_kind l")
  case LCash
  then show ?thesis using assms enter_cash_leg_explains by (simp add: enter_heading_def headed_def)
next
  case LPrincipal
  then show ?thesis using assms
    by (cases "e_kind e") (simp_all add: enter_heading_def headed_def principal_headed_def enter_explains)
qed (use assms in \<open>simp_all add: enter_heading_def headed_def enter_explains\<close>)

lemma enter_leg_Ok:
  assumes "enter_leg d cls asg e st l = Ok st'"
  obtains (skipped) "st' = st" "leg_posted_at d l = (\<lambda>_ _. 0)"
  | (entered) m led where "leg_posted_at d l = posted_at (l_account l) m"
      "ledger_add (mf_cash_delta (fst st)) (l_account l) m ''cash_delta'' (e_id e) = Ok led"
      "enter_heading cls asg e l m ((fst st)\<lparr>mf_cash_delta := led\<rparr>, snd st) = Ok st'"
proof (cases "leg_cash_effect l")
  case None
  then show ?thesis using assms skipped by (auto simp: enter_leg_def leg_posted_at_def fun_eq_iff split: if_splits)
next
  case (Some m)
  show ?thesis
  proof (cases "contour_contains d (l_account l)")
    case True
    then show ?thesis using assms Some entered by (auto simp: enter_leg_def leg_posted_at_def fun_eq_iff)
  next
    case False
    then show ?thesis using assms Some skipped by (simp add: enter_leg_def leg_posted_at_def fun_eq_iff)
  qed
qed

lemma enter_leg_residual:
  assumes "enter_leg d cls asg e st l = Ok st'"
  shows "residual_of (fst st') b c = residual_of (fst st) b c + (if headed cls e l then 0 else leg_posted_at d l b c) \<and>
    ledger_at (mf_cash_delta (fst st')) b c = ledger_at (mf_cash_delta (fst st)) b c + leg_posted_at d l b c"
  using assms
proof (cases rule: enter_leg_Ok)
  case (entered m led)
  define u where "u = ((fst st)\<lparr>mf_cash_delta := led\<rparr>, snd st)"
  have u: "residual_of (fst u) b c = residual_of (fst st) b c + posted_at (l_account l) m b c"
    "ledger_at (mf_cash_delta (fst u)) b c = ledger_at (mf_cash_delta (fst st)) b c + posted_at (l_account l) m b c"
    using ledger_add_at [OF entered(2), of b c] by (simp_all add: u_def residual_of_def)
  have "if headed cls e l then explains l m u st' else st' = u"
    using enter_heading_explains [OF entered(3)] by (simp add: u_def)
  then show ?thesis using u by (cases "headed cls e l") (simp_all add: explains_def entered(1))
qed simp

section \<open>The whole journal\<close>

text \<open>The events of the flow: those that touch the contour, dated inside the window.\<close>

definition in_flow :: "contour_definition \<Rightarrow> date_window \<Rightarrow> event \<Rightarrow> bool" where
  "in_flow d w e \<longleftrightarrow> classify d e \<noteq> Irrelevant \<and> (case effective_date (e_dates e) of None \<Rightarrow> False | Some on \<Rightarrow> window_covers w on)"

definition event_posted_at :: "contour_definition \<Rightarrow> event \<Rightarrow> account_id \<Rightarrow> currency_code \<Rightarrow> int" where
  "event_posted_at d e a c = (\<Sum>l \<leftarrow> e_legs e. leg_posted_at d l a c)"

definition event_unheaded_at :: "contour_definition \<Rightarrow> event \<Rightarrow> account_id \<Rightarrow> currency_code \<Rightarrow> int" where
  "event_unheaded_at d e a c = (\<Sum>l \<leftarrow> filter (\<lambda>l. \<not> headed (classify d e) e l) (e_legs e). leg_posted_at d l a c)"

lemma enter_legs_residual:
  assumes "try_fold (enter_leg d (classify d e) asg e) st ls = Ok st'"
  shows "residual_of (fst st') b c = residual_of (fst st) b c + (\<Sum>l \<leftarrow> filter (\<lambda>l. \<not> headed (classify d e) e l) ls. leg_posted_at d l b c)"
    and "ledger_at (mf_cash_delta (fst st')) b c = ledger_at (mf_cash_delta (fst st)) b c + (\<Sum>l \<leftarrow> ls. leg_posted_at d l b c)"
proof -
  have "residual_of (fst st') b c = residual_of (fst st) b c + (\<Sum>l \<leftarrow> filter (\<lambda>l. \<not> headed (classify d e) e l) ls. leg_posted_at d l b c) \<and>
    ledger_at (mf_cash_delta (fst st')) b c = ledger_at (mf_cash_delta (fst st)) b c + (\<Sum>l \<leftarrow> ls. leg_posted_at d l b c)"
    using assms
  proof (induction ls arbitrary: st' rule: rev_induct)
    case (snoc l ls)
    then obtain u where u: "try_fold (enter_leg d (classify d e) asg e) st ls = Ok u" "enter_leg d (classify d e) asg e u l = Ok st'"
      by (auto simp: try_fold_snoc_Ok)
    show ?case using snoc.IH [OF u(1)] enter_leg_residual [OF u(2), of b c] by simp
  qed simp
  then show "residual_of (fst st') b c = residual_of (fst st) b c + (\<Sum>l \<leftarrow> filter (\<lambda>l. \<not> headed (classify d e) e l) ls. leg_posted_at d l b c)"
    "ledger_at (mf_cash_delta (fst st')) b c = ledger_at (mf_cash_delta (fst st)) b c + (\<Sum>l \<leftarrow> ls. leg_posted_at d l b c)"
    by simp_all
qed

lemma enter_unstated_Ok:
  assumes "enter_unstated e mf = Ok mf'"
  obtains led where "mf' = mf\<lparr>mf_unstated := led\<rparr>"
proof (cases "e_kind e")
  case (UnresolvedOwnAccountMovement amount)
  then show ?thesis using assms that by (auto simp: enter_unstated_def)
qed (use assms that [of "mf_unstated mf"] in \<open>simp_all add: enter_unstated_def\<close>)

lemma event_belongs_Ok: "event_belongs e d w (classify d e) = Ok b \<Longrightarrow> b \<longleftrightarrow> in_flow d w e"
  by (auto simp: event_belongs_def in_flow_def split: if_splits option.splits)

lemma money_flow_apply_Ok:
  assumes "money_flow_apply d w cats mf e = Ok mf'"
  obtains (outside) "\<not> in_flow d w e" "mf' = mf"
  | (inside) led st' asg where "in_flow d w e"
      "try_fold (enter_leg d (classify d e) asg e) (mf\<lparr>mf_unstated := led\<rparr>, {}) (e_legs e) = Ok st'" "mf' = fst st'"
proof -
  obtain b where b: "event_belongs e d w (classify d e) = Ok b" using assms by (auto simp: money_flow_apply_def Let_def)
  show ?thesis
  proof (cases b)
    case False
    then show ?thesis using b assms outside event_belongs_Ok [OF b] by (simp add: money_flow_apply_def Let_def)
  next
    case True
    obtain mf0 st' where mf0: "enter_unstated e mf = Ok mf0" and st': "mf' = fst st'"
      "try_fold (enter_leg d (classify d e) (if needs_category (e_kind e) then Some (cats e) else None) e) (mf0, {}) (e_legs e) = Ok st'"
      using assms b True by (auto simp: money_flow_apply_def Let_def)
    then obtain led where "mf0 = mf\<lparr>mf_unstated := led\<rparr>" using enter_unstated_Ok by blast
    then show ?thesis using inside st' True event_belongs_Ok [OF b] by blast
  qed
qed

lemma money_flow_apply_residual:
  assumes "money_flow_apply d w cats mf e = Ok mf'"
  shows "residual_of mf' a c = residual_of mf a c + (if in_flow d w e then event_unheaded_at d e a c else 0)"
    and "ledger_at (mf_cash_delta mf') a c = ledger_at (mf_cash_delta mf) a c + (if in_flow d w e then event_posted_at d e a c else 0)"
  using assms by (cases rule: money_flow_apply_Ok; simp add: enter_legs_residual event_unheaded_at_def event_posted_at_def)+

section \<open>Divisions of the outflow and of the earnings\<close>

text \<open>What a ledger holds in one currency, over all its other key components.\<close>

definition held_in :: "('k \<Rightarrow> currency_code) \<Rightarrow> ('k \<times> int) list \<Rightarrow> currency_code \<Rightarrow> int" where
  "held_in cur led c = (\<Sum>(k, v) \<leftarrow> led. if cur k = c then v else 0)"

abbreviation third_currency :: "undecomposed_key \<Rightarrow> currency_code" where
  "third_currency \<equiv> \<lambda>k. fst (snd k)"

definition divided :: "money_flow \<Rightarrow> bool" where
  "divided mf \<longleftrightarrow> bt_invar (mf_went_out mf) \<and> bt_invar (mf_earned_by_capital mf) \<and> bt_invar (mf_went_out_by_category mf)
     \<and> bt_invar (mf_earned_by_source mf) \<and> bt_invar (mf_undecomposed mf)
     \<and> (\<forall>c. held_in snd (mf_went_out mf) c = held_in snd (mf_went_out_by_category mf) c + held_in third_currency (mf_undecomposed mf) c)
     \<and> (\<forall>c. held_in snd (mf_earned_by_capital mf) c = held_in snd (mf_earned_by_source mf) c)"

lemma checked_add_held:
  assumes "bt_checked_add k v led = Some led'" "bt_invar led"
  shows "bt_invar led'" "held_in cur led' c = held_in cur led c + (if cur k = c then v else 0)"
proof -
  define t where "t = (case bt_get led k of None \<Rightarrow> 0 | Some t \<Rightarrow> t) + v"
  have led': "led' = bt_insert k t led" using assms(1) by (simp add: bt_checked_add_Some Let_def t_def)
  then show "bt_invar led'" using assms(2) by (simp add: bt.invar_insert)
  show "held_in cur led' c = held_in cur led c + (if cur k = c then v else 0)"
    using bt.sum_entries_insert [OF assms(2), of "\<lambda>j x. if cur j = c then x else 0" k t]
    by (simp add: held_in_def led' t_def split: option.splits)
qed

lemma ledger_add_Ok: "ledger_add led a m q i = Ok led' \<longleftrightarrow> bt_checked_add (a, m_currency m) (m_amount m) led = Some led'"
  by (simp add: ledger_add_def)

lemma divided_other [simp]:
  "divided (mf\<lparr>mf_came_in := x\<rparr>) = divided mf" "divided (mf\<lparr>mf_moved_into_assets := x\<rparr>) = divided mf"
  "divided (mf\<lparr>mf_fees := x\<rparr>) = divided mf" "divided (mf\<lparr>mf_taxes := x\<rparr>) = divided mf"
  "divided (mf\<lparr>mf_internal_transfers := x\<rparr>) = divided mf" "divided (mf\<lparr>mf_indeterminate := x\<rparr>) = divided mf"
  "divided (mf\<lparr>mf_unstated := x\<rparr>) = divided mf" "divided (mf\<lparr>mf_cash_delta := x\<rparr>) = divided mf"
  "divided (mf\<lparr>mf_undecomposed_counts := y\<rparr>) = divided mf"
  by (simp_all add: divided_def)

lemma add_not_decomposed_amounts:
  assumes "add_not_decomposed st a m cause i = Ok st'"
  obtains amounts where "bt_checked_add (a, m_currency m, cause) (m_amount m) (mf_undecomposed (fst st)) = Some amounts"
    "divided (fst st') = divided ((fst st)\<lparr>mf_undecomposed := amounts\<rparr>)"
proof -
  define key where "key = (a, m_currency m, cause)"
  obtain amounts where amounts: "bt_checked_add key (m_amount m) (mf_undecomposed (fst st)) = Some amounts"
    using assms unfolding add_not_decomposed_def Let_def key_def [symmetric] by auto
  moreover have "divided (fst st') = divided ((fst st)\<lparr>mf_undecomposed := amounts\<rparr>)"
    using assms amounts unfolding add_not_decomposed_def Let_def key_def [symmetric] by (cases "key \<in> snd st") auto
  ultimately show ?thesis using that by (simp add: key_def)
qed

lemma divided_out_undecomposed:
  assumes "divided mf" "bt_checked_add (a, c) v (mf_went_out mf) = Some led" "bt_checked_add (a, c, k) v (mf_undecomposed mf) = Some led'"
  shows "divided (mf\<lparr>mf_went_out := led, mf_undecomposed := led'\<rparr>)"
  using assms checked_add_held(2) [OF assms(2)] checked_add_held(2) [OF assms(3)]
    checked_add_held(1) [OF assms(2)] checked_add_held(1) [OF assms(3)]
  by (simp add: divided_def)

lemma divided_out_category:
  assumes "divided mf" "bt_checked_add (a, c) v (mf_went_out mf) = Some led" "bt_checked_add (k, c) v (mf_went_out_by_category mf) = Some led'"
  shows "divided (mf\<lparr>mf_went_out := led, mf_went_out_by_category := led'\<rparr>)"
  using assms checked_add_held(2) [OF assms(2)] checked_add_held(2) [OF assms(3)]
    checked_add_held(1) [OF assms(2)] checked_add_held(1) [OF assms(3)]
  by (simp add: divided_def)

lemma divided_earned:
  assumes "divided mf" "bt_checked_add (a, c) v (mf_earned_by_capital mf) = Some led" "bt_checked_add (k, c) v (mf_earned_by_source mf) = Some led'"
  shows "divided (mf\<lparr>mf_earned_by_capital := led, mf_earned_by_source := led'\<rparr>)"
  using assms checked_add_held(2) [OF assms(2)] checked_add_held(2) [OF assms(3)]
    checked_add_held(1) [OF assms(2)] checked_add_held(1) [OF assms(3)]
  by (simp add: divided_def)

lemma enter_plain_divided:
  "enter_fee e l money st = Ok st' \<Longrightarrow> divided (fst st) \<Longrightarrow> divided (fst st')"
  "enter_tax e l money st = Ok st' \<Longrightarrow> divided (fst st) \<Longrightarrow> divided (fst st')"
  "enter_assets e l money st = Ok st' \<Longrightarrow> divided (fst st) \<Longrightarrow> divided (fst st')"
  "enter_came_in e l money st = Ok st' \<Longrightarrow> divided (fst st) \<Longrightarrow> divided (fst st')"
  "enter_internal e l money st = Ok st' \<Longrightarrow> divided (fst st) \<Longrightarrow> divided (fst st')"
  "enter_indeterminate e l money st = Ok st' \<Longrightarrow> divided (fst st) \<Longrightarrow> divided (fst st')"
  by (auto simp: enter_fee_def enter_tax_def enter_assets_def enter_came_in_def enter_internal_def enter_indeterminate_def)

lemma enter_income_divided:
  assumes "enter_income asg e i l money st = Ok st'" "divided (fst st)"
  shows "divided (fst st')"
  using assms divided_earned [OF assms(2)] by (auto simp: enter_income_def Let_def ledger_add_Ok)

lemma undecomposed_outflow_divided:
  assumes "enter_went_out e l amount st = Ok u" "add_not_decomposed u (l_account l) amount cause i = Ok st'" "divided (fst st)"
  shows "divided (fst st')"
proof -
  obtain led where led: "bt_checked_add (l_account l, m_currency amount) (m_amount amount) (mf_went_out (fst st)) = Some led"
    and u: "u = ((fst st)\<lparr>mf_went_out := led\<rparr>, snd st)" using assms(1) by (auto simp: enter_went_out_def ledger_add_Ok)
  from assms(2) obtain amounts where
    "bt_checked_add (l_account l, m_currency amount, cause) (m_amount amount) (mf_undecomposed (fst u)) = Some amounts"
    "divided (fst st') = divided ((fst u)\<lparr>mf_undecomposed := amounts\<rparr>)" by (rule add_not_decomposed_amounts)
  then show ?thesis using divided_out_undecomposed [OF assms(3) led] u by simp
qed

lemma enter_transfer_out_divided:
  "enter_transfer_out e l money st = Ok st' \<Longrightarrow> divided (fst st) \<Longrightarrow> divided (fst st')"
  unfolding enter_transfer_out_def and_then_eq_Ok by (blast intro: undecomposed_outflow_divided)

lemma enter_spending_divided:
  assumes "enter_spending asg e l money st = Ok st'" "divided (fst st)"
  shows "divided (fst st')"
proof -
  from assms obtain amount u where u: "flow_negated money ''went_out'' (e_id e) = Ok amount" "enter_went_out e l amount st = Ok u"
    and rest: "(case asg of Some (Assigned category _) \<Rightarrow>
         map_ok (\<lambda>led. ((fst u)\<lparr>mf_went_out_by_category := led\<rparr>, snd u))
           (add_category (mf_went_out_by_category (fst u)) category amount (e_id e))
       | _ \<Rightarrow> add_not_decomposed u (l_account l) amount NoRuleMatched (e_id e)) = Ok st'"
    by (auto simp: enter_spending_def)
  obtain led where led: "bt_checked_add (l_account l, m_currency amount) (m_amount amount) (mf_went_out (fst st)) = Some led"
    and u': "u = ((fst st)\<lparr>mf_went_out := led\<rparr>, snd st)" using u(2) by (auto simp: enter_went_out_def ledger_add_Ok)
  consider (cat) category led' where "fst st' = (fst u)\<lparr>mf_went_out_by_category := led'\<rparr>"
      "bt_checked_add (category, m_currency amount) (m_amount amount) (mf_went_out_by_category (fst u)) = Some led'"
    | (none) "add_not_decomposed u (l_account l) amount NoRuleMatched (e_id e) = Ok st'"
    using rest by (auto simp: add_category_def split: option.splits category_assignment.splits)
  then show ?thesis
  proof cases
    case (cat category led')
    then show ?thesis using divided_out_category [OF assms(2) led] u' by simp
  next
    case none
    then show ?thesis by (rule undecomposed_outflow_divided [OF u(2) _ assms(2)])
  qed
qed

lemmas enter_divided = enter_plain_divided enter_income_divided enter_transfer_out_divided enter_spending_divided

lemma enter_cash_leg_divided:
  assumes "enter_cash_leg cls asg e l money st = Ok st'" "divided (fst st)"
  shows "divided (fst st')"
proof (cases "e_kind e")
  case (CashTransfer i f t amount)
  then show ?thesis using assms by (cases cls) (simp_all add: enter_cash_leg_def enter_divided [OF _ assms(2)])
qed (use assms in \<open>simp_all add: enter_cash_leg_def enter_divided [OF _ assms(2)]\<close>)

lemma enter_heading_divided:
  assumes "enter_heading cls asg e l m u = Ok st'" "divided (fst u)"
  shows "divided (fst st')"
proof (cases "l_kind l")
  case LCash
  then show ?thesis using assms enter_cash_leg_divided by (simp add: enter_heading_def)
next
  case LPrincipal
  then show ?thesis using assms by (cases "e_kind e") (simp_all add: enter_heading_def enter_divided [OF _ assms(2)])
qed (use assms in \<open>simp_all add: enter_heading_def enter_divided [OF _ assms(2)]\<close>)

lemma enter_leg_divided:
  assumes "enter_leg d cls asg e st l = Ok st'" "divided (fst st)"
  shows "divided (fst st')"
  using assms(1)
proof (cases rule: enter_leg_Ok)
  case (entered m led)
  show ?thesis by (rule enter_heading_divided [OF entered(3)]) (use assms(2) in simp)
qed (use assms(2) in simp)

lemma money_flow_apply_divided:
  assumes "money_flow_apply d w cats mf e = Ok mf'" "divided mf"
  shows "divided mf'"
  using assms(1)
proof (cases rule: money_flow_apply_Ok)
  case (inside led st' asg)
  have "divided (fst st')"
    by (rule try_fold_invariant [where P = "\<lambda>st. divided (fst st)", OF inside(2)]) (use assms(2) in \<open>auto intro: enter_leg_divided\<close>)
  then show ?thesis using inside by simp
qed (use assms(2) in simp)

lemma money_flow_new_facts: "divided money_flow_new" "residual_of money_flow_new a c = 0" "ledger_at (mf_cash_delta money_flow_new) a c = 0"
  by (simp_all add: divided_def money_flow_new_def held_in_def residual_of_def ledger_at_def bt_get_def bt_invar_def)

text \<open>
  (C22) The money flow of a window accounts for all the cash: on every account and currency the
  cash change is the sum of the contour's postings in the window, and what the eight headings
  leave unexplained is the sum of exactly the postings that have no heading; in every currency
  the outflow is what its categories and the undivided rest hold, and the earnings are what
  their sources hold. The category index decides only how the outflow is divided.
\<close>

theorem money_flow_headings_are_complete:
  assumes "try_fold (money_flow_apply d w cats) money_flow_new es = Ok mf"
  shows "ledger_at (mf_cash_delta mf) a c = (\<Sum>e \<leftarrow> filter (in_flow d w) es. event_posted_at d e a c) \<and>
    residual_of mf a c = (\<Sum>e \<leftarrow> filter (in_flow d w) es. event_unheaded_at d e a c) \<and>
    held_in snd (mf_went_out mf) c = held_in snd (mf_went_out_by_category mf) c + held_in third_currency (mf_undecomposed mf) c \<and>
    held_in snd (mf_earned_by_capital mf) c = held_in snd (mf_earned_by_source mf) c"
proof -
  have "ledger_at (mf_cash_delta mf) a c = (\<Sum>e \<leftarrow> filter (in_flow d w) es. event_posted_at d e a c) \<and>
    residual_of mf a c = (\<Sum>e \<leftarrow> filter (in_flow d w) es. event_unheaded_at d e a c)"
    using assms by (induction es arbitrary: mf rule: rev_induct)
      (auto simp: try_fold_snoc_Ok money_flow_new_facts money_flow_apply_residual)
  moreover have "divided mf"
    by (rule try_fold_invariant [where P = divided, OF assms money_flow_new_facts(1)]) (rule money_flow_apply_divided)
  ultimately show ?thesis by (simp add: divided_def)
qed

definition sample_flow :: "event list" where
  "sample_flow = [sample_of (CashIn (money_new 700 Rub)) [leg_cash (AccountId 1) (money_new 700 Rub)],
     sample_of (CashOut (money_new 150 Rub)) [leg_cash (AccountId 1) (money_new (- 150) Rub)],
     sample_of (Fee (money_new (- 20) Rub) Brokerage) [leg_fee (AccountId 1) (money_new (- 20) Rub)]]"

definition sample_window :: date_window where
  "sample_window = \<lparr>dw_from = 0, dw_to = 31\<rparr>"

lemmas flow_eval = money_flow_apply_def event_belongs_def window_covers_def sample_window_def enter_unstated_def enter_leg_def
  enter_heading_def enter_cash_leg_def enter_spending_def enter_went_out_def enter_came_in_def enter_fee_def flow_negated_def
  ledger_add_def add_not_decomposed_def needs_category_def no_categories_def classify_def sample_of_def sample_contour_def
  contour_new_def contour_contains_def effective_date_def dates_for_cash_def dates_empty_def or_else_def leg_cash_def leg_fee_def
  leg_cash_effect_def money_new_def bt_checked_add_def pm_defs to_i64_def i64_defs money_flow_new_def bt_get_def u64_succ_def

theorem money_flow_headings_are_complete_witness:
  "\<exists>mf. try_fold (money_flow_apply sample_contour sample_window no_categories) money_flow_new sample_flow = Ok mf \<and>
     ledger_at (mf_cash_delta mf) (AccountId 1) Rub = 530 \<and> residual_of mf (AccountId 1) Rub = 0 \<and>
     held_in snd (mf_went_out mf) Rub = held_in snd (mf_went_out_by_category mf) Rub + held_in third_currency (mf_undecomposed mf) Rub"
proof -
  obtain mf where mf: "try_fold (money_flow_apply sample_contour sample_window no_categories) money_flow_new sample_flow = Ok mf"
    by (simp add: sample_flow_def flow_eval Let_def)
  have "(\<Sum>e \<leftarrow> filter (in_flow sample_contour sample_window) sample_flow. event_posted_at sample_contour e (AccountId 1) Rub) = 530"
    "(\<Sum>e \<leftarrow> filter (in_flow sample_contour sample_window) sample_flow. event_unheaded_at sample_contour e (AccountId 1) Rub) = 0"
    by (simp_all add: sample_flow_def flow_eval in_flow_def event_posted_at_def event_unheaded_at_def headed_def cash_headed_def
        leg_posted_at_def posted_at_def)
  then show ?thesis using mf money_flow_headings_are_complete [OF mf, of "AccountId 1" Rub] by simp
qed

end
