(* ===== verification/JournalViews.thy ===== *)
theory JournalViews
  imports Correction Validation Numeric OrderedMap
begin

text \<open>
  Two small views of the journal: the securities values an owner states for an account
  (\<open>projection/stated_securities.rs\<close>) and the instruments with a non-zero quantity
  (\<open>projection/active_instruments.rs\<close>). The lemmas give what each answers in terms of the
  replayed events.
\<close>

section \<open>Stated securities values\<close>

record stated_securities_value =
  ssv_amount :: money
  ssv_as_of :: date

record stated_securities_ledger =
  ssl_values :: "(account_id, (date, money) btree) btree"

definition stated_new :: stated_securities_ledger where
  "stated_new = \<lparr>ssl_values = []\<rparr>"

definition stated_record :: "stated_securities_ledger \<Rightarrow> account_id \<Rightarrow> date \<Rightarrow> money \<Rightarrow> stated_securities_ledger" where
  "stated_record s account as_of amount = s\<lparr>ssl_values := bt_upsert account [] (bt_insert as_of amount) (ssl_values s)\<rparr>"

definition stated_observe :: "stated_securities_ledger \<Rightarrow> event \<Rightarrow> stated_securities_ledger" where
  "stated_observe s e = (case e_kind e of
     StatedSecuritiesValue amount \<Rightarrow>
       (case effective_date (e_dates e) of
          None \<Rightarrow> s
        | Some as_of \<Rightarrow> stated_record s (e_account e) as_of amount)
   | _ \<Rightarrow> s)"

definition value_at_or_before :: "stated_securities_ledger \<Rightarrow> account_id \<Rightarrow> date \<Rightarrow> stated_securities_value option" where
  "value_at_or_before s account as_of = (case bt_get (ssl_values s) account of
     None \<Rightarrow> None
   | Some values \<Rightarrow> map_option (\<lambda>(on, amount). \<lparr>ssv_amount = amount, ssv_as_of = on\<rparr>) (bt_last_upto values as_of))"

section \<open>Active instruments\<close>

datatype active_instruments_error = ActiveNumeric numeric_error | ActiveCorrection correction_error

definition instrument_deltas :: "deps \<Rightarrow> event_kind \<Rightarrow> ((instrument_id \<times> decimal) list, numeric_error) result" where
  "instrument_deltas X k = (case k of
     Trade side instrument quantity _ _ _ _ _ \<Rightarrow>
       (case side of
          Buy \<Rightarrow> Ok [(instrument, quantity)]
        | Sell \<Rightarrow> and_then (dec_checked_neg X quantity) (\<lambda>n. Ok [(instrument, n)]))
   | OpeningPosition instrument quantity _ _ \<Rightarrow> Ok [(instrument, quantity)]
   | CorporateAction action \<Rightarrow>
       (case action of
          PartialRedemption instrument _ _ _ _ _ _ _ _ \<Rightarrow> Ok [(instrument, dec_zero)]
        | Redemption instrument _ quantity _ _ _ _ _ \<Rightarrow>
            and_then (dec_checked_neg X quantity) (\<lambda>n. Ok [(instrument, n)])
        | Conversion predecessor successor _ _ quantity_in quantity_out _ _ _ _ _ _ \<Rightarrow>
            and_then (dec_checked_neg X quantity_in) (\<lambda>n. Ok [(predecessor, n), (successor, quantity_out)]))
   | OfferExercise action \<Rightarrow>
       (case action of
          Submitted _ _ _ _ \<Rightarrow> Ok []
        | Cancelled _ _ \<Rightarrow> Ok []
        | Settled _ instrument _ quantity _ _ _ \<Rightarrow>
            and_then (dec_checked_neg X quantity) (\<lambda>n. Ok [(instrument, n)]))
   | _ \<Rightarrow> Ok [])"

definition add_delta :: "deps \<Rightarrow> (instrument_id, decimal) btree \<Rightarrow> instrument_id \<times> decimal
    \<Rightarrow> ((instrument_id, decimal) btree, numeric_error) result" where
  "add_delta X quantities d =
     map_ok (\<lambda>total. bt_insert (fst d) total quantities)
       (dec_checked_add X (case bt_get quantities (fst d) of None \<Rightarrow> dec_zero | Some q \<Rightarrow> q) (snd d))"

definition active_step :: "deps \<Rightarrow> (instrument_id, decimal) btree \<Rightarrow> event \<Rightarrow> ((instrument_id, decimal) btree, numeric_error) result" where
  "active_step X quantities e =
     and_then (instrument_deltas X (e_kind e)) (\<lambda>deltas. try_fold (add_delta X) quantities deltas)"

definition active_instruments :: "deps \<Rightarrow> event list \<Rightarrow> (instrument_id list, active_instruments_error) result" where
  "active_instruments X events =
     and_then (map_err ActiveCorrection (resolve events)) (\<lambda>effective.
     and_then (map_err ActiveNumeric (try_fold (active_step X) [] effective)) (\<lambda>quantities.
     Ok (map fst (filter (\<lambda>(_, quantity). \<not> d_is_zero X quantity) quantities))))"

section \<open>What the ledger of stated values answers\<close>

definition stated_lookup :: "stated_securities_ledger \<Rightarrow> account_id \<Rightarrow> date \<Rightarrow> money option" where
  "stated_lookup s a d = (case bt_get (ssl_values s) a of None \<Rightarrow> None | Some values \<Rightarrow> bt_get values d)"

definition stated_ok :: "stated_securities_ledger \<Rightarrow> bool" where
  "stated_ok s \<longleftrightarrow> bt_invar (ssl_values s) \<and> (\<forall>a values. bt_get (ssl_values s) a = Some values \<longrightarrow> bt_invar values)"

definition stated_in :: "event \<Rightarrow> (account_id \<times> date \<times> money) option" where
  "stated_in e = (case e_kind e of
     StatedSecuritiesValue amount \<Rightarrow> map_option (\<lambda>d. (e_account e, d, amount)) (effective_date (e_dates e))
   | _ \<Rightarrow> None)"

lemma stated_observe_eq:
  "stated_observe s e = (case stated_in e of None \<Rightarrow> s | Some (a, d, m) \<Rightarrow> stated_record s a d m)"
  by (auto simp: stated_observe_def stated_in_def split: event_kind.split option.split)

lemma stated_record_lookup:
  "stated_lookup (stated_record s a d m) b n = (if b = a \<and> n = d then Some m else stated_lookup s b n)"
  by (auto simp: stated_lookup_def stated_record_def bt_get_insert split: option.split)

lemma stated_record_ok: "stated_ok s \<Longrightarrow> stated_ok (stated_record s a d m)"
  by (auto simp: stated_ok_def stated_record_def bt.invar_insert bt.invar_empty split: if_splits option.splits)

interpretation stated: stateful stated_new "\<lambda>s e. Ok (stated_observe s e)" stated_ok
proof unfold_locales
  show "stated_ok stated_new" by (simp add: stated_ok_def stated_new_def bt_invar_def)
  show "stated_ok s'" if "stated_ok s" "Ok (stated_observe s e) = Ok s'" for s e s'
    using that by (auto simp: stated_observe_eq intro: stated_record_ok split: option.splits)
qed

definition statements :: "account_id \<Rightarrow> date \<Rightarrow> event list \<Rightarrow> money list" where
  "statements a d es = map (\<lambda>(_, _, m). m) (filter (\<lambda>(b, n, _). b = a \<and> n = d) (List.map_filter stated_in es))"

lemma statements_snoc:
  "statements a d (es @ [e]) = statements a d es @ (case stated_in e of None \<Rightarrow> [] | Some (b, n, m) \<Rightarrow> if b = a \<and> n = d then [m] else [])"
  by (auto simp: statements_def List.map_filter_def split: option.split)

lemma stated_fold_lookup:
  "stated_lookup (foldl stated_observe stated_new es) a d = (if statements a d es = [] then None else Some (last (statements a d es)))"
proof (induction es rule: rev_induct)
  case Nil
  then show ?case by (simp add: stated_lookup_def stated_new_def statements_def List.map_filter_simps)
next
  case (snoc e es)
  then show ?case
    by (simp add: stated_observe_eq statements_snoc split: option.split) (auto simp: stated_record_lookup)
qed

lemma stated_fold_ok: "stated_ok (foldl stated_observe stated_new es)"
proof (induction es rule: rev_induct)
  case (snoc e es)
  then show ?case using stated.inv_app by simp
qed (use stated.inv_init in simp)

lemma value_at_or_before_lookup:
  assumes "stated_ok s"
  shows "value_at_or_before s a d = Some v \<longleftrightarrow> ssv_as_of v \<le> d \<and> stated_lookup s a (ssv_as_of v) = Some (ssv_amount v) \<and>
     (\<forall>n w. stated_lookup s a n = Some w \<longrightarrow> n \<le> d \<longrightarrow> n \<le> ssv_as_of v)"
proof (cases "bt_get (ssl_values s) a")
  case None
  then show ?thesis by (simp add: value_at_or_before_def stated_lookup_def)
next
  case (Some vs)
  then have "bt_invar vs" using assms by (auto simp: stated_ok_def)
  note last = bt_last_upto_Some [OF this, of d "ssv_as_of v" "ssv_amount v"]
  have "value_at_or_before s a d = Some v \<longleftrightarrow> bt_last_upto vs d = Some (ssv_as_of v, ssv_amount v)"
    using Some by (cases v) (auto simp: value_at_or_before_def)
  then show ?thesis using Some last by (auto simp: stated_lookup_def)
qed

text \<open>The stated value asked for a day is the last one stated for the latest day not after it.\<close>

lemma stated_value_is_latest:
  assumes "value_at_or_before (foldl stated_observe stated_new es) a d = Some v"
  shows "ssv_as_of v \<le> d \<and> statements a (ssv_as_of v) es \<noteq> [] \<and> ssv_amount v = last (statements a (ssv_as_of v) es) \<and>
     (\<forall>n. ssv_as_of v < n \<and> n \<le> d \<longrightarrow> statements a n es = [])"
  using assms unfolding value_at_or_before_lookup [OF stated_fold_ok] stated_fold_lookup
  by (auto split: if_splits)

section \<open>What an active instrument is\<close>

definition amounts_of :: "instrument_id \<Rightarrow> (instrument_id \<times> decimal) list \<Rightarrow> decimal list" where
  "amounts_of i ds = map snd (filter (\<lambda>d. fst d = i) ds)"

definition holds_deltas :: "deps \<Rightarrow> (instrument_id, decimal) btree \<Rightarrow> (instrument_id \<times> decimal) list \<Rightarrow> bool" where
  "holds_deltas X m ds \<longleftrightarrow> bt_invar m \<and> (\<forall>i. case bt_get m i of
     None \<Rightarrow> amounts_of i ds = [] | Some q \<Rightarrow> dec_sum X (amounts_of i ds) = Ok q)"

lemma add_delta_holds:
  assumes "holds_deltas X m ds" "add_delta X m d = Ok m'"
  shows "holds_deltas X m' (ds @ [d])"
proof -
  obtain total where total: "dec_checked_add X (case bt_get m (fst d) of None \<Rightarrow> dec_zero | Some q \<Rightarrow> q) (snd d) = Ok total"
    and m': "m' = bt_insert (fst d) total m" using assms(2) by (auto simp: add_delta_def)
  have "dec_sum X (amounts_of (fst d) ds) = Ok (case bt_get m (fst d) of None \<Rightarrow> dec_zero | Some q \<Rightarrow> q)"
    using assms(1) unfolding holds_deltas_def
    by (cases "bt_get m (fst d)") (auto simp: dec_sum_def dest!: spec [of _ "fst d"])
  then have here: "dec_sum X (amounts_of (fst d) (ds @ [d])) = Ok total"
    using total by (simp add: amounts_of_def dec_sum_def try_fold_append)
  have other: "amounts_of i (ds @ [d]) = amounts_of i ds" if "i \<noteq> fst d" for i using that by (simp add: amounts_of_def)
  show ?thesis
    unfolding holds_deltas_def
  proof (intro conjI allI)
    show "bt_invar m'" using assms(1) by (simp add: m' holds_deltas_def bt.invar_insert)
    show "case bt_get m' i of None \<Rightarrow> amounts_of i (ds @ [d]) = [] | Some q \<Rightarrow> dec_sum X (amounts_of i (ds @ [d])) = Ok q" for i
    proof (cases "i = fst d")
      case True
      then show ?thesis by (simp add: m' bt_get_insert here)
    next
      case False
      show ?thesis unfolding other [OF False] using assms(1) False by (simp add: m' bt_get_insert holds_deltas_def)
    qed
  qed
qed

lemma add_deltas_hold:
  "try_fold (add_delta X) m ds' = Ok m' \<Longrightarrow> holds_deltas X m ds \<Longrightarrow> holds_deltas X m' (ds @ ds')"
proof (induction ds' arbitrary: m' rule: rev_induct)
  case (snoc d ds')
  from snoc.prems(1) obtain u where u: "try_fold (add_delta X) m ds' = Ok u" "add_delta X u d = Ok m'"
    by (auto simp: try_fold_snoc_Ok)
  show ?case using add_delta_holds [OF snoc.IH [OF u(1) snoc.prems(2)] u(2)] by simp
qed simp

lemma active_fold_holds:
  "try_fold (active_step X) [] es = Ok m \<Longrightarrow>
     \<exists>ds. try_map (\<lambda>e. instrument_deltas X (e_kind e)) es = Ok ds \<and> holds_deltas X m (concat ds)"
proof (induction es arbitrary: m rule: rev_induct)
  case Nil
  then show ?case by (auto simp: holds_deltas_def amounts_of_def bt_invar_def)
next
  case (snoc e es)
  from snoc.prems obtain u where u0: "try_fold (active_step X) [] es = Ok u" "active_step X u e = Ok m"
    by (auto simp: try_fold_snoc_Ok)
  then obtain deltas where u: "try_fold (active_step X) [] es = Ok u"
    "instrument_deltas X (e_kind e) = Ok deltas" "try_fold (add_delta X) u deltas = Ok m"
    by (auto simp: active_step_def)
  from snoc.IH [OF u(1)] obtain ds where ds: "try_map (\<lambda>e. instrument_deltas X (e_kind e)) es = Ok ds" "holds_deltas X u (concat ds)" by blast
  then have "try_map (\<lambda>e. instrument_deltas X (e_kind e)) (es @ [e]) = Ok (ds @ [deltas])"
    using u(2) by (simp add: try_map_Ok_iff list_all2_appendI)
  then show ?case using add_deltas_hold [OF u(3) ds(2)] by force
qed

text \<open>
  An instrument is active exactly when the quantities that the effective events of the
  journal add to it and take from it have a decimal sum that is not zero; an amortisation
  leaves the quantity as it is.
\<close>

lemma active_iff_sum_not_zero:
  assumes "order_laws X" "active_instruments X journal = Ok active"
  shows "\<exists>effective ds. resolve journal = Ok effective \<and> try_map (\<lambda>e. instrument_deltas X (e_kind e)) effective = Ok ds \<and>
    (\<forall>i. i \<in> set active \<longleftrightarrow> (\<exists>q. dec_sum X (amounts_of i (concat ds)) = Ok q \<and> dec_val q \<noteq> 0)) \<and> distinct active"
proof -
  from assms(2) obtain effective m where eff: "resolve journal = Ok effective" and m: "try_fold (active_step X) [] effective = Ok m"
    and active: "active = map fst (filter (\<lambda>(_, quantity). \<not> d_is_zero X quantity) m)"
    by (auto simp: active_instruments_def)
  from active_fold_holds [OF m] obtain ds where ds: "try_map (\<lambda>e. instrument_deltas X (e_kind e)) effective = Ok ds"
    and h: "holds_deltas X m (concat ds)" by blast
  have inv: "bt_invar m" using h by (simp add: holds_deltas_def)
  have zero: "d_is_zero X q \<longleftrightarrow> dec_val q = 0" for q using assms(1) by (simp add: order_laws_def)
  have "i \<in> set active \<longleftrightarrow> (\<exists>q. bt_get m i = Some q \<and> dec_val q \<noteq> 0)" for i
    using bt.get_entries [OF inv] by (force simp: active zero)
  moreover have "(\<exists>q. bt_get m i = Some q \<and> dec_val q \<noteq> 0) \<longleftrightarrow> (\<exists>q. dec_sum X (amounts_of i (concat ds)) = Ok q \<and> dec_val q \<noteq> 0)" for i
  proof (cases "bt_get m i")
    case None
    then have "amounts_of i (concat ds) = []" using h by (auto simp: holds_deltas_def dest: spec [of _ i])
    then show ?thesis using None by (simp add: dec_sum_def dec_zero_def dec_val_def)
  next
    case (Some q)
    then show ?thesis using h by (auto simp: holds_deltas_def dest: spec [of _ i])
  qed
  moreover have "distinct active" unfolding active using bt_invar_distinct [OF inv] by (simp add: distinct_map_filter case_prod_unfold)
  ultimately show ?thesis using eff ds by blast
qed

end
