(* ===== verification/PriceSelection.thy ===== *)
theory PriceSelection
  imports Prices
begin

text \<open>
  Which price values a position: \<open>valuation/candidate.rs\<close>, the policy of \<open>rules/valuation.rs\<close>,
  the decision of \<open>valuation/selection.rs\<close> over journal and market prices, and the meaning of a
  quotation in \<open>rules/quotation.rs\<close>. The policy narrows the eligible candidates five times; the
  lemmas show that this is the search for the one least candidate of a lexicographic order.
\<close>

section \<open>Candidates\<close>

datatype venue = Venue (v_board: string) (v_session: int)

datatype price_kind = Close | LegalClose | WeightedAverage | MarketPrice2 | MarketPrice3 | AdmittedQuote

fun price_kind_str :: "price_kind \<Rightarrow> string" where
  "price_kind_str Close = ''close''"
| "price_kind_str LegalClose = ''legal_close''"
| "price_kind_str WeightedAverage = ''weighted_average''"
| "price_kind_str MarketPrice2 = ''market_price_2''"
| "price_kind_str MarketPrice3 = ''market_price_3''"
| "price_kind_str AdmittedQuote = ''admitted_quote''"

datatype price_origin = Market venue price_kind | ReportParsed source_id | OwnerAsserted

datatype source_executability = SourceExecutable | IndicativePreviousClose | UnknownExecutability

datatype quotation_basis = MoneyPerUnit | PercentOfRemainingFace | UnknownBasis

fun quotation_basis_code :: "quotation_basis \<Rightarrow> string" where
  "quotation_basis_code MoneyPerUnit = ''money_per_unit''"
| "quotation_basis_code PercentOfRemainingFace = ''percent_of_remaining_face''"
| "quotation_basis_code UnknownBasis = ''unknown''"

definition quotation_basis_from_code :: "string \<Rightarrow> quotation_basis option" where
  "quotation_basis_from_code code = find (\<lambda>b. quotation_basis_code b = code) [MoneyPerUnit, PercentOfRemainingFace, UnknownBasis]"

datatype price_selection =
    AsObserved
  | SelectedCarriedForward date nat
  | SelectedLegacy price_quality

datatype price_freshness = Fresh | StaleFor nat

datatype uncovered_reason = NoObservation | TooOld | AmbiguousVenue | AmbiguousCandidate

record price_candidate =
  pc_instrument :: instrument_id
  pc_price :: decimal
  pc_currency :: currency_code
  pc_basis :: quotation_basis
  pc_basis_evidence :: string
  pc_basis_evidence_contradicts :: bool
  pc_trade_date :: date
  pc_observed_at :: "instant option"
  pc_origin :: price_origin
  pc_executability :: source_executability

record price_provenance =
  pp_price_kind :: "string option"
  pp_origin :: price_origin
  pp_venue :: "string option"
  pp_quotation_basis :: quotation_basis
  pp_basis_evidence :: string
  pp_observed_at :: "instant option"
  pp_valuation_policy_version :: nat
  pp_source_priority_version :: nat
  pp_carry_forward_limit :: nat
  pp_price_max_age :: nat

record selected_price =
  sp_candidate :: price_candidate
  sp_selection :: price_selection
  sp_freshness :: price_freshness
  sp_provenance :: price_provenance

record price_query =
  pq_instrument :: instrument_id
  pq_as_of :: date
  pq_knowledge_as_of :: instant

datatype legacy_valuation_outcome = LegacyCandidate price_candidate | LegacyDerived price_quality

fun legacy_candidate :: "legacy_valuation_outcome \<Rightarrow> price_candidate option" where
  "legacy_candidate (LegacyCandidate c) = Some c"
| "legacy_candidate (LegacyDerived _) = None"

fun legacy_quality :: "legacy_valuation_outcome \<Rightarrow> price_quality option" where
  "legacy_quality (LegacyCandidate _) = None"
| "legacy_quality (LegacyDerived q) = Some q"

fun candidate_from_legacy_valuation :: "price_quality \<Rightarrow> price_candidate \<Rightarrow> legacy_valuation_outcome" where
  "candidate_from_legacy_valuation Executable c = LegacyCandidate (c\<lparr>pc_executability := SourceExecutable\<rparr>)"
| "candidate_from_legacy_valuation PreviousClose c = LegacyCandidate (c\<lparr>pc_executability := IndicativePreviousClose\<rparr>)"
| "candidate_from_legacy_valuation OwnerEstimate c =
     LegacyCandidate (c\<lparr>pc_origin := OwnerAsserted, pc_executability := UnknownExecutability\<rparr>)"
| "candidate_from_legacy_valuation CarriedForward c = LegacyDerived CarriedForward"
| "candidate_from_legacy_valuation Stale c = LegacyDerived Stale"

section \<open>The policy\<close>

record price_selection_result =
  sr_selected :: "selected_price option"
  sr_uncovered_reason :: "uncovered_reason option"

record valuation_policy =
  vp_carry_forward_limit :: nat
  vp_price_max_age :: nat
  vp_source_priority_version :: nat

definition default_policy :: valuation_policy where
  "default_policy = \<lparr>vp_carry_forward_limit = 10, vp_price_max_age = 30, vp_source_priority_version = 1\<rparr>"

definition policy_version :: nat where
  "policy_version = 1"

fun origin_rank :: "price_origin \<Rightarrow> nat" where
  "origin_rank (Market _ _) = 0"
| "origin_rank (ReportParsed _) = 1"
| "origin_rank OwnerAsserted = 2"

fun price_kind_rank :: "price_origin \<Rightarrow> nat option" where
  "price_kind_rank (Market _ LegalClose) = Some 0"
| "price_kind_rank (Market _ MarketPrice2) = Some 1"
| "price_kind_rank (Market _ AdmittedQuote) = Some 2"
| "price_kind_rank (Market _ Close) = Some 3"
| "price_kind_rank _ = None"

fun is_market :: "price_origin \<Rightarrow> bool" where
  "is_market (Market _ _) = True"
| "is_market _ = False"

fun venue_of :: "price_origin \<Rightarrow> venue option" where
  "venue_of (Market venue _) = Some venue"
| "venue_of _ = None"

definition selection_for :: "valuation_policy \<Rightarrow> price_candidate \<Rightarrow> nat \<Rightarrow> price_selection \<times> price_freshness" where
  "selection_for p c age =
     (if age = 0 then AsObserved else SelectedCarriedForward (pc_trade_date c) age,
      if age \<le> vp_carry_forward_limit p then Fresh else StaleFor age)"

definition provenance_of :: "valuation_policy \<Rightarrow> price_candidate \<Rightarrow> price_provenance" where
  "provenance_of p c =
     (let (kind, venue) = (case pc_origin c of
            Market venue kind \<Rightarrow> (Some (price_kind_str kind), Some (v_board venue))
          | ReportParsed _ \<Rightarrow> (None, None)
          | OwnerAsserted \<Rightarrow> (None, None)) in
      \<lparr>pp_price_kind = kind, pp_origin = pc_origin c, pp_venue = venue, pp_quotation_basis = pc_basis c,
       pp_basis_evidence = pc_basis_evidence c, pp_observed_at = pc_observed_at c,
       pp_valuation_policy_version = policy_version, pp_source_priority_version = vp_source_priority_version p,
       pp_carry_forward_limit = vp_carry_forward_limit p, pp_price_max_age = vp_price_max_age p\<rparr>)"

text \<open>\<open>u16::try_from\<close>.\<close>

definition to_u16 :: "int \<Rightarrow> nat option" where
  "to_u16 x = (if 0 \<le> x \<and> x < 2 ^ 16 then Some (nat x) else None)"

text \<open>One round of the loop over the candidates: those that match, with their age, and whether one was too old.\<close>

definition screen :: "valuation_policy \<Rightarrow> price_query \<Rightarrow> (nat \<times> price_candidate) list \<times> bool \<Rightarrow> price_candidate
    \<Rightarrow> (nat \<times> price_candidate) list \<times> bool" where
  "screen p q st c =
     (if pc_instrument c \<noteq> pq_instrument q then st
      else if pq_as_of q < pc_trade_date c then st
      else if (case pc_observed_at c of None \<Rightarrow> False | Some t \<Rightarrow> pq_knowledge_as_of q < t) then st
      else
        let age = pq_as_of q - pc_trade_date c in
        if age < 0 then st
        else case to_u16 age of
          None \<Rightarrow> (fst st, True)
        | Some age \<Rightarrow>
            if vp_price_max_age p < age then (fst st, True)
            else if is_market (pc_origin c) \<and> price_kind_rank (pc_origin c) = None then st
            else (fst st @ [(age, c)], snd st))"

definition min_of :: "'a::linorder list \<Rightarrow> 'a option" where
  "min_of xs = (if xs = [] then None else Some (min_list xs))"

definition max_of :: "'a::linorder list \<Rightarrow> 'a option" where
  "max_of xs = (if xs = [] then None else Some (Max (set xs)))"

definition uncovered :: "uncovered_reason \<Rightarrow> price_selection_result" where
  "uncovered r = \<lparr>sr_selected = None, sr_uncovered_reason = Some r\<rparr>"

definition retain_kind :: "(nat \<times> price_candidate) list \<Rightarrow> (nat \<times> price_candidate) list" where
  "retain_kind cs = (case min_of (List.map_filter (\<lambda>x. price_kind_rank (pc_origin (snd x))) cs) of
     None \<Rightarrow> cs
   | Some k \<Rightarrow> filter (\<lambda>x. price_kind_rank (pc_origin (snd x)) = Some k) cs)"

definition retain_latest :: "(nat \<times> price_candidate) list \<Rightarrow> (nat \<times> price_candidate) list" where
  "retain_latest cs = (case max_of (List.map_filter (\<lambda>x. pc_observed_at (snd x)) cs) of
     None \<Rightarrow> cs
   | Some t \<Rightarrow> filter (\<lambda>x. pc_observed_at (snd x) = Some t) cs)"

definition ambiguous_venue :: "(nat \<times> price_candidate) list \<Rightarrow> bool" where
  "ambiguous_venue cs \<longleftrightarrow> list_all (\<lambda>x. is_market (pc_origin (snd x))) cs \<and>
     length (remdups (List.map_filter (\<lambda>x. venue_of (pc_origin (snd x))) cs)) > 1"

definition select_price :: "valuation_policy \<Rightarrow> price_query \<Rightarrow> price_candidate list \<Rightarrow> (price_selection_result, unit) result" where
  "select_price p q candidates =
     (let (matching, too_old) = foldl (screen p q) ([], False) candidates in
      if matching = [] then Ok (uncovered (if too_old then TooOld else NoObservation))
      else
        and_then (expect (min_of (map fst matching))) (\<lambda>min_age.
        let matching = filter (\<lambda>x. fst x = min_age) matching in
        and_then (expect (min_of (map (\<lambda>x. origin_rank (pc_origin (snd x))) matching))) (\<lambda>min_origin.
        let matching = filter (\<lambda>x. origin_rank (pc_origin (snd x)) = min_origin) matching in
        if ambiguous_venue matching then Ok (uncovered AmbiguousVenue)
        else
          let matching = retain_latest (retain_kind matching) in
          if length matching \<noteq> 1 then Ok (uncovered AmbiguousCandidate)
          else
            let (age, c) = last matching; (selection, freshness) = selection_for p c age in
            Ok \<lparr>sr_selected = Some \<lparr>sp_candidate = c, sp_selection = selection, sp_freshness = freshness,
                 sp_provenance = provenance_of p c\<rparr>, sr_uncovered_reason = None\<rparr>)))"

section \<open>The decision\<close>

definition journal_source :: source_id where
  "journal_source = SourceId 0"

record price_inputs =
  pi_board :: price_board
  pi_market :: "price_candidate list"
  pi_source_priority :: nat

datatype price_decision =
    DecisionSelected selected_price
  | DecisionLegacy price_quality "instrument_price option"
  | DecisionUncovered uncovered_reason

definition journal_candidate :: "instrument_price \<Rightarrow> price_candidate" where
  "journal_candidate price =
     \<lparr>pc_instrument = ip_instrument price, pc_price = ip_price price, pc_currency = ip_currency price,
      pc_basis = MoneyPerUnit, pc_basis_evidence = ''journal:valuation'', pc_basis_evidence_contradicts = False,
      pc_trade_date = ip_as_of price, pc_observed_at = None, pc_origin = ReportParsed journal_source,
      pc_executability = UnknownExecutability\<rparr>"

definition journal_step :: "price_candidate list \<times> price_quality option \<times> instrument_price option \<Rightarrow> instrument_price
    \<Rightarrow> price_candidate list \<times> price_quality option \<times> instrument_price option" where
  "journal_step st price =
     (let (candidates, legacy, newest) = st;
          newest = (case newest of None \<Rightarrow> Some price | Some _ \<Rightarrow> newest) in
      case candidate_from_legacy_valuation (ip_quality price) (journal_candidate price) of
        LegacyCandidate c \<Rightarrow> (candidates @ [c], legacy, newest)
      | LegacyDerived quality \<Rightarrow> (candidates, (case legacy of None \<Rightarrow> Some quality | Some _ \<Rightarrow> legacy), newest))"

definition decide_price :: "price_inputs \<Rightarrow> price_query \<Rightarrow> (price_decision, unit) result" where
  "decide_price inputs q =
     (let policy = default_policy\<lparr>vp_source_priority_version := pi_source_priority inputs\<rparr>;
          (candidates, legacy, newest) =
            foldl journal_step ([], None, None) (observations_at_or_before (pi_board inputs) (pq_instrument q) (pq_as_of q));
          candidates = candidates @ filter (\<lambda>c. pc_instrument c = pq_instrument q \<and> pc_trade_date c \<le> pq_as_of q) (pi_market inputs) in
      if candidates = [] then
        (case legacy of
           Some quality \<Rightarrow> Ok (DecisionLegacy quality newest)
         | None \<Rightarrow> Ok (DecisionUncovered NoObservation))
      else
        and_then (select_price policy q candidates) (\<lambda>result.
        case sr_selected result of
          Some selected \<Rightarrow> Ok (DecisionSelected selected)
        | None \<Rightarrow> Ok (DecisionUncovered (case sr_uncovered_reason result of None \<Rightarrow> NoObservation | Some r \<Rightarrow> r))))"

section \<open>Quotations\<close>

datatype quotation_error = BasisUnknown | PrincipalUnknown | QuotationNumeric numeric_error

definition money_per_unit :: "deps \<Rightarrow> quotation_basis \<Rightarrow> decimal \<Rightarrow> currency_code \<Rightarrow> per_unit_amount option
    \<Rightarrow> (decimal \<times> currency_code, quotation_error) result" where
  "money_per_unit X basis price venue_currency remaining_face = (case basis of
     MoneyPerUnit \<Rightarrow> Ok (price, venue_currency)
   | PercentOfRemainingFace \<Rightarrow>
       and_then (ok_or remaining_face PrincipalUnknown) (\<lambda>face.
       and_then (map_err QuotationNumeric (dec_checked_div X price (Decimal 100 0))) (\<lambda>fraction.
       and_then (map_err QuotationNumeric (dec_checked_mul X fraction (p_value face))) (\<lambda>money.
       Ok (money, p_currency face))))
   | UnknownBasis \<Rightarrow> Err BasisUnknown)"

section \<open>The least candidate\<close>

definition least_by :: "('a \<Rightarrow> 'k::linorder) \<Rightarrow> 'a list \<Rightarrow> 'a list" where
  "least_by f xs = filter (\<lambda>x. \<forall>y \<in> set xs. f x \<le> f y) xs"

lemma least_by_twice: "least_by g (least_by f xs) = least_by (\<lambda>x. (f x, g x)) xs"
proof -
  have "(x \<in> set (least_by f xs) \<and> (\<forall>y \<in> set (least_by f xs). g x \<le> g y)) \<longleftrightarrow> (\<forall>y \<in> set xs. (f x, g x) \<le> (f y, g y))"
    if x: "x \<in> set xs" for x
  proof
    assume l: "x \<in> set (least_by f xs) \<and> (\<forall>y \<in> set (least_by f xs). g x \<le> g y)"
    show "\<forall>y \<in> set xs. (f x, g x) \<le> (f y, g y)"
    proof
      fix y assume y: "y \<in> set xs"
      show "(f x, g x) \<le> (f y, g y)"
      proof (cases "f x = f y")
        case True
        then have "y \<in> set (least_by f xs)" using l y by (simp add: least_by_def)
        then show ?thesis using l True by simp
      next
        case False
        then show ?thesis using l y by (auto simp: least_by_def less_le)
      qed
    qed
  next
    assume r: "\<forall>y \<in> set xs. (f x, g x) \<le> (f y, g y)"
    then have "x \<in> set (least_by f xs)" using x by (auto simp: least_by_def)
    moreover have "g x \<le> g y" if "y \<in> set (least_by f xs)" for y
      using that r x by (force simp: least_by_def)
    ultimately show "x \<in> set (least_by f xs) \<and> (\<forall>y \<in> set (least_by f xs). g x \<le> g y)" by blast
  qed
  then show ?thesis by (simp add: least_by_def cong: filter_cong)
qed

lemma least_by_Nil: "least_by f [] = []"
  by (simp add: least_by_def)

lemma least_by_nonempty: "xs \<noteq> [] \<Longrightarrow> least_by f xs \<noteq> []"
proof -
  assume "xs \<noteq> []"
  then have "Min (f ` set xs) \<in> f ` set xs" by (intro Min_in) simp_all
  then obtain x where "x \<in> set xs" "f x = Min (f ` set xs)" by (elim imageE) simp
  then have "x \<in> set (least_by f xs)" by (auto simp: least_by_def)
  then show ?thesis by force
qed

lemma min_of_Some: "xs \<noteq> [] \<Longrightarrow> min_of (map f xs) = Some (Min (f ` set xs))"
  by (simp add: min_of_def min_list_Min)

lemma retain_min: "xs \<noteq> [] \<Longrightarrow> filter (\<lambda>x. f x = Min (f ` set xs)) xs = least_by f xs"
  unfolding least_by_def by (rule filter_cong [OF refl]) (auto simp: eq_Min_iff)

definition eligible :: "valuation_policy \<Rightarrow> price_query \<Rightarrow> price_candidate \<Rightarrow> bool" where
  "eligible p q c \<longleftrightarrow> pc_instrument c = pq_instrument q \<and> pc_trade_date c \<le> pq_as_of q
     \<and> (case pc_observed_at c of None \<Rightarrow> True | Some t \<Rightarrow> t \<le> pq_knowledge_as_of q)
     \<and> pq_as_of q - pc_trade_date c < 2 ^ 16 \<and> pq_as_of q - pc_trade_date c \<le> int (vp_price_max_age p)
     \<and> (is_market (pc_origin c) \<longrightarrow> price_kind_rank (pc_origin c) \<noteq> None)"

definition price_age :: "price_query \<Rightarrow> price_candidate \<Rightarrow> nat" where
  "price_age q c = nat (pq_as_of q - pc_trade_date c)"

definition kind_rank :: "price_candidate \<Rightarrow> nat" where
  "kind_rank c = (case price_kind_rank (pc_origin c) of None \<Rightarrow> 0 | Some k \<Rightarrow> k)"

definition recency :: "price_candidate \<Rightarrow> nat \<times> int" where
  "recency c = (case pc_observed_at c of None \<Rightarrow> (1, 0) | Some t \<Rightarrow> (0, - t))"

text \<open>The order of preference: the youngest, then by origin, then by kind of price, then the latest observation.\<close>

definition preference :: "price_query \<Rightarrow> price_candidate \<Rightarrow> ((nat \<times> nat) \<times> nat) \<times> nat \<times> int" where
  "preference q c = (((price_age q c, origin_rank (pc_origin c)), kind_rank c), recency c)"

lemma screen_step:
  "fst (screen p q st c) = fst st @ (if eligible p q c then [(price_age q c, c)] else [])"
  by (auto simp: screen_def eligible_def price_age_def to_u16_def Let_def split: option.splits)

lemma screened: "fst (foldl (screen p q) st cs) = fst st @ map (\<lambda>c. (price_age q c, c)) (filter (eligible p q) cs)"
  by (induction cs arbitrary: st) (simp_all add: screen_step)

lemma map_filter_homogeneous:
  "(\<forall>x \<in> set xs. f x = None) \<Longrightarrow> List.map_filter f xs = []"
  "(\<forall>x \<in> set xs. f x \<noteq> None) \<Longrightarrow> List.map_filter f xs = map (\<lambda>x. the (f x)) xs"
  by (induction xs) (auto simp: map_filter_simps split: option.splits)

lemma retain_kind_least:
  assumes "\<forall>x \<in> set xs. origin_rank (pc_origin (snd x)) = r"
    and "\<forall>x \<in> set xs. is_market (pc_origin (snd x)) \<longrightarrow> price_kind_rank (pc_origin (snd x)) \<noteq> None"
  shows "retain_kind xs = least_by (\<lambda>x. kind_rank (snd x)) xs"
proof (cases "xs = []")
  case True
  then show ?thesis by (simp add: retain_kind_def least_by_def min_of_def map_filter_simps)
next
  case ne: False
  show ?thesis
  proof (cases "r = 0")
    case True
    have mk: "is_market (pc_origin (snd x))" if "x \<in> set xs" for x
      using assms(1) that True by (cases "pc_origin (snd x)") auto
    then have some: "price_kind_rank (pc_origin (snd x)) = Some (kind_rank (snd x))" if "x \<in> set xs" for x
      using assms(2) that by (auto simp: kind_rank_def)
    have "List.map_filter (\<lambda>x. price_kind_rank (pc_origin (snd x))) xs = map (\<lambda>x. kind_rank (snd x)) xs"
      using map_filter_homogeneous(2) [of xs "\<lambda>x. price_kind_rank (pc_origin (snd x))"] some by simp
    then have "retain_kind xs = filter (\<lambda>x. kind_rank (snd x) = Min ((\<lambda>x. kind_rank (snd x)) ` set xs)) xs"
      unfolding retain_kind_def using min_of_Some [OF ne, of "\<lambda>x. kind_rank (snd x)"] some
      by (simp cong: filter_cong)
    then show ?thesis by (simp add: retain_min [OF ne])
  next
    case False
    have none: "price_kind_rank (pc_origin (snd x)) = None" if "x \<in> set xs" for x
      using assms(1) that False by (cases "pc_origin (snd x)") auto
    then have "List.map_filter (\<lambda>x. price_kind_rank (pc_origin (snd x))) xs = []"
      by (intro map_filter_homogeneous(1)) blast
    then show ?thesis using none by (simp add: retain_kind_def min_of_def least_by_def kind_rank_def)
  qed
qed

lemma map_filter_set: "y \<in> set (List.map_filter f xs) \<longleftrightarrow> (\<exists>x \<in> set xs. f x = Some y)"
  by (induction xs) (auto simp: map_filter_simps split: option.splits)

lemma retain_latest_least: "retain_latest xs = least_by (\<lambda>x. recency (snd x)) xs"
proof (cases "\<exists>x \<in> set xs. pc_observed_at (snd x) \<noteq> None")
  case False
  then have "List.map_filter (\<lambda>x. pc_observed_at (snd x)) xs = []"
    by (intro map_filter_homogeneous(1)) blast
  then show ?thesis using False by (simp add: retain_latest_def max_of_def least_by_def recency_def)
next
  case True
  define ts where "ts = List.map_filter (\<lambda>x. pc_observed_at (snd x)) xs"
  have set_ts: "t \<in> set ts \<longleftrightarrow> (\<exists>x \<in> set xs. pc_observed_at (snd x) = Some t)" for t by (simp add: ts_def map_filter_set)
  have ne: "ts \<noteq> []" using True set_ts by force
  have top: "t \<le> Max (set ts)" if "x \<in> set xs" "pc_observed_at (snd x) = Some t" for x t
    using set_ts that by (intro Max_ge) auto
  have latest: "pc_observed_at (snd x) = Some (Max (set ts)) \<longleftrightarrow> (\<forall>y \<in> set xs. recency (snd x) \<le> recency (snd y))"
    if "x \<in> set xs" for x
  proof
    assume x: "pc_observed_at (snd x) = Some (Max (set ts))"
    show "\<forall>y \<in> set xs. recency (snd x) \<le> recency (snd y)"
    proof
      fix y assume "y \<in> set xs"
      then show "recency (snd x) \<le> recency (snd y)"
        using x top [of y] by (simp add: recency_def split: option.split)
    qed
  next
    assume le: "\<forall>y \<in> set xs. recency (snd x) \<le> recency (snd y)"
    obtain z where z: "z \<in> set xs" "pc_observed_at (snd z) = Some (Max (set ts))" using ne set_ts Max_in [of "set ts"] by auto
    have "recency (snd x) \<le> (0, - Max (set ts))" using le z by (force simp: recency_def)
    then show "pc_observed_at (snd x) = Some (Max (set ts))"
      using top [OF that] by (auto simp: recency_def split: option.splits intro: order_antisym)
  qed
  have "retain_latest xs = filter (\<lambda>x. pc_observed_at (snd x) = Some (Max (set ts))) xs"
    using ne by (simp add: retain_latest_def max_of_def ts_def [symmetric])
  also have "\<dots> = least_by (\<lambda>x. recency (snd x)) xs" unfolding least_by_def by (rule filter_cong [OF refl]) (rule latest)
  finally show ?thesis .
qed

abbreviation tagged :: "price_query \<Rightarrow> price_candidate \<Rightarrow> nat \<times> price_candidate" where
  "tagged q \<equiv> \<lambda>c. (price_age q c, c)"

definition front :: "price_query \<Rightarrow> price_candidate \<Rightarrow> nat \<times> nat" where
  "front q c = (price_age q c, origin_rank (pc_origin c))"

lemma least_by_tagged: "least_by f (map (tagged q) cs) = map (tagged q) (least_by (\<lambda>c. f (tagged q c)) cs)"
  by (simp add: least_by_def filter_map comp_def)

lemma least_by_set: "x \<in> set (least_by f xs) \<longleftrightarrow> x \<in> set xs \<and> (\<forall>y \<in> set xs. f x \<le> f y)"
  by (simp add: least_by_def)

lemma select_price_eq:
  fixes p q cs
  defines "es \<equiv> filter (eligible p q) cs"
  shows "select_price p q cs =
    (if es = [] then Ok (uncovered (if snd (foldl (screen p q) ([], False) cs) then TooOld else NoObservation))
     else if ambiguous_venue (map (tagged q) (least_by (front q) es)) then Ok (uncovered AmbiguousVenue)
     else if length (least_by (preference q) es) \<noteq> 1 then Ok (uncovered AmbiguousCandidate)
     else let c = last (least_by (preference q) es) in
       Ok \<lparr>sr_selected = Some \<lparr>sp_candidate = c, sp_selection = fst (selection_for p c (price_age q c)),
             sp_freshness = snd (selection_for p c (price_age q c)), sp_provenance = provenance_of p c\<rparr>,
           sr_uncovered_reason = None\<rparr>)"
proof -
  obtain too_old where fold: "foldl (screen p q) ([], False) cs = (map (tagged q) es, too_old)"
    using screened [of p q "([], False)" cs] by (metis append_Nil es_def fst_conv prod.collapse)
  show ?thesis
  proof (cases "es = []")
    case True
    then show ?thesis by (simp add: select_price_def fold)
  next
    case ne: False
    define E where "E = map (tagged q) es"
    have fold': "foldl (screen p q) ([], False) cs = (E, too_old)" by (simp add: fold E_def)
    have E_ne: "E \<noteq> []" using ne by (simp add: E_def)
    define m1 where "m1 = least_by fst E"
    define m2 where "m2 = least_by (\<lambda>x. origin_rank (pc_origin (snd x))) m1"
    have m1_ne: "m1 \<noteq> []" using E_ne by (simp add: m1_def least_by_nonempty)
    have a: "min_of (map fst E) = Some (Min (fst ` set E))" by (rule min_of_Some [OF E_ne])
    have b: "filter (\<lambda>x. fst x = Min (fst ` set E)) E = m1" unfolding m1_def by (rule retain_min [OF E_ne])
    have c: "min_of (map (\<lambda>x. origin_rank (pc_origin (snd x))) m1) = Some (Min ((\<lambda>x. origin_rank (pc_origin (snd x))) ` set m1))"
      by (rule min_of_Some [OF m1_ne])
    have d: "filter (\<lambda>x. origin_rank (pc_origin (snd x)) = Min ((\<lambda>x. origin_rank (pc_origin (snd x))) ` set m1)) m1 = m2"
      unfolding m2_def by (rule retain_min [OF m1_ne])
    have m2: "m2 = map (tagged q) (least_by (front q) es)"
      by (simp add: m2_def m1_def E_def least_by_twice least_by_tagged front_def [abs_def])
    have "retain_kind m2 = least_by (\<lambda>x. kind_rank (snd x)) m2"
    proof (rule retain_kind_least)
      show "\<forall>x \<in> set m2. origin_rank (pc_origin (snd x)) = origin_rank (pc_origin (snd (hd m2)))"
      proof
        fix x assume x: "x \<in> set m2"
        then have hd: "hd m2 \<in> set m2" by (intro hd_in_set) force
        show "origin_rank (pc_origin (snd x)) = origin_rank (pc_origin (snd (hd m2)))"
          using x hd unfolding m2_def least_by_set by (intro order_antisym) blast+
      qed
      show "\<forall>x \<in> set m2. is_market (pc_origin (snd x)) \<longrightarrow> price_kind_rank (pc_origin (snd x)) \<noteq> None"
        by (auto simp: m2 least_by_set es_def eligible_def)
    qed
    then have m4: "retain_latest (retain_kind m2) = map (tagged q) (least_by (preference q) es)"
      by (simp add: retain_latest_least m2 least_by_twice least_by_tagged front_def [abs_def] preference_def [abs_def])
    have "select_price p q cs =
      (if ambiguous_venue m2 then Ok (uncovered AmbiguousVenue)
       else let m = retain_latest (retain_kind m2) in
         if length m \<noteq> 1 then Ok (uncovered AmbiguousCandidate)
         else let (age, c) = last m; (selection, freshness) = selection_for p c age in
           Ok \<lparr>sr_selected = Some \<lparr>sp_candidate = c, sp_selection = selection, sp_freshness = freshness,
                 sp_provenance = provenance_of p c\<rparr>, sr_uncovered_reason = None\<rparr>)"
      unfolding select_price_def fold' prod.case Let_def
      by (simp only: E_ne if_False a b c d expect_def option.case and_then.simps)
    then show ?thesis
      using ne unfolding m4 by (simp add: m2 last_map Let_def case_prod_beta least_by_nonempty)
  qed
qed

text \<open>The one candidate before all other eligible ones, quoted on one venue only.\<close>

definition sole_best :: "valuation_policy \<Rightarrow> price_query \<Rightarrow> price_candidate list \<Rightarrow> price_candidate \<Rightarrow> bool" where
  "sole_best p q cs c \<longleftrightarrow> count_list cs c = 1 \<and> eligible p q c
     \<and> (\<forall>c' \<in> set cs. eligible p q c' \<and> c' \<noteq> c \<longrightarrow> preference q c < preference q c')
     \<and> (\<forall>c' \<in> set cs. eligible p q c' \<and> is_market (pc_origin c) \<and> is_market (pc_origin c') \<and> price_age q c' = price_age q c \<longrightarrow>
          venue_of (pc_origin c') = venue_of (pc_origin c))"

lemma count_list_filter: "count_list cs c = length (filter (\<lambda>x. x = c) cs)"
  by (induction cs) simp_all

lemma singleton_least:
  "least_by (preference q) (filter (eligible p q) cs) = [c] \<longleftrightarrow>
     count_list cs c = 1 \<and> eligible p q c \<and> (\<forall>c' \<in> set cs. eligible p q c' \<and> c' \<noteq> c \<longrightarrow> preference q c < preference q c')"
    (is "?L = _ \<longleftrightarrow> ?R")
proof
  assume L: "?L = [c]"
  then have only: "x \<in> set ?L \<longleftrightarrow> x = c" for x by simp
  then have c: "c \<in> set cs" "eligible p q c" "\<And>y. y \<in> set cs \<Longrightarrow> eligible p q y \<Longrightarrow> preference q c \<le> preference q y"
    by (auto simp: least_by_set)
  have strict: "preference q c < preference q y" if "y \<in> set cs" "eligible p q y" "y \<noteq> c" for y
    using c that only [of y] by (force simp: least_by_set less_le)
  have "filter (\<lambda>x. x = c) cs = filter (\<lambda>x. x = c) ?L"
    using c by (auto simp: least_by_def filter_filter intro!: filter_cong)
  then have "count_list cs c = 1" using L by (simp add: count_list_filter)
  then show ?R using c strict by blast
next
  assume R: ?R
  then have c: "c \<in> set cs" by (metis count_notin zero_neq_one)
  have "?L = filter (\<lambda>x. x = c) cs"
    unfolding least_by_def filter_filter using R c
    by (intro filter_cong [OF refl]) (auto simp: not_le [symmetric] intro: less_imp_le)
  moreover have "length (filter (\<lambda>x. x = c) cs) = 1" using R by (simp add: count_list_filter)
  ultimately obtain x where x: "?L = [x]" "x \<in> set (filter (\<lambda>x. x = c) cs)" by (auto simp: length_Suc_conv)
  then show "?L = [c]" by simp
qed

lemma front_eq: "c \<in> set (least_by (front q) es) \<Longrightarrow> c' \<in> set (least_by (front q) es) \<Longrightarrow> front q c' = front q c"
  by (simp add: least_by_set order_antisym)

lemma rank_market: "origin_rank (pc_origin c) = 0 \<longleftrightarrow> is_market (pc_origin c)"
  by (cases "pc_origin c") simp_all

lemma venue_unambiguous:
  assumes c: "c \<in> set (least_by (front q) es)"
  shows "\<not> ambiguous_venue (map (tagged q) (least_by (front q) es)) \<longleftrightarrow>
    (\<forall>c' \<in> set es. is_market (pc_origin c) \<and> is_market (pc_origin c') \<and> price_age q c' = price_age q c \<longrightarrow>
       venue_of (pc_origin c') = venue_of (pc_origin c))"
proof (cases "is_market (pc_origin c)")
  case False
  then have "\<not> ambiguous_venue (map (tagged q) (least_by (front q) es))"
    using c by (auto simp: ambiguous_venue_def list_all_iff)
  then show ?thesis using False by blast
next
  case True
  let ?L = "least_by (front q) es"
  have L: "c' \<in> set ?L \<longleftrightarrow> c' \<in> set es \<and> is_market (pc_origin c') \<and> price_age q c' = price_age q c" for c'
  proof
    assume c': "c' \<in> set ?L"
    then show "c' \<in> set es \<and> is_market (pc_origin c') \<and> price_age q c' = price_age q c"
      using front_eq [OF c c'] True rank_market [of c] rank_market [of c'] by (auto simp: least_by_set front_def)
  next
    assume c': "c' \<in> set es \<and> is_market (pc_origin c') \<and> price_age q c' = price_age q c"
    then have "front q c' = front q c" using True rank_market [of c] rank_market [of c'] by (simp add: front_def)
    then show "c' \<in> set ?L" using c c' by (simp add: least_by_set)
  qed
  define vs where "vs = List.map_filter (\<lambda>x. venue_of (pc_origin (snd x))) (map (tagged q) ?L)"
  have set_vs: "v \<in> set vs \<longleftrightarrow> (\<exists>c' \<in> set ?L. venue_of (pc_origin c') = Some v)" for v by (simp add: vs_def map_filter_set)
  obtain v where v: "venue_of (pc_origin c) = Some v" using True by (cases "pc_origin c") simp_all
  have some: "\<exists>w. venue_of (pc_origin c') = Some w" if "c' \<in> set ?L" for c'
    using that L by (cases "pc_origin c'") auto
  have "\<not> ambiguous_venue (map (tagged q) ?L) \<longleftrightarrow> card (set vs) \<le> 1"
    using L by (auto simp: ambiguous_venue_def list_all_iff length_remdups_card_conv vs_def)
  also have "\<dots> \<longleftrightarrow> (\<forall>w \<in> set vs. w = v)"
  proof -
    have "v \<in> set vs" using set_vs c v by blast
    then show ?thesis by (metis One_nat_def List.finite_set card_le_Suc0_iff_eq)
  qed
  also have "\<dots> \<longleftrightarrow> (\<forall>c' \<in> set ?L. venue_of (pc_origin c') = venue_of (pc_origin c))"
    using set_vs v some by (metis option.inject)
  finally show ?thesis using L True by blast
qed

lemma least_preference_front: "c \<in> set (least_by (preference q) es) \<Longrightarrow> c \<in> set (least_by (front q) es)"
  by (auto simp: least_by_set preference_def front_def)

text \<open>
  (C35) Price selection never panics and finds the one best candidate: a price is selected
  exactly if one candidate is before all other eligible ones (the youngest, then by origin, by
  kind of price and by time of observation), occurs once, and the market quotes of its day come
  from one venue; then that candidate is selected, and it is called fresh exactly within the
  carry-forward limit. A candidate later than the query or than the knowledge date, too old, or of an unsupported kind never
  plays a part.
\<close>

theorem selection_is_sole_best:
  "\<exists>r. select_price p q cs = Ok r \<and>
     (case sr_selected r of
        None \<Rightarrow> (\<forall>c. \<not> sole_best p q cs c) \<and> sr_uncovered_reason r \<noteq> None
      | Some sp \<Rightarrow> sole_best p q cs (sp_candidate sp) \<and> sr_uncovered_reason r = None
          \<and> (sp_freshness sp = Fresh \<longleftrightarrow> price_age q (sp_candidate sp) \<le> vp_carry_forward_limit p))"
proof -
  let ?es = "filter (eligible p q) cs"
  have sole: "sole_best p q cs c \<longleftrightarrow> least_by (preference q) ?es = [c] \<and> \<not> ambiguous_venue (map (tagged q) (least_by (front q) ?es))" for c
  proof (cases "least_by (preference q) ?es = [c]")
    case True
    then have "c \<in> set (least_by (front q) ?es)" by (intro least_preference_front) simp
    then show ?thesis using True singleton_least [of q p cs c] venue_unambiguous [of c q ?es] by (auto simp: sole_best_def)
  next
    case False
    then show ?thesis using singleton_least [of q p cs c] by (auto simp: sole_best_def)
  qed
  show ?thesis
  proof (cases "?es = [] \<or> ambiguous_venue (map (tagged q) (least_by (front q) ?es)) \<or> length (least_by (preference q) ?es) \<noteq> 1")
    case True
    then have "\<not> sole_best p q cs c" for c using sole [of c] by (elim disjE) (force simp: least_by_Nil)+
    then show ?thesis using True by (auto simp: select_price_eq uncovered_def)
  next
    case False
    then obtain c where c: "least_by (preference q) ?es = [c]" by (auto simp: length_Suc_conv)
    then have "sole_best p q cs c" using False sole by blast
    then show ?thesis using False c by (simp add: select_price_eq Let_def selection_for_def)
  qed
qed

end
