(* ===== verification/Mirroring.thy ===== *)
theory Mirroring
  imports Money Identity OrderedMap "HOL-Library.Multiset"
begin

text \<open>
  Rows of one document that are one movement seen twice, \<open>iaam-ingest/src/mirror.rs\<close>: a
  departure from one account and an arrival on another, paired where nothing in the document
  leaves a choice. The lemmas show that the pairing is sound, that no row is used twice or lost,
  and what the reason given for an unpaired row means.
\<close>

section \<open>Sides and pairs\<close>

datatype movement = In | Out

record mirror_side =
  ms_row :: nat
  ms_account :: account_id
  ms_direction :: movement
  ms_amount_minor :: int
  ms_currency :: currency_code
  ms_date :: date
  ms_far_side :: "account_id option"

datatype mirror_evidence = BothSidesNamed | OneSideNamed | ShapeAlone

fun evidence_is_named :: "mirror_evidence \<Rightarrow> bool" where
  "evidence_is_named BothSidesNamed = True"
| "evidence_is_named OneSideNamed = True"
| "evidence_is_named ShapeAlone = False"

fun mirror_evidence_code :: "mirror_evidence \<Rightarrow> string" where
  "mirror_evidence_code BothSidesNamed = ''both_sides_named''"
| "mirror_evidence_code OneSideNamed = ''one_side_named''"
| "mirror_evidence_code ShapeAlone = ''shape_alone''"

record mirror =
  mi_outgoing :: nat
  mi_incoming :: nat
  mi_evidence :: mirror_evidence

definition partner_of :: "mirror \<Rightarrow> nat \<Rightarrow> nat option" where
  "partner_of m row =
     (if mi_outgoing m = row then Some (mi_incoming m)
      else if mi_incoming m = row then Some (mi_outgoing m)
      else None)"

datatype unpaired = NoCounterpart | Ambiguous

record unpaired_side =
  us_row :: nat
  us_reason :: unpaired

record mirroring =
  mr_pairs :: "mirror list"
  mr_unpaired :: "unpaired_side list"

section \<open>Pairing\<close>

definition mirrors :: "mirror_side \<Rightarrow> mirror_side \<Rightarrow> bool" where
  "mirrors outgoing incoming \<longleftrightarrow> ms_account outgoing \<noteq> ms_account incoming
     \<and> ms_currency outgoing = ms_currency incoming
     \<and> ms_amount_minor outgoing = ms_amount_minor incoming
     \<and> ms_amount_minor outgoing > 0
     \<and> ms_date outgoing = ms_date incoming
     \<and> (case ms_far_side outgoing of None \<Rightarrow> True | Some named \<Rightarrow> named = ms_account incoming)
     \<and> (case ms_far_side incoming of None \<Rightarrow> True | Some named \<Rightarrow> named = ms_account outgoing)"

definition mirror_evidence_of :: "mirror_side \<Rightarrow> mirror_side \<Rightarrow> mirror_evidence" where
  "mirror_evidence_of outgoing incoming = (case (ms_far_side outgoing \<noteq> None, ms_far_side incoming \<noteq> None) of
     (True, True) \<Rightarrow> BothSidesNamed
   | (True, False) \<Rightarrow> OneSideNamed
   | (False, True) \<Rightarrow> OneSideNamed
   | (False, False) \<Rightarrow> ShapeAlone)"

definition counterparts :: "mirror_side list \<Rightarrow> mirror_side \<Rightarrow> mirror_side list" where
  "counterparts sides side =
     filter (\<lambda>other. case ms_direction side of Out \<Rightarrow> mirrors side other | In \<Rightarrow> mirrors other side)
       (filter (\<lambda>other. ms_direction other \<noteq> ms_direction side) sides)"

definition counterpart_accounts :: "mirror_side list \<Rightarrow> mirror_side \<Rightarrow> account_id list" where
  "counterpart_accounts sides side = remdups_adj (sort (map ms_account (counterparts sides side)))"

definition why_unpaired :: "mirror_side list \<Rightarrow> mirror_side \<Rightarrow> unpaired" where
  "why_unpaired sides side =
     (if length (counterpart_accounts sides side) > 1
         \<or> list_ex (\<lambda>other. length (counterpart_accounts sides other) > 1) (counterparts sides side)
      then Ambiguous else NoCounterpart)"

definition candidate_pairs :: "mirror_side list \<Rightarrow> (mirror_side \<times> mirror_side) list" where
  "candidate_pairs sides = concat (map (\<lambda>outgoing.
       case counterpart_accounts sides outgoing of
         [account] \<Rightarrow> map (Pair outgoing)
           (filter (\<lambda>incoming. length (counterpart_accounts sides incoming) = 1)
             (filter (mirrors outgoing)
               (filter (\<lambda>side. ms_direction side = In \<and> ms_account side = account) sides)))
       | _ \<Rightarrow> [])
     (filter (\<lambda>side. ms_direction side = Out) sides))"

definition take_pair :: "nat list \<times> nat list \<times> mirror list \<Rightarrow> mirror_side \<times> mirror_side \<Rightarrow> nat list \<times> nat list \<times> mirror list" where
  "take_pair st pair =
     (let (taken_out, taken_in, matched) = st; (outgoing, incoming) = pair in
      if ms_row outgoing \<in> set taken_out \<or> ms_row incoming \<in> set taken_in then st
      else (taken_out @ [ms_row outgoing], taken_in @ [ms_row incoming],
            matched @ [\<lparr>mi_outgoing = ms_row outgoing, mi_incoming = ms_row incoming,
                        mi_evidence = mirror_evidence_of outgoing incoming\<rparr>]))"

definition mirrored :: "mirror_side list \<Rightarrow> mirroring" where
  "mirrored sides =
     (let pairs = sort_key (\<lambda>(outgoing, incoming). (ms_row outgoing, ms_row incoming)) (candidate_pairs sides);
          (taken_out, taken_in, matched) = foldl take_pair ([], [], []) pairs;
          unpaired = map (\<lambda>side. \<lparr>us_row = ms_row side, us_reason = why_unpaired sides side\<rparr>)
            (filter (\<lambda>side. ms_row side \<notin> set taken_out \<and> ms_row side \<notin> set taken_in) sides) in
      \<lparr>mr_pairs = matched, mr_unpaired = sort_key us_row unpaired\<rparr>)"

section \<open>What the pairing is\<close>

lemma set_counterparts:
  "other \<in> set (counterparts sides side) \<longleftrightarrow> other \<in> set sides \<and> ms_direction other \<noteq> ms_direction side \<and>
     (case ms_direction side of Out \<Rightarrow> mirrors side other | In \<Rightarrow> mirrors other side)"
  by (auto simp: counterparts_def)

lemma set_counterpart_accounts: "set (counterpart_accounts sides side) = ms_account ` set (counterparts sides side)"
  by (simp add: counterpart_accounts_def)

lemma set_candidate_pairs:
  "(outgoing, incoming) \<in> set (candidate_pairs sides) \<longleftrightarrow>
     outgoing \<in> set sides \<and> incoming \<in> set sides \<and> ms_direction outgoing = Out \<and> ms_direction incoming = In \<and>
     mirrors outgoing incoming \<and> length (counterpart_accounts sides outgoing) = 1 \<and> length (counterpart_accounts sides incoming) = 1"
    (is "?L \<longleftrightarrow> ?R")
proof
  show "?L \<Longrightarrow> ?R" by (auto simp: candidate_pairs_def split: list.splits) (metis One_nat_def length_Cons list.size(3))
next
  assume R: ?R
  then have "incoming \<in> set (counterparts sides outgoing)" by (simp add: set_counterparts)
  then have "ms_account incoming \<in> set (counterpart_accounts sides outgoing)" by (simp add: set_counterpart_accounts)
  with R have "counterpart_accounts sides outgoing = [ms_account incoming]" by (auto simp: length_Suc_conv)
  with R show ?L by (force simp: candidate_pairs_def)
qed

definition greedy_ok :: "(mirror_side \<times> mirror_side) list \<Rightarrow> nat list \<times> nat list \<times> mirror list \<Rightarrow> bool" where
  "greedy_ok done st \<longleftrightarrow> (case st of (taken_out, taken_in, matched) \<Rightarrow>
     taken_out = map mi_outgoing matched \<and> taken_in = map mi_incoming matched \<and> distinct taken_out \<and> distinct taken_in
     \<and> set matched \<subseteq> (\<lambda>(o', i). \<lparr>mi_outgoing = ms_row o', mi_incoming = ms_row i, mi_evidence = mirror_evidence_of o' i\<rparr>) ` set done
     \<and> (\<forall>(o', i) \<in> set done. ms_row o' \<in> set taken_out \<or> ms_row i \<in> set taken_in))"

lemma greedy: "greedy_ok ps (foldl take_pair ([], [], []) ps)"
proof (induction ps rule: rev_induct)
  case Nil
  then show ?case by (simp add: greedy_ok_def)
next
  case (snoc p ps)
  obtain o' i where p: "p = (o', i)" by fastforce
  obtain to ti m where st: "foldl take_pair ([], [], []) ps = (to, ti, m)" by (metis prod_cases3)
  show ?case
  proof (cases "ms_row o' \<in> set to \<or> ms_row i \<in> set ti")
    case True
    then show ?thesis using snoc unfolding foldl_append st by (auto simp: st p take_pair_def greedy_ok_def)
  next
    case False
    then show ?thesis using snoc unfolding foldl_append st by (auto simp: st p take_pair_def greedy_ok_def)
  qed
qed

lemma map_sort_key: "map f (sort_key f xs) = sort (map f xs)"
  by (rule properties_for_sort [symmetric]) (simp_all add: mset_map [symmetric] del: mset_map, simp)

lemma mirrored_eq:
  assumes "foldl take_pair ([], [], []) (sort_key (\<lambda>(outgoing, incoming). (ms_row outgoing, ms_row incoming)) (candidate_pairs sides))
    = (taken_out, taken_in, matched)"
  shows "mr_pairs (mirrored sides) = matched"
    and "set (mr_unpaired (mirrored sides)) = (\<lambda>side. \<lparr>us_row = ms_row side, us_reason = why_unpaired sides side\<rparr>) `
      {side \<in> set sides. ms_row side \<notin> set taken_out \<and> ms_row side \<notin> set taken_in}"
    and "map us_row (mr_unpaired (mirrored sides)) =
      sort (filter (\<lambda>row. row \<notin> set taken_out \<and> row \<notin> set taken_in) (map ms_row sides))"
  using assms by (simp_all add: mirrored_def Let_def map_sort_key filter_map comp_def)

definition pairable :: "mirror_side list \<Rightarrow> mirror_side \<Rightarrow> mirror_side \<Rightarrow> bool" where
  "pairable sides outgoing incoming \<longleftrightarrow> outgoing \<in> set sides \<and> incoming \<in> set sides
     \<and> ms_direction outgoing = Out \<and> ms_direction incoming = In \<and> mirrors outgoing incoming
     \<and> length (counterpart_accounts sides outgoing) = 1 \<and> length (counterpart_accounts sides incoming) = 1"

lemma counterpart_pairable:
  assumes "why_unpaired sides side = NoCounterpart" "side \<in> set sides" "other \<in> set (counterparts sides side)"
  shows "(ms_direction side = Out \<and> pairable sides side other) \<or> (ms_direction side = In \<and> pairable sides other side)"
proof -
  have bk: "side \<in> set (counterparts sides other)" and oth: "other \<in> set sides" "ms_direction other \<noteq> ms_direction side"
    using assms(2,3) by (auto simp: set_counterparts split: movement.splits)
  have single: "length (counterpart_accounts sides s) = 1"
    if "t \<in> set (counterparts sides s)" "\<not> length (counterpart_accounts sides s) > 1" for s t
  proof -
    have "counterpart_accounts sides s \<noteq> []" using that(1) set_counterpart_accounts [of sides s] by force
    then have "length (counterpart_accounts sides s) \<noteq> 0" by simp
    then show ?thesis using that(2) by linarith
  qed
  have "length (counterpart_accounts sides side) = 1" "length (counterpart_accounts sides other) = 1"
    using assms(1) by (auto simp: why_unpaired_def list_ex_iff assms(3) split: if_splits intro: single [OF assms(3), simplified] single [OF bk, simplified])
  then show ?thesis
    using assms(2,3) oth by (cases "ms_direction other") (auto simp: pairable_def set_counterparts split: movement.splits)
qed

text \<open>
  (C16) The rows of a document are paired soundly and none is lost: every pair is a departure
  and an arrival of the same amount, day and currency on two accounts, each with one
  possible account for the other half; every row is in exactly one pair or is
  reported unpaired, never both; and for a row reported as having no counterpart, every row
  that mirrors it is already half of a pair.
\<close>

theorem mirroring_is_sound_and_maximal:
  assumes "distinct (map ms_row sides)"
  defines "pairs \<equiv> mr_pairs (mirrored sides)" and "left \<equiv> mr_unpaired (mirrored sides)"
  shows "(\<forall>m \<in> set pairs. \<exists>o' i. pairable sides o' i \<and> mi_outgoing m = ms_row o' \<and> mi_incoming m = ms_row i)
    \<and> distinct (map mi_outgoing pairs @ map mi_incoming pairs @ map us_row left)
    \<and> set (map mi_outgoing pairs @ map mi_incoming pairs @ map us_row left) = set (map ms_row sides)
    \<and> (\<forall>u \<in> set left. \<forall>side \<in> set sides. \<forall>other \<in> set (counterparts sides side).
         us_reason u = NoCounterpart \<and> ms_row side = us_row u \<longrightarrow> ms_row other \<in> set (map mi_outgoing pairs @ map mi_incoming pairs))"
proof -
  define ps where "ps = sort_key (\<lambda>(outgoing, incoming). (ms_row outgoing, ms_row incoming)) (candidate_pairs sides)"
  obtain to ti m where st: "foldl take_pair ([], [], []) ps = (to, ti, m)" by (metis prod_cases3)
  note eq = mirrored_eq [OF st [unfolded ps_def]]
  have ps: "(o', i) \<in> set ps \<longleftrightarrow> pairable sides o' i" for o' i by (simp add: ps_def set_candidate_pairs pairable_def)
  have ok: "greedy_ok ps (to, ti, m)" using greedy [of ps] by (simp add: st)
  then have g: "to = map mi_outgoing m" "ti = map mi_incoming m" "distinct to" "distinct ti" unfolding greedy_ok_def prod.case by blast+
  have matched: "\<exists>o' i. pairable sides o' i \<and> mi_outgoing x = ms_row o' \<and> mi_incoming x = ms_row i" if "x \<in> set m" for x
    using ok that ps by (force simp: greedy_ok_def)
  have maximal: "ms_row o' \<in> set to \<or> ms_row i \<in> set ti" if "pairable sides o' i" for o' i
    using ok that ps by (force simp: greedy_ok_def)
  have inj: "s = t" if "s \<in> set sides" "t \<in> set sides" "ms_row s = ms_row t" for s t
    using assms(1) that by (auto simp: distinct_map inj_on_def)
  have out: "\<exists>s \<in> set sides. ms_row s = r \<and> ms_direction s = Out" if "r \<in> set to" for r
    using that matched g by (fastforce simp: pairable_def)
  have inn: "\<exists>s \<in> set sides. ms_row s = r \<and> ms_direction s = In" if "r \<in> set ti" for r
    using that matched g by (fastforce simp: pairable_def)
  have disj: "set to \<inter> set ti = {}" using out inn inj by (metis disjoint_iff movement.distinct(1))
  have rows: "set (map us_row left) = set (map ms_row sides) - set to - set ti" unfolding left_def eq(3) by auto
  have "distinct (map us_row left)" unfolding left_def eq(3) using assms(1) by (simp add: distinct_filter)
  then have parts: "distinct (to @ ti @ map us_row left)" "set (to @ ti @ map us_row left) = set (map ms_row sides)"
    using g disj rows out inn by (auto simp del: set_map) (force simp: image_iff)+
  have final: "ms_row other \<in> set to \<union> set ti"
    if h: "u \<in> set left" "side \<in> set sides" "other \<in> set (counterparts sides side)" "us_reason u = NoCounterpart" "ms_row side = us_row u"
    for u side other
  proof -
    obtain s where s: "s \<in> set sides" "u = \<lparr>us_row = ms_row s, us_reason = why_unpaired sides s\<rparr>" "ms_row s \<notin> set to" "ms_row s \<notin> set ti"
      using h(1) unfolding left_def eq(2) by blast
    then have "side = s" using h by (auto intro: inj)
    then show ?thesis using counterpart_pairable [of sides side other] h s maximal by auto
  qed
  show ?thesis using matched parts final unfolding pairs_def eq(1) g(1,2) by (auto simp del: set_map)
qed

definition sample_sides :: "mirror_side list" where
  "sample_sides =
     [\<lparr>ms_row = 1, ms_account = AccountId 1, ms_direction = Out, ms_amount_minor = 500, ms_currency = Rub, ms_date = 5, ms_far_side = None\<rparr>,
      \<lparr>ms_row = 2, ms_account = AccountId 2, ms_direction = In, ms_amount_minor = 500, ms_currency = Rub, ms_date = 5, ms_far_side = Some (AccountId 1)\<rparr>,
      \<lparr>ms_row = 3, ms_account = AccountId 1, ms_direction = Out, ms_amount_minor = 700, ms_currency = Rub, ms_date = 5, ms_far_side = None\<rparr>]"

theorem mirroring_is_sound_and_maximal_witness:
  "mr_pairs (mirrored sample_sides) \<noteq> [] \<and>
   set (map mi_outgoing (mr_pairs (mirrored sample_sides)) @ map mi_incoming (mr_pairs (mirrored sample_sides)) @
        map us_row (mr_unpaired (mirrored sample_sides))) = {1, 2, 3}"
proof -
  have "distinct (map ms_row sample_sides)" by code_simp
  from mirroring_is_sound_and_maximal [OF this]
  have "set (map mi_outgoing (mr_pairs (mirrored sample_sides)) @ map mi_incoming (mr_pairs (mirrored sample_sides)) @
        map us_row (mr_unpaired (mirrored sample_sides))) = set (map ms_row sample_sides)" by blast
  moreover have "set (map ms_row sample_sides) = {1, 2, 3}" by (auto simp: sample_sides_def)
  moreover have "mr_pairs (mirrored sample_sides) \<noteq> []" by code_simp
  ultimately show ?thesis by simp
qed

end
