(* ===== verification/Submission.thy ===== *)
theory Submission
  imports Mirroring Validation
begin

text \<open>
  What a source submits and the event it becomes, \<open>iaam-ingest/src/operation.rs\<close>, and the
  recognition of a row that is already recorded, \<open>iaam-ingest/src/dedup.rs\<close>. Hashing, JSON and
  the texts of identifiers and errors are parameters, as are the random identifiers. The
  settlement of a trade is added up without overflow checks: whether the build has them is a
  parameter too. The lemmas connect the two components: which
  submissions give an event that passes structural validation, and what makes a row a duplicate.
\<close>

section \<open>Submitted operations\<close>

record operation_dates =
  od_trade :: "date option"
  od_settled :: "date option"
  od_cash_posted :: "date option"
  od_paid :: "date option"

definition to_event_dates :: "operation_dates \<Rightarrow> event_dates" where
  "to_event_dates d = \<lparr>ed_trade = od_trade d, ed_settled = od_settled d, ed_cash_posted = od_cash_posted d,
     ed_entitlement = None, ed_paid = od_paid d, ed_tax_period_override = None\<rparr>"

definition operation_effective_date :: "operation_dates \<Rightarrow> date option" where
  "operation_effective_date d = effective_date (to_event_dates d)"

datatype operation_kind =
    OpDeposit int currency_code
  | OpWithdrawal int currency_code
  | OpRefund int currency_code
  | OpTransfer account_id int currency_code
  | OpOwnAccountMovement "movement option" int currency_code
  | OpBuy instrument_id "custody_id option" decimal int "int option" "calc_money option" "int option" currency_code
  | OpSell instrument_id "custody_id option" decimal int "int option" "calc_money option" "int option" currency_code
  | OpIncome "instrument_id option" int currency_code "income_kind option"
  | OpFee int currency_code fee_origin
  | OpTax int currency_code tax_origin
  | OpOpeningCash int currency_code
  | OpStatedSecuritiesValue int currency_code
  | OpOpeningPosition instrument_id "custody_id option" decimal "int option" currency_code "opening_assertions option"
  | OpValuation instrument_id decimal currency_code price_quality

record submitted_operation =
  so_account :: account_id
  so_kind :: operation_kind
  so_dates :: operation_dates
  so_source_time :: "time_of_day option"
  so_idempotency_key :: "string option"
  so_source_operation_id :: "string option"
  so_source_position_id :: "string option"
  so_source_category :: "string option"
  so_owner_category :: "string option"
  so_source_code :: "string option"
  so_source_kind :: "string option"
  so_description :: "string option"
  so_counterparty :: "string option"

record normalization_context =
  nc_owner :: owner_id
  nc_source :: source_id
  nc_parser_version :: parser_version

record rejection =
  rj_field :: string
  rj_expected :: string
  rj_actual :: string

text \<open>What the two files use of other crates: JSON, SHA-256 and the texts of ids and errors.\<close>

record canonical_dates =
  cd_trade :: "string option"
  cd_settled :: "string option"
  cd_cash_posted :: "string option"
  cd_paid :: "string option"

record canonical =
  cn_version :: nat
  cn_account :: account_id
  cn_kind :: operation_kind
  cn_dates :: canonical_dates

record ingest_deps =
  i_json :: "canonical \<Rightarrow> string option"
  i_sha256 :: "string \<Rightarrow> nat list"
  i_account_text :: "account_id \<Rightarrow> string"
  i_money_error_text :: "money_error \<Rightarrow> string"
  i_numeric_error_text :: "numeric_error \<Rightarrow> string"

record build_profile =
  bp_overflow_checks :: bool

section \<open>Fingerprints\<close>

definition canonical_version :: nat where
  "canonical_version = 1"

definition canonical_dates_of :: "deps \<Rightarrow> operation_dates \<Rightarrow> canonical_dates" where
  "canonical_dates_of X d = \<lparr>cd_trade = map_option (t_date_to_string X) (od_trade d),
     cd_settled = map_option (t_date_to_string X) (od_settled d),
     cd_cash_posted = map_option (t_date_to_string X) (od_cash_posted d),
     cd_paid = map_option (t_date_to_string X) (od_paid d)\<rparr>"

definition canonical_form :: "deps \<Rightarrow> ingest_deps \<Rightarrow> submitted_operation \<Rightarrow> (string, rejection) result" where
  "canonical_form X I operation = expect (i_json I
     \<lparr>cn_version = canonical_version, cn_account = so_account operation, cn_kind = so_kind operation,
      cn_dates = canonical_dates_of X (so_dates operation)\<rparr>)"

definition hex_digit :: "nat \<Rightarrow> char" where
  "hex_digit n = (if n < 10 then char_of (48 + n) else char_of (87 + n))"

definition hex_byte :: "nat \<Rightarrow> string" where
  "hex_byte b = [hex_digit (b div 16), hex_digit (b mod 16)]"

definition fingerprint :: "deps \<Rightarrow> ingest_deps \<Rightarrow> submitted_operation \<Rightarrow> (raw_hash, rejection) result" where
  "fingerprint X I operation =
     and_then (canonical_form X I operation) (\<lambda>form.
     expect (raw_hash_parse (concat (map hex_byte (i_sha256 I form)))))"

section \<open>Normalisation\<close>

definition positive_minor :: "deps \<Rightarrow> int \<Rightarrow> string \<Rightarrow> currency_code \<Rightarrow> (int, rejection) result" where
  "positive_minor X v field currency =
     (if v > 0 then Ok v
      else Err \<lparr>rj_field = field, rj_expected = ''positive value'',
                rj_actual = d_to_string X (to_calc_dec X (money_new v currency))\<rparr>)"

definition fee_money :: "deps \<Rightarrow> int option \<Rightarrow> currency_code \<Rightarrow> (money option, rejection) result" where
  "fee_money X v currency = (case v of
     None \<Rightarrow> Ok None
   | Some minor \<Rightarrow> and_then (positive_minor X minor ''fee'' currency) (\<lambda>minor. Ok (Some (money_new minor currency))))"

definition accrued_interest_money :: "deps \<Rightarrow> int option \<Rightarrow> currency_code \<Rightarrow> (money option, rejection) result" where
  "accrued_interest_money X v currency = (case v of
     None \<Rightarrow> Ok None
   | Some minor \<Rightarrow>
       if minor \<ge> 0 then Ok (Some (money_new minor currency))
       else Err \<lparr>rj_field = ''accrued_interest'', rj_expected = ''non-negative value'',
                 rj_actual = d_to_string X (to_calc_dec X (money_new minor currency))\<rparr>)"

definition basis_fee_money :: "deps \<Rightarrow> ingest_deps \<Rightarrow> calc_money option \<Rightarrow> currency_code \<Rightarrow> (money option, rejection) result" where
  "basis_fee_money X I v currency = (case v of
     None \<Rightarrow> Ok None
   | Some v \<Rightarrow>
       if c_currency v \<noteq> currency
       then Err \<lparr>rj_field = ''basis_fee'', rj_expected = ''currency '' @ currency_code_str currency,
                 rj_actual = currency_code_str (c_currency v)\<rparr>
       else
         and_then (map_err (\<lambda>e. \<lparr>rj_field = ''basis_fee'', rj_expected = ''representable rounded amount'',
                       rj_actual = i_money_error_text I e\<rparr>)
                     (rounded_minor X \<lparr>c_value = d_abs X (c_value v), c_currency = currency\<rparr>)) (\<lambda>amount.
         Ok (Some (money_new amount currency))))"

definition submitted_security_leg :: "account_id \<Rightarrow> custody_id option \<Rightarrow> instrument_id \<Rightarrow> quantity \<Rightarrow> leg" where
  "submitted_security_leg account custody instrument quantity = (case custody of
     Some custody \<Rightarrow> leg_security account custody instrument quantity
   | None \<Rightarrow> leg_security_without_custody account instrument quantity)"

text \<open>
  \<open>+\<close>, \<open>-\<close> and unary minus on \<open>i64\<close>: a build with overflow checks panics, one without wraps around.
\<close>

definition wrap_i64 :: "int \<Rightarrow> int" where
  "wrap_i64 x = (x + 2 ^ 63) mod 2 ^ 64 - 2 ^ 63"

definition plain_i64 :: "build_profile \<Rightarrow> int \<Rightarrow> (int, rejection) result" where
  "plain_i64 B x = (if i64 x then Ok x else if bp_overflow_checks B then Panic else Ok (wrap_i64 x))"

definition minor_of :: "money option \<Rightarrow> int" where
  "minor_of m = (case m of None \<Rightarrow> 0 | Some m \<Rightarrow> m_amount m)"

definition exact_basis_fee :: "deps \<Rightarrow> calc_money option \<Rightarrow> calc_money option" where
  "exact_basis_fee X v = map_option (\<lambda>v. \<lparr>c_value = d_abs X (c_value v), c_currency = c_currency v\<rparr>) v"

definition build_buy :: "deps \<Rightarrow> ingest_deps \<Rightarrow> build_profile \<Rightarrow> account_id \<Rightarrow> instrument_id \<Rightarrow> custody_id option \<Rightarrow> decimal \<Rightarrow> int
    \<Rightarrow> int option \<Rightarrow> calc_money option \<Rightarrow> int option \<Rightarrow> currency_code \<Rightarrow> (event_kind \<times> leg list, rejection) result" where
  "build_buy X I B account instrument custody quantity gross_minor fee_minor basis_fee accrued_minor currency =
     and_then (positive_minor X gross_minor ''amount'' currency) (\<lambda>gross_minor.
     let gross = money_new gross_minor currency in
     and_then (fee_money X fee_minor currency) (\<lambda>fee.
     let basis_fee_exact = exact_basis_fee X basis_fee in
     and_then (basis_fee_money X I basis_fee_exact currency) (\<lambda>basis_fee.
     and_then (accrued_interest_money X accrued_minor currency) (\<lambda>accrued.
     and_then (plain_i64 B (m_amount gross + minor_of accrued)) (\<lambda>settlement.
     and_then (plain_i64 B (settlement + minor_of fee)) (\<lambda>settlement.
     and_then (plain_i64 B (- settlement)) (\<lambda>paid.
     Ok (Trade Buy instrument quantity gross fee basis_fee basis_fee_exact accrued,
         [leg_cash account (money_new paid currency),
          submitted_security_leg account custody instrument quantity]))))))))"

definition build_sell :: "deps \<Rightarrow> ingest_deps \<Rightarrow> build_profile \<Rightarrow> account_id \<Rightarrow> instrument_id \<Rightarrow> custody_id option \<Rightarrow> decimal \<Rightarrow> int
    \<Rightarrow> int option \<Rightarrow> calc_money option \<Rightarrow> int option \<Rightarrow> currency_code \<Rightarrow> (event_kind \<times> leg list, rejection) result" where
  "build_sell X I B account instrument custody quantity gross_minor fee_minor basis_fee accrued_minor currency =
     and_then (positive_minor X gross_minor ''amount'' currency) (\<lambda>gross_minor.
     let gross = money_new gross_minor currency in
     and_then (fee_money X fee_minor currency) (\<lambda>fee.
     let basis_fee_exact = exact_basis_fee X basis_fee in
     and_then (basis_fee_money X I basis_fee_exact currency) (\<lambda>basis_fee.
     and_then (accrued_interest_money X accrued_minor currency) (\<lambda>accrued.
     and_then (plain_i64 B (m_amount gross + minor_of accrued)) (\<lambda>settlement.
     and_then (plain_i64 B (settlement - minor_of fee)) (\<lambda>settlement.
     and_then (map_err (\<lambda>e. \<lparr>rj_field = ''quantity'', rj_expected = ''representable quantity'',
                  rj_actual = i_numeric_error_text I e\<rparr>) (dec_checked_neg X quantity)) (\<lambda>sold.
     Ok (Trade Sell instrument quantity gross fee basis_fee basis_fee_exact accrued,
         [leg_cash account (money_new settlement currency),
          submitted_security_leg account custody instrument sold]))))))))"

definition build_event :: "deps \<Rightarrow> ingest_deps \<Rightarrow> build_profile \<Rightarrow> transfer_id \<Rightarrow> submitted_operation
    \<Rightarrow> (event_kind \<times> leg list, rejection) result" where
  "build_event X I B fresh operation =
     (let account = so_account operation in
      case so_kind operation of
        OpDeposit minor currency \<Rightarrow>
          and_then (positive_minor X minor ''amount'' currency) (\<lambda>v.
          let amount = money_new v currency in Ok (CashIn amount, [leg_cash account amount]))
      | OpWithdrawal minor currency \<Rightarrow>
          and_then (positive_minor X minor ''amount'' currency) (\<lambda>v.
          let amount = money_new (- v) currency in Ok (CashOut amount, [leg_cash account amount]))
      | OpRefund minor currency \<Rightarrow>
          and_then (positive_minor X minor ''amount'' currency) (\<lambda>v.
          let amount = money_new v currency in Ok (Refund amount, [leg_cash account amount]))
      | OpTransfer to minor currency \<Rightarrow>
          (if to = account
           then Err \<lparr>rj_field = ''to'', rj_expected = ''an account different from the operation account'',
                     rj_actual = i_account_text I to\<rparr>
           else
             and_then (positive_minor X minor ''amount'' currency) (\<lambda>v.
             let amount = money_new v currency in
             and_then (map_err (\<lambda>e. \<lparr>rj_field = ''amount'', rj_expected = ''representable amount'',
                          rj_actual = i_money_error_text I e\<rparr>) (checked_negate amount)) (\<lambda>outgoing.
             Ok (CashTransfer fresh account to amount, [leg_cash account outgoing, leg_cash to amount]))))
      | OpOwnAccountMovement movement minor currency \<Rightarrow>
          and_then (positive_minor X minor ''amount'' currency) (\<lambda>magnitude.
          case movement of
            Some Out \<Rightarrow> let amount = money_new (- magnitude) currency in Ok (OwnAccountMovement amount, [leg_cash account amount])
          | Some In \<Rightarrow> let amount = money_new magnitude currency in Ok (OwnAccountMovement amount, [leg_cash account amount])
          | None \<Rightarrow> Ok (UnresolvedOwnAccountMovement (money_new magnitude currency), []))
      | OpBuy instrument custody quantity gross fee basis_fee accrued currency \<Rightarrow>
          build_buy X I B account instrument custody quantity gross fee basis_fee accrued currency
      | OpSell instrument custody quantity gross fee basis_fee accrued currency \<Rightarrow>
          build_sell X I B account instrument custody quantity gross fee basis_fee accrued currency
      | OpIncome instrument minor currency kind \<Rightarrow>
          and_then (positive_minor X minor ''amount'' currency) (\<lambda>v.
          let gross = money_new v currency in Ok (Income instrument gross kind, [leg_cash account gross]))
      | OpFee minor currency origin \<Rightarrow>
          and_then (positive_minor X minor ''amount'' currency) (\<lambda>v.
          let amount = money_new (- v) currency in Ok (Fee amount origin, [leg_fee account amount]))
      | OpTax minor currency origin \<Rightarrow>
          and_then (positive_minor X minor ''amount'' currency) (\<lambda>v.
          let amount = money_new (- v) currency in Ok (Tax amount origin, [leg_tax account amount]))
      | OpOpeningCash minor currency \<Rightarrow>
          let amount = money_new minor currency in Ok (OpeningCash amount, [leg_cash account amount])
      | OpStatedSecuritiesValue minor currency \<Rightarrow>
          and_then (positive_minor X minor ''amount'' currency) (\<lambda>v. Ok (StatedSecuritiesValue (money_new v currency), []))
      | OpOpeningPosition instrument custody quantity cost_basis currency assertions \<Rightarrow>
          and_then (case cost_basis of
              Some v \<Rightarrow> and_then (positive_minor X v ''cost_basis'' currency) (\<lambda>v. Ok (Some (money_new v currency)))
            | None \<Rightarrow> Ok None) (\<lambda>cost_basis.
          Ok (OpeningPosition instrument quantity cost_basis
                (case assertions of Some a \<Rightarrow> a | None \<Rightarrow> opening_assertions_default),
              [submitted_security_leg account custody instrument quantity]))
      | OpValuation instrument price currency quality \<Rightarrow> Ok (Valuation instrument price currency quality, []))"

definition submitted_provenance :: "submitted_operation \<Rightarrow> normalization_context \<Rightarrow> raw_hash \<Rightarrow> provenance" where
  "submitted_provenance operation context raw_hash =
     (provenance_new (nc_source context) raw_hash (nc_parser_version context))
       \<lparr>pv_source_operation_id := so_source_operation_id operation,
        pv_source_position_id := so_source_position_id operation,
        pv_source_category := so_source_category operation,
        pv_owner_category := so_owner_category operation,
        pv_source_code := so_source_code operation,
        pv_source_kind := so_source_kind operation,
        pv_description := so_description operation,
        pv_counterparty := so_counterparty operation\<rparr>"

definition normalize :: "deps \<Rightarrow> ingest_deps \<Rightarrow> build_profile \<Rightarrow> event_id \<Rightarrow> transfer_id \<Rightarrow> submitted_operation
    \<Rightarrow> normalization_context \<Rightarrow> (event, rejection) result" where
  "normalize X I B fresh_event fresh_transfer operation context =
     (let dates = to_event_dates (so_dates operation) in
      and_then (ok_or (effective_date dates)
          \<lparr>rj_field = ''dates'', rj_expected = ''at least one date: trade, settled, cash_posted, or paid'', rj_actual = ''none''\<rparr>) (\<lambda>day.
      and_then (build_event X I B fresh_transfer operation) (\<lambda>(kind, legs).
      and_then (fingerprint X I operation) (\<lambda>raw_hash.
      Ok \<lparr>e_id = fresh_event, e_owner = nc_owner context, e_account = so_account operation, e_kind = kind,
          e_dates = dates,
          e_order = (case so_source_time operation of
             None \<Rightarrow> order_new day 1
           | Some time \<Rightarrow> order_with_source_time day time 1),
          e_legs = legs, e_provenance = submitted_provenance operation context raw_hash,
          e_relation = NoRelation, e_confidence = Known, e_idempotency_key = so_idempotency_key operation\<rparr>))))"

text \<open>\<open>to_minor_units\<close>: a decimal amount in minor units, refused where it is not an integer of them.\<close>

definition to_minor_units :: "deps \<Rightarrow> decimal \<Rightarrow> currency_code \<Rightarrow> string \<Rightarrow> (int, rejection) result" where
  "to_minor_units X v currency field =
     (let digits = minor_units currency in
      if scale v > digits
      then Err \<lparr>rj_field = field,
                rj_expected = ''no more than '' @ string_of_int (int digits) @ '' decimal places for '' @ currency_code_str currency,
                rj_actual = d_to_string X v\<rparr>
      else
        and_then (ok_or (d_checked_mul X v (d_from_i64 X (10 ^ digits)))
            \<lparr>rj_field = field, rj_expected = ''representable amount'', rj_actual = d_to_string X v\<rparr>) (\<lambda>product.
        let scaled = d_normalize X product in
        ok_or (case to_i64 (mantissa scaled) of None \<Rightarrow> None | Some m \<Rightarrow> if scale scaled = 0 then Some m else None)
          \<lparr>rj_field = field, rj_expected = ''an integer number of minor units'', rj_actual = d_to_string X scaled\<rparr>))"

section \<open>Duplicates\<close>

datatype dedup_level = LevelSourceOperationId | LevelIdempotencyKey | LevelNormalizedFingerprint | LevelDocumentRow | LevelProbabilistic

fun dedup_level_number :: "dedup_level \<Rightarrow> nat" where
  "dedup_level_number LevelSourceOperationId = 1"
| "dedup_level_number LevelIdempotencyKey = 2"
| "dedup_level_number LevelNormalizedFingerprint = 3"
| "dedup_level_number LevelDocumentRow = 4"
| "dedup_level_number LevelProbabilistic = 5"

datatype dedup_key =
    BySourceOperationId string
  | ByIdempotencyKey string
  | ByNormalizedFingerprint raw_hash raw_hash
  | ByDocumentRow raw_hash "string option" nat

fun dedup_key_level :: "dedup_key \<Rightarrow> dedup_level" where
  "dedup_key_level (BySourceOperationId _) = LevelSourceOperationId"
| "dedup_key_level (ByIdempotencyKey _) = LevelIdempotencyKey"
| "dedup_key_level (ByNormalizedFingerprint _ _) = LevelNormalizedFingerprint"
| "dedup_key_level (ByDocumentRow _ _ _) = LevelDocumentRow"

fun dedup_precedence :: "dedup_key \<Rightarrow> nat" where
  "dedup_precedence (BySourceOperationId _) = 1"
| "dedup_precedence (ByIdempotencyKey _) = 2"
| "dedup_precedence (ByDocumentRow _ _ _) = 3"
| "dedup_precedence (ByNormalizedFingerprint _ _) = 4"

datatype identity_scope = ScopeSource | ScopeAccount

record document_context =
  dc_account :: account_id
  dc_document :: "raw_hash option"
  dc_sheet :: "string option"
  dc_row :: "nat option"
  dc_identity_scope :: identity_scope

record known_record =
  kr_event :: event_id
  kr_account :: account_id
  kr_source_operation_id :: "string option"
  kr_idempotency_key :: "string option"
  kr_fingerprint :: raw_hash
  kr_document :: "raw_hash option"
  kr_sheet :: "string option"
  kr_row :: "nat option"

datatype dedup_decision =
    Duplicate dedup_key event_id
  | FreshRow
  | PossibleDuplicate event_id dedup_level

fun records_the_row :: "dedup_decision \<Rightarrow> bool" where
  "records_the_row FreshRow = True"
| "records_the_row (PossibleDuplicate _ _) = True"
| "records_the_row (Duplicate _ _) = False"

definition document_keys :: "deps \<Rightarrow> ingest_deps \<Rightarrow> submitted_operation \<Rightarrow> document_context \<Rightarrow> (dedup_key list, rejection) result" where
  "document_keys X I operation context = (case dc_document context of
     None \<Rightarrow> Ok []
   | Some document \<Rightarrow>
       (case dc_row context of
          Some row \<Rightarrow> Ok [ByDocumentRow document (dc_sheet context) row]
        | None \<Rightarrow> and_then (fingerprint X I operation) (\<lambda>fp. Ok [ByNormalizedFingerprint document fp])))"

definition choose_key :: "deps \<Rightarrow> ingest_deps \<Rightarrow> submitted_operation \<Rightarrow> document_context \<Rightarrow> (dedup_key option, rejection) result" where
  "choose_key X I operation context =
     and_then (document_keys X I operation context) (\<lambda>available.
     let available = available @ (case so_source_operation_id operation of Some i \<Rightarrow> [BySourceOperationId i] | None \<Rightarrow> []);
         available = available @ (case so_idempotency_key operation of Some k \<Rightarrow> [ByIdempotencyKey k] | None \<Rightarrow> []) in
     Ok (case sort_key dedup_precedence available of [] \<Rightarrow> None | k # _ \<Rightarrow> Some k))"

definition same_document :: "known_record \<Rightarrow> document_context \<Rightarrow> bool" where
  "same_document r context = (case (kr_document r, dc_document context) of
     (Some known, Some incoming) \<Rightarrow> known = incoming
   | _ \<Rightarrow> False)"

fun matches_key :: "known_record \<Rightarrow> dedup_key \<Rightarrow> document_context \<Rightarrow> bool" where
  "matches_key r (BySourceOperationId i) context \<longleftrightarrow> kr_source_operation_id r = Some i \<and>
     (case dc_identity_scope context of ScopeSource \<Rightarrow> True | ScopeAccount \<Rightarrow> kr_account r = dc_account context)"
| "matches_key r (ByIdempotencyKey k) context \<longleftrightarrow> kr_idempotency_key r = Some k"
| "matches_key r (ByNormalizedFingerprint document fp) context \<longleftrightarrow> kr_document r = Some document \<and> kr_fingerprint r = fp"
| "matches_key r (ByDocumentRow document sheet row) context \<longleftrightarrow>
     kr_document r = Some document \<and> kr_sheet r = sheet \<and> kr_row r = Some row"

definition assess_row :: "dedup_key option \<Rightarrow> raw_hash \<Rightarrow> document_context \<Rightarrow> known_record list \<Rightarrow> dedup_decision" where
  "assess_row key fp context known =
     (case (case key of None \<Rightarrow> None | Some k \<Rightarrow> map_option (\<lambda>r. Duplicate k (kr_event r)) (find (\<lambda>r. matches_key r k context) known)) of
        Some decision \<Rightarrow> decision
      | None \<Rightarrow>
          (case find (\<lambda>r. kr_fingerprint r = fp \<and> \<not> same_document r context) known of
             None \<Rightarrow> FreshRow
           | Some r \<Rightarrow> PossibleDuplicate (kr_event r) LevelProbabilistic))"

section \<open>Which submissions pass structural validation\<close>

lemmas validation_eval = expect_single_cash_def single_leg_money_def cash_legs_def security_legs_def legs_of_kind_def
  idx_def leg_money_def require_equal_def leg_cash_def leg_fee_def leg_tax_def money_new_def ensure_def

lemma positive_minor_Ok [simp]: "positive_minor X v field c = Ok w \<longleftrightarrow> 0 < v \<and> w = v"
  by (auto simp: positive_minor_def)

text \<open>The conditions that normalisation does not test.\<close>

definition minor_or_zero :: "int option \<Rightarrow> int" where
  "minor_or_zero v = (case v of None \<Rightarrow> 0 | Some v \<Rightarrow> v)"

definition fee_rounds :: "deps \<Rightarrow> calc_money option \<Rightarrow> bool" where
  "fee_rounds X v = (case v of None \<Rightarrow> True
     | Some v \<Rightarrow> (\<exists>m > 0. rounded_minor X \<lparr>c_value = d_abs X (c_value v), c_currency = c_currency v\<rparr> = Ok m))"

definition sound_operation :: "deps \<Rightarrow> operation_kind \<Rightarrow> bool" where
  "sound_operation X k = (case k of
     OpBuy _ _ quantity gross fee basis_fee accrued _ \<Rightarrow> dec_is_positive X quantity \<and> fee_rounds X basis_fee
       \<and> i64 (gross + minor_or_zero accrued) \<and> i64 (gross + minor_or_zero accrued + minor_or_zero fee)
   | OpSell _ _ quantity gross fee basis_fee accrued _ \<Rightarrow> dec_is_positive X quantity \<and> fee_rounds X basis_fee
       \<and> i64 (gross + minor_or_zero accrued) \<and> i64 (gross + minor_or_zero accrued - minor_or_zero fee)
   | OpOpeningPosition _ _ quantity _ _ _ \<Rightarrow> dec_is_positive X quantity
   | OpValuation _ price _ _ \<Rightarrow> dec_is_positive X price
   | _ \<Rightarrow> True)"

text \<open>\<open>Decimal::abs\<close> changes nothing the second time.\<close>

definition abs_law :: "deps \<Rightarrow> bool" where
  "abs_law X \<longleftrightarrow> (\<forall>d. d_abs X (d_abs X d) = d_abs X d)"

lemma security_leg_fields [simp]:
  "l_kind (submitted_security_leg a c i q) = LSecurityQuantity" "l_account (submitted_security_leg a c i q) = a"
  "l_instrument (submitted_security_leg a c i q) = Some i" "l_quantity (submitted_security_leg a c i q) = Some q"
  by (simp_all add: submitted_security_leg_def leg_security_def leg_security_without_custody_def split: option.split)

lemma leg_cash_fields [simp]:
  "l_kind (leg_cash a m) = LCash" "l_account (leg_cash a m) = a" "l_money (leg_cash a m) = Some m"
  by (simp_all add: leg_cash_def)

lemma d_eq_refl: "order_laws X \<Longrightarrow> d_eq X q q"
  by (simp add: order_laws_def cmp_of_def)

lemma validate_trade_submitted:
  assumes "order_laws X" and legs: "e_legs e = [leg_cash (e_account e) cash, submitted_security_leg (e_account e) custody (td_instrument d) moved]"
    and moved: "(case side of Buy \<Rightarrow> Ok (td_quantity d) | Sell \<Rightarrow> dec_checked_neg X (td_quantity d)) = Ok moved"
    and gross: "0 < m_amount (td_gross d)"
    and basis: "(td_basis_fee d = None \<and> td_basis_fee_exact d = None) \<or>
      (\<exists>m bx. td_basis_fee d = Some (money_new m (m_currency (td_gross d))) \<and> td_basis_fee_exact d = Some bx
         \<and> c_currency bx = m_currency (td_gross d) \<and> rounded_minor X bx = Ok m)"
  shows "validate_trade X e name side d = Ok () \<longleftrightarrow> dec_is_positive X (td_quantity d)
    \<and> (case td_basis_fee d of None \<Rightarrow> True | Some m \<Rightarrow> 0 < m_amount m)
    \<and> (\<exists>m. trade_settlement side (td_gross d) (td_fee d) (td_accrued_interest d) = Ok m \<and> cash = m)"
proof -
  have c: "cash_legs e = [leg_cash (e_account e) cash]" and s: "security_legs e = [submitted_security_leg (e_account e) custody (td_instrument d) moved]"
    by (simp_all add: cash_legs_def security_legs_def legs_of_kind_def legs)
  have q: "(case side of Buy \<Rightarrow> Ok (td_quantity d) | Sell \<Rightarrow> map_err VNumeric (dec_checked_neg X (td_quantity d))) = Ok moved"
    using moved by (cases side) simp_all
  have eq: "require_equal name a b = Ok () \<longleftrightarrow> a = b" for a b by (auto simp: require_equal_def)
  show ?thesis
    using basis gross d_eq_refl [OF assms(1), of moved]
    unfolding validate_trade_def c s q single_leg_money_def idx_def leg_money_def
    by (elim disjE conjE exE) (auto simp: require_positive_def require_positive_quantity_def ensure_def require_own_account_def
        require_same_instrument_def eq money_new_def)
qed

definition typed_operation :: "operation_kind \<Rightarrow> bool" where
  "typed_operation k = (case k of
     OpBuy _ _ _ gross fee _ accrued _ \<Rightarrow> i64 gross \<and> i64 (minor_or_zero fee) \<and> i64 (minor_or_zero accrued)
   | OpSell _ _ _ gross fee _ accrued _ \<Rightarrow> i64 gross \<and> i64 (minor_or_zero fee) \<and> i64 (minor_or_zero accrued)
   | _ \<Rightarrow> True)"

lemma fee_money_Ok: "fee_money X v c = Ok m \<Longrightarrow> m = map_option (\<lambda>v. money_new v c) v \<and> 0 \<le> minor_or_zero v"
  by (auto simp: fee_money_def minor_or_zero_def split: option.splits)

lemma accrued_interest_money_Ok:
  "accrued_interest_money X v c = Ok m \<Longrightarrow> m = map_option (\<lambda>v. money_new v c) v \<and> 0 \<le> minor_or_zero v"
  by (auto simp: accrued_interest_money_def minor_or_zero_def split: option.splits if_splits)

lemma basis_fee_money_Ok:
  assumes "abs_law X" "basis_fee_money X I (exact_basis_fee X v) c = Ok m"
  shows "(v = None \<and> m = None) \<or> (\<exists>w k. v = Some w \<and> m = Some (money_new k c) \<and> c_currency w = c \<and>
    rounded_minor X \<lparr>c_value = d_abs X (c_value w), c_currency = c_currency w\<rparr> = Ok k)"
  using assms by (cases v) (auto simp: basis_fee_money_def exact_basis_fee_def abs_law_def split: if_splits)

lemma minor_of_map [simp]: "minor_of (map_option (\<lambda>v. money_new v c) v) = minor_or_zero v"
  by (simp add: minor_of_def minor_or_zero_def money_new_def split: option.split)

lemma trade_settlement_Buy:
  assumes "0 < g" "i64 g" "0 \<le> minor_or_zero f" "0 \<le> minor_or_zero a"
  shows "trade_settlement Buy (money_new g c) (map_option (\<lambda>v. money_new v c) f) (map_option (\<lambda>v. money_new v c) a) = Ok m \<longleftrightarrow>
    i64 (g + minor_or_zero a) \<and> i64 (g + minor_or_zero a + minor_or_zero f) \<and> m = money_new (- (g + minor_or_zero a + minor_or_zero f)) c"
  using assms by (cases f; cases a) (auto simp: trade_settlement_def try_add_def require_same_currency_def ensure_def money_new_def
      minor_or_zero_def pm_defs to_i64_def i64_def i64_defs)

lemma trade_settlement_Sell:
  assumes "0 < g" "i64 g" "0 \<le> minor_or_zero f" "0 \<le> minor_or_zero a"
  shows "trade_settlement Sell (money_new g c) (map_option (\<lambda>v. money_new v c) f) (map_option (\<lambda>v. money_new v c) a) = Ok m \<longleftrightarrow>
    i64 (g + minor_or_zero a) \<and> i64 (g + minor_or_zero a - minor_or_zero f) \<and> m = money_new (g + minor_or_zero a - minor_or_zero f) c"
  using assms by (cases f; cases a) (auto simp: trade_settlement_def try_add_def try_sub_def require_same_currency_def ensure_def money_new_def
      minor_or_zero_def pm_defs to_i64_def i64_def i64_defs)

lemma plain_i64_in_range: "i64 x \<Longrightarrow> plain_i64 B x = Ok y \<longleftrightarrow> y = x"
  by (auto simp: plain_i64_def)

lemma neg_in_range: "0 \<le> x \<Longrightarrow> i64 x \<Longrightarrow> i64 (- x)"
  by (simp add: i64_def i64_defs)

lemma build_buy_validates:
  assumes "order_laws X" "abs_law X" "i64 gross"
    and b: "build_buy X I B (e_account e) instrument custody quantity gross fee basis_fee accrued c = Ok (e_kind e, e_legs e)"
  shows "validate_structure X e = Ok () \<longleftrightarrow> dec_is_positive X quantity \<and> fee_rounds X basis_fee
    \<and> i64 (gross + minor_or_zero accrued) \<and> i64 (gross + minor_or_zero accrued + minor_or_zero fee)"
proof -
  from b obtain f bf a s1 s2 paid where g: "0 < gross" and f: "fee_money X fee c = Ok f"
    and bf: "basis_fee_money X I (exact_basis_fee X basis_fee) c = Ok bf" and a: "accrued_interest_money X accrued c = Ok a"
    and s: "plain_i64 B (gross + minor_of a) = Ok s1" "plain_i64 B (s1 + minor_of f) = Ok s2" "plain_i64 B (- s2) = Ok paid"
    and k: "e_kind e = Trade Buy instrument quantity (money_new gross c) f bf (exact_basis_fee X basis_fee) a"
    and l: "e_legs e = [leg_cash (e_account e) (money_new paid c), submitted_security_leg (e_account e) custody instrument quantity]"
    unfolding build_buy_def Let_def by (auto simp: money_new_def)
  note F = fee_money_Ok [OF f] and A = accrued_interest_money_Ok [OF a] and BF = basis_fee_money_Ok [OF assms(2) bf]
  let ?d = "\<lparr>td_instrument = instrument, td_quantity = quantity, td_gross = money_new gross c, td_fee = f,
             td_accrued_interest = a, td_basis_fee = bf, td_basis_fee_exact = exact_basis_fee X basis_fee\<rparr>"
  have "validate_structure X e = validate_trade X e (discriminant (e_kind e)) Buy ?d" by (simp add: validate_structure_def k)
  also have "\<dots> = Ok () \<longleftrightarrow> dec_is_positive X quantity \<and> (case bf of None \<Rightarrow> True | Some m \<Rightarrow> 0 < m_amount m)
      \<and> (\<exists>m. trade_settlement Buy (money_new gross c) f a = Ok m \<and> money_new paid c = m)"
    using BF g l by (subst validate_trade_submitted [OF assms(1), where cash = "money_new paid c" and custody = custody and moved = quantity])
      (auto simp: exact_basis_fee_def money_new_def)
  also have "(case bf of None \<Rightarrow> True | Some m \<Rightarrow> 0 < m_amount m) \<longleftrightarrow> fee_rounds X basis_fee"
    using BF by (auto simp: fee_rounds_def money_new_def)
  also have "(\<exists>m. trade_settlement Buy (money_new gross c) f a = Ok m \<and> money_new paid c = m) \<longleftrightarrow>
      i64 (gross + minor_or_zero accrued) \<and> i64 (gross + minor_or_zero accrued + minor_or_zero fee)"
  proof -
    have "paid = - (gross + minor_or_zero accrued + minor_or_zero fee)"
      if r: "i64 (gross + minor_or_zero accrued)" "i64 (gross + minor_or_zero accrued + minor_or_zero fee)"
    proof -
      have s2: "s2 = gross + minor_or_zero accrued + minor_or_zero fee" using r F A s(1,2) by (simp add: plain_i64_in_range)
      then have "i64 (- s2)" using r(2) g F A by (intro neg_in_range) simp_all
      then show ?thesis using s(3) s2 by (simp add: plain_i64_in_range)
    qed
    then show ?thesis using F A trade_settlement_Buy [OF g assms(3), of fee accrued c] by auto
  qed
  finally show ?thesis by blast
qed

lemma build_sell_validates:
  assumes "order_laws X" "abs_law X" "i64 gross"
    and b: "build_sell X I B (e_account e) instrument custody quantity gross fee basis_fee accrued c = Ok (e_kind e, e_legs e)"
  shows "validate_structure X e = Ok () \<longleftrightarrow> dec_is_positive X quantity \<and> fee_rounds X basis_fee
    \<and> i64 (gross + minor_or_zero accrued) \<and> i64 (gross + minor_or_zero accrued - minor_or_zero fee)"
proof -
  from b obtain f bf a s1 paid sold where g: "0 < gross" and f: "fee_money X fee c = Ok f"
    and bf: "basis_fee_money X I (exact_basis_fee X basis_fee) c = Ok bf" and a: "accrued_interest_money X accrued c = Ok a"
    and s: "plain_i64 B (gross + minor_of a) = Ok s1" "plain_i64 B (s1 - minor_of f) = Ok paid" and sold: "dec_checked_neg X quantity = Ok sold"
    and k: "e_kind e = Trade Sell instrument quantity (money_new gross c) f bf (exact_basis_fee X basis_fee) a"
    and l: "e_legs e = [leg_cash (e_account e) (money_new paid c), submitted_security_leg (e_account e) custody instrument sold]"
    unfolding build_sell_def Let_def by (auto simp: money_new_def)
  note F = fee_money_Ok [OF f] and A = accrued_interest_money_Ok [OF a] and BF = basis_fee_money_Ok [OF assms(2) bf]
  let ?d = "\<lparr>td_instrument = instrument, td_quantity = quantity, td_gross = money_new gross c, td_fee = f,
             td_accrued_interest = a, td_basis_fee = bf, td_basis_fee_exact = exact_basis_fee X basis_fee\<rparr>"
  have "validate_structure X e = validate_trade X e (discriminant (e_kind e)) Sell ?d" by (simp add: validate_structure_def k)
  also have "\<dots> = Ok () \<longleftrightarrow> dec_is_positive X quantity \<and> (case bf of None \<Rightarrow> True | Some m \<Rightarrow> 0 < m_amount m)
      \<and> (\<exists>m. trade_settlement Sell (money_new gross c) f a = Ok m \<and> money_new paid c = m)"
    using BF g l sold by (subst validate_trade_submitted [OF assms(1), where cash = "money_new paid c" and custody = custody and moved = sold])
      (auto simp: exact_basis_fee_def money_new_def)
  also have "(case bf of None \<Rightarrow> True | Some m \<Rightarrow> 0 < m_amount m) \<longleftrightarrow> fee_rounds X basis_fee"
    using BF by (auto simp: fee_rounds_def money_new_def)
  also have "(\<exists>m. trade_settlement Sell (money_new gross c) f a = Ok m \<and> money_new paid c = m) \<longleftrightarrow>
      i64 (gross + minor_or_zero accrued) \<and> i64 (gross + minor_or_zero accrued - minor_or_zero fee)"
  proof -
    have "paid = gross + minor_or_zero accrued - minor_or_zero fee"
      if r: "i64 (gross + minor_or_zero accrued)" "i64 (gross + minor_or_zero accrued - minor_or_zero fee)"
      using r F A s by (simp add: plain_i64_in_range)
    then show ?thesis using F A trade_settlement_Sell [OF g assms(3), of fee accrued c] by auto
  qed
  finally show ?thesis by blast
qed

text \<open>
  (C14) Normalisation and structural validation agree: an event made from a submitted operation
  of any kind passes structural validation exactly when the conditions hold that
  normalisation leaves to it: a traded or restored quantity and a price are positive, a basis fee
  does not round to nothing, and the settlement of a trade fits its type. In particular every
  deposit, withdrawal, refund, transfer, income, fee, tax and statement that is
  normalised at all is structurally valid.
\<close>

theorem normalized_operation_validates:
  assumes "order_laws X" "abs_law X" "typed_operation (so_kind operation)"
    and "normalize X I B fresh_event fresh_transfer operation context = Ok e"
  shows "validate_structure X e = Ok () \<longleftrightarrow> sound_operation X (so_kind operation)"
proof -
  from assms(4) obtain kind legs where b: "build_event X I B fresh_transfer operation = Ok (kind, legs)"
    and e: "e_account e = so_account operation" "e_kind e = kind" "e_legs e = legs"
    by (auto simp: normalize_def Let_def)
  show ?thesis
  proof (cases "so_kind operation")
    case (OpBuy instrument custody quantity gross fee basis_fee accrued c)
    then show ?thesis using b e assms(3) build_buy_validates [OF assms(1,2), of gross I B e instrument custody quantity fee basis_fee accrued c]
      by (simp add: build_event_def sound_operation_def typed_operation_def)
  next
    case (OpSell instrument custody quantity gross fee basis_fee accrued c)
    then show ?thesis using b e assms(3) build_sell_validates [OF assms(1,2), of gross I B e instrument custody quantity fee basis_fee accrued c]
      by (simp add: build_event_def sound_operation_def typed_operation_def)
  next
    case (OpTransfer to minor c)
    then have "e_kind e = CashTransfer fresh_transfer (so_account operation) to (money_new minor c)" "0 < minor" "to \<noteq> so_account operation"
      "e_legs e = [leg_cash (so_account operation) (money_new (- minor) c), leg_cash to (money_new minor c)]"
      using b e by (auto simp: build_event_def money_new_def Let_def split: if_splits)
    then show ?thesis using OpTransfer e(1)
      by (simp add: sound_operation_def validate_structure_def validate_transfer_def validation_eval
          try_add_def require_same_currency_def pm_defs to_i64_def i64_def i64_defs money_is_zero_def)
  next
    case (OpOwnAccountMovement movement minor c)
    have own: ?thesis if "e_kind e = OwnAccountMovement (money_new v c)" "v \<noteq> 0" "e_legs e = [leg_cash (so_account operation) (money_new v c)]" for v
      using that OpOwnAccountMovement e(1)
      by (simp add: sound_operation_def validate_structure_def validate_own_account_movement_def validation_eval)
    show ?thesis
    proof (cases movement)
      case None
      then have "e_kind e = UnresolvedOwnAccountMovement (money_new minor c)" "0 < minor" "e_legs e = []"
        using OpOwnAccountMovement b e by (auto simp: build_event_def Let_def)
      then show ?thesis using OpOwnAccountMovement
        by (simp add: sound_operation_def validate_structure_def validate_unresolved_own_account_movement_def money_new_def)
    next
      case (Some mv)
      then show ?thesis using OpOwnAccountMovement b e own [of minor] own [of "- minor"]
        by (cases mv) (auto simp: build_event_def Let_def)
    qed
  next
    case (OpOpeningPosition instrument custody quantity cost_basis c assertions)
    then obtain cost where k: "kind = OpeningPosition instrument quantity cost (case assertions of Some a \<Rightarrow> a | None \<Rightarrow> opening_assertions_default)"
      and l: "legs = [submitted_security_leg (so_account operation) custody instrument quantity]"
      using b by (auto simp: build_event_def Let_def)
    then show ?thesis using OpOpeningPosition e d_eq_refl [OF assms(1), of quantity]
      by (simp add: sound_operation_def validate_structure_def validate_opening_position_def require_positive_quantity_def
          cash_legs_def security_legs_def legs_of_kind_def idx_def require_own_account_def require_same_instrument_def ensure_def Let_def)
  next
    case (OpDeposit minor c)
    then have "e_kind e = CashIn (money_new minor c)" "0 < minor" "e_legs e = [leg_cash (so_account operation) (money_new minor c)]" using b e by (auto simp: build_event_def Let_def)
    then show ?thesis using OpDeposit e(1) by (simp add: sound_operation_def validate_structure_def validation_eval)
  next
    case (OpWithdrawal minor c)
    then have "e_kind e = CashOut (money_new (- minor) c)" "0 < minor" "e_legs e = [leg_cash (so_account operation) (money_new (- minor) c)]" using b e by (auto simp: build_event_def Let_def)
    then show ?thesis using OpWithdrawal e(1) by (simp add: sound_operation_def validate_structure_def validation_eval)
  next
    case (OpRefund minor c)
    then have "e_kind e = Refund (money_new minor c)" "0 < minor" "e_legs e = [leg_cash (so_account operation) (money_new minor c)]" using b e by (auto simp: build_event_def Let_def)
    then show ?thesis using OpRefund e(1) by (simp add: sound_operation_def validate_structure_def validation_eval)
  next
    case (OpIncome instrument minor c kd)
    then have "e_kind e = Income instrument (money_new minor c) kd" "0 < minor" "e_legs e = [leg_cash (so_account operation) (money_new minor c)]" using b e by (auto simp: build_event_def Let_def)
    then show ?thesis using OpIncome e(1) by (simp add: sound_operation_def validate_structure_def validation_eval)
  next
    case (OpFee minor c origin)
    then have "e_kind e = Fee (money_new (- minor) c) origin" "0 < minor" "e_legs e = [leg_fee (so_account operation) (money_new (- minor) c)]" using b e by (auto simp: build_event_def Let_def)
    then show ?thesis using OpFee e(1) by (simp add: sound_operation_def validate_structure_def validation_eval validate_fee_def)
  next
    case (OpTax minor c origin)
    then have "e_kind e = Tax (money_new (- minor) c) origin" "0 < minor" "e_legs e = [leg_tax (so_account operation) (money_new (- minor) c)]" using b e by (auto simp: build_event_def Let_def)
    then show ?thesis using OpTax e(1) by (simp add: sound_operation_def validate_structure_def validation_eval validate_tax_def)
  next
    case (OpOpeningCash minor c)
    then have "e_kind e = OpeningCash (money_new minor c)" "True" "e_legs e = [leg_cash (so_account operation) (money_new minor c)]" using b e by (auto simp: build_event_def Let_def)
    then show ?thesis using OpOpeningCash e(1) by (simp add: sound_operation_def validate_structure_def validation_eval)
  next
    case (OpStatedSecuritiesValue minor c)
    then have "e_kind e = StatedSecuritiesValue (money_new minor c)" "0 < minor" "e_legs e = []" using b e by (auto simp: build_event_def Let_def)
    then show ?thesis using OpStatedSecuritiesValue e(1) by (simp add: sound_operation_def validate_structure_def validation_eval validate_stated_securities_value_def require_no_legs_def)
  next
    case (OpValuation instrument price c quality)
    then have "e_kind e = Valuation instrument price c quality" "True" "e_legs e = []" using b e by (auto simp: build_event_def Let_def)
    then show ?thesis using OpValuation e(1) by (simp add: sound_operation_def validate_structure_def validation_eval validate_valuation_def require_no_legs_def Let_def)
  qed
qed

definition sample_ingest :: ingest_deps where
  "sample_ingest = \<lparr>i_json = (\<lambda>_. Some ''form''), i_sha256 = (\<lambda>_. replicate 32 7), i_account_text = (\<lambda>_. []),
     i_money_error_text = (\<lambda>_. []), i_numeric_error_text = (\<lambda>_. [])\<rparr>"

definition sample_submission :: "operation_kind \<Rightarrow> submitted_operation" where
  "sample_submission k = \<lparr>so_account = AccountId 1, so_kind = k,
     so_dates = \<lparr>od_trade = Some 5, od_settled = None, od_cash_posted = None, od_paid = None\<rparr>, so_source_time = None,
     so_idempotency_key = None, so_source_operation_id = None, so_source_position_id = None, so_source_category = None,
     so_owner_category = None, so_source_code = None, so_source_kind = None, so_description = None, so_counterparty = None\<rparr>"

definition sample_context :: normalization_context where
  "sample_context = \<lparr>nc_owner = OwnerId 1, nc_source = SourceId 1, nc_parser_version = ''ingest/manual/1''\<rparr>"

abbreviation checked_build :: build_profile where
  "checked_build \<equiv> \<lparr>bp_overflow_checks = True\<rparr>"

abbreviation sample_purchase :: operation_kind where
  "sample_purchase \<equiv> OpBuy (InstrumentId 7) None (Decimal 3 0) 1000 (Some 20) None None Rub"

theorem normalized_operation_validates_witness:
  "\<exists>e. normalize ref_deps sample_ingest checked_build (EventId 1) (TransferId 1) (sample_submission sample_purchase) sample_context = Ok e \<and>
     validate_structure ref_deps e = Ok ()"
proof -
  have "is_ok (normalize ref_deps sample_ingest checked_build (EventId 1) (TransferId 1) (sample_submission sample_purchase) sample_context)"
    by code_simp
  then obtain e where e: "normalize ref_deps sample_ingest checked_build (EventId 1) (TransferId 1) (sample_submission sample_purchase) sample_context = Ok e"
    by (cases "normalize ref_deps sample_ingest checked_build (EventId 1) (TransferId 1) (sample_submission sample_purchase) sample_context") auto
  have "abs_law ref_deps" by (simp add: abs_law_def ref_deps_def)
  moreover have "typed_operation (so_kind (sample_submission sample_purchase))" by code_simp
  moreover have "sound_operation ref_deps (so_kind (sample_submission sample_purchase))"
    by (simp add: sound_operation_def sample_submission_def fee_rounds_def minor_or_zero_def i64_def i64_defs dec_is_positive_def ref_deps_def)
  ultimately show ?thesis using e normalized_operation_validates [OF ref_order_laws _ _ e] by blast
qed

section \<open>Overflow and duplicates\<close>

abbreviation huge_purchase :: operation_kind where
  "huge_purchase \<equiv> OpBuy (InstrumentId 7) None (Decimal 3 0) (2 ^ 63 - 1) (Some 3) None None Rub"

lemma submitted_security_leg_money [simp]: "l_money (submitted_security_leg account custody instrument quantity) = None"
  by (cases custody) (simp_all add: submitted_security_leg_def leg_security_def leg_security_without_custody_def)

lemma wrap_wrap_add: "wrap_i64 (wrap_i64 x + y) = wrap_i64 (x + y)"
  using mod_add_left_eq [of "x + 2 ^ 63" "2 ^ 64" y] by (simp add: wrap_i64_def algebra_simps)

lemma wrap_wrap_neg: "wrap_i64 (- wrap_i64 x) = wrap_i64 (- x)"
  using mod_diff_right_eq [of "2 ^ 64" "x + 2 ^ 63" "2 ^ 64"] by (simp add: wrap_i64_def algebra_simps)

lemma wrap_neg_add: "wrap_i64 (- (wrap_i64 x + y)) = wrap_i64 (- (x + y))"
  using wrap_wrap_neg [of "wrap_i64 x + y"] wrap_wrap_neg [of "x + y"] by (simp only: wrap_wrap_add)

lemma plain_i64_unchecked: "\<not> bp_overflow_checks B \<Longrightarrow> plain_i64 B x = Ok (wrap_i64 x)"
  by (auto simp: plain_i64_def wrap_i64_def i64_def i64_defs)

lemma build_buy_overflow:
  assumes "0 < gross" "i64 gross" "fee_money X fee c = Ok f" "basis_fee_money X I (exact_basis_fee X basis_fee) c = Ok bf"
    and "accrued_interest_money X accrued c = Ok a" "\<not> i64 (gross + minor_or_zero accrued + minor_or_zero fee)"
  shows "bp_overflow_checks B \<Longrightarrow> build_buy X I B account instrument custody quantity gross fee basis_fee accrued c = Panic"
    and "\<not> bp_overflow_checks B \<Longrightarrow> build_buy X I B account instrument custody quantity gross fee basis_fee accrued c =
      Ok (Trade Buy instrument quantity (money_new gross c) f bf (exact_basis_fee X basis_fee) a,
        [leg_cash account (money_new (wrap_i64 (- (gross + minor_or_zero accrued + minor_or_zero fee))) c),
         submitted_security_leg account custody instrument quantity])"
proof -
  have m: "minor_of f = minor_or_zero fee" "minor_of a = minor_or_zero accrued"
    using fee_money_Ok [OF assms(3)] accrued_interest_money_Ok [OF assms(5)] by simp_all
  show "build_buy X I B account instrument custody quantity gross fee basis_fee accrued c = Panic" if "bp_overflow_checks B"
    using that assms m by (simp add: build_buy_def Let_def positive_minor_def plain_i64_def money_new_def)
  show "build_buy X I B account instrument custody quantity gross fee basis_fee accrued c =
      Ok (Trade Buy instrument quantity (money_new gross c) f bf (exact_basis_fee X basis_fee) a,
        [leg_cash account (money_new (wrap_i64 (- (gross + minor_or_zero accrued + minor_or_zero fee))) c),
         submitted_security_leg account custody instrument quantity])" if "\<not> bp_overflow_checks B"
    using assms m
    by (simp add: build_buy_def Let_def positive_minor_def plain_i64_unchecked [OF that] wrap_wrap_add wrap_wrap_neg wrap_neg_add money_new_def
        del: minus_add_distrib add_uminus_conv_diff)
qed

text \<open>
  (C39) The settlement of a purchase is added up without a check. Any purchase that normalisation would
  otherwise accept, whose gross amount, accrued interest and fee each fit their type but not their sum, is
  not rejected: a build with overflow checks panics, and one without them makes an event whose cash leg is the
  sum wrapped around its type, whatever its sign, which structural validation then refuses.
\<close>

theorem settlement_overflow_is_not_rejected:
  assumes "order_laws X" "abs_law X"
    and "so_kind operation = OpBuy instrument custody quantity gross fee basis_fee accrued c" "typed_operation (so_kind operation)"
    and "effective_date (to_event_dates (so_dates operation)) = Some day" "fingerprint X I operation = Ok fp" "0 < gross"
    and "fee_money X fee c = Ok f" "basis_fee_money X I (exact_basis_fee X basis_fee) c = Ok bf" "accrued_interest_money X accrued c = Ok a"
    and "\<not> i64 (gross + minor_or_zero accrued + minor_or_zero fee)"
  shows "normalize X I \<lparr>bp_overflow_checks = True\<rparr> fresh_event fresh_transfer operation context = Panic \<and>
    (\<exists>e. normalize X I \<lparr>bp_overflow_checks = False\<rparr> fresh_event fresh_transfer operation context = Ok e \<and>
      map l_money (e_legs e) = [Some (money_new (wrap_i64 (- (gross + minor_or_zero accrued + minor_or_zero fee))) c), None] \<and>
      validate_structure X e \<noteq> Ok ())"
proof -
  have "i64 gross" using assms(3,4) by (simp add: typed_operation_def)
  note overflow = build_buy_overflow [OF assms(7) this assms(8-11)]
  have "normalize X I \<lparr>bp_overflow_checks = True\<rparr> fresh_event fresh_transfer operation context = Panic"
    using assms(3,5) by (simp add: normalize_def build_event_def overflow(1) Let_def)
  moreover obtain e where e: "normalize X I \<lparr>bp_overflow_checks = False\<rparr> fresh_event fresh_transfer operation context = Ok e"
    and built: "build_buy X I \<lparr>bp_overflow_checks = False\<rparr> (e_account e) instrument custody quantity gross fee basis_fee accrued c = Ok (e_kind e, e_legs e)"
    and legs: "e_legs e = [leg_cash (e_account e) (money_new (wrap_i64 (- (gross + minor_or_zero accrued + minor_or_zero fee))) c),
         submitted_security_leg (e_account e) custody instrument quantity]"
  proof -
    have "is_ok (normalize X I \<lparr>bp_overflow_checks = False\<rparr> fresh_event fresh_transfer operation context)"
      using assms(3,5,6) by (simp add: normalize_def build_event_def overflow(2) Let_def)
    then obtain e where e: "normalize X I \<lparr>bp_overflow_checks = False\<rparr> fresh_event fresh_transfer operation context = Ok e"
      by (auto simp: is_ok_iff)
    then have "e_account e = so_account operation"
      and "build_buy X I \<lparr>bp_overflow_checks = False\<rparr> (so_account operation) instrument custody quantity gross fee basis_fee accrued c = Ok (e_kind e, e_legs e)"
      using assms(3) by (auto simp: normalize_def build_event_def Let_def)
    with e overflow(2) show ?thesis by (intro that [of e]) simp_all
  qed
  moreover have "validate_structure X e \<noteq> Ok ()"
    using build_buy_validates [OF assms(1,2) \<open>i64 gross\<close> built] assms(11) by blast
  moreover have "map l_money (e_legs e) = [Some (money_new (wrap_i64 (- (gross + minor_or_zero accrued + minor_or_zero fee))) c), None]"
    by (simp add: legs)
  ultimately show ?thesis by (intro conjI exI [of _ e])
qed

theorem settlement_overflow_is_not_rejected_witness:
  "(\<exists>e. normalize ref_deps sample_ingest \<lparr>bp_overflow_checks = False\<rparr> (EventId 1) (TransferId 1) (sample_submission huge_purchase) sample_context = Ok e \<and>
      map l_money (e_legs e) = [Some (money_new (2 ^ 63 - 2) Rub), None] \<and> validate_structure ref_deps e \<noteq> Ok ())"
proof -
  let ?operation = "sample_submission huge_purchase"
  have "abs_law ref_deps" by (simp add: abs_law_def ref_deps_def)
  moreover have "so_kind ?operation = huge_purchase" by (simp add: sample_submission_def)
  moreover have "typed_operation (so_kind ?operation)" by code_simp
  moreover have "effective_date (to_event_dates (so_dates ?operation)) = Some 5" by code_simp
  moreover obtain fp where "fingerprint ref_deps sample_ingest ?operation = Ok fp"
  proof -
    have "is_ok (fingerprint ref_deps sample_ingest ?operation)" by code_simp
    then show ?thesis using that by (cases "fingerprint ref_deps sample_ingest ?operation") auto
  qed
  moreover have "(0::int) < 2 ^ 63 - 1" by simp
  moreover have "fee_money ref_deps (Some 3) Rub = Ok (Some (money_new 3 Rub))" by (simp add: fee_money_def positive_minor_def)
  moreover have "basis_fee_money ref_deps sample_ingest (exact_basis_fee ref_deps None) Rub = Ok None"
    by (simp add: basis_fee_money_def exact_basis_fee_def)
  moreover have "accrued_interest_money ref_deps None Rub = Ok None" by (simp add: accrued_interest_money_def)
  moreover have "\<not> i64 (2 ^ 63 - 1 + minor_or_zero None + minor_or_zero (Some 3))" by (simp add: minor_or_zero_def i64_def i64_defs)
  ultimately have "\<exists>e. normalize ref_deps sample_ingest \<lparr>bp_overflow_checks = False\<rparr> (EventId 1) (TransferId 1) ?operation sample_context = Ok e \<and>
      map l_money (e_legs e) = [Some (money_new (wrap_i64 (- (2 ^ 63 - 1 + minor_or_zero None + minor_or_zero (Some 3)))) Rub), None] \<and>
      validate_structure ref_deps e \<noteq> Ok ()"
    by (rule settlement_overflow_is_not_rejected [OF ref_order_laws, THEN conjunct2])
  then show ?thesis by (simp add: minor_or_zero_def wrap_i64_def)
qed

lemma sorted_first:
  "sort_key dedup_precedence (document @ (case i of Some i \<Rightarrow> [BySourceOperationId i] | None \<Rightarrow> []) @ (case k of Some k \<Rightarrow> [ByIdempotencyKey k] | None \<Rightarrow> [])) =
     (case i of Some i \<Rightarrow> [BySourceOperationId i] | None \<Rightarrow> []) @ (case k of Some k \<Rightarrow> [ByIdempotencyKey k] | None \<Rightarrow> []) @ document"
  if "document = [] \<or> (\<exists>d s n. document = [ByDocumentRow d s n]) \<or> (\<exists>d f. document = [ByNormalizedFingerprint d f])"
  using that by (auto split: option.split)

text \<open>
  (C36) A row is left out as a duplicate only under an identity it states, and always then: the
  identity is the operation id of the source, else the idempotency key, else the place in its document, else the fingerprint
  within its document; the row is not recorded exactly when a known record has that
  same identity. A row without any of them is always recorded, however much it resembles another.
\<close>

theorem duplicate_iff_known_identity:
  assumes "choose_key X I operation context = Ok key"
  shows "(case key of
      Some (BySourceOperationId i) \<Rightarrow> so_source_operation_id operation = Some i
    | Some (ByIdempotencyKey k) \<Rightarrow> so_source_operation_id operation = None \<and> so_idempotency_key operation = Some k
    | Some (ByDocumentRow d sheet n) \<Rightarrow> so_source_operation_id operation = None \<and> so_idempotency_key operation = None
        \<and> dc_document context = Some d \<and> dc_sheet context = sheet \<and> dc_row context = Some n
    | Some (ByNormalizedFingerprint d fp) \<Rightarrow> so_source_operation_id operation = None \<and> so_idempotency_key operation = None
        \<and> dc_document context = Some d \<and> dc_row context = None \<and> fingerprint X I operation = Ok fp
    | None \<Rightarrow> so_source_operation_id operation = None \<and> so_idempotency_key operation = None \<and> dc_document context = None)
    \<and> (\<not> records_the_row (assess_row key hash context known) \<longleftrightarrow> (\<exists>k r. key = Some k \<and> r \<in> set known \<and> matches_key r k context))"
proof
  from assms obtain document where d: "document_keys X I operation context = Ok document"
    and key: "key = (case sort_key dedup_precedence (document @ (case so_source_operation_id operation of Some i \<Rightarrow> [BySourceOperationId i] | None \<Rightarrow> [])
      @ (case so_idempotency_key operation of Some k \<Rightarrow> [ByIdempotencyKey k] | None \<Rightarrow> [])) of [] \<Rightarrow> None | k # _ \<Rightarrow> Some k)"
    by (auto simp: choose_key_def Let_def)
  have shape: "document = [] \<and> dc_document context = None
    \<or> (\<exists>h n. document = [ByDocumentRow h (dc_sheet context) n] \<and> dc_document context = Some h \<and> dc_row context = Some n)
    \<or> (\<exists>h f. document = [ByNormalizedFingerprint h f] \<and> dc_document context = Some h \<and> dc_row context = None \<and> fingerprint X I operation = Ok f)"
    using d by (auto simp: document_keys_def split: option.splits)
  then have "key = (case (case so_source_operation_id operation of Some i \<Rightarrow> [BySourceOperationId i] | None \<Rightarrow> [])
      @ (case so_idempotency_key operation of Some k \<Rightarrow> [ByIdempotencyKey k] | None \<Rightarrow> []) @ document of [] \<Rightarrow> None | k # _ \<Rightarrow> Some k)"
    unfolding key by (subst sorted_first) auto
  then show "case key of
      Some (BySourceOperationId i) \<Rightarrow> so_source_operation_id operation = Some i
    | Some (ByIdempotencyKey k) \<Rightarrow> so_source_operation_id operation = None \<and> so_idempotency_key operation = Some k
    | Some (ByDocumentRow d sheet n) \<Rightarrow> so_source_operation_id operation = None \<and> so_idempotency_key operation = None
        \<and> dc_document context = Some d \<and> dc_sheet context = sheet \<and> dc_row context = Some n
    | Some (ByNormalizedFingerprint d fp) \<Rightarrow> so_source_operation_id operation = None \<and> so_idempotency_key operation = None
        \<and> dc_document context = Some d \<and> dc_row context = None \<and> fingerprint X I operation = Ok fp
    | None \<Rightarrow> so_source_operation_id operation = None \<and> so_idempotency_key operation = None \<and> dc_document context = None"
    using shape by (cases "so_source_operation_id operation"; cases "so_idempotency_key operation") auto
  show "\<not> records_the_row (assess_row key hash context known) \<longleftrightarrow> (\<exists>k r. key = Some k \<and> r \<in> set known \<and> matches_key r k context)"
  proof (cases key)
    case None
    then show ?thesis by (simp add: assess_row_def split: option.split)
  next
    case (Some k)
    show ?thesis
    proof (cases "find (\<lambda>r. matches_key r k context) known")
      case None
      have "records_the_row (assess_row key hash context known)" using None Some by (simp add: assess_row_def split: option.split)
      moreover have "\<not> matches_key r k context" if "r \<in> set known" for r using None that by (auto simp: find_None_iff)
      ultimately show ?thesis using Some by blast
    next
      case found: (Some r)
      then have "r \<in> set known" "matches_key r k context" by (auto simp: find_Some_iff)
      then show ?thesis using Some found by (auto simp: assess_row_def)
    qed
  qed
qed

definition sample_place :: document_context where
  "sample_place = \<lparr>dc_account = AccountId 1, dc_document = Some ''report'', dc_sheet = None, dc_row = Some 4, dc_identity_scope = ScopeSource\<rparr>"

definition sample_known :: known_record where
  "sample_known = \<lparr>kr_event = EventId 9, kr_account = AccountId 1, kr_source_operation_id = None, kr_idempotency_key = None,
     kr_fingerprint = ''f'', kr_document = Some ''report'', kr_sheet = None, kr_row = Some 4\<rparr>"

theorem duplicate_iff_known_identity_witness:
  "\<exists>key. choose_key ref_deps sample_ingest (sample_submission sample_purchase) sample_place = Ok key \<and>
     \<not> records_the_row (assess_row key ''f'' sample_place [sample_known]) \<and> records_the_row (assess_row key ''f'' sample_place [])"
proof -
  let ?key = "Some (ByDocumentRow ''report'' None 4)"
  have k: "choose_key ref_deps sample_ingest (sample_submission sample_purchase) sample_place = Ok ?key"
    by (simp add: choose_key_def document_keys_def sample_place_def sample_submission_def)
  have "matches_key sample_known (ByDocumentRow ''report'' None 4) sample_place" by (simp add: sample_known_def)
  then show ?thesis
    using k duplicate_iff_known_identity [OF k, of "''f''" "[sample_known]"] duplicate_iff_known_identity [OF k, of "''f''" "[]"] by auto
qed

end
