(* ===== verification/CorrectionChain.thy ===== *)
theory CorrectionChain
  imports EventModel OrderedMap
begin

text \<open>
  The correction chain of an operation, \<open>iaam-store/src/journal/chain.rs\<close>: from any of its
  facts back to the first one, and from there depth first to every fact that corrects another
  of the chain. The stored facts are a list with their moments of recording; the two SQL
  statements are its filters. Both walks keep the set of facts seen and stop at a repetition.
  The lemmas show that both walks end, that the second one never meets a repetition, and which
  facts the answer holds.
\<close>

section \<open>The walk\<close>

record recorded_event =
  re_event :: event
  re_recorded_at :: string

datatype chain_error = CorrectionChainCycle event_id

abbreviation re_id :: "recorded_event \<Rightarrow> event_id" where
  "re_id r \<equiv> e_id (re_event r)"

fun relation_target :: "relation \<Rightarrow> event_id option" where
  "relation_target NoRelation = None"
| "relation_target (Reversal target) = Some target"
| "relation_target (Replacement target) = Some target"

fun relation_order :: "relation \<Rightarrow> nat" where
  "relation_order (Reversal _) = 0"
| "relation_order (Replacement _) = 1"
| "relation_order NoRelation = 2"

text \<open>Events by id, in the order of the ids; an id without a row is skipped.\<close>

definition hydrate :: "recorded_event list \<Rightarrow> event_id list \<Rightarrow> event list" where
  "hydrate db ids = List.map_filter (\<lambda>i. map_option re_event (find (\<lambda>r. re_id r = i) db)) ids"

definition recorded_from :: "recorded_event list \<Rightarrow> event_id \<Rightarrow> string \<Rightarrow> recorded_event option" where
  "recorded_from db i recorded_at = (case hydrate db [i] of
     [] \<Rightarrow> None
   | e # _ \<Rightarrow> Some \<lparr>re_event = e, re_recorded_at = recorded_at\<rparr>)"

definition fetch_recorded :: "recorded_event list \<Rightarrow> owner_id \<Rightarrow> event_id \<Rightarrow> recorded_event option" where
  "fetch_recorded db owner event =
     (case find (\<lambda>r. e_owner (re_event r) = owner \<and> re_id r = event) db of
        None \<Rightarrow> None
      | Some row \<Rightarrow> recorded_from db (re_id row) (re_recorded_at row))"

definition recorded_many :: "recorded_event list \<Rightarrow> (event_id \<times> string) list \<Rightarrow> recorded_event list" where
  "recorded_many db stamps =
     (let recorded_at = foldl (\<lambda>m (i, stamp). bt_insert i stamp m) [] stamps in
      List.map_filter (\<lambda>e. map_option (\<lambda>stamp. \<lparr>re_event = e, re_recorded_at = stamp\<rparr>) (bt_get recorded_at (e_id e)))
        (hydrate db (map fst stamps)))"

definition naming_cmp :: "recorded_event \<Rightarrow> recorded_event \<Rightarrow> ordering" where
  "naming_cmp left right =
     then_with (cmp_of (relation_order (e_relation (re_event left))) (relation_order (e_relation (re_event right))))
       (then_with (cmp_of (re_recorded_at left) (re_recorded_at right)) (cmp_of (re_id left) (re_id right)))"

definition corrections_naming :: "recorded_event list \<Rightarrow> owner_id \<Rightarrow> event_id \<Rightarrow> recorded_event list" where
  "corrections_naming db owner target =
     sort_by naming_cmp (recorded_many db (map (\<lambda>r. (re_id r, re_recorded_at r))
       (filter (\<lambda>r. e_owner (re_event r) = owner \<and> relation_target (e_relation (re_event r)) = Some target) db)))"

text \<open>The facts of the store that a walk can still enter.\<close>

definition unseen :: "recorded_event list \<Rightarrow> event_id set \<Rightarrow> event_id set \<Rightarrow> nat" where
  "unseen db extra seen = card ((re_id ` set db \<union> extra) - seen)"

lemma find_Some: "find P xs = Some x \<Longrightarrow> x \<in> set xs \<and> P x"
  by (auto simp: find_Some_iff in_set_conv_nth)

lemma hydrate_set: "e \<in> set (hydrate db ids) \<Longrightarrow> e_id e \<in> set ids \<and> e \<in> re_event ` set db"
  unfolding hydrate_def by (induction ids) (auto simp: List.map_filter_simps split: option.splits dest!: find_Some)

lemma fetch_recorded_stored: "fetch_recorded db owner i = Some r \<Longrightarrow> re_id r \<in> re_id ` set db"
proof -
  assume "fetch_recorded db owner i = Some r"
  then obtain j stamp where "recorded_from db j stamp = Some r" by (auto simp: fetch_recorded_def split: option.splits)
  then have "re_event r \<in> set (hydrate db [j])" by (auto simp: recorded_from_def split: list.splits)
  then show ?thesis using hydrate_set by fastforce
qed

lemma recorded_many_stored: "r \<in> set (recorded_many db stamps) \<Longrightarrow> re_id r \<in> re_id ` set db"
proof -
  assume "r \<in> set (recorded_many db stamps)"
  then have "re_event r \<in> set (hydrate db (map fst stamps))"
    by (auto simp: recorded_many_def List.map_filter_def Let_def)
  then show ?thesis using hydrate_set by fastforce
qed

lemma unseen_decreases:
  assumes "i \<in> extra" "i \<notin> seen" "extra' \<subseteq> re_id ` set db \<union> extra" "finite extra"
  shows "unseen db extra' (insert i seen) < unseen db extra seen"
  unfolding unseen_def using assms by (intro psubset_card_mono) auto

function head_of_chain :: "recorded_event list \<Rightarrow> owner_id \<Rightarrow> event_id set \<Rightarrow> recorded_event \<Rightarrow> (recorded_event, chain_error) result" where
  "head_of_chain db owner seen current =
     (if re_id current \<in> seen then Err (CorrectionChainCycle (re_id current))
      else case relation_target (e_relation (re_event current)) of
        None \<Rightarrow> Ok current
      | Some target \<Rightarrow>
          (case fetch_recorded db owner target of
             Some named \<Rightarrow> head_of_chain db owner (insert (re_id current) seen) named
           | None \<Rightarrow> Ok current))"
  by pat_completeness auto
termination
proof (relation "measure (\<lambda>(db, _, seen, current). unseen db {re_id current} seen)")
  fix db owner seen current target named
  assume "re_id current \<notin> seen" "fetch_recorded db owner target = Some named"
  then show "((db, owner, insert (re_id current) seen, named), (db, owner, seen, current)) \<in>
      measure (\<lambda>(db, _, seen, current). unseen db {re_id current} seen)"
    using unseen_decreases [of "re_id current" "{re_id current}" seen "{re_id named}" db] fetch_recorded_stored by auto
qed simp

text \<open>The vector of pending facts is a stack; its top is the head of the list here.\<close>

function chain_from :: "recorded_event list \<Rightarrow> owner_id \<Rightarrow> recorded_event list \<Rightarrow> event_id set \<Rightarrow> recorded_event list
    \<Rightarrow> (recorded_event list, chain_error) result" where
  "chain_from db owner chain seen [] = Ok chain"
| "chain_from db owner chain seen (current # pending) =
     (if re_id current \<in> seen then Err (CorrectionChainCycle (re_id current))
      else chain_from db owner (chain @ [current]) (insert (re_id current) seen)
             (corrections_naming db owner (re_id current) @ pending))"
  by pat_completeness auto
termination
proof (relation "measure (\<lambda>(db, _, _, seen, pending). unseen db (re_id ` set pending) seen)")
  fix db owner chain seen current pending
  assume "re_id current \<notin> seen"
  moreover have "re_id ` set (corrections_naming db owner (re_id current) @ pending) \<subseteq> re_id ` set db \<union> re_id ` set (current # pending)"
    using recorded_many_stored by (fastforce simp: corrections_naming_def)
  ultimately show "((db, owner, chain @ [current], insert (re_id current) seen, corrections_naming db owner (re_id current) @ pending),
      (db, owner, chain, seen, current # pending)) \<in> measure (\<lambda>(db, _, _, seen, pending). unseen db (re_id ` set pending) seen)"
    using unseen_decreases [of "re_id current" "re_id ` set (current # pending)" seen] by simp
qed simp

definition event_chain :: "recorded_event list \<Rightarrow> owner_id \<Rightarrow> event_id \<Rightarrow> (recorded_event list, chain_error) result" where
  "event_chain db owner event = (case fetch_recorded db owner event of
     None \<Rightarrow> Ok []
   | Some entered \<Rightarrow>
       and_then (head_of_chain db owner {} entered) (\<lambda>head. chain_from db owner [] {} [head]))"

section \<open>The queries\<close>

text \<open>The identifier is the primary key of the stored facts.\<close>

definition keyed :: "recorded_event list \<Rightarrow> bool" where
  "keyed db \<longleftrightarrow> distinct (map re_id db)"

definition owned :: "recorded_event list \<Rightarrow> owner_id \<Rightarrow> recorded_event set" where
  "owned db owner = {r \<in> set db. e_owner (re_event r) = owner}"

lemma keyed_inject: "keyed db \<Longrightarrow> r \<in> set db \<Longrightarrow> r' \<in> set db \<Longrightarrow> re_id r = re_id r' \<Longrightarrow> r = r'"
  by (auto simp: keyed_def distinct_map inj_on_def)

lemma find_keyed:
  assumes "keyed db" "r \<in> set db" "\<And>r'. r' \<in> set db \<Longrightarrow> P r' \<longleftrightarrow> r' = r"
  shows "find P db = Some r"
  using assms(2,3) by (induction db) auto

lemma find_by_id: "keyed db \<Longrightarrow> r \<in> set db \<Longrightarrow> find (\<lambda>s. re_id s = re_id r) db = Some r"
  by (rule find_keyed) (auto dest: keyed_inject)

lemma hydrate_keyed: "keyed db \<Longrightarrow> set rs \<subseteq> set db \<Longrightarrow> hydrate db (map re_id rs) = map re_event rs"
  unfolding hydrate_def by (induction rs) (auto simp: List.map_filter_simps find_by_id)

lemma fetch_recorded_iff:
  assumes "keyed db"
  shows "fetch_recorded db owner i = Some r \<longleftrightarrow> r \<in> owned db owner \<and> re_id r = i"
proof (cases "find (\<lambda>r. e_owner (re_event r) = owner \<and> re_id r = i) db")
  case None
  then have "fetch_recorded db owner i = None" by (simp add: fetch_recorded_def)
  then show ?thesis using None by (auto simp: owned_def find_None_iff)
next
  case (Some row)
  then have row: "row \<in> owned db owner" "re_id row = i" by (auto simp: owned_def dest!: find_Some)
  then have "hydrate db [re_id row] = [re_event row]"
    using hydrate_keyed [OF assms, of "[row]"] by (simp add: owned_def)
  then have "fetch_recorded db owner i = Some row" using Some by (simp add: fetch_recorded_def recorded_from_def)
  then show ?thesis using row keyed_inject [OF assms] by (auto simp: owned_def)
qed

lemma fetch_recorded_None:
  assumes "keyed db"
  shows "fetch_recorded db owner i = None \<longleftrightarrow> (\<forall>r \<in> owned db owner. re_id r \<noteq> i)"
  using fetch_recorded_iff [OF assms, of owner i] by (metis not_None_eq option.distinct(1))

lemma collected_get: "bt_get (foldl (\<lambda>m (i, v). bt_insert i v m) m stamps) j =
    (case map_of (rev stamps) j of None \<Rightarrow> bt_get m j | Some v \<Rightarrow> Some v)"
  by (induction stamps arbitrary: m) (auto simp: bt_get_insert map_add_def split: option.splits)

lemma recorded_many_keyed:
  assumes "keyed db" "set rs \<subseteq> set db" "distinct (map re_id rs)"
  shows "recorded_many db (map (\<lambda>r. (re_id r, re_recorded_at r)) rs) = rs"
proof -
  let ?stamps = "map (\<lambda>r. (re_id r, re_recorded_at r)) rs"
  have at: "bt_get (foldl (\<lambda>m (i, stamp). bt_insert i stamp m) [] ?stamps) (re_id r) = Some (re_recorded_at r)" if "r \<in> set rs" for r
  proof -
    have "map_of (rev ?stamps) (re_id r) = Some (re_recorded_at r)"
      using that assms(3) by (intro map_of_is_SomeI) (auto simp: rev_map comp_def simp flip: rev_map)
    then show ?thesis by (simp add: collected_get)
  qed
  have "map fst ?stamps = map re_id rs" by simp
  then have "recorded_many db ?stamps = List.map_filter (\<lambda>e. map_option (\<lambda>stamp. \<lparr>re_event = e, re_recorded_at = stamp\<rparr>)
      (bt_get (foldl (\<lambda>m (i, stamp). bt_insert i stamp m) [] ?stamps) (e_id e))) (map re_event rs)"
    unfolding recorded_many_def Let_def using hydrate_keyed [OF assms(1,2)] by (simp add: comp_def)
  also have "\<dots> = rs" using at by (simp add: List.map_filter_def comp_def map_idI cong: filter_cong map_cong)
  finally show ?thesis .
qed

lemma corrections_naming_keyed:
  assumes "keyed db"
  shows "mset (corrections_naming db owner i) =
    mset (filter (\<lambda>r. e_owner (re_event r) = owner \<and> relation_target (e_relation (re_event r)) = Some i) db)"
proof -
  let ?rs = "filter (\<lambda>r. e_owner (re_event r) = owner \<and> relation_target (e_relation (re_event r)) = Some i) db"
  have "distinct (map re_id ?rs)" using assms by (simp add: keyed_def distinct_map_filter)
  then show ?thesis using recorded_many_keyed [OF assms, of ?rs] by (simp add: corrections_naming_def)
qed

lemma corrections_naming_set:
  "keyed db \<Longrightarrow> r \<in> set (corrections_naming db owner i) \<longleftrightarrow> r \<in> owned db owner \<and> relation_target (e_relation (re_event r)) = Some i"
  using corrections_naming_keyed [of db owner i] by (metis (mono_tags, lifting) mem_Collect_eq mset_eq_setD owned_def set_filter)

lemma corrections_naming_distinct: "keyed db \<Longrightarrow> distinct (corrections_naming db owner i)"
  using corrections_naming_keyed [of db owner i] mset_eq_imp_distinct_iff distinct_filter
  by (metis (mono_tags, lifting) distinct_map keyed_def)

section \<open>The chain as a tree\<close>

text \<open>\<open>names db owner r p\<close>: the fact \<open>r\<close> reverses or replaces the stored fact \<open>p\<close> of the same owner.\<close>

definition names :: "recorded_event list \<Rightarrow> owner_id \<Rightarrow> recorded_event \<Rightarrow> recorded_event \<Rightarrow> bool" where
  "names db owner r p \<longleftrightarrow> r \<in> owned db owner \<and> p \<in> owned db owner \<and> relation_target (e_relation (re_event r)) = Some (re_id p)"

abbreviation leads_to :: "recorded_event list \<Rightarrow> owner_id \<Rightarrow> recorded_event \<Rightarrow> recorded_event \<Rightarrow> bool" where
  "leads_to db owner \<equiv> (names db owner)\<^sup>*\<^sup>*"

definition first_fact :: "recorded_event list \<Rightarrow> owner_id \<Rightarrow> recorded_event \<Rightarrow> bool" where
  "first_fact db owner r \<longleftrightarrow> r \<in> owned db owner \<and> (\<forall>p. \<not> names db owner r p)"

lemma names_functional: "keyed db \<Longrightarrow> names db owner r p \<Longrightarrow> names db owner r p' \<Longrightarrow> p = p'"
  by (auto simp: names_def owned_def dest: keyed_inject)

lemma leads_to_first:
  assumes "keyed db" "leads_to db owner r x" "leads_to db owner r h" "first_fact db owner h"
  shows "leads_to db owner x h"
  using assms(2)
proof (induction rule: rtranclp_induct)
  case (step x y)
  from step.IH step.hyps(2) show ?case
  proof (cases rule: converse_rtranclpE)
    case base
    then show ?thesis using assms(4) step.hyps(2) by (simp add: first_fact_def)
  next
    case (step z)
    then show ?thesis using names_functional [OF assms(1)] \<open>names db owner x y\<close> by blast
  qed
qed (rule assms(3))

lemma no_cycle_below_first:
  assumes "keyed db" "leads_to db owner x h" "first_fact db owner h"
  shows "\<not> (names db owner)\<^sup>+\<^sup>+ x x"
  using assms(2)
proof (induction rule: converse_rtranclp_induct)
  case base
  then show ?case using assms(3) by (auto simp: first_fact_def dest: tranclpD)
next
  case (step x y)
  show ?case
  proof
    assume "(names db owner)\<^sup>+\<^sup>+ x x"
    then obtain z where "names db owner x z" "leads_to db owner z x" by (auto dest: tranclpD)
    then have "leads_to db owner y x" using names_functional [OF assms(1)] step.hyps(1) by blast
    then have "(names db owner)\<^sup>+\<^sup>+ y y" using step.hyps(1) by (rule rtranclp_into_tranclp1)
    then show False using step.IH by blast
  qed
qed

lemma head_of_chain_first:
  assumes "keyed db" "first_fact db owner r"
  shows "head_of_chain db owner seen r = (if re_id r \<in> seen then Err (CorrectionChainCycle (re_id r)) else Ok r)"
proof -
  have "fetch_recorded db owner t = None" if "relation_target (e_relation (re_event r)) = Some t" for t
    using that assms by (auto simp: first_fact_def names_def fetch_recorded_None)
  then show ?thesis by (subst head_of_chain.simps) (auto split: option.split)
qed

lemma head_of_chain_names:
  assumes "keyed db" "names db owner r p"
  shows "head_of_chain db owner seen r =
    (if re_id r \<in> seen then Err (CorrectionChainCycle (re_id r)) else head_of_chain db owner (insert (re_id r) seen) p)"
proof -
  have "fetch_recorded db owner (re_id p) = Some p" using assms fetch_recorded_iff by (simp add: names_def)
  moreover have "relation_target (e_relation (re_event r)) = Some (re_id p)" using assms(2) by (simp add: names_def)
  ultimately show ?thesis by (subst head_of_chain.simps) simp
qed

declare head_of_chain.simps [simp del]

text \<open>The walk back ends at the first fact it leads to, or repeats a fact.\<close>

lemma head_of_chain_cases:
  assumes "keyed db" "r \<in> owned db owner"
  shows "case head_of_chain db owner seen r of
      Ok h \<Rightarrow> leads_to db owner r h \<and> first_fact db owner h
    | Err _ \<Rightarrow> \<exists>x. leads_to db owner r x \<and> (re_id x \<in> seen \<or> (names db owner)\<^sup>+\<^sup>+ x x)
    | Panic \<Rightarrow> False"
  using assms(2)
proof (induction "unseen db {re_id r} seen" arbitrary: seen r rule: less_induct)
  case less
  show ?case
  proof (cases "first_fact db owner r \<or> re_id r \<in> seen")
    case True
    then show ?thesis
    proof
      assume "first_fact db owner r"
      then show ?thesis by (auto simp: head_of_chain_first [OF assms(1)])
    next
      assume "re_id r \<in> seen"
      then show ?thesis by (subst head_of_chain.simps) auto
    qed
  next
    case False
    then obtain p where p: "names db owner r p" using less.prems by (auto simp: first_fact_def)
    then have own: "p \<in> owned db owner" by (simp add: names_def)
    have "unseen db {re_id p} (insert (re_id r) seen) < unseen db {re_id r} seen"
      using False own by (intro unseen_decreases) (auto simp: owned_def)
    note IH = less.hyps [OF this own]
    have step: "leads_to db owner r x" if "leads_to db owner p x" for x
      using p that by (rule converse_rtranclp_into_rtranclp)
    have eq: "head_of_chain db owner seen r = head_of_chain db owner (insert (re_id r) seen) p"
      using head_of_chain_names [OF assms(1) p] False by simp
    show ?thesis
    proof (cases "head_of_chain db owner (insert (re_id r) seen) p")
      case (Err c)
      then obtain x where x: "leads_to db owner p x" "re_id x \<in> insert (re_id r) seen \<or> (names db owner)\<^sup>+\<^sup>+ x x" using IH by auto
      have "x \<in> owned db owner" using x(1) own by (induction rule: rtranclp_induct) (auto simp: names_def)
      then have "x = r" if "re_id x = re_id r" using that less.prems keyed_inject [OF assms(1)] by (auto simp: owned_def)
      then have "re_id x \<in> seen \<or> (names db owner)\<^sup>+\<^sup>+ x x"
        using x p by (auto intro: rtranclp_into_tranclp2)
      then show ?thesis using step [OF x(1)] by (auto simp: eq Err)
    qed (use IH step eq in auto)
  qed
qed

lemma head_of_chain_iff:
  assumes "keyed db" "r \<in> owned db owner"
  shows "head_of_chain db owner {} r = Ok h \<longleftrightarrow> leads_to db owner r h \<and> first_fact db owner h"
proof
  show "head_of_chain db owner {} r = Ok h \<Longrightarrow> leads_to db owner r h \<and> first_fact db owner h"
    using head_of_chain_cases [OF assms, of "{}"] by simp
next
  assume h: "leads_to db owner r h \<and> first_fact db owner h"
  show "head_of_chain db owner {} r = Ok h"
  proof (cases "head_of_chain db owner {} r")
    case (Ok g)
    then have g: "leads_to db owner r g" "first_fact db owner g" using head_of_chain_cases [OF assms, of "{}"] by simp_all
    have "leads_to db owner g h" using leads_to_first [OF assms(1) g(1)] h by blast
    then have "g = h" using g(2) by (cases rule: converse_rtranclpE) (auto simp: first_fact_def)
    then show ?thesis using Ok by simp
  next
    case (Err c)
    then obtain x where "leads_to db owner r x" "(names db owner)\<^sup>+\<^sup>+ x x" using head_of_chain_cases [OF assms, of "{}"] by auto
    then show ?thesis using leads_to_first [OF assms(1)] no_cycle_below_first [OF assms(1)] h by blast
  next
    case Panic
    then show ?thesis using head_of_chain_cases [OF assms, of "{}"] by simp
  qed
qed

text \<open>What the walk forward keeps: the facts taken and the pending ones are facts of the chain, each once.\<close>

definition parents_first :: "recorded_event list \<Rightarrow> owner_id \<Rightarrow> recorded_event \<Rightarrow> recorded_event list \<Rightarrow> bool" where
  "parents_first db owner head chain \<longleftrightarrow>
     (\<forall>xs x ys. chain = xs @ x # ys \<longrightarrow> x = head \<or> (\<exists>p \<in> set xs. names db owner x p))"

definition walked :: "recorded_event list \<Rightarrow> owner_id \<Rightarrow> recorded_event \<Rightarrow> recorded_event list \<Rightarrow> recorded_event list \<Rightarrow> bool" where
  "walked db owner head chain pending \<longleftrightarrow> distinct (chain @ pending) \<and> set (chain @ pending) \<subseteq> owned db owner
     \<and> (\<forall>x \<in> set (chain @ pending). leads_to db owner x head) \<and> head \<in> set (chain @ pending)
     \<and> (\<forall>c \<in> set chain. \<forall>r. names db owner r c \<longrightarrow> r \<in> set (chain @ pending))
     \<and> (\<forall>x \<in> set (chain @ pending). x = head \<or> (\<exists>p \<in> set chain. names db owner x p)) \<and> parents_first db owner head chain"

lemma parents_first_snoc:
  assumes "parents_first db owner head chain" "x = head \<or> (\<exists>p \<in> set chain. names db owner x p)"
  shows "parents_first db owner head (chain @ [x])"
  unfolding parents_first_def
proof (intro allI impI)
  fix xs y ys assume eq: "chain @ [x] = xs @ y # ys"
  show "y = head \<or> (\<exists>p \<in> set xs. names db owner y p)"
  proof (cases ys rule: rev_cases)
    case Nil
    then show ?thesis using eq assms(2) by simp
  next
    case (snoc zs z)
    then have "chain = xs @ y # zs" using eq by simp
    then show ?thesis using assms(1) by (simp add: parents_first_def)
  qed
qed

lemma naming_names:
  assumes "keyed db" "c \<in> owned db owner"
  shows "r \<in> set (corrections_naming db owner (re_id c)) \<longleftrightarrow> names db owner r c"
  using assms by (auto simp: corrections_naming_set names_def)

lemma walked_step:
  assumes "keyed db" "first_fact db owner head" "walked db owner head chain (c # pending)"
  shows "walked db owner head (chain @ [c]) (corrections_naming db owner (re_id c) @ pending)"
proof -
  let ?new = "corrections_naming db owner (re_id c)"
  note w = assms(3) [unfolded walked_def]
  have own: "c \<in> owned db owner" and fresh: "c \<notin> set chain" using w by auto
  note new = naming_names [OF assms(1) own]
  have parent: "c = head \<or> (\<exists>p \<in> set chain. names db owner c p)" using w by simp
  have unused: "r \<notin> set (chain @ c # pending)" if "names db owner r c" for r
  proof
    assume "r \<in> set (chain @ c # pending)"
    then consider "r = head" | p where "p \<in> set chain" "names db owner r p" using w by blast
    then show False
    proof cases
      case 1
      then show ?thesis using that assms(2) by (simp add: first_fact_def)
    next
      case 2
      then show ?thesis using names_functional [OF assms(1) that] fresh by blast
    qed
  qed
  have "set ?new \<inter> set (chain @ c # pending) = {}" using unused new by blast
  then have "distinct ((chain @ [c]) @ ?new @ pending)"
    using w corrections_naming_distinct [OF assms(1), of owner "re_id c"] by auto
  moreover have "set ((chain @ [c]) @ ?new @ pending) \<subseteq> owned db owner" using w new by (auto simp: names_def)
  moreover have "\<forall>x \<in> set ((chain @ [c]) @ ?new @ pending). leads_to db owner x head"
    using w new by (auto intro: converse_rtranclp_into_rtranclp)
  moreover have "\<forall>d \<in> set (chain @ [c]). \<forall>r. names db owner r d \<longrightarrow> r \<in> set ((chain @ [c]) @ ?new @ pending)"
    using w new by auto
  moreover have "\<forall>x \<in> set ((chain @ [c]) @ ?new @ pending). x = head \<or> (\<exists>p \<in> set (chain @ [c]). names db owner x p)"
    using w new by auto
  moreover have "head \<in> set ((chain @ [c]) @ ?new @ pending)" using w by auto
  moreover have "parents_first db owner head (chain @ [c])" using w parent by (blast intro: parents_first_snoc)
  ultimately show ?thesis unfolding walked_def by blast
qed

lemma chain_from_walks:
  assumes "keyed db" "first_fact db owner head"
  shows "walked db owner head chain pending \<Longrightarrow>
    \<exists>all. chain_from db owner chain (re_id ` set chain) pending = Ok all \<and> walked db owner head all []"
proof (induction "unseen db (re_id ` set pending) (re_id ` set chain)" arbitrary: chain pending rule: less_induct)
  case less
  show ?case
  proof (cases pending)
    case Nil
    then show ?thesis using less.prems by simp
  next
    case (Cons c rest)
    note w = less.prems [unfolded walked_def Cons]
    have own: "c \<in> owned db owner" using w by simp
    have fresh: "re_id c \<notin> re_id ` set chain"
    proof
      assume "re_id c \<in> re_id ` set chain"
      then obtain d where "d \<in> set chain" "re_id d = re_id c" by auto
      then show False using w keyed_inject [OF assms(1), of c d] by (auto simp: owned_def)
    qed
    have sub: "re_id ` set (corrections_naming db owner (re_id c) @ rest) \<subseteq> re_id ` set db \<union> re_id ` set (c # rest)"
      using naming_names [OF assms(1) own] by (auto simp: names_def owned_def)
    have "unseen db (re_id ` set (corrections_naming db owner (re_id c) @ rest)) (re_id ` set (chain @ [c])) <
        unseen db (re_id ` set pending) (re_id ` set chain)"
      using unseen_decreases [OF _ fresh sub] by (simp add: Cons)
    from less.hyps [OF this walked_step [OF assms less.prems [unfolded Cons]]]
    show ?thesis using fresh by (simp add: Cons)
  qed
qed

lemma leads_to_closed:
  assumes "leads_to db owner x head" "head \<in> S" "\<And>c r. c \<in> S \<Longrightarrow> names db owner r c \<Longrightarrow> r \<in> S"
  shows "x \<in> S"
  using assms(1) by (induction rule: converse_rtranclp_induct) (auto intro: assms)

lemma chain_from_head:
  assumes "keyed db" "first_fact db owner head"
  shows "\<exists>chain. chain_from db owner [] {} [head] = Ok chain \<and> distinct chain \<and> hd chain = head \<and>
    set chain = {r. leads_to db owner r head} \<and> parents_first db owner head chain"
proof -
  have "walked db owner head [] [head]" using assms(2) by (simp add: walked_def first_fact_def parents_first_def)
  from chain_from_walks [OF assms this] obtain chain where c: "chain_from db owner [] {} [head] = Ok chain" "walked db owner head chain []"
    by auto
  note w = c(2) [unfolded walked_def]
  have "set chain = {r. leads_to db owner r head}"
    using w by (auto intro: leads_to_closed [where S = "set chain"])
  moreover have "hd chain = head"
  proof (cases chain)
    case (Cons x xs)
    then have "x = head \<or> (\<exists>p \<in> set []. names db owner x p)" using w unfolding parents_first_def by blast
    then show ?thesis using Cons by simp
  qed (use w in simp)
  ultimately show ?thesis using c w by auto
qed

text \<open>
  (C15) The correction chain of an operation is found from any of its facts, and the search ends
  on every store. A fact from which the relations lead around in a circle is refused, and
  only such a fact; an identifier the owner does not have is answered with the empty chain. In every other case the chain
  is the whole tree of corrections of one first fact: it begins there, holds every fact that leads there
  exactly once and a fact before what corrects it, and every identifier in it is answered
  with the same chain.
\<close>

theorem correction_chain_is_whole_tree:
  assumes "keyed db"
  shows "case event_chain db owner i of
      Err _ \<Rightarrow> \<exists>r x. r \<in> owned db owner \<and> re_id r = i \<and> leads_to db owner r x \<and> (names db owner)\<^sup>+\<^sup>+ x x
    | Ok [] \<Rightarrow> \<forall>r \<in> owned db owner. re_id r \<noteq> i
    | Ok (head # rest) \<Rightarrow> first_fact db owner head \<and> i \<in> re_id ` set (head # rest) \<and> distinct (head # rest)
        \<and> set (head # rest) = {r. leads_to db owner r head} \<and> parents_first db owner head (head # rest)
        \<and> (\<forall>j \<in> re_id ` set (head # rest). event_chain db owner j = event_chain db owner i)
    | Panic \<Rightarrow> False"
proof (cases "fetch_recorded db owner i")
  case None
  have "event_chain db owner i = Ok []" using None by (simp add: event_chain_def)
  moreover have "\<forall>r \<in> owned db owner. re_id r \<noteq> i" using None fetch_recorded_None [OF assms] by blast
  ultimately show ?thesis by simp
next
  case (Some r)
  then have r: "r \<in> owned db owner" "re_id r = i" using fetch_recorded_iff [OF assms] by auto
  show ?thesis
  proof (cases "head_of_chain db owner {} r")
    case (Ok h)
    then have h: "leads_to db owner r h" "first_fact db owner h" using head_of_chain_iff [OF assms r(1)] by auto
    from chain_from_head [OF assms h(2)] obtain chain where c: "chain_from db owner [] {} [h] = Ok chain" "distinct chain" "hd chain = h"
      "set chain = {r. leads_to db owner r h}" "parents_first db owner h chain" by blast
    have all: "event_chain db owner (re_id s) = Ok chain" if s: "s \<in> set chain" for s
    proof -
      have "leads_to db owner s h" using s c(4) by simp
      then have own: "s \<in> owned db owner"
        using h(2) by (cases rule: converse_rtranclpE) (auto simp: first_fact_def names_def)
      then have "fetch_recorded db owner (re_id s) = Some s" using fetch_recorded_iff [OF assms] by simp
      moreover have "head_of_chain db owner {} s = Ok h" using head_of_chain_iff [OF assms own] s c(4) h(2) by simp
      ultimately show ?thesis using c(1) by (simp add: event_chain_def)
    qed
    have "r \<in> set chain" using h c(4) by simp
    moreover obtain rest where "chain = h # rest" using c(3) calculation by (cases chain) auto
    ultimately show ?thesis using all [of r] all c h r by auto
  next
    case (Err e)
    then show ?thesis using head_of_chain_cases [OF assms r(1), of "{}"] Some r by (auto simp: event_chain_def)
  next
    case Panic
    then show ?thesis using head_of_chain_cases [OF assms r(1), of "{}"] by simp
  qed
qed

definition sample_fact :: "event_id \<Rightarrow> relation \<Rightarrow> recorded_event" where
  "sample_fact i rel = \<lparr>re_event =
     \<lparr>e_id = i, e_owner = OwnerId 1, e_account = AccountId 1, e_kind = CashIn (money_new 1 Rub), e_dates = dates_for_cash 1,
      e_order = order_new 1 1, e_legs = [], e_provenance = provenance_new (SourceId 1) [] [], e_relation = rel,
      e_confidence = Known, e_idempotency_key = None\<rparr>, re_recorded_at = ''2024-01-01T00:00:00Z''\<rparr>"

definition sample_store :: "recorded_event list" where
  "sample_store = [sample_fact (EventId 3) (Replacement (EventId 1)), sample_fact (EventId 1) NoRelation,
     sample_fact (EventId 2) (Reversal (EventId 1))]"

theorem correction_chain_is_whole_tree_witness:
  "map_ok (map re_id) (event_chain sample_store (OwnerId 1) (EventId 3)) = Ok [EventId 1, EventId 2, EventId 3] \<and>
   event_chain sample_store (OwnerId 1) (EventId 2) = event_chain sample_store (OwnerId 1) (EventId 3)"
proof -
  have k: "keyed sample_store" by (simp add: keyed_def sample_store_def sample_fact_def)
  have ids: "map_ok (map re_id) (event_chain sample_store (OwnerId 1) (EventId 3)) = Ok [EventId 1, EventId 2, EventId 3]" by code_simp
  then obtain chain where c: "event_chain sample_store (OwnerId 1) (EventId 3) = Ok chain" "map re_id chain = [EventId 1, EventId 2, EventId 3]"
    by (cases "event_chain sample_store (OwnerId 1) (EventId 3)") auto
  then obtain head rest where hr: "chain = head # rest" by (cases chain) auto
  have "EventId 2 \<in> re_id ` set chain" using c(2) by (metis image_set list.set_intros(1) list.set_intros(2))
  moreover have "\<forall>j \<in> re_id ` set chain. event_chain sample_store (OwnerId 1) j = Ok chain"
    using correction_chain_is_whole_tree [OF k, of "OwnerId 1" "EventId 3"] c(1) hr by auto
  ultimately show ?thesis using ids c(1) by metis
qed

end
