(* ===== verification/Classification.thy ===== *)
theory Classification
  imports Submission Category Correction
begin

text \<open>
  The owner's classification of cash rows, \<open>iaam-ingest/src/classification.rs\<close>: what is known of a
  row, the versioned rules over it, the questions asked where no rule decides, the answers, and
  the plan that recomputes the recorded history after a change of the rules. The lemmas show
  which rule decides a row and that the plan lists exactly the effective events whose recorded
  class is not the one the rules give.

  Unicode lower-casing (\<open>lower\<close>) and the text of a UUID (\<open>uuid_text\<close>) are arguments. The
  sentences shown to the owner (\<open>describe\<close>, \<open>consequence\<close>) are not modelled.
\<close>

section \<open>Subjects\<close>

datatype counterparty = OwnAccount account_id | Named string | UnknownCounterparty

datatype far_side = FarUnstated | FarOwnAccount

definition far_side_default :: far_side where
  "far_side_default = FarUnstated"

definition far_side_parse :: "string \<Rightarrow> (far_side, rejection) result" where
  "far_side_parse v =
     (if v = ''unstated'' then Ok FarUnstated
      else if v = ''own_account'' then Ok FarOwnAccount
      else Err \<lparr>rj_field = ''far_side'', rj_expected = ''own_account or unstated'', rj_actual = v\<rparr>)"

fun far_side_code :: "far_side \<Rightarrow> string" where
  "far_side_code FarUnstated = ''unstated''"
| "far_side_code FarOwnAccount = ''own_account''"

definition is_own_account :: "far_side \<Rightarrow> bool" where
  "is_own_account f \<longleftrightarrow> f = FarOwnAccount"

record classification_subject =
  sb_account :: account_id
  sb_counterparty :: counterparty
  sb_description :: "string option"
  sb_source_kind :: "string option"
  sb_source_category :: "string option"
  sb_owner_category :: "string option"
  sb_source_code :: "string option"
  sb_movement :: "movement option"
  sb_far_side :: far_side

section \<open>Rules\<close>

record rule_matcher =
  rm_counterparty_account :: "string option"
  rm_description_contains :: "string option"
  rm_kind :: "string option"
  rm_source_category :: "string option"
  rm_owner_category :: "string option"
  rm_source_code :: "string option"
  rm_movement :: "movement option"

definition asks_nothing :: "rule_matcher \<Rightarrow> bool" where
  "asks_nothing m \<longleftrightarrow>
     rm_counterparty_account m = None \<and> rm_description_contains m = None \<and> rm_kind m = None \<and>
     rm_source_category m = None \<and> rm_owner_category m = None \<and> rm_source_code m = None \<and> rm_movement m = None"

text \<open>\<open>Option::is_none_or\<close>.\<close>

definition is_none_or :: "'a option \<Rightarrow> ('a \<Rightarrow> bool) \<Rightarrow> bool" where
  "is_none_or x p = (case x of None \<Rightarrow> True | Some v \<Rightarrow> p v)"

lemma is_none_or_simps [simp]: "is_none_or None p" "is_none_or (Some v) p = p v"
  by (simp_all add: is_none_or_def)

definition rule_matches :: "(string \<Rightarrow> string) \<Rightarrow> rule_matcher \<Rightarrow> classification_subject \<Rightarrow> bool" where
  "rule_matches lower m s =
     (if asks_nothing m then False
      else
        is_none_or (rm_counterparty_account m) (\<lambda>wanted. sb_counterparty s = Named wanted) \<and>
        is_none_or (rm_description_contains m) (\<lambda>wanted.
          case sb_description s of None \<Rightarrow> False | Some text \<Rightarrow> str_contains (lower text) (lower wanted)) \<and>
        is_none_or (rm_kind m) (\<lambda>wanted. sb_source_kind s = Some wanted) \<and>
        is_none_or (rm_source_category m) (\<lambda>wanted. sb_source_category s = Some wanted) \<and>
        is_none_or (rm_owner_category m) (\<lambda>wanted. sb_owner_category s = Some wanted) \<and>
        is_none_or (rm_source_code m) (\<lambda>wanted. sb_source_code s = Some wanted) \<and>
        is_none_or (rm_movement m) (\<lambda>wanted. sb_movement s = Some wanted))"

datatype classification =
    ClsInternalTransfer account_id
  | ClsExternalFlow
  | ClsFee fee_origin
  | ClsRefund
  | ClsIncome "income_kind option"
  | ClsOwnAccountMovement

fun implied_movement :: "classification \<Rightarrow> movement option" where
  "implied_movement (ClsFee _) = Some Out"
| "implied_movement (ClsIncome _) = Some In"
| "implied_movement ClsRefund = Some In"
| "implied_movement _ = None"

record classification_rule =
  ru_id :: classification_rule_id
  ru_version :: nat
  ru_matcher :: rule_matcher
  ru_outcome :: classification

datatype basis = Derived | Asserted | ByRule classification_rule_id nat

section \<open>Questions and answers\<close>

datatype question =
    IsTransferInternal account_id string
  | IsOutflowAFee account_id
  | IsInflowIncome account_id
  | UnresolvedDirection account_id "string option" "string option"

fun question_account :: "question \<Rightarrow> account_id" where
  "question_account (IsTransferInternal a _) = a"
| "question_account (IsOutflowAFee a) = a"
| "question_account (IsInflowIncome a) = a"
| "question_account (UnresolvedDirection a _ _) = a"

datatype answer_shape =
    ShapeSentToOwnAccount | ShapeReceivedFromOwnAccount | ShapePaid | ShapeReceived
  | ShapeFee | ShapeIncome | ShapeRefund | ShapeBetweenOwnAccounts

fun answer_shape_code :: "answer_shape \<Rightarrow> string" where
  "answer_shape_code ShapeSentToOwnAccount = ''sent_to_own_account''"
| "answer_shape_code ShapeReceivedFromOwnAccount = ''received_from_own_account''"
| "answer_shape_code ShapePaid = ''paid''"
| "answer_shape_code ShapeReceived = ''received''"
| "answer_shape_code ShapeFee = ''fee''"
| "answer_shape_code ShapeIncome = ''income''"
| "answer_shape_code ShapeRefund = ''refund''"
| "answer_shape_code ShapeBetweenOwnAccounts = ''between_own_accounts''"

definition needs_account :: "answer_shape \<Rightarrow> bool" where
  "needs_account s \<longleftrightarrow> s = ShapeSentToOwnAccount \<or> s = ShapeReceivedFromOwnAccount"

definition generalises :: "answer_shape \<Rightarrow> bool" where
  "generalises s \<longleftrightarrow> s \<noteq> ShapeBetweenOwnAccounts"

fun alternatives :: "question \<Rightarrow> answer_shape list" where
  "alternatives (IsTransferInternal _ _) =
     [ShapeSentToOwnAccount, ShapeReceivedFromOwnAccount, ShapeBetweenOwnAccounts, ShapePaid, ShapeReceived, ShapeRefund]"
| "alternatives (IsOutflowAFee _) = [ShapeFee, ShapePaid]"
| "alternatives (IsInflowIncome _) = [ShapeIncome, ShapeReceived, ShapeRefund]"
| "alternatives (UnresolvedDirection _ _ _) =
     [ShapeSentToOwnAccount, ShapeReceivedFromOwnAccount, ShapeBetweenOwnAccounts, ShapePaid, ShapeReceived, ShapeFee,
      ShapeIncome, ShapeRefund]"

datatype answer =
    AnsSentToOwnAccount account_id
  | AnsReceivedFromOwnAccount account_id
  | AnsPaid
  | AnsReceived
  | AnsFee fee_origin
  | AnsIncome "income_kind option"
  | AnsRefund
  | AnsBetweenOwnAccounts

fun answer_shape_of :: "answer \<Rightarrow> answer_shape" where
  "answer_shape_of (AnsSentToOwnAccount _) = ShapeSentToOwnAccount"
| "answer_shape_of (AnsReceivedFromOwnAccount _) = ShapeReceivedFromOwnAccount"
| "answer_shape_of AnsPaid = ShapePaid"
| "answer_shape_of AnsReceived = ShapeReceived"
| "answer_shape_of (AnsFee _) = ShapeFee"
| "answer_shape_of (AnsIncome _) = ShapeIncome"
| "answer_shape_of AnsRefund = ShapeRefund"
| "answer_shape_of AnsBetweenOwnAccounts = ShapeBetweenOwnAccounts"

fun answer_movement :: "answer \<Rightarrow> movement option" where
  "answer_movement (AnsSentToOwnAccount _) = Some Out"
| "answer_movement AnsPaid = Some Out"
| "answer_movement (AnsFee _) = Some Out"
| "answer_movement (AnsReceivedFromOwnAccount _) = Some In"
| "answer_movement AnsReceived = Some In"
| "answer_movement (AnsIncome _) = Some In"
| "answer_movement AnsRefund = Some In"
| "answer_movement AnsBetweenOwnAccounts = None"

fun answer_classification :: "answer \<Rightarrow> classification" where
  "answer_classification (AnsSentToOwnAccount to) = ClsInternalTransfer to"
| "answer_classification (AnsReceivedFromOwnAccount from) = ClsInternalTransfer from"
| "answer_classification AnsPaid = ClsExternalFlow"
| "answer_classification AnsReceived = ClsExternalFlow"
| "answer_classification (AnsFee origin) = ClsFee origin"
| "answer_classification (AnsIncome kind) = ClsIncome kind"
| "answer_classification AnsRefund = ClsRefund"
| "answer_classification AnsBetweenOwnAccounts = ClsOwnAccountMovement"

definition admits :: "question \<Rightarrow> answer \<Rightarrow> bool" where
  "admits q a \<longleftrightarrow> answer_shape_of a \<in> set (alternatives q)"

record question_subject =
  qs_question :: question
  qs_stated :: "movement option"

definition question_about :: "question \<Rightarrow> movement option \<Rightarrow> question_subject" where
  "question_about q stated = \<lparr>qs_question = q, qs_stated = stated\<rparr>"

section \<open>Classification of a row\<close>

datatype classification_result = Resolved classification basis | Ambiguous question

definition question_for :: "(uuid \<Rightarrow> string) \<Rightarrow> classification_subject \<Rightarrow> question" where
  "question_for uuid_text s =
     (case (sb_counterparty s, sb_movement s) of
        (Named name, Some _) \<Rightarrow> IsTransferInternal (sb_account s) name
      | (UnknownCounterparty, Some Out) \<Rightarrow> IsOutflowAFee (sb_account s)
      | (UnknownCounterparty, Some In) \<Rightarrow> IsInflowIncome (sb_account s)
      | (Named name, None) \<Rightarrow> UnresolvedDirection (sb_account s) (sb_source_kind s) (Some name)
      | (UnknownCounterparty, None) \<Rightarrow> UnresolvedDirection (sb_account s) (sb_source_kind s) None
      | (OwnAccount to, _) \<Rightarrow> IsTransferInternal (sb_account s) (uuid_text (account_uuid to)))"

definition chosen_rule :: "(string \<Rightarrow> string) \<Rightarrow> classification_subject \<Rightarrow> classification_rule list \<Rightarrow> classification_rule option" where
  "chosen_rule lower s rules = max_by_key ru_version (filter (\<lambda>r. rule_matches lower (ru_matcher r) s) rules)"

definition classify_subject :: "(string \<Rightarrow> string) \<Rightarrow> (uuid \<Rightarrow> string) \<Rightarrow> classification_subject
    \<Rightarrow> classification_rule list \<Rightarrow> classification_result" where
  "classify_subject lower uuid_text s rules =
     (case sb_counterparty s of
        OwnAccount to \<Rightarrow> Resolved (ClsInternalTransfer to) Derived
      | _ \<Rightarrow> (case chosen_rule lower s rules of
          Some r \<Rightarrow> Resolved (ru_outcome r) (ByRule (ru_id r) (ru_version r))
        | None \<Rightarrow>
            if is_own_account (sb_far_side s) then Resolved ClsOwnAccountMovement Asserted
            else Ambiguous (question_for uuid_text s)))"

fun classification_of_kind :: "event_kind \<Rightarrow> classification option" where
  "classification_of_kind (CashTransfer _ _ to _) = Some (ClsInternalTransfer to)"
| "classification_of_kind (OwnAccountMovement _) = Some ClsOwnAccountMovement"
| "classification_of_kind (UnresolvedOwnAccountMovement _) = Some ClsOwnAccountMovement"
| "classification_of_kind (CashIn _) = Some ClsExternalFlow"
| "classification_of_kind (CashOut _) = Some ClsExternalFlow"
| "classification_of_kind (Refund _) = Some ClsRefund"
| "classification_of_kind (Fee _ origin) = Some (ClsFee origin)"
| "classification_of_kind (Income _ _ kind) = Some (ClsIncome kind)"
| "classification_of_kind _ = None"

definition classification_of :: "event \<Rightarrow> classification option" where
  "classification_of e = classification_of_kind (e_kind e)"

section \<open>Recomputation\<close>

record class_correction =
  cc_target :: event_id
  cc_was :: classification
  cc_becomes :: classification

datatype correction_step = StepReverse event_id | StepReplace event_id classification

definition correction_steps :: "class_correction \<Rightarrow> correction_step list" where
  "correction_steps c = [StepReverse (cc_target c), StepReplace (cc_target c) (cc_becomes c)]"

definition recompute_step :: "(string \<Rightarrow> string) \<Rightarrow> (uuid \<Rightarrow> string) \<Rightarrow> (event_id, classification_subject) btree
    \<Rightarrow> classification_rule list \<Rightarrow> class_correction list \<Rightarrow> event \<Rightarrow> class_correction list" where
  "recompute_step lower uuid_text subjects rules plan e =
     (case (bt_get subjects (e_id e), classification_of e) of
        (Some s, Some was) \<Rightarrow>
          (case classify_subject lower uuid_text s rules of
             Resolved becomes _ \<Rightarrow>
               if becomes \<noteq> was then plan @ [\<lparr>cc_target = e_id e, cc_was = was, cc_becomes = becomes\<rparr>] else plan
           | Ambiguous _ \<Rightarrow> plan)
      | _ \<Rightarrow> plan)"

definition recompute_plan :: "(string \<Rightarrow> string) \<Rightarrow> (uuid \<Rightarrow> string) \<Rightarrow> event list \<Rightarrow> (event_id, classification_subject) btree
    \<Rightarrow> classification_rule list \<Rightarrow> (class_correction list, correction_error) result" where
  "recompute_plan lower uuid_text events subjects rules =
     map_ok (foldl (recompute_step lower uuid_text subjects rules) []) (resolve events)"

section \<open>What decides a row\<close>

lemma chosen_rule_Some:
  "chosen_rule lower s rules = Some r \<Longrightarrow>
     r \<in> set rules \<and> rule_matches lower (ru_matcher r) s \<and>
     (\<forall>q \<in> set rules. rule_matches lower (ru_matcher q) s \<longrightarrow> ru_version q \<le> ru_version r)"
  unfolding chosen_rule_def by (drule max_by_key_Some) auto

lemma max_by_key_filter:
  "max_by_key key (filter P xs) = Some x \<longleftrightarrow>
     (\<exists>ys zs. xs = ys @ x # zs \<and> P x \<and> (\<forall>y \<in> set ys. P y \<longrightarrow> key y \<le> key x) \<and> (\<forall>z \<in> set zs. P z \<longrightarrow> key z < key x))"
    (is "?l \<longleftrightarrow> ?r xs x")
proof
  show "?r xs x" if ?l
    using that
  proof (induction xs arbitrary: x)
    case (Cons a xs)
    have later: "?r (a # xs) x" if "?r xs x" "P a \<longrightarrow> key a \<le> key x"
    proof -
      from that(1) obtain ys zs where "xs = ys @ x # zs" "P x" "\<forall>y \<in> set ys. P y \<longrightarrow> key y \<le> key x" "\<forall>z \<in> set zs. P z \<longrightarrow> key z < key x" by blast
      with that(2) show ?thesis by (intro exI [of _ "a # ys"] exI [of _ zs]) simp
    qed
    show ?case
    proof (cases "max_by_key key (filter P xs)")
      case None
      then have "filter P xs = []" by simp
      with Cons.prems have "P a" "a = x" by (auto split: if_splits)
      with \<open>filter P xs = []\<close> show ?thesis by (intro exI [of _ "[]"] exI [of _ xs]) (simp add: filter_empty_conv)
    next
      case (Some y)
      show ?thesis
      proof (cases "P a \<and> key y < key a")
        case True
        with Cons.prems Some have "a = x" by simp
        moreover have "key z < key a" if "z \<in> set xs" "P z" for z
          using max_by_key_Some [OF Some] that True by fastforce
        ultimately show ?thesis using True by (intro exI [of _ "[]"] exI [of _ xs]) simp
      next
        case False
        with Cons.prems Some have "y = x" by (auto split: if_splits)
        with False Cons.IH [OF Some] show ?thesis by (intro later) auto
      qed
    qed
  qed simp
  show ?l if "?r xs x"
  proof -
    from that obtain ys zs where xs: "xs = ys @ x # zs" "P x"
      and le: "\<forall>y \<in> set ys. P y \<longrightarrow> key y \<le> key x" and less: "\<forall>z \<in> set zs. P z \<longrightarrow> key z < key x" by blast
    have "max_by_key key (x # filter P zs) = Some x"
      using less max_by_key_Some [of key "filter P zs"] by (cases "max_by_key key (filter P zs)") auto
    with le have "max_by_key key (filter P ys @ x # filter P zs) = Some x" by (induction ys) auto
    with xs show ?thesis by simp
  qed
qed

text \<open>
  The decision without the algorithm: a row of an own counterparty is a transfer to it; otherwise the
  matching rule of the greatest version decides, the last one of several; where no rule matches, only a
  row that says its far side is an own account is decided.
\<close>

definition last_greatest :: "(string \<Rightarrow> string) \<Rightarrow> classification_subject \<Rightarrow> classification_rule list \<Rightarrow> classification_rule \<Rightarrow> bool" where
  "last_greatest lower s rules r \<longleftrightarrow> (\<exists>earlier later. rules = earlier @ r # later \<and> rule_matches lower (ru_matcher r) s \<and>
     (\<forall>q \<in> set earlier. rule_matches lower (ru_matcher q) s \<longrightarrow> ru_version q \<le> ru_version r) \<and>
     (\<forall>q \<in> set later. rule_matches lower (ru_matcher q) s \<longrightarrow> ru_version q < ru_version r))"

definition decided_as :: "(string \<Rightarrow> string) \<Rightarrow> classification_subject \<Rightarrow> classification_rule list \<Rightarrow> classification \<Rightarrow> bool" where
  "decided_as lower s rules cls \<longleftrightarrow>
     (\<exists>to. sb_counterparty s = OwnAccount to \<and> cls = ClsInternalTransfer to) \<or>
     (\<forall>to. sb_counterparty s \<noteq> OwnAccount to) \<and>
       ((\<exists>r. last_greatest lower s rules r \<and> cls = ru_outcome r) \<or>
        (\<forall>r \<in> set rules. \<not> rule_matches lower (ru_matcher r) s) \<and> sb_far_side s = FarOwnAccount \<and> cls = ClsOwnAccountMovement)"

lemma chosen_rule_last_greatest: "chosen_rule lower s rules = Some r \<longleftrightarrow> last_greatest lower s rules r"
  by (auto simp: chosen_rule_def last_greatest_def max_by_key_filter)

lemma chosen_rule_None: "chosen_rule lower s rules = None \<longleftrightarrow> (\<forall>r \<in> set rules. \<not> rule_matches lower (ru_matcher r) s)"
  by (simp add: chosen_rule_def filter_empty_conv)

text \<open>A question is asked only about a row of an unknown or foreign counterparty, and one of its answers fits the stated direction.\<close>

lemma classify_Ambiguous:
  "classify_subject lower uuid_text s rules = Ambiguous q \<longleftrightarrow>
     (\<forall>to. sb_counterparty s \<noteq> OwnAccount to) \<and> (\<forall>r \<in> set rules. \<not> rule_matches lower (ru_matcher r) s) \<and>
     sb_far_side s = FarUnstated \<and> q = question_for uuid_text s"
  using far_side.exhaust [of "sb_far_side s"]
  by (auto simp: classify_subject_def is_own_account_def chosen_rule_None [symmetric] split: counterparty.splits option.splits)

lemma classify_Resolved:
  "(\<exists>b. classify_subject lower uuid_text s rules = Resolved cls b) \<longleftrightarrow> decided_as lower s rules cls"
proof (cases "chosen_rule lower s rules")
  case None
  then have "\<not> last_greatest lower s rules r" for r by (simp flip: chosen_rule_last_greatest)
  moreover have "\<forall>r \<in> set rules. \<not> rule_matches lower (ru_matcher r) s" using None by (simp only: chosen_rule_None)
  ultimately show ?thesis using None
    by (auto simp: classify_subject_def decided_as_def is_own_account_def split: counterparty.splits)
next
  case (Some r)
  then have only: "last_greatest lower s rules q \<longleftrightarrow> q = r" for q by (auto simp flip: chosen_rule_last_greatest)
  have "\<exists>r \<in> set rules. rule_matches lower (ru_matcher r) s" using chosen_rule_Some [OF Some] by blast
  with Some show ?thesis
    by (auto simp: classify_subject_def decided_as_def only split: counterparty.splits)
qed

lemma far_side_roundtrip: "far_side_parse v = Ok f \<longleftrightarrow> v = far_side_code f"
  by (cases f) (auto simp: far_side_parse_def)

lemma answer_movement_implied:
  "implied_movement (answer_classification a) = Some m \<Longrightarrow> answer_movement a = Some m"
  by (cases a) auto

section \<open>What the plan lists\<close>

definition due_correction :: "(string \<Rightarrow> string) \<Rightarrow> (uuid \<Rightarrow> string) \<Rightarrow> (event_id, classification_subject) btree
    \<Rightarrow> classification_rule list \<Rightarrow> event \<Rightarrow> class_correction option" where
  "due_correction lower uuid_text subjects rules e =
     (case (bt_get subjects (e_id e), classification_of e) of
        (Some s, Some was) \<Rightarrow>
          (case classify_subject lower uuid_text s rules of
             Resolved becomes _ \<Rightarrow> if becomes \<noteq> was then Some \<lparr>cc_target = e_id e, cc_was = was, cc_becomes = becomes\<rparr> else None
           | Ambiguous _ \<Rightarrow> None)
      | _ \<Rightarrow> None)"

lemma recompute_step_due:
  "recompute_step lower uuid_text subjects rules plan e =
     plan @ (case due_correction lower uuid_text subjects rules e of None \<Rightarrow> [] | Some c \<Rightarrow> [c])"
  by (auto simp: recompute_step_def due_correction_def split: option.splits classification_result.splits)

lemma recompute_fold:
  "foldl (recompute_step lower uuid_text subjects rules) plan es =
     plan @ List.map_filter (due_correction lower uuid_text subjects rules) es"
  by (induction es arbitrary: plan) (auto simp: recompute_step_due List.map_filter_def split: option.splits)

lemma due_correction_Some:
  "due_correction lower uuid_text subjects rules e = Some c \<longleftrightarrow>
     cc_target c = e_id e \<and> classification_of e = Some (cc_was c) \<and> cc_becomes c \<noteq> cc_was c \<and>
     (\<exists>s. bt_get subjects (e_id e) = Some s \<and> decided_as lower s rules (cc_becomes c))"
  by (cases c) (auto simp: due_correction_def classify_Resolved [of _ uuid_text, symmetric] split: option.splits classification_result.splits)

lemma due_correction_target: "due_correction lower uuid_text subjects rules e = Some c \<Longrightarrow> cc_target c = e_id e"
  by (simp add: due_correction_Some)

lemma map_filter_targets:
  "map cc_target (List.map_filter (due_correction lower uuid_text subjects rules) es) =
     map e_id (filter (\<lambda>e. due_correction lower uuid_text subjects rules e \<noteq> None) es)"
  by (auto simp: List.map_filter_def dest: due_correction_target)

text \<open>An event of a journal counts when it is not a reversal and no event of the journal reverses or replaces it.\<close>

definition counts_in :: "event list \<Rightarrow> event \<Rightarrow> bool" where
  "counts_in events e \<longleftrightarrow> e \<in> set events \<and> \<not> is_reversal (e_relation e) \<and>
     (\<forall>c \<in> set events. e_relation c \<noteq> Reversal (e_id e) \<and> e_relation c \<noteq> Replacement (e_id e))"

lemma resolve_counts: "resolve events = Ok es \<Longrightarrow> e \<in> set es \<longleftrightarrow> counts_in events e"
  by (simp add: resolve_effective counts_in_def)

lemma recompute_plan_Ok:
  assumes "recompute_plan lower uuid_text events subjects rules = Ok plan"
  obtains es where "resolve events = Ok es" "plan = List.map_filter (due_correction lower uuid_text subjects rules) es"
  using assms unfolding recompute_plan_def by (cases "resolve events") (auto simp: recompute_fold)

lemma recompute_plan_members:
  assumes "recompute_plan lower uuid_text events subjects rules = Ok plan"
  shows "c \<in> set plan \<longleftrightarrow> (\<exists>e s. counts_in events e \<and> cc_target c = e_id e \<and> bt_get subjects (e_id e) = Some s \<and>
        classification_of e = Some (cc_was c) \<and> decided_as lower s rules (cc_becomes c) \<and> cc_becomes c \<noteq> cc_was c)"
proof -
  obtain es where r: "resolve events = Ok es" and p: "plan = List.map_filter (due_correction lower uuid_text subjects rules) es"
    using recompute_plan_Ok [OF assms] .
  have "set plan = {c. \<exists>e. counts_in events e \<and> due_correction lower uuid_text subjects rules e = Some c}"
    unfolding p resolve_counts [OF r, symmetric] by (force simp: List.map_filter_def)
  then show ?thesis unfolding due_correction_Some by blast
qed

text \<open>
  (C21) The plan of a recomputation holds exactly the corrections that are due: one for each event of the journal
  that is no reversal and that nothing reverses or replaces, has a subject and a recorded class, and is decided as
  another class: by its own counterparty, else by the matching rule of the greatest version (the last of
  several), else by a stated own far side where no rule matches. Each event is
  corrected at most once, and the corrections come in the replay order of their events.
\<close>

theorem recompute_plan_is_exact:
  assumes "recompute_plan lower uuid_text events subjects rules = Ok plan"
  shows "(c \<in> set plan \<longleftrightarrow>
      (\<exists>e s. counts_in events e \<and> cc_target c = e_id e \<and> bt_get subjects (e_id e) = Some s \<and>
        classification_of e = Some (cc_was c) \<and> decided_as lower s rules (cc_becomes c) \<and> cc_becomes c \<noteq> cc_was c)) \<and>
    distinct (map cc_target plan) \<and>
    (\<exists>es. sorted_wrt (\<lambda>a b. compare_for_replay a b \<noteq> Greater) es \<and> set es \<subseteq> set events \<and> map cc_target plan = map e_id es)"
proof -
  obtain es where r: "resolve events = Ok es" and p: "plan = List.map_filter (due_correction lower uuid_text subjects rules) es"
    using recompute_plan_Ok [OF assms] .
  let ?due = "filter (\<lambda>e. due_correction lower uuid_text subjects rules e \<noteq> None) es"
  have targets: "map cc_target plan = map e_id ?due" by (simp add: p map_filter_targets)
  have "distinct (map cc_target plan)"
    unfolding targets using resolve_distinct_ids [OF r] by (simp add: distinct_map inj_on_def)
  moreover have "sorted_wrt (\<lambda>a b. compare_for_replay a b \<noteq> Greater) ?due"
    using resolve_sorted [OF r] by (rule sorted_wrt_filter)
  moreover have "set ?due \<subseteq> set events" using resolve_members [OF r] by auto
  ultimately show ?thesis using targets recompute_plan_members [OF assms] by blast
qed

definition blank_subject :: classification_subject where
  "blank_subject = \<lparr>sb_account = AccountId 1, sb_counterparty = UnknownCounterparty, sb_description = Some ''salary'',
     sb_source_kind = None, sb_source_category = None, sb_owner_category = None, sb_source_code = None,
     sb_movement = Some In, sb_far_side = FarUnstated\<rparr>"

definition description_rule :: "nat \<Rightarrow> string \<Rightarrow> classification \<Rightarrow> classification_rule" where
  "description_rule version wanted outcome = \<lparr>ru_id = ClassificationRuleId (of_nat version), ru_version = version,
     ru_matcher = \<lparr>rm_counterparty_account = None, rm_description_contains = Some wanted, rm_kind = None,
       rm_source_category = None, rm_owner_category = None, rm_source_code = None, rm_movement = None\<rparr>,
     ru_outcome = outcome\<rparr>"

text \<open>A replaced event and its replacement, with the same subject, under two rules that both match: the replacement
  is in the plan, with the outcome of the later version, and the replaced event is not.\<close>

theorem recompute_plan_is_exact_witness:
  "\<exists>plan. recompute_plan (\<lambda>s. s) (\<lambda>_. []) [sample_event 1 NoRelation, sample_event 2 (Replacement (EventId 1))]
       [(EventId 1, blank_subject), (EventId 2, blank_subject)]
       [description_rule 2 ''sal'' (ClsIncome None), description_rule 1 ''ary'' ClsRefund] = Ok plan \<and>
     \<lparr>cc_target = EventId 2, cc_was = ClsExternalFlow, cc_becomes = ClsIncome None\<rparr> \<in> set plan \<and>
     EventId 1 \<notin> cc_target ` set plan"
proof -
  let ?events = "[sample_event 1 NoRelation, sample_event 2 (Replacement (EventId 1))]"
  let ?subjects = "[(EventId 1, blank_subject), (EventId 2, blank_subject)]"
  let ?rules = "[description_rule 2 ''sal'' (ClsIncome None), description_rule 1 ''ary'' ClsRefund]"
  obtain plan where plan: "recompute_plan (\<lambda>s. s) (\<lambda>_. []) ?events ?subjects ?rules = Ok plan"
    using that unfolding recompute_plan_def sample_resolve map_ok.simps by blast
  note exact = recompute_plan_is_exact [OF plan, THEN conjunct1]
  have "counts_in ?events (sample_event 2 (Replacement (EventId 1)))"
    by (simp add: counts_in_def sample_event_def)
  moreover have "last_greatest (\<lambda>s. s) blank_subject ?rules (description_rule 2 ''sal'' (ClsIncome None))"
    unfolding last_greatest_def
    by (intro exI [of _ "[]"] exI [of _ "[description_rule 1 ''ary'' ClsRefund]"])
      (simp add: description_rule_def blank_subject_def rule_matches_def asks_nothing_def)
  then have "decided_as (\<lambda>s. s) blank_subject ?rules (ClsIncome None)"
    by (auto simp: decided_as_def blank_subject_def description_rule_def)
  ultimately have "\<lparr>cc_target = EventId 2, cc_was = ClsExternalFlow, cc_becomes = ClsIncome None\<rparr> \<in> set plan"
    by (subst exact) (auto simp: bt_get_def sample_event_def classification_of_def intro!: exI [of _ "sample_event 2 (Replacement (EventId 1))"])
  moreover have "\<not> (counts_in ?events e \<and> e_id e = EventId 1)" for e
    by (auto simp: counts_in_def sample_event_def)
  then have "EventId 1 \<notin> cc_target ` set plan" using exact by (metis (no_types, lifting) image_iff)
  ultimately show ?thesis using plan by blast
qed

end
