(* ===== verification/Observation.thy ===== *)
theory Observation
  imports Classification
begin

text \<open>
  A row as a source printed it and the operation it becomes once it is classified,
  \<open>iaam-ingest/src/observation.rs\<close>. The lemmas show when a row with an answer is refused, and that
  an accepted one moves the account of the row by the stated amount in the stated direction,
  whichever account the operation is filed on.
\<close>

section \<open>Rows\<close>

datatype observed_direction = DirIn | DirOut | DirInner | DirUnknown

fun direction_movement :: "observed_direction \<Rightarrow> movement option" where
  "direction_movement DirIn = Some In"
| "direction_movement DirOut = Some Out"
| "direction_movement DirInner = None"
| "direction_movement DirUnknown = None"

definition direction_parse :: "string \<Rightarrow> (observed_direction, rejection) result" where
  "direction_parse v =
     (if v = ''in'' then Ok DirIn
      else if v = ''out'' then Ok DirOut
      else if v = ''inner'' then Ok DirInner
      else if v = ''unknown'' then Ok DirUnknown
      else Err \<lparr>rj_field = ''direction'', rj_expected = ''in, out, inner or unknown'', rj_actual = v\<rparr>)"

fun direction_code :: "observed_direction \<Rightarrow> string" where
  "direction_code DirIn = ''in''"
| "direction_code DirOut = ''out''"
| "direction_code DirInner = ''inner''"
| "direction_code DirUnknown = ''unknown''"

lemma direction_roundtrip: "direction_parse v = Ok d \<longleftrightarrow> v = direction_code d"
  by (cases d) (auto simp: direction_parse_def)

datatype observed_counterparty = ObservedNamed string | ObservedUnknown

record row_identity =
  ri_document :: "string option"
  ri_row :: "string option"
  ri_idempotency_key :: "string option"

definition row_identity_key :: "row_identity \<Rightarrow> string option" where
  "row_identity_key i = (case ri_idempotency_key i of
     Some key \<Rightarrow> Some (''idempotency/'' @ key)
   | None \<Rightarrow> (case (ri_document i, ri_row i) of
       (Some document, Some row) \<Rightarrow> Some (''document/'' @ document @ ''/'' @ row)
     | (None, Some row) \<Rightarrow> Some (''row/'' @ row)
     | _ \<Rightarrow> None))"

record observed_row =
  or_account :: account_id
  or_direction :: observed_direction
  or_amount_minor :: int
  or_currency :: currency_code
  or_counterparty :: observed_counterparty
  or_far_side :: far_side
  or_source_kind :: "string option"
  or_source_category :: "string option"
  or_owner_category :: "string option"
  or_source_code :: "string option"
  or_description :: "string option"
  or_dates :: operation_dates
  or_source_time :: "time_of_day option"
  or_identity :: row_identity

definition row_movement :: "observed_row \<Rightarrow> movement option" where
  "row_movement r = direction_movement (or_direction r)"

definition row_subject :: "observed_row \<Rightarrow> account_id option \<Rightarrow> classification_subject" where
  "row_subject r resolved =
     \<lparr>sb_account = or_account r,
      sb_counterparty = (case (resolved, or_counterparty r) of
         (Some account, _) \<Rightarrow> OwnAccount account
       | (None, ObservedNamed name) \<Rightarrow> Named name
       | (None, ObservedUnknown) \<Rightarrow> UnknownCounterparty),
      sb_description = or_description r, sb_source_kind = or_source_kind r,
      sb_source_category = or_source_category r, sb_owner_category = or_owner_category r,
      sb_source_code = or_source_code r, sb_movement = row_movement r, sb_far_side = or_far_side r\<rparr>"

fun counterparty_name :: "observed_counterparty \<Rightarrow> string option" where
  "counterparty_name (ObservedNamed name) = Some name"
| "counterparty_name ObservedUnknown = None"

text \<open>\<open>checked_abs\<close> of an \<open>i64\<close> fails for the least value only.\<close>

definition magnitude :: "observed_row \<Rightarrow> (int, rejection) result" where
  "magnitude r = ok_or
     (case to_i64 \<bar>or_amount_minor r\<bar> of None \<Rightarrow> None | Some v \<Rightarrow> if v > 0 then Some v else None)
     \<lparr>rj_field = ''amount'', rj_expected = ''a non-zero amount the source stated'',
      rj_actual = string_of_int (or_amount_minor r)\<rparr>"

section \<open>Resolution\<close>

fun outcome_word :: "classification \<Rightarrow> string" where
  "outcome_word (ClsInternalTransfer _) = ''a transfer to a named own account''"
| "outcome_word ClsExternalFlow = ''movement outside the portfolio''"
| "outcome_word (ClsFee _) = ''a fee''"
| "outcome_word ClsRefund = ''a refund''"
| "outcome_word (ClsIncome _) = ''income''"
| "outcome_word ClsOwnAccountMovement = ''a movement between own accounts''"

fun movement_word :: "movement \<Rightarrow> string" where
  "movement_word In = ''incoming''"
| "movement_word Out = ''outgoing''"

definition self_transfer :: "ingest_deps \<Rightarrow> observed_row \<Rightarrow> rejection" where
  "self_transfer I r = \<lparr>rj_field = ''answer'', rj_expected = ''an account different from the one the row is on'',
     rj_actual = i_account_text I (or_account r)\<rparr>"

definition row_envelope :: "observed_row \<Rightarrow> account_id \<Rightarrow> submitted_operation" where
  "row_envelope r account =
     \<lparr>so_account = account, so_kind = OpDeposit 1 (or_currency r), so_dates = or_dates r,
      so_source_time = or_source_time r, so_idempotency_key = ri_idempotency_key (or_identity r),
      so_source_operation_id = ri_row (or_identity r), so_source_position_id = None,
      so_source_category = or_source_category r, so_owner_category = or_owner_category r,
      so_source_code = or_source_code r, so_source_kind = or_source_kind r, so_description = or_description r,
      so_counterparty = counterparty_name (or_counterparty r)\<rparr>"

definition directed_resolve :: "ingest_deps \<Rightarrow> observed_row \<Rightarrow> classification \<Rightarrow> movement \<Rightarrow> int \<Rightarrow> (submitted_operation, rejection) result" where
  "directed_resolve I r cls movement amount =
     (let here = (\<lambda>kind. Ok ((row_envelope r (or_account r))\<lparr>so_kind := kind\<rparr>)); c = or_currency r in
      case (cls, movement) of
        (ClsOwnAccountMovement, m) \<Rightarrow> here (OpOwnAccountMovement (Some m) amount c)
      | (ClsInternalTransfer to, Out) \<Rightarrow>
          if to = or_account r then Err (self_transfer I r) else here (OpTransfer to amount c)
      | (ClsInternalTransfer to, In) \<Rightarrow>
          if to = or_account r then Err (self_transfer I r)
          else Ok ((row_envelope r to)\<lparr>so_kind := OpTransfer (or_account r) amount c\<rparr>)
      | (ClsExternalFlow, Out) \<Rightarrow> here (OpWithdrawal amount c)
      | (ClsExternalFlow, In) \<Rightarrow> here (OpDeposit amount c)
      | (ClsFee origin, Out) \<Rightarrow> here (OpFee amount c origin)
      | (ClsIncome kind, In) \<Rightarrow> here (OpIncome None amount c kind)
      | (ClsRefund, In) \<Rightarrow> here (OpRefund amount c)
      | (_, m) \<Rightarrow> Err \<lparr>rj_field = ''answer'',
          rj_expected = ''an answer whose direction matches what it names: a fee leaves the account, and income and a refund arrive at it'',
          rj_actual = movement_word m @ '' money''\<rparr>)"

definition resolve_row :: "ingest_deps \<Rightarrow> observed_row \<Rightarrow> classification \<Rightarrow> movement option \<Rightarrow> (submitted_operation, rejection) result" where
  "resolve_row I r cls movement =
     and_then (magnitude r) (\<lambda>amount.
     case movement of
       None \<Rightarrow>
         if cls = ClsOwnAccountMovement
         then Ok ((row_envelope r (or_account r))\<lparr>so_kind := OpOwnAccountMovement None amount (or_currency r)\<rparr>)
         else Err \<lparr>rj_field = ''answer'',
           rj_expected = ''a direction, which every outcome except a movement between own accounts needs before it can be recorded'',
           rj_actual = outcome_word cls @ '', with no direction''\<rparr>
     | Some m \<Rightarrow> directed_resolve I r cls m amount)"

definition resolve_with :: "ingest_deps \<Rightarrow> observed_row \<Rightarrow> answer \<Rightarrow> (submitted_operation, rejection) result" where
  "resolve_with I r a = resolve_row I r (answer_classification a) (or_else (answer_movement a) (row_movement r))"

datatype intake = Concluded submitted_operation | ObservedIntake observed_row "parser_version option"

fun intake_row_key :: "intake \<Rightarrow> string option" where
  "intake_row_key (Concluded operation) = map_option (\<lambda>key. ''idempotency/'' @ key) (so_idempotency_key operation)"
| "intake_row_key (ObservedIntake r _) = row_identity_key (or_identity r)"

fun intake_reader :: "intake \<Rightarrow> parser_version option" where
  "intake_reader (Concluded _) = None"
| "intake_reader (ObservedIntake _ reader) = reader"

fun is_concluded :: "intake \<Rightarrow> bool" where
  "is_concluded (Concluded _) = True"
| "is_concluded (ObservedIntake _ _) = False"

fun intake_account :: "intake \<Rightarrow> account_id" where
  "intake_account (Concluded operation) = so_account operation"
| "intake_account (ObservedIntake r _) = or_account r"

section \<open>When a row is refused\<close>

lemma magnitude_Ok [simp]:
  "magnitude r = Ok v \<longleftrightarrow> v = \<bar>or_amount_minor r\<bar> \<and> 0 < v \<and> i64 v"
  by (auto simp: magnitude_def ok_or_def to_i64_def split: option.splits if_splits)

lemma magnitude_total [simp]: "magnitude r \<noteq> Panic"
  by (simp add: magnitude_def ok_or_def split: option.split)

definition names_account :: "answer \<Rightarrow> account_id \<Rightarrow> bool" where
  "names_account a account \<longleftrightarrow> a = AnsSentToOwnAccount account \<or> a = AnsReceivedFromOwnAccount account"

lemma directed_resolve_is_ok:
  "is_ok (directed_resolve I r cls m amount) \<longleftrightarrow>
     cls \<noteq> ClsInternalTransfer (or_account r) \<and> (implied_movement cls = None \<or> implied_movement cls = Some m)"
  by (cases cls; cases m) (auto simp: directed_resolve_def)

lemma resolve_row_is_ok:
  "is_ok (resolve_row I r cls movement) \<longleftrightarrow>
     or_amount_minor r \<noteq> 0 \<and> i64 \<bar>or_amount_minor r\<bar> \<and>
     (case movement of None \<Rightarrow> cls = ClsOwnAccountMovement
      | Some m \<Rightarrow> cls \<noteq> ClsInternalTransfer (or_account r) \<and> (implied_movement cls = None \<or> implied_movement cls = Some m))"
proof (cases "magnitude r")
  case (Ok v)
  then show ?thesis by (auto simp: resolve_row_def directed_resolve_is_ok simp del: magnitude_Ok dest: magnitude_Ok [THEN iffD1] split: option.split)
next
  case (Err e)
  then have "\<not> (or_amount_minor r \<noteq> 0 \<and> i64 \<bar>or_amount_minor r\<bar>)"
    using magnitude_Ok [of r "\<bar>or_amount_minor r\<bar>"] by auto
  then show ?thesis using Err by (auto simp: resolve_row_def)
qed simp

text \<open>
  An answer to a question is never refused for its direction. A row with an answer becomes an
  operation exactly when the source stated an amount other than zero, whose absolute value fits
  its type, and the answer does not name the account of the row as its own far side.
\<close>

lemma answer_accepted_iff:
  "is_ok (resolve_with I r a) \<longleftrightarrow>
     or_amount_minor r \<noteq> 0 \<and> i64 \<bar>or_amount_minor r\<bar> \<and> \<not> names_account a (or_account r)"
  unfolding resolve_with_def resolve_row_is_ok
  by (cases a) (auto simp: names_account_def or_else_def split: option.split)

section \<open>What a resolved row records\<close>

definition moved_on :: "account_id \<Rightarrow> leg list \<Rightarrow> money list" where
  "moved_on account legs = List.map_filter leg_cash_effect (filter (\<lambda>l. l_account l = account) legs)"

fun recorded_class :: "account_id \<Rightarrow> classification \<Rightarrow> movement option \<Rightarrow> classification" where
  "recorded_class account (ClsInternalTransfer to) (Some In) = ClsInternalTransfer account"
| "recorded_class account cls m = cls"

fun signed :: "movement \<Rightarrow> int \<Rightarrow> int" where
  "signed In v = v"
| "signed Out v = - v"

lemmas resolve_eval = build_event_def moved_on_def List.map_filter_def leg_cash_effect_def leg_cash_def leg_fee_def
  positive_minor_def row_envelope_def Let_def

lemma directed_resolve_builds:
  assumes "directed_resolve I r cls m v = Ok operation" "0 < v" "i64 v"
  shows "\<exists>kind legs. build_event X I B fresh operation = Ok (kind, legs) \<and>
    moved_on (or_account r) legs = [money_new (signed m v) (or_currency r)] \<and>
    classification_of_kind kind = Some (recorded_class (or_account r) cls (Some m))"
proof -
  have n: "checked_negate (money_new v c) = Ok (money_new (- v) c)" for c
    using neg_in_range [of v] assms(2,3) by (simp add: money_new_def)
  show ?thesis using assms(1,2)
    by (cases cls; cases m) (auto simp: directed_resolve_def resolve_eval n simp del: checked_negate_Ok split: if_splits)
qed

lemma resolved_row_builds:
  assumes "resolve_row I r cls movement = Ok operation"
  shows "\<exists>kind legs. build_event X I B fresh operation = Ok (kind, legs) \<and>
    moved_on (or_account r) legs =
      (case movement of None \<Rightarrow> [] | Some m \<Rightarrow> [money_new (signed m \<bar>or_amount_minor r\<bar>) (or_currency r)]) \<and>
    classification_of_kind kind = Some (recorded_class (or_account r) cls movement)"
proof (cases movement)
  case None
  then have "0 < \<bar>or_amount_minor r\<bar>" "cls = ClsOwnAccountMovement"
    "operation = (row_envelope r (or_account r))\<lparr>so_kind := OpOwnAccountMovement None \<bar>or_amount_minor r\<bar> (or_currency r)\<rparr>"
    using assms by (auto simp: resolve_row_def split: if_splits)
  then show ?thesis using None by (simp add: resolve_eval)
next
  case (Some m)
  then have "directed_resolve I r cls m \<bar>or_amount_minor r\<bar> = Ok operation" "0 < \<bar>or_amount_minor r\<bar>" "i64 \<bar>or_amount_minor r\<bar>"
    using assms by (auto simp: resolve_row_def)
  from directed_resolve_builds [OF this] show ?thesis using Some by simp
qed

text \<open>
  (C20) A row that is resolved becomes an event, and the event moves the account of the row by exactly
  the amount of the row, in the direction it is resolved with: also where the operation is filed on
  the sending account of an incoming transfer. The recorded class is the class
  it was resolved to, except that an incoming transfer names the account of the row.
\<close>

theorem resolved_row_moves_its_account:
  assumes "resolve_row I r cls movement = Ok operation"
  shows "\<exists>kind legs. build_event X I B fresh operation = Ok (kind, legs) \<and>
    moved_on (or_account r) legs =
      (case movement of None \<Rightarrow> [] | Some m \<Rightarrow> [money_new (signed m \<bar>or_amount_minor r\<bar>) (or_currency r)]) \<and>
    classification_of_kind kind = Some (recorded_class (or_account r) cls movement)"
  using assms by (rule resolved_row_builds)

definition sample_row :: observed_row where
  "sample_row = \<lparr>or_account = AccountId 1, or_direction = DirIn, or_amount_minor = 1000, or_currency = Rub,
     or_counterparty = ObservedUnknown, or_far_side = FarUnstated, or_source_kind = None, or_source_category = None,
     or_owner_category = None, or_source_code = None, or_description = None,
     or_dates = \<lparr>od_trade = Some 5, od_settled = None, od_cash_posted = None, od_paid = None\<rparr>, or_source_time = None,
     or_identity = \<lparr>ri_document = None, ri_row = None, ri_idempotency_key = None\<rparr>\<rparr>"

abbreviation sample_received :: submitted_operation where
  "sample_received \<equiv> (row_envelope sample_row (AccountId 2))\<lparr>so_kind := OpTransfer (AccountId 1) 1000 Rub\<rparr>"

lemma sample_resolved:
  "resolve_row sample_ingest sample_row (ClsInternalTransfer (AccountId 2)) (Some In) = Ok sample_received"
proof -
  have "magnitude sample_row = Ok 1000" by (simp add: sample_row_def i64_def i64_defs)
  then show ?thesis by (simp add: resolve_row_def directed_resolve_def sample_row_def)
qed

theorem resolved_row_moves_its_account_witness:
  "\<exists>kind legs. build_event ref_deps sample_ingest checked_build (TransferId 1) sample_received = Ok (kind, legs) \<and>
    moved_on (AccountId 1) legs = [money_new 1000 Rub]"
  using resolved_row_moves_its_account [OF sample_resolved, of ref_deps checked_build "TransferId 1"]
  by (auto simp: sample_row_def)

end
