(* ===== verification/AppError.thy ===== *)
theory AppError
  imports Projection MoneyFlow Observed Perimeter JournalViews
begin

text \<open>
  The errors of the scenarios, \<open>iaam-app/src/error.rs\<close>: one variant for each cause, the rejected
  field with the values it admits, the published code of an error and the JSON pointer of a field. The lemmas show which
  errors share a code and that a pointer names the same path as its field.

  The calls that would produce an acceptable value (\<open>FieldRejection::resolutions\<close>, built by the
  action queue) are not modelled; the scenarios of this development attach none. A duration is a number of nanoseconds.
\<close>

section \<open>Rejected fields\<close>

datatype provided_by = ProvidedByOwner | ProvidedByExternalDocument | ProvidedByCaller

record account_candidate =
  ac_id :: account_id
  ac_title :: string
  ac_institution :: "string option"

datatype owner_prompt =
    PromptAccountTitle "string option"
  | PromptContourTitle
  | PromptContourAccounts
  | PromptMembershipContour
  | PromptMembershipAccounts
  | PromptExclusionReason
  | PromptTransferPartners
  | PromptBrokerChannel
  | PromptBindingBroker
  | PromptSyncFrom
  | PromptSyncTo
  | PromptCorrections
  | PromptAcknowledgeRetraction
  | PromptOwnerBalanceCash
  | PromptOpeningAmount
  | PromptOpeningCurrency
  | PromptOpeningDate
  | PromptRuleMatcher
  | PromptRuleCategory
  | PromptImportAnswer
  | PromptTransferFarSide
  | PromptCategoryGroupTitle
  | PromptCategoryTitle
  | PromptAccountInstitution
  | PromptDeclinedNameReason

record required_input =
  rq_pointer :: string
  rq_provided_by :: provided_by
  rq_prompt :: "owner_prompt option"
  rq_candidates :: "account_candidate list option"

record input_alternative =
  ia_value :: string
  ia_requires :: "required_input list"
  ia_consequence :: "string option"

record field_rejection =
  fr_field :: string
  fr_expected :: string
  fr_actual :: string
  fr_alternatives :: "input_alternative list"

definition field_rejection_new :: "string \<Rightarrow> string \<Rightarrow> string \<Rightarrow> field_rejection" where
  "field_rejection_new field expected actual =
     \<lparr>fr_field = field, fr_expected = expected, fr_actual = actual, fr_alternatives = []\<rparr>"

definition admitting :: "field_rejection \<Rightarrow> input_alternative list \<Rightarrow> field_rejection" where
  "admitting r alternatives = r\<lparr>fr_alternatives := alternatives\<rparr>"

definition admitting_codes :: "field_rejection \<Rightarrow> string list \<Rightarrow> field_rejection" where
  "admitting_codes r codes = admitting r (map (\<lambda>code. \<lparr>ia_value = code, ia_requires = [], ia_consequence = None\<rparr>) codes)"

section \<open>Pointers\<close>

text \<open>\<open>str::split\<close> at any of the separators: always one part more than there are separators.\<close>

fun split_at_any :: "char set \<Rightarrow> string \<Rightarrow> string list" where
  "split_at_any seps [] = [[]]"
| "split_at_any seps (c # cs) =
     (if c \<in> seps then [] # split_at_any seps cs
      else (case split_at_any seps cs of [] \<Rightarrow> [[c]] | t # ts \<Rightarrow> (c # t) # ts))"

definition field_tokens :: "string \<Rightarrow> string list" where
  "field_tokens field = filter (\<lambda>t. t \<noteq> []) (split_at_any {CHR ''.'', CHR ''['', CHR '']''} field)"

definition escape_char :: "char \<Rightarrow> string" where
  "escape_char c = (if c = CHR ''~'' then ''~0'' else if c = CHR ''/'' then ''~1'' else [c])"

definition json_pointer :: "string \<Rightarrow> string" where
  "json_pointer field = concat (map (\<lambda>t. CHR ''/'' # concat (map escape_char t)) (field_tokens field))"

definition field_pointer :: "field_rejection \<Rightarrow> string" where
  "field_pointer r = json_pointer (fr_field r)"

section \<open>Errors\<close>

datatype asset_snapshot_error = AssetMoney money_error | AssetNumeric numeric_error

datatype app_error =
    AppStore string
  | AppCategoryGroupRetired string
  | AppNotFound string string
  | AppInvalid string string string
  | AppInvalidField field_rejection
  | AppInvariant uuid projection_error
  | AppDirectoryInvariant uuid string
  | AppProjection projection_error
  | AppMoneyFlow money_flow_error
  | AppReconciliation observe_error
  | AppPerimeter perimeter_error
  | AppCorrection correction_error
  | AppNotConfigured string
  | AppRandom string
  | AppConflict string
  | AppSchedule active_instruments_error
  | AppAssetSnapshot asset_snapshot_error
  | AppBatchTotal money_error
  | AppSourceUnreachable string string "nat option"
  | AppSyncRequestCeiling string "32 word"
  | AppBrokerAccountUnseen string
  | AppBrokerAccountAmbiguous string "string list"
  | AppSourceRefused string string
  | AppSourceUnreadable string string

definition from_projection :: "uuid \<Rightarrow> projection_error \<Rightarrow> app_error" where
  "from_projection correlation e = (if is_invariant_violation e then AppInvariant correlation e else AppProjection e)"

fun app_error_code :: "app_error \<Rightarrow> string" where
  "app_error_code (AppStore _) = ''store_unavailable''"
| "app_error_code (AppCategoryGroupRetired _) = ''category_group_retired''"
| "app_error_code (AppNotFound _ _) = ''not_found''"
| "app_error_code (AppInvalid _ _ _) = ''invalid_request''"
| "app_error_code (AppInvalidField _) = ''invalid_request''"
| "app_error_code (AppInvariant _ _) = ''invariant_violated''"
| "app_error_code (AppDirectoryInvariant _ _) = ''directory_invariant_violated''"
| "app_error_code (AppProjection _) = ''projection_failed''"
| "app_error_code (AppMoneyFlow _) = ''money_flow_failed''"
| "app_error_code (AppReconciliation _) = ''reconciliation_failed''"
| "app_error_code (AppSchedule _) = ''schedule_not_built''"
| "app_error_code (AppAssetSnapshot _) = ''asset_snapshot_not_built''"
| "app_error_code (AppBatchTotal _) = ''batch_not_totalled''"
| "app_error_code (AppPerimeter _) = ''perimeter_assessment_failed''"
| "app_error_code (AppCorrection _) = ''corrections_do_not_resolve''"
| "app_error_code (AppNotConfigured _) = ''not_configured''"
| "app_error_code (AppRandom _) = ''random_unavailable''"
| "app_error_code (AppConflict _) = ''already_exists''"
| "app_error_code (AppSourceUnreachable _ _ _) = ''source_unavailable''"
| "app_error_code (AppSyncRequestCeiling _ _) = ''sync_request_ceiling''"
| "app_error_code (AppSourceRefused _ _) = ''source_refused''"
| "app_error_code (AppSourceUnreadable _ _) = ''source_unreadable''"
| "app_error_code (AppBrokerAccountUnseen _) = ''broker_account_unseen''"
| "app_error_code (AppBrokerAccountAmbiguous _ _) = ''broker_account_ambiguous''"

lemma violation_code_iff:
  "app_error_code (from_projection correlation e) = ''invariant_violated'' \<longleftrightarrow> is_invariant_violation e"
  by (simp add: from_projection_def)

section \<open>A pointer and its field\<close>

text \<open>Reading a reference token back, as RFC 6901 has it.\<close>

fun unescape :: "string \<Rightarrow> string" where
  "unescape [] = []"
| "unescape [c] = [c]"
| "unescape (c # d # cs) =
     (if c = CHR ''~'' \<and> d = CHR ''0'' then CHR ''~'' # unescape cs
      else if c = CHR ''~'' \<and> d = CHR ''1'' then CHR ''/'' # unescape cs
      else c # unescape (d # cs))"

lemma unescape_plain: "c \<noteq> CHR ''~'' \<Longrightarrow> unescape (c # cs) = c # unescape cs"
  by (cases cs) simp_all

lemma unescape_escape: "unescape (concat (map escape_char t)) = t"
  by (induction t) (simp_all add: escape_char_def unescape_plain)

lemma escaped_no_separator: "CHR ''/'' \<notin> set (concat (map escape_char t))"
  by (induction t) (simp_all add: escape_char_def)

lemma split_at_any_nonempty [simp]: "split_at_any seps cs \<noteq> []"
  by (cases cs) (auto split: list.split)

lemma split_at_any_plain:
  assumes "set t \<inter> seps = {}"
  shows "split_at_any seps (t @ cs) = (t @ hd (split_at_any seps cs)) # tl (split_at_any seps cs)"
  using assms by (induction t) (auto split: list.split)

text \<open>Applying the pointer of a rejected field reads the tokens of the field, whatever characters they hold.\<close>

lemma json_pointer_tokens:
  "map unescape (tl (split_at_any {CHR ''/''} (json_pointer field))) = field_tokens field"
proof -
  have "split_at_any {CHR ''/''} (concat (map (\<lambda>t. CHR ''/'' # concat (map escape_char t)) ts)) = [] # map (\<lambda>t. concat (map escape_char t)) ts" for ts
  proof (induction ts)
    case (Cons t ts)
    have "set (concat (map escape_char t)) \<inter> {CHR ''/''} = {}" using escaped_no_separator by blast
    from split_at_any_plain [OF this] Cons show ?case by simp
  qed simp
  then show ?thesis by (simp add: json_pointer_def comp_def unescape_escape)
qed

end
