(* ===== verification/Reclassify.thy ===== *)
theory Reclassify
  imports Observation AppError
begin

text \<open>
  The facts a correction appends, \<open>iaam-app/src/scenarios/correction.rs\<close>, and the reading of a
  recorded event back into what the owner's rules see,
  \<open>iaam-app/src/scenarios/classification.rs\<close>. The lemmas show the round trip of an outcome through its
  published names and what class a reclassified event has; the last
  sections show where the plan of a recomputation does not become empty by being applied.

  Random identifiers are arguments (\<open>fresh\<close>); UUID texts and their parsing, the derived source
  identity and the debug texts are fields of \<open>app_deps\<close>.
\<close>

record app_deps =
  ad_uuid_text :: "uuid \<Rightarrow> string"
  ad_uuid_parse :: "string \<Rightarrow> uuid option"
  ad_lower :: "string \<Rightarrow> string"
  ad_declared :: "owner_id \<Rightarrow> account_id \<Rightarrow> string \<Rightarrow> source_id"
  ad_kind_debug :: "event_kind \<Rightarrow> string"
  ad_event_debug :: "event_id \<Rightarrow> string"
  ad_import_text :: "import_id \<Rightarrow> string"
  ad_date_text :: "date \<Rightarrow> string"
  ad_validation_text :: "validation_error \<Rightarrow> string"
  ad_correction_text :: "correction_error \<Rightarrow> string"

section \<open>Outcomes by name\<close>

record classified =
  ca_kind :: string
  ca_to :: "account_id option"
  ca_origin :: "string option"
  ca_income_kind :: "string option"

fun income_kind_name :: "income_kind \<Rightarrow> string" where
  "income_kind_name Coupon = ''coupon''"
| "income_kind_name Dividend = ''dividend''"
| "income_kind_name DepositInterest = ''deposit_interest''"

fun fee_origin_name :: "fee_origin \<Rightarrow> string" where
  "fee_origin_name Brokerage = ''brokerage''"
| "fee_origin_name Depositary = ''depositary''"
| "fee_origin_name AccountMaintenance = ''account_maintenance''"
| "fee_origin_name MarginInterest = ''margin_interest''"
| "fee_origin_name OtherFee = ''other''"

fun classified_as :: "classification \<Rightarrow> classified" where
  "classified_as (ClsInternalTransfer to) = \<lparr>ca_kind = ''internal_transfer'', ca_to = Some to, ca_origin = None, ca_income_kind = None\<rparr>"
| "classified_as ClsExternalFlow = \<lparr>ca_kind = ''external_flow'', ca_to = None, ca_origin = None, ca_income_kind = None\<rparr>"
| "classified_as ClsOwnAccountMovement = \<lparr>ca_kind = ''own_account_movement'', ca_to = None, ca_origin = None, ca_income_kind = None\<rparr>"
| "classified_as ClsRefund = \<lparr>ca_kind = ''refund'', ca_to = None, ca_origin = None, ca_income_kind = None\<rparr>"
| "classified_as (ClsIncome kind) = \<lparr>ca_kind = ''income'', ca_to = None, ca_origin = None, ca_income_kind = map_option income_kind_name kind\<rparr>"
| "classified_as (ClsFee origin) = \<lparr>ca_kind = ''fee'', ca_to = None, ca_origin = Some (fee_origin_name origin), ca_income_kind = None\<rparr>"

definition invalid_outcome :: "string \<Rightarrow> app_error" where
  "invalid_outcome actual = AppInvalidField (admitting_codes
     (field_rejection_new ''outcome'' ''internal_transfer, own_account_movement, external_flow, refund, income or fee'' actual)
     [''internal_transfer'', ''own_account_movement'', ''external_flow'', ''refund'', ''income'', ''fee''])"

definition invalid_income_kind :: "string \<Rightarrow> app_error" where
  "invalid_income_kind actual = AppInvalidField (admitting_codes
     (field_rejection_new ''outcome.income_kind'' ''coupon, dividend or deposit_interest, or nothing where the owner named no kind'' actual)
     [''coupon'', ''dividend'', ''deposit_interest''])"

definition income_kind_from :: "string option \<Rightarrow> (income_kind option, app_error) result" where
  "income_kind_from name = (case name of
     None \<Rightarrow> Ok None
   | Some n \<Rightarrow>
       if n = ''coupon'' then Ok (Some Coupon)
       else if n = ''dividend'' then Ok (Some Dividend)
       else if n = ''deposit_interest'' then Ok (Some DepositInterest)
       else Err (invalid_income_kind n))"

definition fee_origin_from :: "string option \<Rightarrow> (fee_origin, app_error) result" where
  "fee_origin_from name = (case name of
     None \<Rightarrow> Err (invalid_outcome ''field origin'')
   | Some n \<Rightarrow>
       if n = ''brokerage'' then Ok Brokerage
       else if n = ''depositary'' then Ok Depositary
       else if n = ''account_maintenance'' then Ok AccountMaintenance
       else if n = ''margin_interest'' then Ok MarginInterest
       else if n = ''other'' then Ok OtherFee
       else Err (invalid_outcome n))"

definition outcome_from :: "app_deps \<Rightarrow> string \<Rightarrow> string option \<Rightarrow> string option \<Rightarrow> string option \<Rightarrow> (classification, app_error) result" where
  "outcome_from A kind to origin income_kind =
     (if kind = ''internal_transfer'' then
        and_then (ok_or to (invalid_outcome ''field to'')) (\<lambda>raw.
        and_then (ok_or (ad_uuid_parse A raw) (invalid_outcome raw)) (\<lambda>u. Ok (ClsInternalTransfer (AccountId u))))
      else if kind = ''external_flow'' then Ok ClsExternalFlow
      else if kind = ''own_account_movement'' then
        (case to of None \<Rightarrow> Ok ClsOwnAccountMovement | Some actual \<Rightarrow> Err (invalid_outcome actual))
      else if kind = ''refund'' then Ok ClsRefund
      else if kind = ''income'' then and_then (income_kind_from income_kind) (\<lambda>k. Ok (ClsIncome k))
      else if kind = ''fee'' then and_then (fee_origin_from origin) (\<lambda>f. Ok (ClsFee f))
      else Err (invalid_outcome kind))"

section \<open>A recorded event as a subject\<close>

definition named_counterparty :: "event \<Rightarrow> counterparty" where
  "named_counterparty e = (case pv_counterparty (e_provenance e) of Some name \<Rightarrow> Named name | None \<Rightarrow> UnknownCounterparty)"

fun subject_side :: "app_deps \<Rightarrow> event \<Rightarrow> event_kind \<Rightarrow> (counterparty \<times> movement option \<times> far_side) option" where
  "subject_side A e (CashIn _) = Some (named_counterparty e, Some In, FarUnstated)"
| "subject_side A e (Income _ _ _) = Some (named_counterparty e, Some In, FarUnstated)"
| "subject_side A e (Refund _) = Some (named_counterparty e, Some In, FarUnstated)"
| "subject_side A e (CashOut _) = Some (named_counterparty e, Some Out, FarUnstated)"
| "subject_side A e (Fee _ _) = Some (named_counterparty e, Some Out, FarUnstated)"
| "subject_side A e (CashTransfer _ from to _) =
     (if from = e_account e then Some (Named (ad_uuid_text A (account_uuid to)), Some Out, FarUnstated)
      else Some (Named (ad_uuid_text A (account_uuid from)), Some In, FarUnstated))"
| "subject_side A e (OwnAccountMovement amount) =
     Some (UnknownCounterparty, Some (if m_amount amount < 0 then Out else In), FarOwnAccount)"
| "subject_side A e (UnresolvedOwnAccountMovement _) = Some (UnknownCounterparty, None, FarOwnAccount)"
| "subject_side A e _ = None"

definition event_subject :: "app_deps \<Rightarrow> event \<Rightarrow> classification_subject option" where
  "event_subject A e = (case subject_side A e (e_kind e) of
     None \<Rightarrow> None
   | Some (counterparty, movement, far) \<Rightarrow> Some
       \<lparr>sb_account = e_account e, sb_counterparty = counterparty,
        sb_description = pv_description (e_provenance e), sb_source_kind = pv_source_kind (e_provenance e),
        sb_source_category = pv_source_category (e_provenance e), sb_owner_category = pv_owner_category (e_provenance e),
        sb_source_code = pv_source_code (e_provenance e), sb_movement = movement, sb_far_side = far\<rparr>)"

section \<open>Facts of a correction\<close>

definition correction_parser_version :: string where
  "correction_parser_version = ''correction/1''"

definition correction_channel :: string where
  "correction_channel = ''correction''"

definition field_of :: "nat \<Rightarrow> string \<Rightarrow> string" where
  "field_of index rest = ''corrections['' @ string_of_int (int index) @ '']'' @ rest"

definition hash_of :: "ingest_deps \<Rightarrow> string \<Rightarrow> (raw_hash, app_error) result" where
  "hash_of I key = expect (raw_hash_parse (concat (map hex_byte (i_sha256 I key))))"

definition reversal_for_with :: "app_deps \<Rightarrow> ingest_deps \<Rightarrow> event_id \<Rightarrow> event \<Rightarrow> principal_id option \<Rightarrow> (event, app_error) result" where
  "reversal_for_with A I fresh original declared_by =
     (let key = ''correction/reversal/'' @ ad_uuid_text A (event_uuid (e_id original)) in
      and_then (hash_of I key) (\<lambda>raw_hash.
      let provenance = provenance_new (ad_declared A (e_owner original) (e_account original) correction_channel) raw_hash correction_parser_version in
      Ok \<lparr>e_id = fresh, e_owner = e_owner original, e_account = e_account original, e_kind = e_kind original,
          e_dates = e_dates original,
          e_order = (case eo_source_time (e_order original) of
             None \<Rightarrow> order_new (eo_date (e_order original)) 0
           | Some time \<Rightarrow> order_with_source_time (eo_date (e_order original)) time 0),
          e_legs = e_legs original, e_provenance = provenance\<lparr>pv_declared_by := declared_by\<rparr>,
          e_relation = Reversal (e_id original), e_confidence = e_confidence original, e_idempotency_key = Some key\<rparr>))"

definition reversal_for :: "app_deps \<Rightarrow> ingest_deps \<Rightarrow> event_id \<Rightarrow> event \<Rightarrow> principal_id \<Rightarrow> (event, app_error) result" where
  "reversal_for A I fresh original declared_by = reversal_for_with A I fresh original (Some declared_by)"

definition observed_cash :: "event \<Rightarrow> money option" where
  "observed_cash e = or_else
     (case List.map_filter leg_cash_effect (e_legs e) of [] \<Rightarrow> None | m # _ \<Rightarrow> Some m)
     (case e_kind e of UnresolvedOwnAccountMovement amount \<Rightarrow> Some amount | _ \<Rightarrow> None)"

definition observed_for :: "app_deps \<Rightarrow> event \<Rightarrow> nat \<Rightarrow> (observed_row, app_error) result" where
  "observed_for A original index =
     and_then (ok_or (event_subject A original)
       (AppInvalid (field_of index ''.target'') ''a cash statement fact that can be reclassified'' (ad_kind_debug A (e_kind original)))) (\<lambda>s.
     and_then (ok_or (observed_cash original)
       (AppInvalid (field_of index ''.target'') ''a cash statement fact with a cash leg'' ''no cash leg'')) (\<lambda>cash.
     let p = e_provenance original; d = e_dates original in
     Ok \<lparr>or_account = e_account original,
         or_direction = (case sb_movement s of Some In \<Rightarrow> DirIn | Some Out \<Rightarrow> DirOut | None \<Rightarrow> DirUnknown),
         or_amount_minor = m_amount cash, or_currency = m_currency cash,
         or_counterparty = (case sb_counterparty s of
            Named name \<Rightarrow> ObservedNamed name
          | OwnAccount a \<Rightarrow> ObservedNamed (ad_uuid_text A (account_uuid a))
          | UnknownCounterparty \<Rightarrow> ObservedUnknown),
         or_far_side = sb_far_side s, or_source_kind = pv_source_kind p, or_source_category = pv_source_category p,
         or_owner_category = pv_owner_category p, or_source_code = pv_source_code p, or_description = pv_description p,
         or_dates = \<lparr>od_trade = ed_trade d, od_settled = ed_settled d, od_cash_posted = ed_cash_posted d, od_paid = ed_paid d\<rparr>,
         or_source_time = eo_source_time (e_order original),
         or_identity = \<lparr>ri_document = None, ri_row = pv_source_operation_id p, ri_idempotency_key = None\<rparr>\<rparr>))"

text \<open>A rejection of the ingestion becomes an error of the request field it belongs to.\<close>

definition rejected_at :: "string \<Rightarrow> rejection \<Rightarrow> app_error" where
  "rejected_at prefix r = AppInvalid (prefix @ rj_field r) (rj_expected r) (rj_actual r)"

definition reclassification_for :: "app_deps \<Rightarrow> deps \<Rightarrow> ingest_deps \<Rightarrow> build_profile \<Rightarrow> event_id \<Rightarrow> transfer_id \<Rightarrow> owner_id
    \<Rightarrow> event \<Rightarrow> classification \<Rightarrow> principal_id option \<Rightarrow> nat \<Rightarrow> (event, app_error) result" where
  "reclassification_for A X I B fresh fresh_transfer owner original cls declared_by index =
     and_then (observed_for A original index) (\<lambda>observed.
     and_then (map_err (rejected_at (field_of index ''.classified_as.'')) (resolve_row I observed cls (row_movement observed))) (\<lambda>resolved.
     let operation = resolved\<lparr>so_idempotency_key := Some (''correction/reclassification/'' @ ad_uuid_text A (event_uuid (e_id original)))\<rparr> in
     and_then (map_err (rejected_at (field_of index ''.classified_as.''))
       (normalize X I B fresh fresh_transfer operation
          \<lparr>nc_owner = owner, nc_source = ad_declared A owner (so_account operation) correction_channel,
           nc_parser_version = correction_parser_version\<rparr>)) (\<lambda>e.
     let provenance = (case declared_by of None \<Rightarrow> e_provenance e | Some p \<Rightarrow> (e_provenance e)\<lparr>pv_declared_by := Some p\<rparr>) in
     Ok (e\<lparr>e_provenance := provenance, e_relation := Replacement (e_id original)\<rparr>))))"

definition reclassification_candidates_for_plan :: "app_deps \<Rightarrow> deps \<Rightarrow> ingest_deps \<Rightarrow> build_profile \<Rightarrow> event_id \<times> event_id \<Rightarrow> transfer_id
    \<Rightarrow> owner_id \<Rightarrow> event \<Rightarrow> classification \<Rightarrow> nat \<Rightarrow> (event list, app_error) result" where
  "reclassification_candidates_for_plan A X I B fresh fresh_transfer owner original cls index =
     and_then (reversal_for_with A I (fst fresh) original None) (\<lambda>reversal.
     and_then (reclassification_for A X I B (snd fresh) fresh_transfer owner original cls None index) (\<lambda>replacement.
     Ok [reversal, replacement]))"

definition replacement_for :: "app_deps \<Rightarrow> deps \<Rightarrow> ingest_deps \<Rightarrow> build_profile \<Rightarrow> event_id \<Rightarrow> transfer_id \<Rightarrow> owner_id \<Rightarrow> principal_id
    \<Rightarrow> event_id \<Rightarrow> submitted_operation \<Rightarrow> nat \<Rightarrow> (event, app_error) result" where
  "replacement_for A X I B fresh fresh_transfer owner declared_by target operation index =
     and_then (map_err (rejected_at (field_of index ''.operation.''))
       (normalize X I B fresh fresh_transfer operation
          \<lparr>nc_owner = owner, nc_source = ad_declared A owner (so_account operation) correction_channel,
           nc_parser_version = correction_parser_version\<rparr>)) (\<lambda>e.
     Ok (e\<lparr>e_provenance := (e_provenance e)\<lparr>pv_declared_by := Some declared_by\<rparr>, e_relation := Replacement target\<rparr>))"

text \<open>The subjects a recomputation collects from the journal (\<open>recompute_history\<close>).\<close>

definition journal_subjects :: "app_deps \<Rightarrow> event list \<Rightarrow> (event_id, classification_subject) btree" where
  "journal_subjects A events = foldl (\<lambda>m (i, s). bt_insert i s m) []
     (List.map_filter (\<lambda>e. map_option (\<lambda>s. (e_id e, s)) (event_subject A e)) events)"

section \<open>Round trip of an outcome\<close>

text \<open>Printing and parsing a UUID are inverse to each other.\<close>

definition uuid_law :: "app_deps \<Rightarrow> bool" where
  "uuid_law A \<longleftrightarrow> (\<forall>u. ad_uuid_parse A (ad_uuid_text A u) = Some u)"

definition outcome_of :: "app_deps \<Rightarrow> classified \<Rightarrow> (classification, app_error) result" where
  "outcome_of A c = outcome_from A (ca_kind c) (map_option (\<lambda>a. ad_uuid_text A (account_uuid a)) (ca_to c)) (ca_origin c) (ca_income_kind c)"

lemma income_kind_names [simp]: "income_kind_from (map_option income_kind_name k) = Ok k"
proof (cases k)
  case (Some v)
  then show ?thesis by (cases v) (simp_all add: income_kind_from_def)
qed (simp add: income_kind_from_def)

lemma fee_origin_names [simp]: "fee_origin_from (Some (fee_origin_name f)) = Ok f"
  by (cases f) (simp_all add: fee_origin_from_def)

lemma outcome_from_kind:
  assumes "outcome_from A kind to origin income_kind = Ok cls"
  shows "ca_kind (classified_as cls) = kind"
proof (cases "kind \<in> {''internal_transfer'', ''external_flow'', ''own_account_movement'', ''refund'', ''income'', ''fee''}")
  case True
  then have "kind = ''internal_transfer'' \<or> kind = ''external_flow'' \<or> kind = ''own_account_movement'' \<or> kind = ''refund'' \<or>
      kind = ''income'' \<or> kind = ''fee''"
    by (simp only: insert_iff empty_iff simp_thms)
  then show ?thesis using assms by (elim disjE) (auto simp: outcome_from_def split: option.splits)
next
  case False
  then show ?thesis using assms by (simp add: outcome_from_def)
qed

text \<open>
  (C30) The names an outcome is published under are names it can be written with: parsing the
  published form of any class gives that class back, and what is parsed is published under the kind that was sent.
\<close>

theorem outcome_name_roundtrip:
  assumes "uuid_law A"
  shows "outcome_of A (classified_as cls) = Ok cls \<and>
    (outcome_from A kind to origin income_kind = Ok cls \<longrightarrow> ca_kind (classified_as cls) = kind)"
proof
  show "outcome_of A (classified_as cls) = Ok cls"
    using assms by (cases cls) (simp_all add: outcome_of_def outcome_from_def ok_or_def uuid_law_def)
  show "outcome_from A kind to origin income_kind = Ok cls \<longrightarrow> ca_kind (classified_as cls) = kind"
    using outcome_from_kind by blast
qed

section \<open>The class of a reclassified event\<close>

lemma normalize_kind:
  assumes "normalize X I B fresh t operation ctx = Ok e" "build_event X I B t operation = Ok (kind, legs)"
  shows "e_kind e = kind" "e_legs e = legs" "e_account e = so_account operation" "e_id e = fresh"
    "e_provenance e = submitted_provenance operation ctx (pv_raw_hash (e_provenance e))"
  using assms by (auto simp: normalize_def Let_def submitted_provenance_def provenance_new_def)

lemma build_event_key [simp]: "build_event X I B t (operation\<lparr>so_idempotency_key := k\<rparr>) = build_event X I B t operation"
  by (simp add: build_event_def)

lemma observed_for_Ok:
  assumes "observed_for A original index = Ok observed"
  obtains s where "event_subject A original = Some s" "row_movement observed = sb_movement s" "or_account observed = e_account original"
    "or_description observed = pv_description (e_provenance original)"
  using assms by (auto simp: observed_for_def ok_or_def Let_def row_movement_def split: option.splits movement.splits)

text \<open>
  The fact that replaces a reclassified event has the class it was reclassified to, except that
  a received amount reclassified as a transfer is filed on the sender and so names the account
  it arrived at; it replaces the original, and it moves the account of the original in the
  direction the original had.
\<close>

lemma reclassified_event_has_its_class:
  assumes "reclassification_for A X I B fresh t owner original cls declared index = Ok e"
  shows "\<exists>s observed. event_subject A original = Some s \<and> observed_for A original index = Ok observed \<and>
    classification_of e = Some (recorded_class (e_account original) cls (sb_movement s)) \<and>
    e_relation e = Replacement (e_id original) \<and> e_id e = fresh \<and>
    moved_on (e_account original) (e_legs e) =
      (case sb_movement s of None \<Rightarrow> [] | Some m \<Rightarrow> [money_new (signed m \<bar>or_amount_minor observed\<bar>) (or_currency observed)])"
proof -
  from assms obtain observed resolved e' where o: "observed_for A original index = Ok observed"
    and r: "resolve_row I observed cls (row_movement observed) = Ok resolved"
    and n: "normalize X I B fresh t (resolved\<lparr>so_idempotency_key := Some (''correction/reclassification/'' @ ad_uuid_text A (event_uuid (e_id original)))\<rparr>)
      \<lparr>nc_owner = owner, nc_source = ad_declared A owner (so_account resolved) correction_channel,
       nc_parser_version = correction_parser_version\<rparr> = Ok e'"
    and e: "e_kind e = e_kind e'" "e_legs e = e_legs e'" "e_id e = e_id e'" "e_relation e = Replacement (e_id original)"
    by (auto simp: reclassification_for_def Let_def map_err_eq_Ok)
  obtain s where s: "event_subject A original = Some s" "row_movement observed = sb_movement s" "or_account observed = e_account original"
    using observed_for_Ok [OF o] by metis
  obtain kind legs where b: "build_event X I B t resolved = Ok (kind, legs)"
    and m: "moved_on (or_account observed) legs =
      (case row_movement observed of None \<Rightarrow> [] | Some m \<Rightarrow> [money_new (signed m \<bar>or_amount_minor observed\<bar>) (or_currency observed)])"
    and c: "classification_of_kind kind = Some (recorded_class (or_account observed) cls (row_movement observed))"
    using resolved_row_builds [OF r] by blast
  have "e_kind e' = kind" "e_legs e' = legs" "e_id e' = fresh" using normalize_kind [OF n] b by simp_all
  then show ?thesis using o s m c e by (auto simp: classification_of_def)
qed

section \<open>Concrete instances\<close>

definition sample_app :: app_deps where
  "sample_app = \<lparr>ad_uuid_text = (\<lambda>u. replicate (unat u) CHR ''x''), ad_uuid_parse = (\<lambda>s. Some (word_of_nat (length s))),
     ad_lower = (\<lambda>s. s), ad_declared = (\<lambda>_ _ _. SourceId 9), ad_kind_debug = (\<lambda>_. []), ad_event_debug = (\<lambda>_. []),
     ad_import_text = (\<lambda>_. []), ad_date_text = (\<lambda>_. []), ad_validation_text = (\<lambda>_. []), ad_correction_text = (\<lambda>_. [])\<rparr>"

theorem outcome_name_roundtrip_witness:
  "outcome_of sample_app (classified_as (ClsInternalTransfer (AccountId 5))) = Ok (ClsInternalTransfer (AccountId 5)) \<and>
   ca_kind (classified_as ClsRefund) = ''refund''"
proof -
  have law: "uuid_law sample_app" by (simp add: uuid_law_def sample_app_def)
  have "outcome_from sample_app ''refund'' None None None = Ok ClsRefund" by (simp add: outcome_from_def)
  then show ?thesis
    using outcome_name_roundtrip [OF law] by blast
qed

section \<open>A rule that matches its own correction\<close>

text \<open>A matcher that asks nothing of the counterparty and of the direction sees only the texts and codes of a row.\<close>

definition reads_texts_only :: "rule_matcher \<Rightarrow> bool" where
  "reads_texts_only m \<longleftrightarrow> rm_counterparty_account m = None \<and> rm_movement m = None"

lemma reads_texts_only_matches:
  "reads_texts_only m \<Longrightarrow>
     rule_matches lower m (s\<lparr>sb_account := a, sb_counterparty := cp, sb_movement := mv, sb_far_side := f\<rparr>) = rule_matches lower m s"
  by (simp add: reads_texts_only_def rule_matches_def)

lemma reads_texts_only_decided:
  assumes "\<forall>r \<in> set rules. reads_texts_only (ru_matcher r)" "decided_as lower s rules (ClsInternalTransfer to)"
    and "\<forall>a. sb_counterparty s \<noteq> OwnAccount a" "\<forall>a. cp \<noteq> OwnAccount a"
  shows "decided_as lower (s\<lparr>sb_account := a, sb_counterparty := cp, sb_movement := mv, sb_far_side := f\<rparr>) rules (ClsInternalTransfer to)"
proof -
  obtain r where r: "last_greatest lower s rules r" "ru_outcome r = ClsInternalTransfer to"
    using assms(2,3) by (auto simp: decided_as_def)
  have "last_greatest lower (s\<lparr>sb_account := a, sb_counterparty := cp, sb_movement := mv, sb_far_side := f\<rparr>) rules r"
    using r(1) assms(1) unfolding last_greatest_def by (force simp: reads_texts_only_matches)
  with r(2) assms(4) show ?thesis by (auto simp: decided_as_def intro!: exI [of _ r])
qed

lemma event_subject_not_own: "event_subject A e = Some s \<Longrightarrow> sb_counterparty s \<noteq> OwnAccount a"
  by (cases "e_kind e") (auto simp: event_subject_def named_counterparty_def split: option.splits if_splits)

lemma journal_subjects_get:
  assumes "distinct (map e_id events)" "e \<in> set events"
  shows "bt_get (journal_subjects A events) (e_id e) = event_subject A e"
  using assms
proof (induction events rule: rev_induct)
  case (snoc x xs)
  have step: "journal_subjects A (xs @ [x]) =
      (case event_subject A x of None \<Rightarrow> journal_subjects A xs | Some s \<Rightarrow> bt_insert (e_id x) s (journal_subjects A xs))"
    by (simp add: journal_subjects_def List.map_filter_def split: option.split)
  have fresh: "bt_get (journal_subjects A es) i = None" if "i \<notin> e_id ` set es" for i es
    using that by (induction es rule: rev_induct) (auto simp: journal_subjects_def List.map_filter_def split: option.splits)
  show ?case
  proof (cases "e = x")
    case True
    then show ?thesis using snoc.prems fresh [of "e_id x" xs] by (auto simp: step split: option.split)
  next
    case False
    then have "e \<in> set xs" using snoc.prems by simp
    moreover have "e_id e \<noteq> e_id x" using imageI [OF \<open>e \<in> set xs\<close>, of e_id] snoc.prems(1) by auto
    ultimately have "e \<in> set xs" "e_id e \<noteq> e_id x" .
    then show ?thesis using snoc by (auto simp: step split: option.split)
  qed
qed simp

lemma resolve_consistent: "resolve events = Ok es \<Longrightarrow> consistent (relations_of events)"
  using resolve_supersession_Ok by (auto simp: resolve_Ok_iff)

lemma resolve_targets_held:
  assumes "resolve events = Ok es" "c \<in> set events" "target_of (e_relation c) = Some t"
  shows "t \<in> e_id ` set events"
proof -
  have "targets_held False None (set (map fst (relations_of events))) (relations_of events)"
    using resolve_consistent [OF assms(1)] by (simp add: consistent_def)
  moreover have "(e_id c, e_relation c) \<in> set (relations_of events)" using assms(2) by (force simp: relations_of_def)
  ultimately show ?thesis using assms(3) by (fastforce simp: targets_held_def relations_of_def)
qed

text \<open>
  A received amount that is reclassified as a transfer becomes a fact of the sending account, with the texts
  of the original and the receiving account as its counterparty. It cannot be
  reclassified as a transfer to the account it is filed on.
\<close>

lemma received_transfer_replacement:
  assumes "reclassification_for A X I B fresh t owner e (ClsInternalTransfer to) None index = Ok e'"
    and "event_subject A e = Some s" "sb_movement s = Some In"
  obtains v c where "e_account e' = to" "e_id e' = fresh" "e_relation e' = Replacement (e_id e)" "to \<noteq> e_account e"
    "0 < v" "i64 v" "e_kind e' = CashTransfer t to (e_account e) (money_new v c)"
    "e_legs e' = [leg_cash to (money_new (- v) c), leg_cash (e_account e) (money_new v c)]"
    "event_subject A e' = Some (s\<lparr>sb_account := to, sb_counterparty := Named (ad_uuid_text A (account_uuid (e_account e))),
       sb_movement := Some Out, sb_far_side := FarUnstated\<rparr>)"
proof -
  from assms(1) obtain observed resolved e0 where o: "observed_for A e index = Ok observed"
    and r: "resolve_row I observed (ClsInternalTransfer to) (row_movement observed) = Ok resolved"
    and n: "normalize X I B fresh t (resolved\<lparr>so_idempotency_key := Some (''correction/reclassification/'' @ ad_uuid_text A (event_uuid (e_id e)))\<rparr>)
      \<lparr>nc_owner = owner, nc_source = ad_declared A owner (so_account resolved) correction_channel,
       nc_parser_version = correction_parser_version\<rparr> = Ok e0"
    and e': "e' = e0\<lparr>e_relation := Replacement (e_id e)\<rparr>"
    by (auto simp: reclassification_for_def Let_def map_err_eq_Ok)
  have obs: "or_account observed = e_account e" "row_movement observed = Some In"
    "or_description observed = pv_description (e_provenance e)" "or_source_kind observed = pv_source_kind (e_provenance e)"
    "or_source_category observed = pv_source_category (e_provenance e)" "or_owner_category observed = pv_owner_category (e_provenance e)"
    "or_source_code observed = pv_source_code (e_provenance e)"
    using o assms(2,3) by (auto simp: observed_for_def ok_or_def Let_def row_movement_def split: option.splits)
  define v c where "v = \<bar>or_amount_minor observed\<bar>" and "c = or_currency observed"
  have v: "0 < v" "i64 v" "to \<noteq> e_account e" and k: "resolved = (row_envelope observed to)\<lparr>so_kind := OpTransfer (e_account e) v c\<rparr>"
    using r unfolding obs(2) v_def c_def by (auto simp: resolve_row_def directed_resolve_def obs(1) split: if_splits)
  have "build_event X I B t resolved = Ok (CashTransfer t to (e_account e) (money_new v c),
      [leg_cash to (money_new (- v) c), leg_cash (e_account e) (money_new v c)])"
    using v neg_in_range [of v] by (simp add: k build_event_def row_envelope_def positive_minor_def checked_negate_def money_new_def pm_defs Let_def)
  note built = normalize_kind [OF n, unfolded build_event_key, OF this]
  have "pv_description (e_provenance e0) = pv_description (e_provenance e)" "pv_source_kind (e_provenance e0) = pv_source_kind (e_provenance e)"
    "pv_source_category (e_provenance e0) = pv_source_category (e_provenance e)" "pv_owner_category (e_provenance e0) = pv_owner_category (e_provenance e)"
    "pv_source_code (e_provenance e0) = pv_source_code (e_provenance e)"
    by (subst built(5), simp add: k row_envelope_def submitted_provenance_def obs)+
  then have "event_subject A e' = Some (s\<lparr>sb_account := to, sb_counterparty := Named (ad_uuid_text A (account_uuid (e_account e))),
       sb_movement := Some Out, sb_far_side := FarUnstated\<rparr>)"
    using assms(2) built(1-4) by (auto simp: event_subject_def e' k row_envelope_def split: option.splits)
  then show ?thesis using built v by (intro that [of v c]) (simp_all add: e' k row_envelope_def)
qed

lemma self_transfer_refused:
  assumes "e_kind e = CashTransfer t (e_account e) other (money_new v c)" "0 < v" "i64 v"
    and "e_legs e = [leg_cash (e_account e) (money_new (- v) c), leg_cash other (money_new v c)]"
  shows "reclassification_for A X I B fresh t' owner e (ClsInternalTransfer (e_account e)) declared index =
    Err (AppInvalid (field_of index ''.classified_as.answer'') ''an account different from the one the row is on'' (i_account_text I (e_account e)))"
proof -
  obtain s where s: "event_subject A e = Some s" "sb_movement s = Some Out" using assms(1) by (simp add: event_subject_def)
  moreover have "observed_cash e = Some (money_new (- v) c)"
    by (simp add: observed_cash_def assms(4) List.map_filter_def leg_cash_def leg_cash_effect_def or_else_def)
  ultimately obtain observed where o: "observed_for A e index = Ok observed" "or_account observed = e_account e"
      "row_movement observed = Some Out" "or_amount_minor observed = - v"
    by (simp add: observed_for_def Let_def row_movement_def money_new_def)
  then have "magnitude observed = Ok v" using assms(2,3) by simp
  then have "resolve_row I observed (ClsInternalTransfer (e_account e)) (Some Out) = Err (self_transfer I observed)"
    using o(2) by (simp add: resolve_row_def directed_resolve_def Let_def del: magnitude_Ok)
  then show ?thesis using o by (simp add: reclassification_for_def rejected_at_def self_transfer_def field_of_def)
qed

text \<open>
  (C40) Applying the plan of a recomputation does not leave an empty plan where the rules take a received
  amount for a transfer from another own account by its texts alone. For every journal, every such plan and every
  correction of a received amount in it: the fact that replaces the amount is filed on the other account, the
  plan of the journal with that correction (and any other facts that leave the replacement alone) lists the
  replacement again, as a transfer to the account it is filed on, and that correction is refused as a transfer of an account to itself.
\<close>

theorem applied_plan_may_not_be_empty:
  assumes "recompute_plan (ad_lower A) (ad_uuid_text A) events (journal_subjects A events) rules = Ok plan"
    and "\<forall>r \<in> set rules. reads_texts_only (ru_matcher r)"
    and "c \<in> set plan" "cc_becomes c = ClsInternalTransfer to"
    and "e \<in> set events" "e_id e = cc_target c" "event_subject A e = Some s" "sb_movement s = Some In"
    and "reclassification_candidates_for_plan A X I B fresh fresh_transfer owner e (cc_becomes c) index = Ok cs"
    and "is_ok (resolve (events @ cs @ others))" "\<forall>x \<in> set others. target_of (e_relation x) \<noteq> Some (snd fresh)"
  shows "\<exists>reversal replacement plan'. cs = [reversal, replacement] \<and>
    recompute_plan (ad_lower A) (ad_uuid_text A) (events @ cs @ others) (journal_subjects A (events @ cs @ others)) rules = Ok plan' \<and>
    \<lparr>cc_target = e_id replacement, cc_was = ClsInternalTransfer (e_account e), cc_becomes = ClsInternalTransfer to\<rparr> \<in> set plan' \<and>
    reclassification_for A X I B fresh' fresh_transfer' owner replacement (ClsInternalTransfer to) declared_by index' =
      Err (AppInvalid (field_of index' ''.classified_as.answer'') ''an account different from the one the row is on'' (i_account_text I to))"
proof -
  let ?journal = "events @ cs @ others"
  obtain reversal replacement where cs: "cs = [reversal, replacement]" and rv: "reversal_for_with A I (fst fresh) e None = Ok reversal"
    and rp: "reclassification_for A X I B (snd fresh) fresh_transfer owner e (ClsInternalTransfer to) None index = Ok replacement"
    using assms(4,9) by (auto simp: reclassification_candidates_for_plan_def)
  obtain v cur where new: "e_account replacement = to" "e_id replacement = snd fresh" "e_relation replacement = Replacement (e_id e)" "to \<noteq> e_account e"
    "0 < v" "i64 v" "e_kind replacement = CashTransfer fresh_transfer to (e_account e) (money_new v cur)"
    "e_legs replacement = [leg_cash to (money_new (- v) cur), leg_cash (e_account e) (money_new v cur)]"
    and subject: "event_subject A replacement = Some (s\<lparr>sb_account := to, sb_counterparty := Named (ad_uuid_text A (account_uuid (e_account e))),
       sb_movement := Some Out, sb_far_side := FarUnstated\<rparr>)"
    using received_transfer_replacement [OF rp assms(7,8)] .
  obtain es' where r': "resolve ?journal = Ok es'" using assms(10) by (auto simp: is_ok_iff)
  obtain es where r: "resolve events = Ok es" using recompute_plan_Ok [OF assms(1)] .
  have ids: "distinct (map e_id ?journal)" using resolve_distinct [OF r'] .
  obtain plan' where plan': "recompute_plan (ad_lower A) (ad_uuid_text A) ?journal (journal_subjects A ?journal) rules = Ok plan'"
    using that unfolding recompute_plan_def r' map_ok.simps by blast
  have "decided_as (ad_lower A) s rules (ClsInternalTransfer to)"
  proof -
    obtain e1 s1 where e1: "counts_in events e1" "cc_target c = e_id e1" "bt_get (journal_subjects A events) (e_id e1) = Some s1"
        "decided_as (ad_lower A) s1 rules (cc_becomes c)"
      using recompute_plan_members [OF assms(1)] assms(3) by blast
    with journal_subjects_get [OF resolve_distinct [OF r] assms(5), of A] assms(4,6,7) show ?thesis by simp
  qed
  then have "decided_as (ad_lower A) (s\<lparr>sb_account := to, sb_counterparty := Named (ad_uuid_text A (account_uuid (e_account e))),
       sb_movement := Some Out, sb_far_side := FarUnstated\<rparr>) rules (ClsInternalTransfer to)"
    using event_subject_not_own [OF assms(7)] by (intro reads_texts_only_decided [OF assms(2)]) simp_all
  moreover have "bt_get (journal_subjects A ?journal) (e_id replacement) = event_subject A replacement"
    by (rule journal_subjects_get [OF ids]) (simp add: cs)
  moreover have "counts_in ?journal replacement"
  proof -
    have "snd fresh \<notin> e_id ` set events" "e_id e \<noteq> snd fresh" using ids assms(5) by (auto simp: cs new(2) image_iff)
    then have "target_of (e_relation x) \<noteq> Some (snd fresh)" if "x \<in> set ?journal" for x
      using that resolve_targets_held [OF r, of x] assms(11) rv new(3) by (auto simp: cs reversal_for_with_def Let_def)
    then show ?thesis by (fastforce simp: counts_in_def cs new(2,3))
  qed
  ultimately have "\<lparr>cc_target = e_id replacement, cc_was = ClsInternalTransfer (e_account e), cc_becomes = ClsInternalTransfer to\<rparr> \<in> set plan'"
    using subject new(4,7) by (auto simp: recompute_plan_members [OF plan'] classification_of_def)
  moreover have "reclassification_for A X I B fresh' fresh_transfer' owner replacement (ClsInternalTransfer to) declared_by index' =
      Err (AppInvalid (field_of index' ''.classified_as.answer'') ''an account different from the one the row is on'' (i_account_text I to))"
    using self_transfer_refused [of replacement fresh_transfer "e_account e" v cur] new by simp
  ultimately show ?thesis using cs plan' by blast
qed

text \<open>A deposit whose purpose names the owner's other account.\<close>

definition own_deposit :: event where
  "own_deposit = (sample_event 1 NoRelation)\<lparr>e_provenance := (provenance_new (SourceId 1) [] [])\<lparr>pv_description := Some ''salary''\<rparr>\<rparr>"

abbreviation transfer_rule :: classification_rule where
  "transfer_rule \<equiv> description_rule 1 ''sal'' (ClsInternalTransfer (AccountId 2))"

abbreviation sample_recomputation :: "event list \<Rightarrow> (class_correction list, correction_error) result" where
  "sample_recomputation events \<equiv>
     recompute_plan (ad_lower sample_app) (ad_uuid_text sample_app) events (journal_subjects sample_app events) [transfer_rule]"

definition own_candidates :: "(event list, app_error) result" where
  "own_candidates = reclassification_candidates_for_plan sample_app ref_deps sample_ingest checked_build (EventId 2, EventId 3)
     (TransferId 1) (OwnerId 1) own_deposit (ClsInternalTransfer (AccountId 2)) 0"

definition own_replacement :: "(event, app_error) result" where
  "own_replacement = reclassification_for sample_app ref_deps sample_ingest checked_build (EventId 3) (TransferId 1) (OwnerId 1)
     own_deposit (ClsInternalTransfer (AccountId 2)) None 0"

text \<open>The two facts, written out.\<close>

definition sample_hash :: raw_hash where
  "sample_hash = concat (replicate 32 ''07'')"

definition own_reversal :: event where
  "own_reversal = own_deposit\<lparr>e_id := EventId 2, e_order := order_new 1 0,
     e_provenance := provenance_new (SourceId 9) sample_hash correction_parser_version,
     e_relation := Reversal (EventId 1), e_idempotency_key := Some (''correction/reversal/x'')\<rparr>"

definition own_transfer :: event where
  "own_transfer = own_deposit\<lparr>e_id := EventId 3, e_account := AccountId 2,
     e_kind := CashTransfer (TransferId 1) (AccountId 2) (AccountId 1) (money_new 100 Rub),
     e_legs := [leg_cash (AccountId 2) (money_new (- 100) Rub), leg_cash (AccountId 1) (money_new 100 Rub)],
     e_provenance := (provenance_new (SourceId 9) sample_hash correction_parser_version)\<lparr>pv_description := Some ''salary''\<rparr>,
     e_relation := Replacement (EventId 1), e_idempotency_key := Some (''correction/reclassification/x'')\<rparr>"

lemma sample_hash_of: "raw_hash_parse (concat (replicate 32 (hex_byte 7))) = Some sample_hash"
  by code_simp

lemma own_reversal_eq: "reversal_for_with sample_app sample_ingest (EventId 2) own_deposit None = Ok own_reversal"
  by (simp add: reversal_for_with_def hash_of_def sample_hash_of sample_ingest_def expect_def Let_def sample_app_def own_reversal_def
      own_deposit_def sample_event_def order_new_def provenance_new_def)

lemma own_replacement_eq: "own_replacement = Ok own_transfer"
  by code_simp

lemma own_candidates_eq: "own_candidates = Ok [own_reversal, own_transfer]"
  using own_replacement_eq
  by (simp add: own_candidates_def reclassification_candidates_for_plan_def own_reversal_eq own_replacement_def)

lemmas resolve_eval_sample = resolve_def resolve_with_supersession_def resolution_from_events_def relations_of_def
  resolve_supersession_def resolve_supersession_inner_def insert_id_def apply_relation_def supersession_stands_def bt_get_def

lemmas sample_facts = own_deposit_def own_reversal_def own_transfer_def sample_event_def

lemma own_resolved:
  "resolve [own_deposit] = Ok [own_deposit]" "resolve [own_deposit, own_reversal, own_transfer] = Ok [own_transfer]"
  by (simp_all add: resolve_eval_sample sample_facts)

lemmas plan_eval = recompute_step_def classification_of_def classify_subject_def chosen_rule_def
  description_rule_def rule_matches_def asks_nothing_def sample_app_def journal_subjects_def event_subject_def List.map_filter_def
  named_counterparty_def provenance_new_def bt_get_def less_event_id_def sample_facts

lemma own_plan:
  "sample_recomputation [own_deposit] =
     Ok [\<lparr>cc_target = EventId 1, cc_was = ClsExternalFlow, cc_becomes = ClsInternalTransfer (AccountId 2)\<rparr>]"
  unfolding recompute_plan_def own_resolved by (simp add: plan_eval)

theorem applied_plan_may_not_be_empty_witness:
  "\<exists>plan'. sample_recomputation [own_deposit, own_reversal, own_transfer] = Ok plan' \<and>
     \<lparr>cc_target = EventId 3, cc_was = ClsInternalTransfer (AccountId 1), cc_becomes = ClsInternalTransfer (AccountId 2)\<rparr> \<in> set plan' \<and>
     reclassification_for sample_app ref_deps sample_ingest checked_build (EventId 5) (TransferId 2) (OwnerId 1) own_transfer
       (ClsInternalTransfer (AccountId 2)) None 0 =
     Err (AppInvalid (field_of 0 ''.classified_as.answer'') ''an account different from the one the row is on'' (i_account_text sample_ingest (AccountId 2)))"
proof -
  let ?c = "\<lparr>cc_target = EventId 1, cc_was = ClsExternalFlow, cc_becomes = ClsInternalTransfer (AccountId 2)\<rparr>"
  have "\<forall>r \<in> set [transfer_rule]. reads_texts_only (ru_matcher r)" by (simp add: reads_texts_only_def description_rule_def)
  moreover have "?c \<in> set [?c]" "cc_becomes ?c = ClsInternalTransfer (AccountId 2)" "own_deposit \<in> set [own_deposit]" "e_id own_deposit = cc_target ?c"
    by (simp_all add: sample_facts)
  moreover obtain s where "event_subject sample_app own_deposit = Some s" "sb_movement s = Some In"
    by (simp add: event_subject_def sample_facts)
  moreover have "reclassification_candidates_for_plan sample_app ref_deps sample_ingest checked_build (EventId 2, EventId 3)
     (TransferId 1) (OwnerId 1) own_deposit (cc_becomes ?c) 0 = Ok [own_reversal, own_transfer]"
    using own_candidates_eq by (simp add: own_candidates_def)
  moreover have "is_ok (resolve ([own_deposit] @ [own_reversal, own_transfer] @ []))" by (simp add: own_resolved)
  moreover have "\<forall>x \<in> set []. target_of (e_relation x) \<noteq> Some (snd (EventId 2, EventId 3))" by simp
  ultimately have "\<exists>reversal replacement plan'. [own_reversal, own_transfer] = [reversal, replacement] \<and>
    sample_recomputation ([own_deposit] @ [own_reversal, own_transfer] @ []) = Ok plan' \<and>
    \<lparr>cc_target = e_id replacement, cc_was = ClsInternalTransfer (e_account own_deposit), cc_becomes = ClsInternalTransfer (AccountId 2)\<rparr> \<in> set plan' \<and>
    reclassification_for sample_app ref_deps sample_ingest checked_build (EventId 5) (TransferId 2) (OwnerId 1) replacement
       (ClsInternalTransfer (AccountId 2)) None 0 =
      Err (AppInvalid (field_of 0 ''.classified_as.answer'') ''an account different from the one the row is on'' (i_account_text sample_ingest (AccountId 2)))"
    by (rule applied_plan_may_not_be_empty [OF own_plan])
  moreover have "e_id own_transfer = EventId 3" "e_account own_deposit = AccountId 1" by (simp_all add: sample_facts)
  ultimately show ?thesis by auto
qed

end
