(* ===== verification/Retraction.thy ===== *)
theory Retraction
  imports Reclassify
begin

text \<open>
  Corrections as the application carries them out, \<open>iaam-app/src/scenarios/correction.rs\<close> and the
  recomputation of \<open>scenarios/classification.rs\<close>: the preview of what a correction changes, the
  checks before anything is written, the correction of single events and of a whole import.
  The store is an argument: \<open>journal\<close> is the answer of \<open>load_events_through\<close>, and \<open>append_events\<close> is
  the store operation of that name. The lemmas show that the figures a preview announces are those of the
  corrected journal, and what a token that may not administer can retract.
\<close>

section \<open>Principals\<close>

datatype scope = ScopeOwner | ScopeAgent | ScopeReadOnly

fun may_submit :: "scope \<Rightarrow> bool" where
  "may_submit ScopeOwner = True"
| "may_submit ScopeAgent = True"
| "may_submit ScopeReadOnly = False"

fun may_administer :: "scope \<Rightarrow> bool" where
  "may_administer ScopeOwner = True"
| "may_administer ScopeAgent = False"
| "may_administer ScopeReadOnly = False"

fun scope_code :: "scope \<Rightarrow> string" where
  "scope_code ScopeOwner = ''owner''"
| "scope_code ScopeAgent = ''agent''"
| "scope_code ScopeReadOnly = ''read_only''"

fun scope_admits :: "scope \<Rightarrow> scope \<Rightarrow> bool" where
  "scope_admits s ScopeOwner = may_administer s"
| "scope_admits s ScopeAgent = may_submit s"
| "scope_admits s ScopeReadOnly = True"

record principal_record =
  pn_token_id :: uuid
  pn_owner :: owner_id
  pn_scope :: scope

datatype recorded = Inserted event_id | Duplicate event_id

section \<open>Requests\<close>

datatype correction_request =
    RequestReversal event_id
  | RequestReplacement event_id submitted_operation
  | RequestReclassification event_id classification

fun request_target :: "correction_request \<Rightarrow> event_id" where
  "request_target (RequestReversal t) = t"
| "request_target (RequestReplacement t _) = t"
| "request_target (RequestReclassification t _) = t"

datatype import_target = NamedImport source_id import_id | UnnamedImport source_id

fun target_source :: "import_target \<Rightarrow> source_id" where
  "target_source (NamedImport s _) = s"
| "target_source (UnnamedImport s) = s"

fun target_import :: "import_target \<Rightarrow> import_id option" where
  "target_import (NamedImport _ i) = Some i"
| "target_import (UnnamedImport _) = None"

fun target_covers :: "import_target \<Rightarrow> event \<Rightarrow> bool" where
  "target_covers (NamedImport _ i) e = (pv_import (e_provenance e) = Some i)"
| "target_covers (UnnamedImport s) e = (pv_import (e_provenance e) = None \<and> pv_source (e_provenance e) = s)"

record standing_rule =
  sr_rule :: classification_rule_id
  sr_version :: nat
  sr_still_filed :: nat

datatype verdict = Provisional event_id | VerdictDuplicate event_id

record correction_outcome =
  co_verdict :: verdict
  co_standing_rule :: "standing_rule option"

record import_figure =
  if_currency :: currency_code
  if_before :: money
  if_after :: money

record import_account =
  ia_account :: account_id
  ia_facts :: nat
  ia_figures :: "import_figure list"

record import_preview =
  ip_from :: "date option"
  ip_to :: "date option"
  ip_accounts :: "import_account list"

record import_outcome =
  io_source :: source_id
  io_import :: "import_id option"
  io_affected :: nat
  io_already_reversed :: nat
  io_written :: nat
  io_preview :: import_preview
  io_dry_run :: bool

section \<open>The preview\<close>

text \<open>\<open>BTreeSet\<close> values are iterated in order and hold every element once.\<close>

definition touched :: "event \<Rightarrow> account_id list" where
  "touched e = sort (remdups (e_account e # map l_account (e_legs e)))"

definition figure_keys :: "event list \<Rightarrow> (account_id \<times> currency_code) list" where
  "figure_keys facts = sort (remdups (map fst (leg_postings (journal_legs facts))))"

definition count_facts :: "event list \<Rightarrow> (account_id, nat) btree" where
  "count_facts facts = foldl (\<lambda>m a. bt_upsert a 0 (\<lambda>n. n + 1) m) [] (concat (map touched facts))"

definition fold_balances :: "deps \<Rightarrow> uuid \<Rightarrow> event list \<Rightarrow> (balances, app_error) result" where
  "fold_balances X correlation events =
     map_err (\<lambda>e. from_projection correlation (ProjBalance e)) (try_fold (balances_apply X) balances_new events)"

definition cash_or_zero :: "balances \<Rightarrow> account_id \<Rightarrow> currency_code \<Rightarrow> money" where
  "cash_or_zero b a c = (case balances_cash b a c of None \<Rightarrow> money_new 0 c | Some m \<Rightarrow> m)"

definition after_events :: "event list \<Rightarrow> event list \<Rightarrow> event list \<Rightarrow> event list" where
  "after_events effective targets additions =
     filter (\<lambda>e. e_id e \<notin> e_id ` set targets) effective @ filter (\<lambda>e. \<not> is_reversal (e_relation e)) additions"

definition figures_by_account :: "balances \<Rightarrow> balances \<Rightarrow> (account_id \<times> currency_code) list \<Rightarrow> (account_id, import_figure list) btree" where
  "figures_by_account before after keys = foldl (\<lambda>m (a, c).
     bt_upsert a [] (\<lambda>figures. figures @ [\<lparr>if_currency = c, if_before = cash_or_zero before a c, if_after = cash_or_zero after a c\<rparr>]) m) [] keys"

definition preview_with :: "deps \<Rightarrow> uuid \<Rightarrow> event list \<Rightarrow> event list \<Rightarrow> event list \<Rightarrow> event list \<Rightarrow> (import_preview, app_error) result" where
  "preview_with X correlation effective targets facts additions =
     (let from = foldl (\<lambda>d e. Some (case d of None \<Rightarrow> eo_date (e_order e) | Some v \<Rightarrow> min v (eo_date (e_order e)))) None targets;
          to = foldl (\<lambda>d e. Some (case d of None \<Rightarrow> eo_date (e_order e) | Some v \<Rightarrow> max v (eo_date (e_order e)))) None targets in
      and_then (fold_balances X correlation effective) (\<lambda>before.
      and_then (fold_balances X correlation (after_events effective targets additions)) (\<lambda>after.
      let figures = figures_by_account before after (figure_keys facts) in
      Ok \<lparr>ip_from = from, ip_to = to,
          ip_accounts = map (\<lambda>(a, n). \<lparr>ia_account = a, ia_facts = n,
             ia_figures = (case bt_get figures a of None \<Rightarrow> [] | Some v \<Rightarrow> v)\<rparr>) (count_facts facts)\<rparr>)))"

definition preview_for :: "deps \<Rightarrow> uuid \<Rightarrow> event list \<Rightarrow> event list \<Rightarrow> (import_preview, app_error) result" where
  "preview_for X correlation effective targets = preview_with X correlation effective targets targets []"

definition preview_for_reclassification_batch :: "deps \<Rightarrow> uuid \<Rightarrow> event list \<Rightarrow> event list \<Rightarrow> event list \<Rightarrow> (import_preview, app_error) result" where
  "preview_for_reclassification_batch X correlation effective targets candidates =
     preview_with X correlation effective targets candidates candidates"

section \<open>Checks before a write\<close>

definition may_correct :: "principal_record \<Rightarrow> (unit, app_error) result" where
  "may_correct p = (if may_submit (pn_scope p) then Ok ()
     else Err (AppInvalid ''scope'' ''permission to submit corrections'' (scope_code (pn_scope p))))"

definition may_retract_an_import :: "principal_record \<Rightarrow> (unit, app_error) result" where
  "may_retract_an_import p = (if may_submit (pn_scope p) then Ok ()
     else Err (AppInvalid ''scope'' ''permission to submit operations'' (scope_code (pn_scope p))))"

definition acknowledged :: "bool \<Rightarrow> (unit, app_error) result" where
  "acknowledged b = (if b then Ok ()
     else Err (AppInvalid ''acknowledge_retraction''
       ''true: a retracted fact stops counting in every report, and re-submitting the same rows does not bring it back'' ''false''))"

definition unknown_target :: "app_deps \<Rightarrow> nat \<Rightarrow> event_id \<Rightarrow> app_error" where
  "unknown_target A index target =
     AppInvalid (field_of index ''.target'') ''an identifier of an event in this owner's journal'' (ad_uuid_text A (event_uuid target))"

definition by_id :: "event list \<Rightarrow> (event_id, event) btree" where
  "by_id events = foldl (\<lambda>m e. bt_insert (e_id e) e m) [] events"

definition candidate_for :: "app_deps \<Rightarrow> deps \<Rightarrow> ingest_deps \<Rightarrow> build_profile \<Rightarrow> event_id \<times> event_id \<Rightarrow> transfer_id \<Rightarrow> principal_record
    \<Rightarrow> (event_id, event) btree \<Rightarrow> nat \<Rightarrow> correction_request \<Rightarrow> (event list, app_error) result" where
  "candidate_for A X I B fresh fresh_transfer p events index request =
     and_then (ok_or (bt_get events (request_target request)) (unknown_target A index (request_target request))) (\<lambda>original.
     case request of
       RequestReversal target \<Rightarrow>
         if is_reversal (e_relation original)
         then Err (AppInvalid (field_of index ''.target'')
           ''an event carrying a fact: a reversal is never part of the effective set, so reversing one changes nothing''
           (ad_uuid_text A (event_uuid target)))
         else and_then (reversal_for A I (fst fresh) original (PrincipalId (pn_token_id p))) (\<lambda>e. Ok [e])
     | RequestReplacement target operation \<Rightarrow>
         and_then (replacement_for A X I B (fst fresh) fresh_transfer (pn_owner p) (PrincipalId (pn_token_id p)) target operation index) (\<lambda>e. Ok [e])
     | RequestReclassification target cls \<Rightarrow>
         if is_reversal (e_relation original)
         then Err (AppInvalid (field_of index ''.target'')
           ''an event carrying a fact: a reversal is never part of the effective set, so it cannot be reclassified''
           (ad_uuid_text A (event_uuid target)))
         else
           and_then (reversal_for A I (fst fresh) original (PrincipalId (pn_token_id p))) (\<lambda>reversal.
           and_then (reclassification_for A X I B (snd fresh) fresh_transfer (pn_owner p) original cls (Some (PrincipalId (pn_token_id p))) index) (\<lambda>e.
           Ok [reversal, e])))"

fun find_index :: "('a \<Rightarrow> bool) \<Rightarrow> 'a list \<Rightarrow> nat option" where
  "find_index p [] = None"
| "find_index p (x # xs) = (if p x then Some 0 else map_option Suc (find_index p xs))"

definition correction_refusal :: "app_deps \<Rightarrow> correction_error \<Rightarrow> event_id list \<Rightarrow> app_error" where
  "correction_refusal A error candidates =
     (let (blamed, expected) = (case error of
          DanglingTarget correction target \<Rightarrow> (Some (correction, target), ''an identifier of an event already in this owner's journal'')
        | ConflictingReplacements target first second \<Rightarrow>
            (map_option (\<lambda>c. (c, target)) (List.find (\<lambda>i. i \<in> set candidates) [first, second]),
             ''an event no other replacement already supersedes'')
        | DuplicateEvent _ \<Rightarrow> (None, [])) in
      case blamed of
        None \<Rightarrow> AppCorrection error
      | Some (correction, target) \<Rightarrow>
          (case find_index (\<lambda>i. i = correction) candidates of
             None \<Rightarrow> AppCorrection error
           | Some index \<Rightarrow> AppInvalid (field_of index ''.target'') expected (ad_uuid_text A (event_uuid target))))"

definition removal_disposition :: "event list \<Rightarrow> event_id \<Rightarrow> string option" where
  "removal_disposition journal i =
     (case (list_ex (\<lambda>c. e_relation c = Reversal i) journal, list_ex (\<lambda>c. e_relation c = Replacement i) journal) of
        (True, True) \<Rightarrow> Some ''withdrawn and superseded''
      | (True, False) \<Rightarrow> Some ''withdrawn''
      | (False, True) \<Rightarrow> Some ''superseded''
      | (False, False) \<Rightarrow> None)"

text \<open>\<open>collect\<close> into a map keeps the last event of a key.\<close>

definition occupied_key :: "event list \<Rightarrow> string \<Rightarrow> event option" where
  "occupied_key journal key = List.find (\<lambda>e. e_idempotency_key e = Some key) (rev journal)"

definition refuse_occupied_key :: "app_deps \<Rightarrow> event list \<Rightarrow> event \<Rightarrow> (unit, app_error) result" where
  "refuse_occupied_key A journal candidate =
     (case e_idempotency_key candidate of
        None \<Rightarrow> Ok ()
      | Some key \<Rightarrow> (case occupied_key journal key of
          None \<Rightarrow> Ok ()
        | Some existing \<Rightarrow> (case removal_disposition journal (e_id existing) of
            Some disposition \<Rightarrow> Err (AppConflict (''correction idempotency key '' @ key @ '' is held by event '' @ ad_event_debug A (e_id existing)
              @ '', which was '' @ disposition @ ''; submit POST /v1/corrections with a new idempotency key and a replacement correction operation (relation: replacement, target: ''
              @ ad_event_debug A (e_id existing) @ '') to record the corrected value''))
          | None \<Rightarrow>
              if e_relation existing \<noteq> e_relation candidate
              then Err (AppConflict (''correction idempotency key '' @ key @ '' is held by event '' @ ad_event_debug A (e_id existing)
                @ '', which is not this correction''))
              else Ok ())))"

definition refuse_occupied_keys :: "app_deps \<Rightarrow> event list \<Rightarrow> event list \<Rightarrow> (unit, app_error) result" where
  "refuse_occupied_keys A journal candidates = try_fold (\<lambda>_ c. refuse_occupied_key A journal c) () candidates"

definition checked_against_resolve :: "app_deps \<Rightarrow> event list \<Rightarrow> event list \<Rightarrow> (event list, app_error) result" where
  "checked_against_resolve A journal candidates =
     and_then (map_err (\<lambda>e. correction_refusal A e (map e_id candidates)) (resolve (journal @ candidates))) (\<lambda>_.
     and_then (refuse_occupied_keys A journal candidates) (\<lambda>_. Ok candidates))"

definition structural_rejection :: "app_deps \<Rightarrow> deps \<Rightarrow> event \<Rightarrow> string \<Rightarrow> (rejection option, app_error) result" where
  "structural_rejection A X e field = (case validate_structure X e of
     Ok _ \<Rightarrow> Ok None
   | Err error \<Rightarrow> Ok (Some \<lparr>rj_field = field, rj_expected = ''event shape matching its type'', rj_actual = ad_validation_text A error\<rparr>)
   | Panic \<Rightarrow> Panic)"

definition append_checked :: "app_deps \<Rightarrow> deps \<Rightarrow> (event list \<Rightarrow> (recorded list, app_error) result) \<Rightarrow> event list \<Rightarrow> (recorded list, app_error) result" where
  "append_checked A X append_events events =
     and_then (try_fold (\<lambda>_ (index, e).
       and_then (structural_rejection A X e ''event'') (\<lambda>rejection.
       case rejection of None \<Rightarrow> Ok ()
       | Some r \<Rightarrow> Err (AppInvalid (''event['' @ string_of_int (int index) @ '']'') (rj_expected r) (rj_actual r)))) () (enumerate 0 events)) (\<lambda>_.
     append_events events)"

section \<open>Correcting events\<close>

definition standing_rule_for :: "event \<Rightarrow> event list \<Rightarrow> event_id set \<Rightarrow> standing_rule option" where
  "standing_rule_for target effective corrected =
     (case settling_rule (e_provenance target) of
        None \<Rightarrow> None
      | Some (rule, version) \<Rightarrow> Some \<lparr>sr_rule = rule, sr_version = version,
          sr_still_filed = length (filter (\<lambda>e. case settling_rule (e_provenance e) of None \<Rightarrow> False | Some (r, _) \<Rightarrow> r = rule)
            (filter (\<lambda>e. e_id e \<notin> corrected) effective))\<rparr>)"

definition standing_rules :: "event list \<Rightarrow> correction_request list \<Rightarrow> (standing_rule option list, app_error) result" where
  "standing_rules journal requests =
     (let targets = map (\<lambda>r. bt_get (by_id journal) (request_target r)) requests in
      if \<not> list_ex (\<lambda>t. case t of None \<Rightarrow> False | Some e \<Rightarrow> settling_rule (e_provenance e) \<noteq> None) targets
      then Ok (replicate (length requests) None)
      else
        and_then (map_err AppCorrection (resolve journal)) (\<lambda>effective.
        Ok (map (\<lambda>t. case t of None \<Rightarrow> None
          | Some e \<Rightarrow> standing_rule_for e effective (request_target ` set requests)) targets)))"

text \<open>Each request takes the outcome of the last fact it wrote.\<close>

fun correction_outcomes :: "standing_rule option list \<Rightarrow> event list list \<Rightarrow> recorded list \<Rightarrow> (correction_outcome list, app_error) result" where
  "correction_outcomes (s # ss) (c # cs) outcomes =
     (if length c > length outcomes \<or> c = [] then Panic
      else
        and_then (correction_outcomes ss cs (drop (length c) outcomes)) (\<lambda>rest.
        Ok (\<lparr>co_verdict = (case outcomes ! (length c - 1) of Inserted i \<Rightarrow> Provisional i | Duplicate i \<Rightarrow> VerdictDuplicate i),
             co_standing_rule = s\<rparr> # rest)))"
| "correction_outcomes _ _ _ = Ok []"

definition correct_events :: "app_deps \<Rightarrow> deps \<Rightarrow> ingest_deps \<Rightarrow> build_profile \<Rightarrow> (nat \<Rightarrow> event_id \<times> event_id) \<Rightarrow> (nat \<Rightarrow> transfer_id)
    \<Rightarrow> (event list, app_error) result \<Rightarrow> (event list \<Rightarrow> (recorded list, app_error) result)
    \<Rightarrow> principal_record \<Rightarrow> bool \<Rightarrow> correction_request list \<Rightarrow> (correction_outcome list, app_error) result" where
  "correct_events A X I B fresh fresh_transfer journal append_events p acknowledge requests =
     and_then (may_correct p) (\<lambda>_.
     and_then (acknowledged acknowledge) (\<lambda>_.
     and_then (ensure (requests \<noteq> []) (AppInvalid ''corrections'' ''at least one correction'' ''an empty list'')) (\<lambda>_.
     and_then journal (\<lambda>events.
     and_then (try_map (\<lambda>(index, request). candidate_for A X I B (fresh index) (fresh_transfer index) p (by_id events) index request)
        (enumerate 0 requests)) (\<lambda>sets.
     and_then (standing_rules events requests) (\<lambda>standing.
     and_then (checked_against_resolve A events (concat sets)) (\<lambda>candidates.
     and_then (append_checked A X append_events candidates) (\<lambda>outcomes.
     correction_outcomes standing sets outcomes))))))))"

section \<open>Retracting an import\<close>

definition undoes_only_its_own_declaration :: "app_deps \<Rightarrow> principal_record \<Rightarrow> import_target \<Rightarrow> event list \<Rightarrow> event list \<Rightarrow> event list \<Rightarrow> (unit, app_error) result" where
  "undoes_only_its_own_declaration A p target journal effective effective_covered =
     and_then (ok_or (target_import target) (AppInvalid ''source.label''
        ''the label this import was declared under: without one, the request reaches every row of the account and channel that named no import, which is nobody's declaration to take back'' ''absent'')) (\<lambda>i.
     let declared_by = PrincipalId (pn_token_id p);
         covered = filter (target_covers target) journal;
         foreign = length (filter (\<lambda>e. pv_declared_by (e_provenance e) \<noteq> Some declared_by) covered) in
     if foreign > 0
     then Err (AppInvalid ''source'' ''an import every row of which this token declared''
       (''import '' @ ad_import_text A i @ '' holds '' @ string_of_int (int foreign) @ '' of '' @ string_of_int (int (length covered))
        @ '' rows submitted under another credential, or under none recorded''))
     else if length covered \<noteq> length effective_covered
     then Err (AppInvalid ''source'' ''an import none of whose rows has been reversed or replaced''
       (string_of_int (int (length covered) - int (length effective_covered)) @ '' of '' @ string_of_int (int (length covered)) @ '' rows are no longer effective''))
     else
       let covered_ids = e_id ` set covered; accounts = (\<Union>e \<in> set covered. set (touched e)); dates = map (\<lambda>e. eo_date (e_order e)) covered in
       try_fold (\<lambda>_ e. case e_kind e of
           ControlAssertion period _ \<Rightarrow>
             if e_id e \<in> covered_ids \<or> e_account e \<notin> accounts then Ok ()
             else if list_ex (period_contains period) dates
             then Err (AppInvalid ''source'' ''an import nothing has been reconciled against''
               (''control assertion '' @ ad_uuid_text A (event_uuid (e_id e)) @ '' covers '' @ ad_date_text A (ap_from period) @ ''..=''
                @ ad_date_text A (ap_to period) @ '' on an account these rows moved''))
             else Ok ()
         | _ \<Rightarrow> Ok ()) () effective)"

definition already_reversed :: "import_target \<Rightarrow> event list \<Rightarrow> nat" where
  "already_reversed target journal = length (filter (\<lambda>i. case bt_get (by_id journal) i of None \<Rightarrow> False | Some e \<Rightarrow> target_covers target e)
     (remdups (List.map_filter (\<lambda>e. case e_relation e of Reversal t \<Rightarrow> Some t | _ \<Rightarrow> None) journal)))"

definition correct_import :: "app_deps \<Rightarrow> deps \<Rightarrow> ingest_deps \<Rightarrow> uuid \<Rightarrow> (nat \<Rightarrow> event_id)
    \<Rightarrow> (event list, app_error) result \<Rightarrow> (event list \<Rightarrow> (recorded list, app_error) result)
    \<Rightarrow> principal_record \<Rightarrow> bool \<Rightarrow> bool \<Rightarrow> import_target \<Rightarrow> (import_outcome, app_error) result" where
  "correct_import A X I correlation fresh journal append_events p acknowledge dry_run target =
     and_then (may_retract_an_import p) (\<lambda>_.
     and_then (if dry_run then Ok () else acknowledged acknowledge) (\<lambda>_.
     and_then journal (\<lambda>events.
     and_then (map_err AppCorrection (resolve events)) (\<lambda>effective.
     let targets = filter (target_covers target) effective; reversed = already_reversed target events in
     and_then (if may_administer (pn_scope p) then Ok ()
               else undoes_only_its_own_declaration A p target events effective targets) (\<lambda>_.
     and_then (preview_for X correlation effective targets) (\<lambda>preview.
     if dry_run \<or> targets = []
     then Ok \<lparr>io_source = target_source target, io_import = target_import target, io_affected = length targets,
              io_already_reversed = reversed, io_written = 0, io_preview = preview, io_dry_run = dry_run\<rparr>
     else
       and_then (try_map (\<lambda>(n, t). reversal_for A I (fresh n) t (PrincipalId (pn_token_id p))) (enumerate 0 targets)) (\<lambda>reversals.
       and_then (checked_against_resolve A events reversals) (\<lambda>candidates.
       and_then (append_checked A X append_events candidates) (\<lambda>outcomes.
       let written = length (filter (\<lambda>r. case r of Inserted _ \<Rightarrow> True | Duplicate _ \<Rightarrow> False) outcomes) in
       Ok \<lparr>io_source = target_source target, io_import = target_import target, io_affected = length targets,
           io_already_reversed = reversed + (length outcomes - written), io_written = written, io_preview = preview,
           io_dry_run = dry_run\<rparr>)))))))))"

section \<open>Recomputing the history\<close>

record planned_refusal_record =
  pf_field :: string
  pf_expected :: string
  pf_actual :: string

record planned_correction =
  pc_event :: event_id
  pc_was :: classified
  pc_becomes :: classified
  pc_refusal :: "planned_refusal_record option"

definition planned :: "class_correction \<Rightarrow> planned_refusal_record option \<Rightarrow> planned_correction" where
  "planned c refusal = \<lparr>pc_event = cc_target c, pc_was = classified_as (cc_was c), pc_becomes = classified_as (cc_becomes c), pc_refusal = refusal\<rparr>"

definition planned_refusal :: "(app_error \<Rightarrow> string) \<Rightarrow> app_error \<Rightarrow> nat \<Rightarrow> planned_refusal_record" where
  "planned_refusal app_text error index = (case error of
     AppInvalid f e a \<Rightarrow> \<lparr>pf_field = f, pf_expected = e, pf_actual = a\<rparr>
   | AppInvalidField r \<Rightarrow> \<lparr>pf_field = fr_field r, pf_expected = fr_expected r, pf_actual = fr_actual r\<rparr>
   | other \<Rightarrow> \<lparr>pf_field = field_of index ''.correction'', pf_expected = ''a correction the server can construct'', pf_actual = app_text other\<rparr>)"

record recompute_plan_record =
  rp_corrections :: "planned_correction list"
  rp_preview :: import_preview

definition plan_correction :: "app_deps \<Rightarrow> deps \<Rightarrow> ingest_deps \<Rightarrow> build_profile \<Rightarrow> (app_error \<Rightarrow> string) \<Rightarrow> (nat \<Rightarrow> event_id \<times> event_id) \<Rightarrow> (nat \<Rightarrow> transfer_id)
    \<Rightarrow> owner_id \<Rightarrow> (event_id, event) btree \<Rightarrow> event list \<times> event list \<times> planned_correction list \<Rightarrow> nat \<times> class_correction
    \<Rightarrow> (event list \<times> event list \<times> planned_correction list, app_error) result" where
  "plan_correction A X I B app_text fresh fresh_transfer owner events = (\<lambda>(targets, candidates, plan) (index, c).
     case bt_get events (cc_target c) of
       None \<Rightarrow> Ok (targets, candidates, plan @ [planned c (Some
         \<lparr>pf_field = field_of index ''.target'', pf_expected = ''an identifier of an event in this owner's journal'',
          pf_actual = ad_uuid_text A (event_uuid (cc_target c))\<rparr>)])
     | Some target \<Rightarrow>
         (case reclassification_candidates_for_plan A X I B (fresh index) (fresh_transfer index) owner target (cc_becomes c) index of
            Ok row \<Rightarrow> Ok (targets @ [target], candidates @ row, plan @ [planned c None])
          | Err error \<Rightarrow> Ok (targets, candidates, plan @ [planned c (Some (planned_refusal app_text error index))])
          | Panic \<Rightarrow> Panic))"

text \<open>A stored rule (\<open>ClassificationRuleView\<close>), retired or not. Its instants are texts.\<close>

record classification_rule_view =
  rv_id :: uuid
  rv_version :: nat
  rv_matcher :: rule_matcher
  rv_outcome :: classification
  rv_created_at :: string
  rv_retired_at :: "string option"
  rv_replaces :: "uuid option"

definition rule_from_view :: "classification_rule_view \<Rightarrow> (classification_rule, app_error) result" where
  "rule_from_view v = Ok \<lparr>ru_id = ClassificationRuleId (rv_id v), ru_version = rv_version v,
     ru_matcher = rv_matcher v, ru_outcome = rv_outcome v\<rparr>"

definition recompute_history :: "app_deps \<Rightarrow> deps \<Rightarrow> ingest_deps \<Rightarrow> build_profile \<Rightarrow> uuid \<Rightarrow> (app_error \<Rightarrow> string) \<Rightarrow> (nat \<Rightarrow> event_id \<times> event_id) \<Rightarrow> (nat \<Rightarrow> transfer_id)
    \<Rightarrow> (event list, app_error) result \<Rightarrow> (classification_rule_view list, app_error) result \<Rightarrow> owner_id \<Rightarrow> (recompute_plan_record, app_error) result" where
  "recompute_history A X I B correlation app_text fresh fresh_transfer journal stored owner =
     and_then journal (\<lambda>events.
     and_then stored (\<lambda>stored.
     and_then (try_map rule_from_view (filter (\<lambda>v. rv_retired_at v = None) stored)) (\<lambda>rules.
     and_then (map_err (\<lambda>e. AppStore (''classification recomputation: '' @ ad_correction_text A e))
       (recompute_plan (ad_lower A) (ad_uuid_text A) events (journal_subjects A events) rules)) (\<lambda>corrections.
     and_then (map_err AppCorrection (resolve events)) (\<lambda>effective.
     and_then (try_fold (plan_correction A X I B app_text fresh fresh_transfer owner (by_id events)) ([], [], []) (enumerate 0 corrections)) (\<lambda>(targets, candidates, plan).
     and_then (preview_for_reclassification_batch X correlation effective targets candidates) (\<lambda>preview.
     Ok \<lparr>rp_corrections = plan, rp_preview = preview\<rparr>)))))))"

text \<open>
  A recomputation announces every correction that is due under the rules that are not retired, in
  the order of the plan, one it cannot construct with its refusal.
\<close>

definition unretired_rules :: "classification_rule_view list \<Rightarrow> classification_rule list" where
  "unretired_rules stored = map (\<lambda>v. \<lparr>ru_id = ClassificationRuleId (rv_id v), ru_version = rv_version v,
     ru_matcher = rv_matcher v, ru_outcome = rv_outcome v\<rparr>) (filter (\<lambda>v. rv_retired_at v = None) stored)"

lemma rules_from_views: "try_map rule_from_view (filter (\<lambda>v. rv_retired_at v = None) stored) = Ok (unretired_rules stored)"
  by (induction stored) (simp_all add: rule_from_view_def unretired_rules_def)

lemma plan_corrections_events:
  assumes "try_fold (plan_correction A X I B app_text fresh fresh_transfer owner events) st ics = Ok (targets, candidates, plan)"
  shows "map pc_event plan = map pc_event (snd (snd st)) @ map (cc_target \<circ> snd) ics"
  using assms
proof (induction ics arbitrary: st)
  case (Cons ic ics)
  then obtain st' where step: "plan_correction A X I B app_text fresh fresh_transfer owner events st ic = Ok st'"
    and rest: "try_fold (plan_correction A X I B app_text fresh fresh_transfer owner events) st' ics = Ok (targets, candidates, plan)"
    by auto
  have "map pc_event (snd (snd st')) = map pc_event (snd (snd st)) @ [cc_target (snd ic)]"
    using step by (auto simp: plan_correction_def planned_def split: prod.splits option.splits result.splits)
  then show ?case using Cons.IH [OF rest] by simp
qed simp

lemma recompute_history_lists_plan:
  assumes "recompute_history A X I B correlation app_text fresh fresh_transfer (Ok events) (Ok stored) owner = Ok announced"
  shows "\<exists>plan. recompute_plan (ad_lower A) (ad_uuid_text A) events (journal_subjects A events) (unretired_rules stored) = Ok plan \<and>
    map pc_event (rp_corrections announced) = map cc_target plan"
proof -
  from assms obtain plan targets candidates corrections
    where "recompute_plan (ad_lower A) (ad_uuid_text A) events (journal_subjects A events) (unretired_rules stored) = Ok plan"
      and "try_fold (plan_correction A X I B app_text fresh fresh_transfer owner (by_id events)) ([], [], []) (enumerate 0 plan) = Ok (targets, candidates, corrections)"
      and "rp_corrections announced = corrections"
    by (auto simp: recompute_history_def rules_from_views map_err_eq_Ok)
  then show ?thesis using plan_corrections_events by (fastforce simp flip: map_map)
qed

section \<open>What the corrected journal holds\<close>

definition names :: "event \<Rightarrow> event \<Rightarrow> bool" where
  "names c t \<longleftrightarrow> e_relation c = Reversal (e_id t) \<or> e_relation c = Replacement (e_id t)"

lemma names_target: "names c t \<Longrightarrow> target_of (e_relation c) = Some (e_id t)"
  by (auto simp: names_def)

lemma names_same: "names c t \<Longrightarrow> names c e \<longleftrightarrow> e_id e = e_id t"
  by (auto simp: names_def)

lemma after_events_distinct:
  assumes r: "resolve journal = Ok effective" and d: "distinct (map e_id (journal @ candidates))"
  shows "distinct (map e_id (after_events effective targets candidates))"
proof -
  have disj: "e_id ` set journal \<inter> e_id ` set candidates = {}" and dc: "distinct (map e_id candidates)" using d by simp_all
  have "e_id ` set (filter P effective) \<subseteq> e_id ` set journal" for P
    by (rule image_mono, rule order_trans [OF filter_is_subset resolve_members [OF r]])
  then have "e_id ` set (filter P effective) \<inter> e_id ` set (filter Q candidates) = {}" for P Q
    using Int_mono [OF _ image_mono [OF filter_is_subset]] disj by (metis subset_empty)
  then show ?thesis unfolding after_events_def map_append distinct_append set_map
    using distinct_map_filter [OF resolve_distinct_ids [OF r]] distinct_map_filter [OF dc] by simp
qed

text \<open>
  Correcting facts appended to a journal leave exactly the effective events they do not name,
  and the facts themselves, less the reversals.
\<close>

lemma after_events_effective:
  assumes r: "resolve journal = Ok effective" and r': "resolve (journal @ candidates) = Ok es"
    and t: "set targets \<subseteq> set effective"
    and named: "\<forall>c \<in> set candidates. \<exists>t \<in> set targets. names c t"
    and hit: "\<forall>t \<in> set targets. \<exists>c \<in> set candidates. names c t"
  shows "mset (after_events effective targets candidates) = mset es"
proof -
  have d: "distinct (map e_id (journal @ candidates))" by (rule resolve_distinct [OF r'])
  have eff: "set effective = {e \<in> set journal. \<not> is_reversal (e_relation e) \<and> (\<forall>c \<in> set journal. \<not> names c e)}"
    using resolve_effective [OF r] by (auto simp: names_def)
  have es: "set es = {e \<in> set (journal @ candidates). \<not> is_reversal (e_relation e) \<and> (\<forall>c \<in> set (journal @ candidates). \<not> names c e)}"
    using resolve_effective [OF r'] by (auto simp: names_def)
  have apart: "e_id c \<notin> e_id ` set journal" if "c \<in> set candidates" for c
    using d that by auto
  have cand: "\<not> names c e" if c: "c \<in> set journal \<union> set candidates" and e: "e \<in> set candidates" for c e
  proof
    assume n: "names c e"
    have "e_id e \<in> e_id ` set journal"
    proof (cases "c \<in> set journal")
      case True
      then show ?thesis using resolve_targets_held [OF r _ names_target [OF n]] by simp
    next
      case False
      then obtain t where "t \<in> set targets" "names c t" using named c by blast
      then show ?thesis using n t eff by (auto simp: names_def)
    qed
    then show False using apart [OF e] by simp
  qed
  have out: "(\<forall>c \<in> set candidates. \<not> names c e) \<longleftrightarrow> e_id e \<notin> e_id ` set targets" for e
  proof
    assume none: "\<forall>c \<in> set candidates. \<not> names c e"
    show "e_id e \<notin> e_id ` set targets"
    proof
      assume "e_id e \<in> e_id ` set targets"
      then obtain t where "t \<in> set targets" "e_id e = e_id t" by blast
      then show False using hit none names_same by blast
    qed
  next
    assume "e_id e \<notin> e_id ` set targets"
    then show "\<forall>c \<in> set candidates. \<not> names c e" using named names_same by blast
  qed
  have "set (after_events effective targets candidates) = set es"
  proof -
    have "set (after_events effective targets candidates) =
        {e \<in> set effective. \<forall>c \<in> set candidates. \<not> names c e} \<union> {e \<in> set candidates. \<not> is_reversal (e_relation e)}"
      unfolding out by (auto simp: after_events_def)
    also have "\<dots> = set es" unfolding es eff set_append using cand by blast
    finally show ?thesis .
  qed
  then show ?thesis
    using after_events_distinct [OF r d] resolve_distinct_ids [OF r'] by (metis distinct_map set_eq_iff_mset_eq_distinct)
qed

section \<open>What the figures are\<close>

lemma effect_on_absent: "(a, c) \<notin> fst ` set (leg_postings ls) \<Longrightarrow> effect_on (\<lambda>x. x = a) c ls = 0"
  by (induction ls) (auto split: option.splits)

lemma cash_or_zero_fold:
  assumes "fold_balances X k es = Ok b"
  shows "cash_or_zero b a c = money_new (effect_on (\<lambda>x. x = a) c (journal_legs es)) c"
  using assms effect_on_absent [of a c "journal_legs es"]
  by (auto simp: fold_balances_def cash_or_zero_def cash_of_fold)

lemma journal_legs_mset: "mset xs = mset ys \<Longrightarrow> mset (journal_legs xs) = mset (journal_legs ys)"
proof -
  have "mset (journal_legs zs) = (\<Sum>e \<in># mset zs. mset (e_legs e))" for zs by (induction zs) simp_all
  then show "mset xs = mset ys \<Longrightarrow> ?thesis" by simp
qed

lemma figures_by_account_get:
  "bt_invar (figures_by_account before after keys) \<and>
   bt_get (figures_by_account before after keys) a =
     (if a \<in> fst ` set keys
      then Some (map (\<lambda>(a, c). \<lparr>if_currency = c, if_before = cash_or_zero before a c, if_after = cash_or_zero after a c\<rparr>)
        (filter (\<lambda>k. fst k = a) keys)) else None)"
proof (induction keys arbitrary: a rule: rev_induct)
  case Nil
  then show ?case by (simp add: figures_by_account_def bt_get_def bt_invar_def)
next
  case (snoc k keys)
  obtain b c where k: "k = (b, c)" by (cases k)
  have step: "figures_by_account before after (keys @ [k]) = bt_upsert b []
      (\<lambda>figures. figures @ [\<lparr>if_currency = c, if_before = cash_or_zero before b c, if_after = cash_or_zero after b c\<rparr>])
      (figures_by_account before after keys)"
    by (simp add: figures_by_account_def k)
  have e: "filter (\<lambda>k. fst k = b) keys = [] \<longleftrightarrow> b \<notin> fst ` set keys" by (auto simp: filter_empty_conv)
  show ?case unfolding step bt_upsert_def
    using snoc.IH [of a] snoc.IH [of b] e by (auto simp: k bt.invar_insert bt_get_insert split: if_splits)
qed

lemma preview_figures:
  assumes "preview_with X k effective targets facts additions = Ok p" "row \<in> set (ip_accounts p)" "f \<in> set (ia_figures row)"
  shows "if_before f = money_new (effect_on (\<lambda>x. x = ia_account row) (if_currency f) (journal_legs effective)) (if_currency f)"
    and "if_after f = money_new (effect_on (\<lambda>x. x = ia_account row) (if_currency f) (journal_legs (after_events effective targets additions))) (if_currency f)"
proof -
  from assms(1) obtain before after where b: "fold_balances X k effective = Ok before"
    and a: "fold_balances X k (after_events effective targets additions) = Ok after"
    and p: "ip_accounts p = map (\<lambda>(a, n). \<lparr>ia_account = a, ia_facts = n,
       ia_figures = (case bt_get (figures_by_account before after (figure_keys facts)) a of None \<Rightarrow> [] | Some v \<Rightarrow> v)\<rparr>) (count_facts facts)"
    by (auto simp: preview_with_def Let_def)
  have "if_before f = cash_or_zero before (ia_account row) (if_currency f) \<and> if_after f = cash_or_zero after (ia_account row) (if_currency f)"
    using assms(2,3) unfolding p by (auto simp: figures_by_account_get split: if_splits)
  then show "if_before f = money_new (effect_on (\<lambda>x. x = ia_account row) (if_currency f) (journal_legs effective)) (if_currency f)"
    and "if_after f = money_new (effect_on (\<lambda>x. x = ia_account row) (if_currency f) (journal_legs (after_events effective targets additions))) (if_currency f)"
    by (simp_all add: cash_or_zero_fold [OF b] cash_or_zero_fold [OF a])
qed

definition preview_true :: "import_preview \<Rightarrow> event list \<Rightarrow> event list \<Rightarrow> bool" where
  "preview_true p before after \<longleftrightarrow> (\<forall>row \<in> set (ip_accounts p). \<forall>f \<in> set (ia_figures row).
     if_before f = money_new (effect_on (\<lambda>x. x = ia_account row) (if_currency f) (journal_legs before)) (if_currency f) \<and>
     if_after f = money_new (effect_on (\<lambda>x. x = ia_account row) (if_currency f) (journal_legs after)) (if_currency f))"

lemma preview_with_true:
  assumes "preview_with X k effective targets facts additions = Ok p" "mset (after_events effective targets additions) = mset es"
  shows "preview_true p effective es"
  unfolding preview_true_def using preview_figures [OF assms(1)] effect_on_mset [OF journal_legs_mset [OF assms(2)]] by simp

section \<open>The facts a request writes\<close>

lemma by_id_get:
  "bt_invar (by_id events) \<and> (bt_get (by_id events) i = Some e \<longrightarrow> e \<in> set events \<and> e_id e = i)"
proof (induction events arbitrary: i e rule: rev_induct)
  case Nil
  then show ?case by (simp add: by_id_def bt_get_def bt_invar_def)
next
  case (snoc x events)
  have step: "by_id (events @ [x]) = bt_insert (e_id x) x (by_id events)" by (simp add: by_id_def)
  show ?case unfolding step using snoc.IH by (auto simp: bt.invar_insert bt_get_insert split: if_splits)
qed

lemma reversal_for_with_Ok:
  assumes "reversal_for_with A I fresh original declared = Ok e"
  shows "e_relation e = Reversal (e_id original) \<and> e_id e = fresh \<and> pv_declared_by (e_provenance e) = declared"
  using assms by (auto simp: reversal_for_with_def Let_def provenance_new_def)

lemma reclassification_for_Ok:
  assumes "reclassification_for A X I B fresh t owner original cls (Some d) index = Ok e"
  shows "e_relation e = Replacement (e_id original) \<and> pv_declared_by (e_provenance e) = Some d"
  using assms by (auto simp: reclassification_for_def Let_def)

lemma replacement_for_Ok:
  assumes "replacement_for A X I B fresh t owner d target operation index = Ok e"
  shows "e_relation e = Replacement target \<and> pv_declared_by (e_provenance e) = Some d"
  using assms by (auto simp: replacement_for_def)

lemma list_all2_mem:
  assumes "list_all2 P xs ys"
  shows "x \<in> set xs \<Longrightarrow> \<exists>y \<in> set ys. P x y" "y \<in> set ys \<Longrightarrow> \<exists>x \<in> set xs. P x y"
  using assms by (induction rule: list_all2_induct) auto

definition writes :: "principal_record \<Rightarrow> event list \<Rightarrow> correction_request \<Rightarrow> event list \<Rightarrow> bool" where
  "writes p journal request cs \<longleftrightarrow> cs \<noteq> [] \<and> request_target request \<in> e_id ` set journal \<and>
    (\<forall>e \<in> set cs. target_of (e_relation e) = Some (request_target request) \<and>
       pv_declared_by (e_provenance e) = Some (PrincipalId (pn_token_id p)))"

lemma candidate_for_Ok:
  assumes "candidate_for A X I B fresh t p (by_id journal) index request = Ok cs"
  shows "writes p journal request cs"
proof -
  from assms obtain original where o: "bt_get (by_id journal) (request_target request) = Some original"
    by (auto simp: writes_def candidate_for_def ok_or_def split: option.splits)
  have i: "original \<in> set journal" "e_id original = request_target request" using by_id_get [of journal] o by blast+
  then have held: "request_target request \<in> e_id ` set journal" by (metis imageI)
  show ?thesis
  proof (cases request)
    case (RequestReversal target)
    then show ?thesis using assms o i
      by (auto simp: writes_def candidate_for_def ok_or_def reversal_for_def split: if_splits dest: reversal_for_with_Ok)
  next
    case (RequestReplacement target operation)
    then show ?thesis using assms o i by (auto simp: writes_def candidate_for_def ok_or_def dest: replacement_for_Ok)
  next
    case (RequestReclassification target cls)
    then obtain x y where cs: "cs = [x, y]"
      and x: "reversal_for_with A I (fst fresh) original (Some (PrincipalId (pn_token_id p))) = Ok x"
      and y: "reclassification_for A X I B (snd fresh) t (pn_owner p) original cls (Some (PrincipalId (pn_token_id p))) index = Ok y"
      using assms o by (auto simp: writes_def candidate_for_def ok_or_def reversal_for_def split: if_splits)
    then show ?thesis using i held reversal_for_with_Ok [OF x] reclassification_for_Ok [OF y] by (simp add: writes_def)
  qed
qed

lemma candidates_all2:
  "try_map (\<lambda>(index, request). candidate_for A X I B (fresh index) (fresh_transfer index) p (by_id journal) index request) (enumerate k requests) = Ok sets
     \<Longrightarrow> list_all2 (writes p journal) requests sets"
  by (induction requests arbitrary: k sets) (auto dest: candidate_for_Ok)

lemma append_checked_Ok:
  assumes "append_checked A X append_events events = Ok outcomes"
  shows "append_events events = Ok outcomes \<and> (\<forall>e \<in> set events. validate_structure X e = Ok ())"
proof -
  define step where "step = (\<lambda>(_::unit) (index, e).
       and_then (structural_rejection A X e ''event'') (\<lambda>rejection.
       case rejection of None \<Rightarrow> Ok ()
       | Some r \<Rightarrow> Err (AppInvalid (''event['' @ string_of_int (int index) @ '']'') (rj_expected r) (rj_actual r))))"
  have ok: "validate_structure X e = Ok ()" if "step u (n, e) = Ok v" for u v n e
    using that by (auto simp: step_def structural_rejection_def split: result.splits)
  have fold: "\<forall>e \<in> set es. validate_structure X e = Ok ()" if "try_fold step u (enumerate n es) = Ok v" for u v n es
    using that by (induction es arbitrary: n u) (auto dest: ok)
  show ?thesis using assms fold unfolding append_checked_def step_def [symmetric] by auto
qed

text \<open>
  (C19) Nothing malformed reaches the append-only journal through a correction. The facts of an
  accepted request are structurally valid, carry the token that asked for them, and each names an
  event the journal holds; every request has written such a fact; and the journal with them still resolves.
\<close>

theorem accepted_corrections_keep_journal_sound:
  assumes "correct_events A X I B fresh fresh_transfer (Ok journal) append_events p ack requests = Ok outs"
  shows "\<exists>candidates outcomes. append_events candidates = Ok outcomes \<and> is_ok (resolve (journal @ candidates)) \<and>
    (\<forall>e \<in> set candidates. validate_structure X e = Ok () \<and> pv_declared_by (e_provenance e) = Some (PrincipalId (pn_token_id p)) \<and>
       (\<exists>t \<in> set journal. target_of (e_relation e) = Some (e_id t))) \<and>
    (\<forall>request \<in> set requests. \<exists>e \<in> set candidates. target_of (e_relation e) = Some (request_target request))"
proof -
  from assms obtain sets candidates outcomes where
    s: "try_map (\<lambda>(index, request). candidate_for A X I B (fresh index) (fresh_transfer index) p (by_id journal) index request) (enumerate 0 requests) = Ok sets"
    and c: "checked_against_resolve A journal (concat sets) = Ok candidates"
    and a: "append_checked A X append_events candidates = Ok outcomes"
    by (auto simp: correct_events_def)
  have cs: "candidates = concat sets" and r: "is_ok (resolve (journal @ candidates))"
    using c by (auto simp: checked_against_resolve_def is_ok_iff)
  note all2 = candidates_all2 [OF s]
  have req: "\<exists>e \<in> set candidates. target_of (e_relation e) = Some (request_target request)" if q: "request \<in> set requests" for request
  proof -
    obtain cs' where m: "cs' \<in> set sets" and w: "writes p journal request cs'" using list_all2_mem(1) [OF all2 q] by blast
    from w obtain e where "e \<in> set cs'" "target_of (e_relation e) = Some (request_target request)"
      unfolding writes_def by (cases cs') auto
    then show ?thesis using m unfolding cs by auto
  qed
  have "pv_declared_by (e_provenance e) = Some (PrincipalId (pn_token_id p)) \<and> (\<exists>t \<in> set journal. target_of (e_relation e) = Some (e_id t))"
    if m: "e \<in> set candidates" for e
  proof -
    obtain cs' where c': "cs' \<in> set sets" "e \<in> set cs'" using m unfolding cs by auto
    then obtain request where "writes p journal request cs'" using list_all2_mem(2) [OF all2] by blast
    then show ?thesis using c'(2) unfolding writes_def by fastforce
  qed
  then show ?thesis using append_checked_Ok [OF a] r req by blast
qed

section \<open>Retracting an import\<close>

lemma reversals_all2:
  "try_map (\<lambda>(n, t). reversal_for A I (fresh n) t d) (enumerate k ts) = Ok rs \<Longrightarrow> list_all2 (\<lambda>t r. e_relation r = Reversal (e_id t)) ts rs"
  by (induction ts arbitrary: k rs) (auto simp: reversal_for_def dest: reversal_for_with_Ok)

text \<open>
  (C17) The preview of a retraction announces what happens. In every row of the preview the figures
  before and after are the cash of the account over the effective events of the journal and of the
  journal with the reversals appended, and that second set is the first without the rows of the
  import. A dry run and the retraction itself announce the same figures.
\<close>

theorem import_preview_is_what_happens:
  assumes out: "correct_import A X I k fresh (Ok journal) append_events p ack dry_run target = Ok out"
    and r: "resolve journal = Ok effective"
    and v: "try_map (\<lambda>(n, t). reversal_for A I (fresh n) t (PrincipalId (pn_token_id p)))
      (enumerate 0 (filter (target_covers target) effective)) = Ok reversals"
    and r': "resolve (journal @ reversals) = Ok es"
  shows "preview_true (io_preview out) effective es \<and> set es = {e \<in> set effective. \<not> target_covers target e}"
proof -
  let ?targets = "filter (target_covers target) effective"
  have p: "preview_for X k effective ?targets = Ok (io_preview out)"
    using out r by (auto simp: correct_import_def Let_def split: if_splits)
  have all2: "list_all2 (\<lambda>t r. e_relation r = Reversal (e_id t)) ?targets reversals" by (rule reversals_all2 [OF v])
  have named: "\<forall>c \<in> set reversals. \<exists>t \<in> set ?targets. names c t" "\<forall>t \<in> set ?targets. \<exists>c \<in> set reversals. names c t"
    using list_all2_mem [OF all2] unfolding names_def by blast+
  have rev: "\<forall>c \<in> set reversals. is_reversal (e_relation c)"
    using list_all2_mem(2) [OF all2] by fastforce
  have same: "after_events effective ?targets [] = after_events effective ?targets reversals"
    using rev by (simp add: after_events_def filter_empty_conv)
  have m: "mset (after_events effective ?targets reversals) = mset es"
    using after_events_effective [OF r r' _ named] by simp
  have "preview_true (io_preview out) effective es"
    using preview_with_true [OF p [unfolded preview_for_def]] m same by simp
  moreover have "set es = {e \<in> set effective. \<not> target_covers target e}"
  proof -
    have inj: "inj_on e_id (set effective)" using resolve_distinct_ids [OF r] by (simp add: distinct_map)
    have "set es = set (after_events effective ?targets reversals)" using m by (metis set_mset_mset)
    also have "\<dots> = {e \<in> set effective. \<not> target_covers target e}"
      unfolding same [symmetric] by (auto simp: after_events_def dest: inj_onD [OF inj])
    finally show ?thesis .
  qed
  ultimately show ?thesis ..
qed

text \<open>
  (C18) A token that may not administer retracts only what it declared itself. If its retraction is
  carried out, the request named an import, every row of that import in the journal was declared
  under this token and still counts, and no control assertion outside the import covers the day of one
  of its rows on an account those rows touch.
\<close>

theorem agent_retracts_only_its_own_import:
  assumes "correct_import A X I k fresh (Ok journal) append_events p ack dry_run target = Ok out" "\<not> may_administer (pn_scope p)"
  shows "\<exists>effective. resolve journal = Ok effective \<and> target_import target \<noteq> None \<and> pn_scope p = ScopeAgent \<and>
    (\<forall>e \<in> set journal. target_covers target e \<longrightarrow>
       pv_declared_by (e_provenance e) = Some (PrincipalId (pn_token_id p)) \<and> e \<in> set effective) \<and>
    (\<forall>c \<in> set effective. \<forall>period claim. e_kind c = ControlAssertion period claim \<and> \<not> target_covers target c \<longrightarrow>
       \<not> (\<exists>e \<in> set journal. \<exists>row \<in> set journal. target_covers target e \<and> target_covers target row \<and>
            e_account c \<in> set (touched row) \<and> period_contains period (eo_date (e_order e))))"
proof -
  define covered where "covered = filter (target_covers target) journal"
  from assms obtain effective where r: "resolve journal = Ok effective"
    and u: "undoes_only_its_own_declaration A p target journal effective (filter (target_covers target) effective) = Ok ()"
    and s: "may_submit (pn_scope p)"
    by (auto simp: correct_import_def may_retract_an_import_def Let_def split: if_splits)
  define step where "step = (\<lambda>(_::unit) (e::event). case e_kind e of
           ControlAssertion period _ \<Rightarrow>
             if e_id e \<in> e_id ` set covered \<or> e_account e \<notin> (\<Union>e \<in> set covered. set (touched e)) then Ok ()
             else if list_ex (period_contains period) (map (\<lambda>e. eo_date (e_order e)) covered)
             then Err (AppInvalid ''source'' ''an import nothing has been reconciled against''
               (''control assertion '' @ ad_uuid_text A (event_uuid (e_id e)) @ '' covers '' @ ad_date_text A (ap_from period) @ ''..=''
                @ ad_date_text A (ap_to period) @ '' on an account these rows moved''))
             else Ok ()
         | _ \<Rightarrow> Ok ())"
  have i: "target_import target \<noteq> None" and own: "\<forall>e \<in> set covered. pv_declared_by (e_provenance e) = Some (PrincipalId (pn_token_id p))"
    and len: "length covered = length (filter (target_covers target) effective)"
    and fold: "try_fold step () effective = Ok ()"
    using u unfolding undoes_only_its_own_declaration_def covered_def [symmetric] Let_def step_def
    by (auto simp: ok_or_def filter_empty_conv split: option.splits if_splits)
  have sub: "set (filter (target_covers target) effective) \<subseteq> set covered"
    using resolve_members [OF r] by (auto simp: covered_def)
  have "distinct covered" using resolve_distinct [OF r] by (simp add: covered_def distinct_map)
  moreover have "distinct (filter (target_covers target) effective)" using resolve_distinct_ids [OF r] by (simp add: distinct_map)
  ultimately have eq: "set (filter (target_covers target) effective) = set covered"
    using sub len by (metis card_subset_eq distinct_card List.finite_set)
  have inj: "inj_on e_id (set journal)" using resolve_distinct [OF r] by (rule inj_on_ids)
  have "step () c = Ok ()" if "c \<in> set effective" for c
    using fold that by (induction effective) auto
  then have clash: "\<not> (\<exists>e \<in> set covered. \<exists>row \<in> set covered. e_account c \<in> set (touched row) \<and> period_contains period (eo_date (e_order e)))"
    if "c \<in> set effective" "e_kind c = ControlAssertion period claim" "\<not> target_covers target c" for c period claim
  proof -
    have "e_id c \<notin> e_id ` set covered"
      using that resolve_members [OF r] inj by (auto simp: covered_def dest: inj_onD)
    then show ?thesis using \<open>\<And>c. c \<in> set effective \<Longrightarrow> step () c = Ok ()\<close> [OF that(1)] that(2)
      by (auto simp: step_def list_ex_iff split: if_splits)
  qed
  have "pn_scope p = ScopeAgent" using s assms(2) by (cases "pn_scope p") auto
  moreover have "pv_declared_by (e_provenance e) = Some (PrincipalId (pn_token_id p)) \<and> e \<in> set effective"
    if "e \<in> set journal" "target_covers target e" for e
    using own eq that by (auto simp: covered_def)
  moreover have "e \<in> set covered" if "e \<in> set journal" "target_covers target e" for e
    using that by (simp add: covered_def)
  ultimately show ?thesis using r i clash by blast
qed

section \<open>Concrete instances\<close>

definition imported_deposit :: event where
  "imported_deposit = own_deposit\<lparr>e_provenance := (e_provenance own_deposit)\<lparr>pv_import := Some (ImportId 1), pv_declared_by := Some (PrincipalId 7)\<rparr>\<rparr>"

abbreviation imported_journal :: "event list" where
  "imported_journal \<equiv> [imported_deposit, sample_event 5 NoRelation]"

abbreviation sample_agent :: principal_record where
  "sample_agent \<equiv> \<lparr>pn_token_id = 7, pn_owner = OwnerId 1, pn_scope = ScopeAgent\<rparr>"

abbreviation sample_append :: "event list \<Rightarrow> (recorded list, app_error) result" where
  "sample_append \<equiv> (\<lambda>es. Ok (map (\<lambda>e. Inserted (e_id e)) es))"

abbreviation sample_target :: import_target where
  "sample_target \<equiv> NamedImport (SourceId 1) (ImportId 1)"

abbreviation sample_retraction :: "(import_outcome, app_error) result" where
  "sample_retraction \<equiv> correct_import sample_app ref_deps sample_ingest 1 (\<lambda>n. EventId 2) (Ok imported_journal) sample_append
     sample_agent False True sample_target"

definition imported_reversal :: event where
  "imported_reversal = own_reversal\<lparr>e_provenance := (e_provenance own_reversal)\<lparr>pv_declared_by := Some (PrincipalId 7)\<rparr>\<rparr>"

lemma imported_reversal_eq:
  "reversal_for sample_app sample_ingest (EventId 2) imported_deposit (PrincipalId 7) = Ok imported_reversal"
  by (simp add: reversal_for_def reversal_for_with_def hash_of_def sample_hash_of sample_ingest_def expect_def Let_def sample_app_def
      imported_reversal_def imported_deposit_def own_reversal_def own_deposit_def sample_event_def order_new_def provenance_new_def)

lemmas imported_facts = imported_deposit_def imported_reversal_def sample_facts

lemma imported_resolved:
  "resolve imported_journal = Ok imported_journal"
  "resolve (imported_journal @ [imported_reversal]) = Ok [sample_event 5 NoRelation]"
  by (simp_all add: resolve_eval_sample imported_facts sort_by_def compare_for_replay_def
      order_new_def cmp_of_def cmp_some_first_def provenance_new_def)

lemma imported_covers: "target_covers sample_target imported_deposit" "\<not> target_covers sample_target (sample_event 5 NoRelation)"
  by (simp_all add: imported_facts provenance_new_def)

lemma imported_covered: "filter (target_covers sample_target) imported_journal = [imported_deposit]"
  using imported_covers by (simp del: target_covers.simps)

lemma imported_events [simp]:
  "e_id imported_deposit = EventId 1" "e_id (sample_event 5 NoRelation) = EventId 5"
  "e_kind imported_deposit = CashIn (money_new 100 Rub)" "e_kind (sample_event 5 NoRelation) = CashIn (money_new 100 Rub)"
  "e_legs imported_deposit = [leg_cash (AccountId 1) (money_new 100 Rub)]"
  "e_legs (sample_event 5 NoRelation) = [leg_cash (AccountId 1) (money_new 100 Rub)]"
  "pv_declared_by (e_provenance imported_deposit) = Some (PrincipalId 7)"
  by (simp_all add: imported_facts provenance_new_def)

lemma imported_undone:
  "undoes_only_its_own_declaration sample_app sample_agent sample_target imported_journal imported_journal [imported_deposit] = Ok ()"
  unfolding undoes_only_its_own_declaration_def imported_covered by (simp add: ok_or_def Let_def)

lemma imported_preview: "is_ok (preview_for ref_deps 1 imported_journal [imported_deposit])"
proof -
  have after: "after_events imported_journal [imported_deposit] [] = [sample_event 5 NoRelation]"
    by (simp add: after_events_def)
  have "is_ok (fold_balances ref_deps 1 imported_journal)" "is_ok (fold_balances ref_deps 1 [sample_event 5 NoRelation])"
    by (simp_all add: fold_balances_def balances_apply_def balances_apply_leg_def balances_apply_cash_def balances_apply_position_def
        balances_new_def leg_cash_def leg_cash_effect_def money_new_def bt_checked_add_def pm_defs to_i64_def i64_defs bt_get_def)
  then show ?thesis by (auto simp: preview_for_def preview_with_def after is_ok_iff Let_def)
qed

lemma sample_retraction_ok: "is_ok sample_retraction"
  using imported_preview imported_undone
  by (auto simp: correct_import_def may_retract_an_import_def imported_resolved(1) imported_covers is_ok_iff Let_def
      simp del: target_covers.simps)

theorem import_preview_is_what_happens_witness:
  "\<exists>out. sample_retraction = Ok out \<and> preview_true (io_preview out) imported_journal [sample_event 5 NoRelation]"
proof -
  obtain out where out: "sample_retraction = Ok out" using sample_retraction_ok by (auto simp: is_ok_iff)
  have "try_map (\<lambda>(n, t). reversal_for sample_app sample_ingest ((\<lambda>n. EventId 2) n) t (PrincipalId (pn_token_id sample_agent)))
      (enumerate 0 (filter (target_covers (NamedImport (SourceId 1) (ImportId 1))) imported_journal)) = Ok [imported_reversal]"
    unfolding imported_covered by (simp add: imported_reversal_eq)
  from import_preview_is_what_happens [OF out imported_resolved(1) this imported_resolved(2)] out show ?thesis by blast
qed

theorem agent_retracts_only_its_own_import_witness:
  "\<exists>out. sample_retraction = Ok out \<and> pv_declared_by (e_provenance imported_deposit) = Some (PrincipalId 7)"
proof -
  obtain out where out: "sample_retraction = Ok out" using sample_retraction_ok by (auto simp: is_ok_iff)
  have "\<not> may_administer (pn_scope sample_agent)" by simp
  moreover have "target_covers (NamedImport (SourceId 1) (ImportId 1)) imported_deposit" by (simp add: imported_facts provenance_new_def)
  ultimately show ?thesis using agent_retracts_only_its_own_import [OF out] out by force
qed

abbreviation sample_correction :: "(correction_outcome list, app_error) result" where
  "sample_correction \<equiv> correct_events sample_app ref_deps sample_ingest checked_build (\<lambda>n. (EventId 2, EventId 3)) (\<lambda>n. TransferId 1)
     (Ok imported_journal) sample_append sample_agent True [RequestReversal (EventId 1)]"

lemma imported_lookup: "bt_get (by_id imported_journal) (EventId 1) = Some imported_deposit"
  by (simp add: by_id_def bt_get_def less_event_id_def)

lemma imported_checks:
  "settling_rule (e_provenance imported_deposit) = None" "\<not> is_reversal (e_relation imported_deposit)"
  "refuse_occupied_keys sample_app imported_journal [imported_reversal] = Ok ()"
  "validate_structure ref_deps imported_reversal = Ok ()"
proof -
  show "settling_rule (e_provenance imported_deposit) = None" "\<not> is_reversal (e_relation imported_deposit)"
    by (simp_all add: imported_facts settling_rule_def provenance_new_def)
  show "refuse_occupied_keys sample_app imported_journal [imported_reversal] = Ok ()"
    by (simp add: refuse_occupied_keys_def refuse_occupied_key_def occupied_key_def imported_facts)
  show "validate_structure ref_deps imported_reversal = Ok ()"
    by (simp add: imported_facts validate_structure_def validation_eval)
qed

lemma sample_correction_ok: "is_ok sample_correction"
proof -
  have "standing_rules imported_journal [RequestReversal (EventId 1)] = Ok [None]"
    by (simp add: standing_rules_def imported_lookup imported_checks)
  moreover have "checked_against_resolve sample_app imported_journal [imported_reversal] = Ok [imported_reversal]"
    using imported_resolved(2) imported_checks(3) by (simp add: checked_against_resolve_def)
  moreover have "append_checked sample_app ref_deps sample_append [imported_reversal] = Ok [Inserted (e_id imported_reversal)]"
    using imported_checks(4) by (simp add: append_checked_def structural_rejection_def)
  ultimately show ?thesis
    by (simp add: correct_events_def may_correct_def acknowledged_def ensure_def candidate_for_def imported_lookup imported_checks
        imported_reversal_eq ok_or_def)
qed

theorem accepted_corrections_keep_journal_sound_witness:
  "\<exists>outs candidates. sample_correction = Ok outs \<and> is_ok (resolve (imported_journal @ candidates)) \<and>
     (\<exists>e \<in> set candidates. target_of (e_relation e) = Some (EventId 1))"
proof -
  obtain outs where outs: "sample_correction = Ok outs" using sample_correction_ok by (auto simp: is_ok_iff)
  from accepted_corrections_keep_journal_sound [OF outs] outs show ?thesis by fastforce
qed

end
