(* ===== verification/Spec2Isabelle.thy ===== *)
theory Spec2Isabelle
  imports Prelude OrderedMap Deps Numeric Money Identity Dates EventModel Correction
    Legs Validation Flows Balances Ownership LotRules Lots
    Income Prices Ledger Invariants Projection Batch
    Perimeter Instrument Bond Cashflow PostingMatch Offers Allocation
    Anchor Observed ClaimCheck Reconcile Category MoneyFlow
    JournalViews PriceSelection Mirroring Submission CorrectionChain
    Classification Observation AppError Reclassify Retraction
begin

text \<open>
  A verification library for the ledger core of \<open>iaam\<close>, a personal accounting system for
  investments, and for the parts of ingestion, store and application that feed it. Every theory translates one
  part of the sources under \<open>crates\<close> (\<open>iaam-core/src\<close> where no crate is named) and proves what makes that part
  correct; this root theory imports them all.

  \<^bold>\<open>The program.\<close> The journal is a list of immutable events; a correction is an event that
  reverses or replaces an earlier one. \<open>event/correction.rs\<close> resolves a journal to its
  effective events in replay order. \<open>event/mod.rs\<close> checks that the legs of an event say the same
  as its kind. The read models are folds over the effective events: cash and positions
  (\<open>projection/balances.rs\<close>), external flows of a contour (\<open>contour.rs\<close>,
  \<open>projection/flows.rs\<close>), lots with their cost basis (\<open>projection/lots.rs\<close> with the disposal and
  amortisation rules of \<open>rules\<close>), income (\<open>projection/income.rs\<close>), prices (\<open>valuation.rs\<close>) and
  offers (\<open>projection/offers.rs\<close>). \<open>projection/mod.rs\<close> runs the folds together, checks the
  invariants of \<open>projection/invariants.rs\<close> over the result, and extends a stored snapshot when
  the journal still begins with the events it was made from. Beside the projection stand the
  perimeter (\<open>perimeter.rs\<close>), the totals of an import (\<open>batch.rs\<close>), the bond schedule with its
  cash flows and the matching of received payments (\<open>bond\<close>, \<open>rules/cashflow.rs\<close>,
  \<open>rules/posting_match.rs\<close>) and the division of amounts (\<open>rules/trade_allocation.rs\<close>,
  \<open>rules/allocation.rs\<close>). \<open>reconciliation\<close> compares what the sources claim about an account (stated
  balances, turnovers and totals) with what the journal shows, and grades each account, period
  and dimension by the evidence that the comparison gives. Rules divide spending into categories
  (\<open>category.rs\<close>), and the money flow (\<open>projection/money_flow.rs\<close>) enters every posting of a period under a
  heading. Around the core, \<open>iaam-ingest\<close> turns submitted operations into events, recognises
  rows that are already recorded, pairs the two halves of a movement and classifies rows by the
  owner's rules and answers; \<open>iaam-store\<close> answers the chain of corrections of an operation; and
  \<open>iaam-app\<close> carries out corrections, retractions of imports and recomputations of the classes.

  \<^bold>\<open>How it is modelled.\<close> Structs are records, enums are datatypes, handlers are functions from
  a state to a result that is \<open>Ok\<close>, \<open>Err\<close> with the source's error, or \<open>Panic\<close> for \<open>expect\<close>,
  \<open>unwrap\<close>, an index out of range or a failed assertion. A failed handler returns no state,
  because every caller drops the partly updated one. Machine integers are \<open>int\<close> or \<open>nat\<close> with
  the ranges of \<open>i64\<close>, \<open>i128\<close> and \<open>u128\<close> written out where the code checks or could leave
  them; ids are 128-bit words. A \<open>BTreeMap\<close> is a strictly sorted association list behind the
  locale \<open>ordered_map\<close>. All loops are structural recursion or folds and all functions are
  total, so no fuel is needed; the Euclidean loop, the backtracking leg matcher and the walks
  along corrections terminate by their measures.

  \<^bold>\<open>Parameters.\<close> \<open>rust_decimal\<close>, \<open>time\<close> and \<open>ethnum\<close> are fields of the record \<open>deps\<close>, SHA-256
  and the CBOR encoder of the record \<open>hashing\<close>; both are arguments of the definitions. What a
  theorem uses of them is a named law: \<open>order_laws\<close>, \<open>sum_laws\<close>, \<open>sum_total\<close>,
  \<open>calendar_laws\<close>, \<open>i256_laws\<close>, \<open>trunc_laws\<close>, \<open>near_quotas\<close>, and \<open>delimits\<close> and \<open>separates\<close> for
  the digest. \<open>ref_deps\<close> and \<open>wide_deps\<close> are concrete instances that satisfy them.

  \<^bold>\<open>Theories and what they show.\<close>
  \<^item> \<open>Prelude\<close>, \<open>OrderedMap\<close>, \<open>Deps\<close>: results, checked integers, comparators and stable sort,
    ordered maps, the parameters; the locales \<open>component\<close>, \<open>total_comparator\<close>, \<open>ordered_map\<close>.
  \<^item> \<open>Numeric\<close> (\<open>numeric/exact.rs\<close>, \<open>numeric/decimal.rs\<close>): exact fractions on \<open>i128\<close> refine the
    rationals, their 256-bit comparison is the rational order.
  \<^item> \<open>Money\<close>, \<open>Identity\<close>, \<open>Dates\<close>, \<open>EventModel\<close> (\<open>money.rs\<close>, \<open>ids.rs\<close>, \<open>dates.rs\<close>, \<open>event\<close>):
    amounts, ids, dates, and every field and constructor of an event.
  \<^item> \<open>Correction\<close>: the effective set is characterised, does not depend on the order of the
    journal, and is refused exactly for an inconsistent one.
  \<^item> \<open>Legs\<close>, \<open>Validation\<close> (\<open>event/legs.rs\<close>, \<open>event/mod.rs\<close>): the leg matcher finds a matching
    exactly when there is one; validated events balance; validation never panics.
  \<^item> \<open>Flows\<close>, \<open>Balances\<close>: cash is the sum of the postings, and contour cash is explained by the
    flow log.
  \<^item> \<open>Ownership\<close> (\<open>settlement.rs\<close>, \<open>projection/ownership.rs\<close>): the three-valued answer is sound for
    every settlement the journal admits.
  \<^item> \<open>LotRules\<close>, \<open>Lots\<close>: disposals and all handlers of the lot book conserve quantity and basis.
  \<^item> \<open>Income\<close>, \<open>Prices\<close>: the income ledger lists the receipts; a price is the latest observation.
  \<^item> \<open>Ledger\<close>, \<open>Invariants\<close>, \<open>Projection\<close>: a projection satisfies the checked invariants, and
    advancing a snapshot gives what projecting the whole journal gives.
  \<^item> \<open>Batch\<close>: the comparison with a control section is arithmetic.
  \<^item> \<open>Perimeter\<close>: the reported spans are the spells of negative cash.
  \<^item> \<open>Instrument\<close>, \<open>Bond\<close>, \<open>Cashflow\<close>, \<open>PostingMatch\<close>, \<open>Offers\<close>, \<open>Allocation\<close>: schedules and
    plans list the right payments, the greedy matching is a largest one, the offer book follows
    its history, an amount is divided without loss.
  \<^item> \<open>Anchor\<close>, \<open>Observed\<close>, \<open>ClaimCheck\<close>, \<open>Reconcile\<close> (\<open>reconciliation\<close>): the one pass of the
    observation is taken apart into sums of postings; a claim is confirmed exactly when it is
    true of those sums, where changes beyond the range of \<open>i64\<close> at the same end count as the same; a discrepancy cannot be outvoted by another statement, and independent
    confirmation needs two parsers and two documents.

  \<^item> \<open>Category\<close>, \<open>MoneyFlow\<close>, \<open>JournalViews\<close>: a row gets the category of the rule of the greatest priority;
    headings, categories and sources of the money flow account for all the cash; the stated
    value is the latest one and an active instrument has a non-zero sum.
  \<^item> \<open>PriceSelection\<close> (\<open>valuation\<close>, \<open>rules/valuation.rs\<close>, \<open>rules/quotation.rs\<close>): the five narrowing
    steps of the policy find the one least candidate of a lexicographic order.
  \<^item> \<open>Mirroring\<close>, \<open>Submission\<close> (\<open>iaam-ingest\<close>: \<open>mirror.rs\<close>, \<open>operation.rs\<close>, \<open>dedup.rs\<close>): mirrored rows are paired
    soundly and none is lost; normalised events are structurally valid but for the conditions left
    to validation; a duplicate has a stated identity.
  \<^item> \<open>CorrectionChain\<close> (\<open>iaam-store\<close>: \<open>journal/chain.rs\<close>): both walks end, and the answer is the
    whole tree of corrections.

  \<^item> \<open>Classification\<close>, \<open>Observation\<close> (\<open>iaam-ingest\<close>: \<open>classification.rs\<close>, \<open>observation.rs\<close>): the
    plan of a recomputation holds exactly the corrections that are due by a declarative reading of the rules
    (\<open>decided_as\<close>) and of the journal (\<open>counts_in\<close>); an answer is never refused for its direction, and a resolved row
    moves its account by its amount.
  \<^item> \<open>AppError\<close> (\<open>iaam-app\<close>: \<open>error.rs\<close>): all errors of the scenarios with their codes, and the pointers of
    rejected fields, which name the tokens of the field.
  \<^item> \<open>Reclassify\<close>, \<open>Retraction\<close> (\<open>iaam-app\<close>: \<open>scenarios/correction.rs\<close>, \<open>scenarios/classification.rs\<close>):
    names of classes make a round trip; the figures a preview announces are those of the
    corrected journal; what is appended is sound, and a token that may not administer retracts
    only its own import; a recomputation announces the plan of the rules that are not retired. The store's journal and its append operation are arguments there, and UUID
    texts, their parsing and the debug texts are the record \<open>app_deps\<close> with the law \<open>uuid_law\<close>.

  \<^bold>\<open>What modelling showed.\<close> Replay order and the boundary search of \<open>advance\<close> use different
  orders, so an unchanged journal may be refused (\<open>unchanged_journal_may_not_advance\<close>); a
  position restored without a cost cannot be converted (\<open>unpriced_conversion_is_refused\<close>); a
  trade with an extra fee leg validates (\<open>trade_with_extra_fee_leg_validates\<close>); changes of a balance that both leave the
  range of \<open>i64\<close> confirm each other (\<open>wide_changes_confirm\<close>); evidence from
  outside the journal overrides a recorded discrepancy although the status is documented as
  absorbing (\<open>external_evidence_overrides_discrepancy\<close>); the preview of a description rule ignores
  stored rules with a longer text (\<open>preview_ignores_longer_rule\<close>); the settlement of a submitted
  purchase overflows instead of being rejected (\<open>settlement_overflow_is_not_rejected\<close>); applying
  a recomputation plan leaves it non-empty where rules on texts take a received amount for a transfer (\<open>applied_plan_may_not_be_empty\<close>).

  \<^bold>\<open>Not modelled.\<close> Rates of return (\<open>returns\<close>, \<open>numeric/xirr.rs\<close>) are floating point. Reports
  render read models. The server, broker, market and network crates
  orchestrate asynchronous third-party services around the core; of the application, the store and
  ingestion only the parts named above are modelled: the rest is orchestration, SQL and the decoding of files. Serde representations,
  random ids and hashing of ids are third-party code.
\<close>

end
